(* ===== verification/Prelude.thy ===== *)
theory Prelude
  imports Main "HOL-Library.Word"
begin

text \<open>
  The shared prelude: the machine types of the 32-bit little-endian target, the field macros of
  \<^verbatim>\<open>cfe/sb_bp.h\<close>, the address-space macros of \<^verbatim>\<open>cfe/sbmips32.h\<close>, byte strings, the
  lemma collections of the development and generic facts on lists, options and words.
\<close>

unbundle bit_operations_syntax

type_synonym u8 = "8 word"
type_synonym u16 = "16 word"
type_synonym u32 = "32 word"
type_synonym u64 = "64 word"

text \<open>A pointer of the target is a 32-bit value; \<open>NULL\<close> is 0.\<close>

type_synonym addr = "32 word"

abbreviation NULL :: addr where "NULL \<equiv> 0"

text \<open>
  The lemma collections: facts on register accesses, on ring indices and on bytes.
\<close>

named_theorems io_simps "evaluation of register access programs"
named_theorems ring_simps "arithmetic of ring indices"
named_theorems byte_simps "bytes of words and words of bytes"

section \<open>Field macros and address space\<close>

text \<open>\<^verbatim>\<open>_DD_MAKEMASK1\<close>, \<^verbatim>\<open>_DD_MAKEMASK\<close>, \<^verbatim>\<open>_DD_MAKEVALUE\<close>, \<^verbatim>\<open>_DD_GETVALUE\<close>.\<close>

definition MAKEMASK1 :: "nat \<Rightarrow> u32" where
  "MAKEMASK1 n = push_bit n 1"

definition MAKEMASK :: "nat \<Rightarrow> nat \<Rightarrow> u32" where
  "MAKEMASK v n = push_bit n (push_bit v 1 - 1)"

definition MAKEVALUE :: "u32 \<Rightarrow> nat \<Rightarrow> u32" where
  "MAKEVALUE v n = push_bit n v"

definition GETVALUE :: "u32 \<Rightarrow> nat \<Rightarrow> u32 \<Rightarrow> u32" where
  "GETVALUE v n m = drop_bit n (v AND m)"

text \<open>Unmapped kernel segments: cached (KSEG0) and uncached (KSEG1) windows on low memory.\<close>

definition PHYS_TO_K0 :: "u32 \<Rightarrow> u32" where
  "PHYS_TO_K0 pa = 0x80000000 OR pa"

definition PHYS_TO_K1 :: "u32 \<Rightarrow> u32" where
  "PHYS_TO_K1 pa = 0xa0000000 OR pa"

definition K0_TO_PHYS :: "u32 \<Rightarrow> u32" where
  "K0_TO_PHYS va = va AND 0x1fffffff"

section \<open>Bytes\<close>

text \<open>The bytes of a string literal.\<close>

definition ascii :: "string \<Rightarrow> u8 list" where
  "ascii str = map of_char str"

text \<open>The bytes of a 16-bit and a 32-bit value in memory.\<close>

definition bytes16 :: "u16 \<Rightarrow> u8 list" where
  "bytes16 v = [ucast v, ucast (drop_bit 8 v)]"

definition bytes32 :: "u32 \<Rightarrow> u8 list" where
  "bytes32 v = [ucast v, ucast (drop_bit 8 v), ucast (drop_bit 16 v), ucast (drop_bit 24 v)]"

text \<open>The 32-bit value of four bytes, the lowest first.\<close>

definition word32 :: "u8 \<Rightarrow> u8 \<Rightarrow> u8 \<Rightarrow> u8 \<Rightarrow> u32" where
  "word32 a b c d = ucast a OR push_bit 8 (ucast b) OR push_bit 16 (ucast c) OR push_bit 24 (ucast d)"

lemma bit_ucast_u8: "bit (ucast (a :: u8) :: u32) n \<longleftrightarrow> n < 8 \<and> bit a n"
  by (auto simp: bit_ucast_iff dest: bit_imp_le_length)

lemma word32_bytes [byte_simps]:
  "word32 (ucast v) (ucast (drop_bit 8 v)) (ucast (drop_bit 16 v)) (ucast (drop_bit 24 v)) = v"
proof (rule bit_word_eqI)
  fix n
  assume n: "n < LENGTH(32)"
  consider "n < 8" | "8 \<le> n" "n < 16" | "16 \<le> n" "n < 24" | "24 \<le> n" "n < 32" using n by force
  then show "bit (word32 (ucast v) (ucast (drop_bit 8 v)) (ucast (drop_bit 16 v)) (ucast (drop_bit 24 v))) n
      = bit v n"
    by cases (auto simp: word32_def bit_or_iff bit_push_bit_iff bit_ucast_u8 bit_ucast_iff bit_drop_bit_eq)
qed

lemma length_bytes32 [simp]: "length (bytes32 v) = 4"
  by (simp add: bytes32_def)

text \<open>A part of a byte string, and the 32-bit value at an offset.\<close>

definition slice :: "nat \<Rightarrow> nat \<Rightarrow> 'a list \<Rightarrow> 'a list" where
  "slice i n buf = take n (drop i buf)"

definition le32toh :: "u8 list \<Rightarrow> u32" where
  "le32toh bs = (case bs of [a, b, c, d] \<Rightarrow> word32 a b c d | _ \<Rightarrow> 0)"

definition get32 :: "nat \<Rightarrow> u8 list \<Rightarrow> u32" where
  "get32 i buf = le32toh (slice i 4 buf)"

lemma le32toh_bytes32 [simp]: "le32toh (bytes32 v) = v"
  by (simp add: le32toh_def bytes32_def byte_simps)

text \<open>Memory as a function; the 32-bit little-endian value at an address.\<close>

definition mem32 :: "(addr \<Rightarrow> u8) \<Rightarrow> addr \<Rightarrow> u32" where
  "mem32 mem a = word32 (mem a) (mem (a + 1)) (mem (a + 2)) (mem (a + 3))"

text \<open>A block of bytes in memory.\<close>

definition in_mem :: "(addr \<Rightarrow> u8) \<Rightarrow> addr \<Rightarrow> u8 list \<Rightarrow> bool" where
  "in_mem mem base blk \<longleftrightarrow> (\<forall>i < length blk. mem (base + of_nat i) = blk ! i)"

lemma slice4: "j + 4 \<le> length b \<Longrightarrow> slice j 4 b = [b ! j, b ! (j + 1), b ! (j + 2), b ! (j + 3)]"
  by (rule nth_equalityI) (auto simp: slice_def nth_Cons' less_Suc_eq numeral_eq_Suc)

lemma mem32_get32:
  assumes "in_mem mem base blk" "j + 4 \<le> length blk"
  shows "mem32 mem (base + of_nat j) = get32 j blk"
proof -
  have "mem (base + of_nat j + of_nat d) = blk ! (j + d)" if "d < 4" for d
    using assms that by (simp add: in_mem_def add.assoc flip: of_nat_add)
  from this [of 0] this [of 1] this [of 2] this [of 3] show ?thesis
    by (simp add: mem32_def get32_def slice4 [OF assms(2)] le32toh_def)
qed

lemma read_in_mem:
  assumes "in_mem mem base blk"
  shows "map (\<lambda>off. mem (base + of_nat off)) [k..<length blk] = drop k blk"
  using assms by (intro nth_equalityI) (auto simp: in_mem_def simp flip: of_nat_add)

section \<open>Generic lemmas\<close>

lemma push_bit_drop_mask_32:
  fixes x :: u32
  shows "GETVALUE x n (MAKEMASK k n) = drop_bit n x AND (push_bit k 1 - 1)"
  unfolding GETVALUE_def MAKEMASK_def
  by (rule bit_word_eqI)
    (auto simp: bit_drop_bit_eq bit_and_iff bit_push_bit_iff dest: bit_imp_le_length)

text \<open>The bits of a field, of a five-bit number and of the small constants.\<close>

lemma field_bit: "k + n \<le> 32 \<Longrightarrow> bit (GETVALUE x n (MAKEMASK k n)) i \<longleftrightarrow> i < k \<and> bit x (n + i)"
proof -
  have "push_bit k 1 - 1 = (mask k :: u32)" by (simp add: mask_eq_exp_minus_1 push_bit_eq_mult)
  then have "GETVALUE x n (MAKEMASK k n) = drop_bit n x AND mask k"
    by (simp add: push_bit_drop_mask_32)
  moreover assume "k + n \<le> 32"
  ultimately show ?thesis by (auto simp: bit_and_iff bit_drop_bit_eq bit_mask_iff)
qed

lemma small_bit: "(w :: u32) < 32 \<Longrightarrow> 5 \<le> i \<Longrightarrow> \<not> bit w i"
proof
  assume "w < 32" "bit w i" "5 \<le> i"
  then have "take_bit 5 (unat w) = unat w" by (simp add: take_bit_nat_eq_self_iff word_less_nat_alt)
  moreover have "bit (unat w) i" using \<open>bit w i\<close> by (simp add: bit_unsigned_iff)
  ultimately show False using \<open>5 \<le> i\<close> by (metis bit_take_bit_iff not_le)
qed

lemma bit12:
  "bit (1 :: u32) i \<longleftrightarrow> i = 0" "bit (2 :: u32) i \<longleftrightarrow> i = 1" "bit (2 :: int) i \<longleftrightarrow> i = 1"
  using bit_exp_iff [of 1 i, where ?'a = u32] bit_exp_iff [of 1 i, where ?'a = int]
  by (auto simp: bit_1_iff)

text \<open>Counting up below a bound does not wrap.\<close>

lemma unat_plus_one:
  fixes j :: u32
  assumes "j < w"
  shows "unat (j + 1) = unat j + 1"
proof -
  have "unat j + 1 < 2 ^ 32"
    using assms unsigned_less [where ?'a = nat and 'b = 32, of w] by (simp add: word_less_nat_alt)
  then show ?thesis by (simp add: unat_word_ariths)
qed

lemma unat_ucast_u8 [simp]: "unat (ucast (r :: u8) :: u32) = unat r"
proof -
  have "unat r < 2 ^ 8" using unsigned_less [where ?'a = nat and 'b = 8, of r] by simp
  then show ?thesis by (simp add: unsigned_ucast_eq take_bit_nat_eq_self)
qed

lemma list_update_take_drop:
  "i < length xs \<Longrightarrow> xs[i := v] = take i xs @ v # drop (Suc i) xs"
  by (simp add: upd_conv_take_nth_drop)

lemma distinct_snoc [simp]: "distinct (xs @ [x]) \<longleftrightarrow> distinct xs \<and> x \<notin> set xs"
  by auto

lemma list_snoc_cases: "xs = [] \<or> (\<exists>ys y. xs = ys @ [y])"
  by (cases xs rule: rev_cases) auto

end
