(* ===== verification/Asm.thy ===== *)
theory Asm
  imports Prelude
begin

text \<open>
  The processor as the assembly routines see it. A routine is the list of its statements, which an
  assembler with local labels turns into instructions; an interpreter executes them. With
  \<^verbatim>\<open>.set reorder\<close> the assembler hides the slot behind a branch, with \<^verbatim>\<open>.set noreorder\<close> the next
  instruction is in it: the argument \<open>ro\<close>. The options are those of the makefile: 32-bit registers,
  \<^verbatim>\<open>CFG_RELOC\<close> set. Caches are seen through the operations carried out on them.
\<close>

section \<open>Instructions\<close>

datatype reg = ZERO | AT | V0 | V1 | A0 | A1 | A2 | A3 | T0 | T1 | T2 | T3 | T4 | T5 | T6 | T7
  | S0 | S1 | S2 | S3 | S4 | S5 | S6 | S7 | T8 | T9 | K0 | K1 | GP | SP | FP | RA

datatype cp0_reg = C0_SR | C0_CAUSE | C0_EPC | C0_BADVADDR | C0_PRID | C0_WATCHLO | C0_WATCHHI | C0_COMPARE
  | C0_CONFIG1 | C0_TAGLO | C0_TAGHI | C0_ERREPC | C0_TLBHI

text \<open>\<open>'l\<close> is the type of branch targets. \<open>La_hi\<close> and \<open>La_lo\<close> are the two halves of \<^verbatim>\<open>la\<close>; \<open>Li\<close> is a \<^verbatim>\<open>li\<close> of
  a value one instruction can load.\<close>

datatype 'l instr =
    Sw reg int reg | Lw reg int reg | Move reg reg | Li reg u32 | Lui reg u32 | La_hi reg addr | La_lo reg addr
  | Addiu reg reg int | Addi reg reg int | Addu reg reg reg | Add reg reg reg | Sub reg reg reg
  | And reg reg reg | Or reg reg reg | Nor reg reg reg | Andi reg reg u32 | Ori reg reg u32
  | Sll reg reg nat | Srl reg reg nat | Sllv reg reg reg | Slt reg reg reg
  | Multu reg reg | Mflo reg | Mfhi reg | Mtlo reg | Mthi reg | Mfc0 reg cp0_reg | Mtc0 reg cp0_reg
  | Cache nat int reg | Nop
  | Beq reg reg 'l | Bne reg reg 'l | Jr reg | Jalr reg | Eret

text \<open>Registers, memory words by address, and the cache operations so far: code, address, tag register.\<close>

record mips =
  rf :: "reg \<Rightarrow> u32"
  m_lo :: u32
  m_hi :: u32
  cp0 :: "cp0_reg \<Rightarrow> u32"
  ram :: "addr \<Rightarrow> u32"
  cache_ops :: "(nat \<times> addr \<times> u32) list"

definition rd :: "mips \<Rightarrow> reg \<Rightarrow> u32" where
  "rd s r = (if r = ZERO then 0 else rf s r)"

definition wr :: "reg \<Rightarrow> u32 \<Rightarrow> mips \<Rightarrow> mips" where
  "wr r v s = (if r = ZERO then s else s\<lparr>rf := (rf s)(r := v)\<rparr>)"

definition lo16 :: "addr \<Rightarrow> u32" where
  "lo16 a = of_int (sint (ucast a :: u16))"

text \<open>\<^verbatim>\<open>add\<close>, \<^verbatim>\<open>addi\<close> and \<^verbatim>\<open>sub\<close> trap on overflow, loads and stores on an address that is no multiple
  of four: \<open>None\<close>.\<close>

definition trapping :: "reg \<Rightarrow> int \<Rightarrow> mips \<Rightarrow> mips option" where
  "trapping r v s = (if - (2 ^ 31) \<le> v \<and> v < 2 ^ 31 then Some (wr r (of_int v) s) else None)"

fun exec :: "'l instr \<Rightarrow> mips \<Rightarrow> mips option" where
  "exec (Sw t off b) s =
     (let a = rd s b + of_int off in if a AND 3 = 0 then Some (s\<lparr>ram := (ram s)(a := rd s t)\<rparr>) else None)"
| "exec (Lw t off b) s = (let a = rd s b + of_int off in if a AND 3 = 0 then Some (wr t (ram s a) s) else None)"
| "exec (Move d r) s = Some (wr d (rd s r) s)"
| "exec (Li d v) s = Some (wr d v s)"
| "exec (Lui d v) s = Some (wr d (push_bit 16 v) s)"
| "exec (La_hi d a) s = Some (wr d (a - lo16 a) s)"
| "exec (La_lo d a) s = Some (wr d (rd s d + lo16 a) s)"
| "exec (Addiu d r v) s = Some (wr d (rd s r + of_int v) s)"
| "exec (Addi d r v) s = trapping d (sint (rd s r) + v) s"
| "exec (Addu d r t) s = Some (wr d (rd s r + rd s t) s)"
| "exec (Add d r t) s = trapping d (sint (rd s r) + sint (rd s t)) s"
| "exec (Sub d r t) s = trapping d (sint (rd s r) - sint (rd s t)) s"
| "exec (And d r t) s = Some (wr d (rd s r AND rd s t) s)"
| "exec (Or d r t) s = Some (wr d (rd s r OR rd s t) s)"
| "exec (Nor d r t) s = Some (wr d (NOT (rd s r OR rd s t)) s)"
| "exec (Andi d r v) s = Some (wr d (rd s r AND v) s)"
| "exec (Ori d r v) s = Some (wr d (rd s r OR v) s)"
| "exec (Sll d r n) s = Some (wr d (push_bit n (rd s r)) s)"
| "exec (Srl d r n) s = Some (wr d (drop_bit n (rd s r)) s)"
| "exec (Sllv d r t) s = Some (wr d (push_bit (unat (rd s t AND 31)) (rd s r)) s)"
| "exec (Slt d r t) s = Some (wr d (if sint (rd s r) < sint (rd s t) then 1 else 0) s)"
| "exec (Multu r t) s =
     (let p = unat (rd s r) * unat (rd s t)
      in Some (s\<lparr>m_lo := of_nat p, m_hi := of_nat (p div 2 ^ 32)\<rparr>))"
| "exec (Mflo d) s = Some (wr d (m_lo s) s)"
| "exec (Mfhi d) s = Some (wr d (m_hi s) s)"
| "exec (Mtlo r) s = Some (s\<lparr>m_lo := rd s r\<rparr>)"
| "exec (Mthi r) s = Some (s\<lparr>m_hi := rd s r\<rparr>)"
| "exec (Mfc0 d c) s = Some (wr d (cp0 s c) s)"
| "exec (Mtc0 r c) s = Some (s\<lparr>cp0 := (cp0 s)(c := rd s r)\<rparr>)"
| "exec (Cache k off b) s =
     Some (s\<lparr>cache_ops := cache_ops s @ [(k, rd s b + of_int off, cp0 s C0_TAGLO)]\<rparr>)"
| "exec Nop s = Some s"
| "exec _ s = None"

fun jumps :: "'l instr \<Rightarrow> bool" where
  "jumps (Beq _ _ _) = True"
| "jumps (Bne _ _ _) = True"
| "jumps (Jr _) = True"
| "jumps (Jalr _) = True"
| "jumps Eret = True"
| "jumps _ = False"

section \<open>Assembler\<close>

text \<open>A statement is a local label or an instruction; \<open>F 1\<close> is \<^verbatim>\<open>1f\<close>, \<open>B 1\<close> is \<^verbatim>\<open>1b\<close>.\<close>

datatype label_ref = F nat | B nat

datatype stmt = L nat | I "label_ref instr"

fun labels :: "nat \<Rightarrow> stmt list \<Rightarrow> (nat \<times> nat) list" where
  "labels i [] = []"
| "labels i (L n # xs) = (n, i) # labels i xs"
| "labels i (I x # xs) = labels (Suc i) xs"

fun resolve :: "(nat \<times> nat) list \<Rightarrow> nat \<Rightarrow> label_ref \<Rightarrow> nat" where
  "resolve ls i (F n) = snd (hd (filter (\<lambda>(m, p). m = n \<and> i < p) ls))"
| "resolve ls i (B n) = snd (last (filter (\<lambda>(m, p). m = n \<and> p \<le> i) ls))"

fun instrs :: "(nat \<times> nat) list \<Rightarrow> nat \<Rightarrow> stmt list \<Rightarrow> nat instr list" where
  "instrs ls i [] = []"
| "instrs ls i (L n # xs) = instrs ls i xs"
| "instrs ls i (I x # xs) = map_instr (resolve ls i) x # instrs ls (Suc i) xs"

definition assemble :: "stmt list \<Rightarrow> nat instr list" where
  "assemble xs = instrs (labels 0 xs) 0 xs"

text \<open>The macros \<^verbatim>\<open>la\<close>, \<^verbatim>\<open>blt\<close>, and \<^verbatim>\<open>and\<close> and \<^verbatim>\<open>or\<close> with a constant of the upper half, as the assembler expands
  them; \<^verbatim>\<open>JAL\<close> and \<^verbatim>\<open>JAL_KSEG1\<close> of \<^verbatim>\<open>cfe/mipsmacros.h\<close>; saving and loading registers.\<close>

definition LA :: "reg \<Rightarrow> addr \<Rightarrow> stmt list" where "LA r a = [I (La_hi r a), I (La_lo r a)]"
definition BLT :: "reg \<Rightarrow> reg \<Rightarrow> label_ref \<Rightarrow> stmt list" where "BLT a b l = [I (Slt AT a b), I (Bne AT ZERO l)]"
definition AND_CONST :: "reg \<Rightarrow> u32 \<Rightarrow> stmt list" where "AND_CONST r v = [I (Li AT v), I (And r r AT)]"
definition OR_CONST :: "reg \<Rightarrow> u32 \<Rightarrow> stmt list" where "OR_CONST r v = [I (Li AT v), I (Or r r AT)]"
definition JAL :: "addr \<Rightarrow> stmt list" where "JAL a = LA T9 a @ [I (Jalr T9)]"
definition JAL_KSEG1 :: "addr \<Rightarrow> stmt list" where "JAL_KSEG1 a = LA T9 a @ OR_CONST T9 0xa0000000 @ [I (Jalr T9)]"
definition SREGS :: "reg \<Rightarrow> (reg \<times> int) list \<Rightarrow> stmt list" where "SREGS b = map (\<lambda>(r, off). I (Sw r off b))"
definition LREGS :: "reg \<Rightarrow> (reg \<times> int) list \<Rightarrow> stmt list" where "LREGS b = map (\<lambda>(r, off). I (Lw r off b))"

section \<open>Execution\<close>

text \<open>Code lies at an address \<open>b\<close> in an unmapped kernel window; the position an address has in it, and where
  the code begins seen from the window of that address.\<close>

definition position :: "addr \<Rightarrow> nat instr list \<Rightarrow> addr \<Rightarrow> (addr \<times> nat) option" where
  "position b code a =
     (let d = unat ((a - b) AND 0x1fffffff)
      in if a AND 0xc0000000 = 0x80000000 \<and> d mod 4 = 0 \<and> d div 4 < length code
         then Some (a - of_nat d, d div 4) else None)"

text \<open>The instruction behind a jump, executed before it takes effect; a jump there has no defined effect.\<close>

definition slot :: "bool \<Rightarrow> nat instr list \<Rightarrow> nat \<Rightarrow> mips \<Rightarrow> mips option" where
  "slot ro code i s =
     (if ro then Some s
      else if Suc i < length code \<and> \<not> jumps (code ! Suc i) then exec (code ! Suc i) s else None)"

definition after :: "bool \<Rightarrow> nat \<Rightarrow> nat" where
  "after ro i = (if ro then i + 1 else i + 2)"

text \<open>\<^verbatim>\<open>eret\<close> ends the error level if it is on, else the exception level.\<close>

definition eret :: "mips \<Rightarrow> addr \<times> mips" where
  "eret s =
     (let sr = cp0 s C0_SR
      in if bit sr 2 then (cp0 s C0_ERREPC, s\<lparr>cp0 := (cp0 s)(C0_SR := unset_bit 2 sr)\<rparr>)
         else (cp0 s C0_EPC, s\<lparr>cp0 := (cp0 s)(C0_SR := unset_bit 1 sr)\<rparr>))"

text \<open>One step: on in the code, or out of it to an address. \<open>ext a\<close> is the routine at an address
  outside that comes back to its caller.\<close>

type_synonym externals = "addr \<Rightarrow> mips \<Rightarrow> mips option"
type_synonym step_result = "(addr \<times> nat \<times> mips) + (addr \<times> mips)"

definition step :: "externals \<Rightarrow> bool \<Rightarrow> nat instr list \<Rightarrow> addr \<Rightarrow> nat \<Rightarrow> mips \<Rightarrow> step_result option" where
  "step ext ro code b i s =
     (if length code \<le> i then None
      else case code ! i of
        Beq x y l \<Rightarrow> map_option (\<lambda>t. Inl (b, if rd s x = rd s y then l else after ro i, t)) (slot ro code i s)
      | Bne x y l \<Rightarrow> map_option (\<lambda>t. Inl (b, if rd s x \<noteq> rd s y then l else after ro i, t)) (slot ro code i s)
      | Jr r \<Rightarrow> map_option (\<lambda>t. case position b code (rd s r) of
            Some (b', j) \<Rightarrow> Inl (b', j, t) | None \<Rightarrow> Inr (rd s r, t)) (slot ro code i s)
      | Jalr r \<Rightarrow>
          (case slot ro code i (wr RA (b + 4 * of_nat (after ro i)) s) of None \<Rightarrow> None
           | Some t \<Rightarrow>
               (case position b code (rd s r) of
                  Some (b', j) \<Rightarrow> Some (Inl (b', j, t))
                | None \<Rightarrow> map_option (\<lambda>u. Inl (b, after ro i, u)) (ext (rd s r) t)))
      | Eret \<Rightarrow> Some (Inr (eret s))
      | ins \<Rightarrow> map_option (\<lambda>t. Inl (b, Suc i, t)) (exec ins s))"

text \<open>Running until the code is left; \<open>None\<close> on a trap, on what has no defined effect, and for ever.\<close>

partial_function (option) run ::
  "externals \<Rightarrow> bool \<Rightarrow> nat instr list \<Rightarrow> addr \<Rightarrow> nat \<Rightarrow> mips \<Rightarrow> (addr \<times> mips) option" where
  "run ext ro code b i s =
     (case step ext ro code b i s of
        None \<Rightarrow> None
      | Some (Inr r) \<Rightarrow> Some r
      | Some (Inl (b', j, t)) \<Rightarrow> run ext ro code b' j t)"

section \<open>Symbolic execution\<close>

lemma rd_wr [simp]: "rd (wr r v s) q = (if q = r \<and> r \<noteq> ZERO then v else rd s q)"
  by (simp add: rd_def wr_def)

lemma rd_ZERO [simp]: "rd s ZERO = 0"
  by (simp add: rd_def)

lemma wr_sel [simp]:
  "m_lo (wr r v s) = m_lo s" "m_hi (wr r v s) = m_hi s" "cp0 (wr r v s) = cp0 s" "ram (wr r v s) = ram s"
  "cache_ops (wr r v s) = cache_ops s"
  by (simp_all add: wr_def)

lemma rd_update [simp]:
  "rd (s\<lparr>ram := m\<rparr>) r = rd s r" "rd (s\<lparr>m_lo := v\<rparr>) r = rd s r" "rd (s\<lparr>m_hi := v\<rparr>) r = rd s r"
  "rd (s\<lparr>cp0 := c\<rparr>) r = rd s r" "rd (s\<lparr>cache_ops := ops\<rparr>) r = rd s r"
  by (simp_all add: rd_def)

fun execs :: "'l instr list \<Rightarrow> mips \<Rightarrow> mips option" where
  "execs [] s = Some s"
| "execs (x # xs) s = (case exec x s of None \<Rightarrow> None | Some t \<Rightarrow> execs xs t)"

lemma execs_append: "execs (xs @ ys) s = (case execs xs s of None \<Rightarrow> None | Some t \<Rightarrow> execs ys t)"
  by (induction xs arbitrary: s) (auto split: option.splits)

lemma step_plain:
  "i < length code \<Longrightarrow> \<not> jumps (code ! i) \<Longrightarrow>
     step ext ro code b i s = map_option (\<lambda>t. Inl (b, Suc i, t)) (exec (code ! i) s)"
  by (cases "code ! i") (simp_all add: step_def)

text \<open>A stretch without jumps.\<close>

lemma run_block:
  assumes "take (length xs) (drop i code) = xs" "list_all (\<lambda>x. \<not> jumps x) xs" "execs xs s = Some t"
  shows "run ext ro code b i s = run ext ro code b (i + length xs) t"
  using assms
proof (induction xs arbitrary: i s)
  case (Cons x xs)
  have i: "i < length code" using Cons.prems(1) by (cases "i < length code") simp_all
  then have x: "code ! i = x" "take (length xs) (drop (Suc i) code) = xs"
    using Cons.prems(1) Cons_nth_drop_Suc [OF i] by (metis length_Cons list.inject take_Suc_Cons)+
  from Cons.prems(3) obtain u where u: "exec x s = Some u" "execs xs u = Some t" by (auto split: option.splits)
  have "run ext ro code b i s = run ext ro code b (Suc i) u"
    using i x(1) u(1) Cons.prems(2) by (subst run.simps) (simp add: step_plain)
  then show ?case using Cons.IH [OF x(2) _ u(2)] Cons.prems(2) by simp
qed simp

section \<open>Signed values\<close>

lemma sint_of_small: "x < 2 ^ 31 \<Longrightarrow> sint (of_nat x :: u32) = int x"
  by (simp add: sint_word_ariths signed_of_nat signed_take_bit_int_eq_self)

lemma sint_kseg: "x < 2 ^ 31 \<Longrightarrow> sint (0x80000000 + of_nat x :: u32) = int x - 2 ^ 31"
proof -
  assume x: "x < 2 ^ 31"
  have "(0x80000000 :: u32) = - 0x80000000" by code_simp
  then have "(0x80000000 + of_nat x :: u32) = of_int (int x - 2 ^ 31)" by simp
  then show ?thesis using x by (simp only: signed_of_int) (simp add: signed_take_bit_int_eq_self)
qed

lemma trapping_ok: "- (2 ^ 31) \<le> v \<Longrightarrow> v < 2 ^ 31 \<Longrightarrow> trapping r v s = Some (wr r (of_int v) s)"
  by (simp add: trapping_def)

end
