(* ===== verification/CacheCode.thy ===== *)
theory CacheCode
  imports Asm
begin

text \<open>
  The routines of \<^verbatim>\<open>cfe/bcmcore_l1cache.S\<close>: sweeps over a whole cache, which read its size from the
  configuration register, and the two loops over a range of memory that the Ethernet driver uses around
  its transfers. A sweep comes to every line of every way once; a loop over a range to every line that
  overlaps it and to no other.
\<close>

text \<open>Symbolic steps with slots.\<close>

lemma run_exec:
  "i < length code \<Longrightarrow> \<not> jumps (code ! i) \<Longrightarrow> exec (code ! i) s = Some t \<Longrightarrow>
     run ext ro code b i s = run ext ro code b (Suc i) t"
  by (subst run.simps) (simp add: step_plain)

lemma run_Beq:
  assumes "i < length code" "code ! i = Beq x y l" "slot ro code i s = Some t"
  shows "rd s x = rd s y \<Longrightarrow> run ext ro code b i s = run ext ro code b l t"
    and "rd s x \<noteq> rd s y \<Longrightarrow> run ext ro code b i s = run ext ro code b (after ro i) t"
  using assms by (subst run.simps, simp add: step_def)+

lemma run_Bne:
  assumes "i < length code" "code ! i = Bne x y l" "slot ro code i s = Some t"
  shows "rd s x \<noteq> rd s y \<Longrightarrow> run ext ro code b i s = run ext ro code b l t"
    and "rd s x = rd s y \<Longrightarrow> run ext ro code b i s = run ext ro code b (after ro i) t"
  using assms by (subst run.simps, simp add: step_def)+

lemma run_Jalr:
  "i < length code \<Longrightarrow> code ! i = Jalr r \<Longrightarrow> slot ro code i (wr RA (b + 4 * of_nat (after ro i)) s) = Some t \<Longrightarrow>
     position b code (rd s r) = None \<Longrightarrow> ext (rd s r) t = Some u \<Longrightarrow>
     run ext ro code b i s = run ext ro code b (after ro i) u"
  by (subst run.simps) (simp add: step_def)

lemma run_Jr:
  "i < length code \<Longrightarrow> code ! i = Jr r \<Longrightarrow> slot ro code i s = Some t \<Longrightarrow> position b code (rd s r) = None \<Longrightarrow>
     run ext ro code b i s = Some (rd s r, t)"
  by (subst run.simps) (simp add: step_def)

section \<open>Sweeping a cache\<close>

definition M_CFG_IS :: u32 where "M_CFG_IS = MAKEMASK 3 22"
definition M_CFG_IL :: u32 where "M_CFG_IL = MAKEMASK 3 19"
definition M_CFG_IA :: u32 where "M_CFG_IA = MAKEMASK 3 16"
definition M_CFG_DS :: u32 where "M_CFG_DS = MAKEMASK 3 13"
definition M_CFG_DL :: u32 where "M_CFG_DL = MAKEMASK 3 10"
definition M_CFG_DA :: u32 where "M_CFG_DA = MAKEMASK 3 7"
definition S_CFG_IS :: nat where "S_CFG_IS = 22"
definition S_CFG_IL :: nat where "S_CFG_IL = 19"
definition S_CFG_IA :: nat where "S_CFG_IA = 16"
definition S_CFG_DS :: nat where "S_CFG_DS = 13"
definition S_CFG_DL :: nat where "S_CFG_DL = 10"
definition S_CFG_DA :: nat where "S_CFG_DA = 7"

definition Index_Invalidate_I :: nat where "Index_Invalidate_I = 0"
definition Index_Writeback_Inv_D :: nat where "Index_Writeback_Inv_D = 1"
definition Index_Store_Tag_I :: nat where "Index_Store_Tag_I = 8"
definition Index_Store_Tag_D :: nat where "Index_Store_Tag_D = 9"

text \<open>The statements the three routines repeat: sizes of the cache from the configuration register, then
  one operation per line.\<close>

definition l1_size_S :: "u32 \<Rightarrow> nat \<Rightarrow> u32 \<Rightarrow> nat \<Rightarrow> u32 \<Rightarrow> nat \<Rightarrow> stmt list" where
  "l1_size_S ms ss ma sa ml sl =
     [I (Mfc0 T0 C0_CONFIG1),
      I (Li T2 ms), I (And T2 T2 T0), I (Srl T2 T2 ss), I (Li T1 64), I (Sllv T1 T1 T2),
      I (Li T2 ma), I (And T2 T2 T0), I (Srl T2 T2 sa), I (Addiu T2 T2 1),
      I (Multu T1 T2), I (Mflo T1),
      I (Li T2 ml), I (And T2 T2 T0), I (Srl T2 T2 sl), I (Li T0 2), I (Sllv T2 T0 T2),
      I (Multu T1 T2), I (Mflo T0)]"

definition l1_sweep_S :: "nat \<Rightarrow> stmt list" where
  "l1_sweep_S op =
     [I (Mtc0 ZERO C0_TAGLO), I (Mtc0 ZERO C0_TAGHI), I (Li T1 0x80000000),
      L 1, I (Sub T0 T0 T2), I (Cache op 0 T1), I (Add T1 T1 T2), I (Bne T0 ZERO (B 1))]"

definition l1_icache_S :: "nat \<Rightarrow> stmt list" where
  "l1_icache_S op = l1_size_S M_CFG_IS S_CFG_IS M_CFG_IA S_CFG_IA M_CFG_IL S_CFG_IL @ l1_sweep_S op"

definition l1_dcache_S :: "nat \<Rightarrow> stmt list" where
  "l1_dcache_S op = l1_size_S M_CFG_DS S_CFG_DS M_CFG_DA S_CFG_DA M_CFG_DL S_CFG_DL @ l1_sweep_S op"

definition bcmcore_l1cache_init_S :: "stmt list" where
  "bcmcore_l1cache_init_S = l1_icache_S Index_Store_Tag_I @ l1_dcache_S Index_Store_Tag_D @ [I (Jr RA)]"

definition bcmcore_l1cache_inval_i_S :: "stmt list" where
  "bcmcore_l1cache_inval_i_S = l1_icache_S Index_Invalidate_I @ [I (Jr RA)]"

definition bcmcore_l1cache_flush_d_S :: "stmt list" where
  "bcmcore_l1cache_flush_d_S = l1_dcache_S Index_Writeback_Inv_D @ [I (Jr RA)]"

text \<open>What a sweep does: one operation on each of \<open>n\<close> lines of \<open>sz\<close> bytes, in order, with zero tags.\<close>

definition swept :: "nat \<Rightarrow> nat \<Rightarrow> nat \<Rightarrow> mips \<Rightarrow> mips \<Rightarrow> bool" where
  "swept op n sz s t \<longleftrightarrow>
     cache_ops t = cache_ops s @ map (\<lambda>k. (op, 0x80000000 + of_nat (k * sz), 0)) [0..<n] \<and>
     (\<forall>r. r \<notin> {T0, T1, T2} \<longrightarrow> rd t r = rd s r) \<and> ram t = ram s \<and>
     cp0 t = (cp0 s)(C0_TAGLO := 0, C0_TAGHI := 0)"

text \<open>A field of three bits of the configuration register.\<close>

lemma cfg_field_less: "unat (GETVALUE cfg n (MAKEMASK 3 n)) < 8"
proof -
  have "MAKEMASK 3 n = push_bit n (mask 3)" by (simp add: MAKEMASK_def mask_eq_exp_minus_1)
  then have "GETVALUE cfg n (MAKEMASK 3 n) AND mask 3 = GETVALUE cfg n (MAKEMASK 3 n)"
    by (intro bit_word_eqI) (auto simp: GETVALUE_def bit_and_iff bit_mask_iff bit_drop_bit_eq bit_push_bit_iff
        simp del: push_bit_and)
  then have "unat (GETVALUE cfg n (MAKEMASK 3 n)) = take_bit 3 (unat (GETVALUE cfg n (MAKEMASK 3 n)))"
    by (metis take_bit_eq_mask unsigned_take_bit_eq)
  then show ?thesis using take_bit_nat_less_exp [of 3 "unat (GETVALUE cfg n (MAKEMASK 3 n))"] by simp
qed

lemma run_take:
  "take n (drop i code) = xs \<Longrightarrow> length xs = n \<Longrightarrow> list_all (\<lambda>x. \<not> jumps x) xs \<Longrightarrow> execs xs s = Some t \<Longrightarrow>
     run ext ro code b i s = run ext ro code b (i + n) t"
  using run_block [of xs i code s t] by simp

text \<open>The loop: \<open>k\<close> lines to go, \<open>j\<close> done.\<close>

lemma sweep_loop:
  assumes code: "take 4 (drop i code) = [Sub T0 T0 T2, Cache op 0 T1, Add T1 T1 T2, Bne T0 ZERO i]"
    and regs: "rd s T0 = of_nat (k * sz)" "rd s T2 = of_nat sz" "rd s T1 = 0x80000000 + of_nat (j * sz)"
    and size: "0 < k" "0 < sz" "(j + k) * sz < 2 ^ 31" and tag: "cp0 s C0_TAGLO = 0"
  shows "\<exists>t. run ext True code b i s = run ext True code b (i + 4) t \<and>
      cache_ops t = cache_ops s @ map (\<lambda>k. (op, 0x80000000 + of_nat (k * sz), 0)) [j..<j + k] \<and>
      (\<forall>r. r \<notin> {T0, T1, T2} \<longrightarrow> rd t r = rd s r) \<and> ram t = ram s \<and> cp0 t = cp0 s"
  using regs size(1,3) tag
proof (induction k arbitrary: j s)
  case (Suc k)
  have small: "j * sz < 2 ^ 31" "Suc k * sz < 2 ^ 31" "k * sz < 2 ^ 31" "sz < 2 ^ 31" "Suc j * sz < 2 ^ 31"
    using Suc.prems(5) by (simp_all add: add_mult_distrib)
  define u where "u = wr T0 (of_nat (k * sz)) s"
  define v where "v = u\<lparr>cache_ops := cache_ops u @ [(op, 0x80000000 + of_nat (j * sz), 0)]\<rparr>"
  define w where "w = wr T1 (0x80000000 + of_nat (Suc j * sz)) v"
  have "sint (rd s T0) - sint (rd s T2) = int (k * sz)"
    using sint_of_small [OF small(2)] sint_of_small [OF small(4)] unfolding Suc.prems(1,2) by (simp add: algebra_simps)
  then have e1: "exec (Sub T0 T0 T2) s = Some u" using small(3) by (simp add: trapping_ok u_def del: of_nat_mult)
  have e2: "exec (Cache op 0 T1) u = Some v" using Suc.prems(3,6) by (simp add: u_def v_def)
  have "sint (rd v T1) + sint (rd v T2) = int (Suc j * sz) - 2 ^ 31"
    using sint_kseg [OF small(1)] sint_of_small [OF small(4)] Suc.prems(2,3) by (simp add: u_def v_def)
  moreover have "(of_int (int (Suc j * sz) - 2 ^ 31) :: u32) = 0x80000000 + of_nat (Suc j * sz)"
  proof -
    have "(- 0x80000000 :: u32) = 0x80000000" by code_simp
    then show ?thesis by (simp add: diff_conv_add_uminus del: add_uminus_conv_diff)
  qed
  ultimately have "exec (Add T1 T1 T2) v = Some w"
    using small(5) by (simp add: trapping_ok w_def del: of_nat_mult of_int_diff)
  with e1 e2 have e: "execs [Sub T0 T0 T2, Cache op 0 T1, Add T1 T1 T2] s = Some w" by simp
  have "take 3 (drop i code) = take 3 (take 4 (drop i code))" by simp
  then have c3: "take 3 (drop i code) = [Sub T0 T0 T2, Cache op 0 T1, Add T1 T1 T2]" unfolding code by simp
  have l: "i + 3 < length code" using arg_cong [OF code, of length] by simp
  have "code ! (i + 3) = take 4 (drop i code) ! 3" using l by simp
  then have b: "code ! (i + 3) = Bne T0 ZERO i" unfolding code by simp
  have r: "run ext True code b i s = run ext True code b (i + 3) w"
    by (rule run_take [OF c3 _ _ e]) simp_all
  have T0: "rd w T0 = of_nat (k * sz)" by (simp add: w_def v_def u_def)
  have r2: "run ext True code b (i + 3) w = run ext True code b (if k = 0 then i + 4 else i) w"
  proof -
    have "unat (rd w T0) = k * sz" using small(3) unfolding T0 by (simp only: unat_of_nat) (simp add: take_bit_nat_eq_self)
    then have "rd w T0 = 0 \<longleftrightarrow> k = 0" using size(2) by (auto simp: word_unat_eq_iff)
    then show ?thesis
      using l b by (subst run.simps) (simp add: step_def slot_def after_def add.commute)
  qed
  show ?case
  proof (cases "k = 0")
    case True
    then show ?thesis using r r2 by (intro exI [of _ w]) (simp add: w_def v_def u_def)
  next
    case False
    have "\<exists>t. run ext True code b i w = run ext True code b (i + 4) t \<and>
        cache_ops t = cache_ops w @ map (\<lambda>k. (op, 0x80000000 + of_nat (k * sz), 0)) [Suc j..<Suc j + k] \<and>
        (\<forall>r. r \<notin> {T0, T1, T2} \<longrightarrow> rd t r = rd w r) \<and> ram t = ram w \<and> cp0 t = cp0 w"
      using False Suc.prems T0 by (intro Suc.IH) (simp_all add: w_def v_def u_def)
    then show ?thesis using r r2 False by (simp add: w_def v_def u_def upt_conv_Cons)
  qed
qed simp

definition cfg_lines :: "u32 \<Rightarrow> nat \<Rightarrow> nat \<Rightarrow> nat" where
  "cfg_lines cfg ss sa = 64 * 2 ^ unat (GETVALUE cfg ss (MAKEMASK 3 ss)) * Suc (unat (GETVALUE cfg sa (MAKEMASK 3 sa)))"

definition cfg_line_size :: "u32 \<Rightarrow> nat \<Rightarrow> nat" where
  "cfg_line_size cfg sl = 2 * 2 ^ unat (GETVALUE cfg sl (MAKEMASK 3 sl))"

lemma and_31: "unat x < 8 \<Longrightarrow> unat (x AND 31 :: u32) = unat x"
proof -
  assume "unat x < 8"
  moreover have "x AND 31 = take_bit 5 x" by (simp add: take_bit_eq_mask mask_eq_exp_minus_1)
  ultimately show ?thesis by (simp add: unsigned_take_bit_eq take_bit_nat_eq_self)
qed

lemma cfg_sizes: "64 \<le> cfg_lines cfg ss sa" "cfg_lines cfg ss sa \<le> 65536" "2 \<le> cfg_line_size cfg sl"
  "cfg_line_size cfg sl \<le> 256" "cfg_lines cfg ss sa * cfg_line_size cfg sl \<le> 2 ^ 24"
proof -
  have f: "unat (GETVALUE cfg n (MAKEMASK 3 n)) \<le> 7" for n using cfg_field_less [of cfg n] by simp
  have p: "(2 :: nat) ^ unat (GETVALUE cfg n (MAKEMASK 3 n)) \<le> 2 ^ 7" for n using f by (intro power_increasing) simp_all
  show l: "cfg_lines cfg ss sa \<le> 65536"
    using mult_le_mono [of "64 * 2 ^ unat (GETVALUE cfg ss (MAKEMASK 3 ss))" "64 * 2 ^ 7"
      "Suc (unat (GETVALUE cfg sa (MAKEMASK 3 sa)))" 8] p f [of sa] by (simp add: cfg_lines_def)
  show z: "cfg_line_size cfg sl \<le> 256" using p [of sl] by (simp add: cfg_line_size_def)
  have "64 \<le> 64 * (2 :: nat) ^ unat (GETVALUE cfg ss (MAKEMASK 3 ss))" by simp
  then show "64 \<le> cfg_lines cfg ss sa" unfolding cfg_lines_def mult_Suc_right by (rule trans_le_add1)
  show "2 \<le> cfg_line_size cfg sl" by (simp add: cfg_line_size_def)
  show "cfg_lines cfg ss sa * cfg_line_size cfg sl \<le> 2 ^ 24" using mult_le_mono [OF l z] by simp
qed

text \<open>The instructions of one sweep at position \<open>i\<close>.\<close>

definition l1_code :: "nat \<Rightarrow> nat \<Rightarrow> nat \<Rightarrow> nat \<Rightarrow> nat \<Rightarrow> nat instr list" where
  "l1_code ss sa sl op i =
     instrs [] i (l1_size_S (MAKEMASK 3 ss) ss (MAKEMASK 3 sa) sa (MAKEMASK 3 sl) sl)
     @ [Mtc0 ZERO C0_TAGLO, Mtc0 ZERO C0_TAGHI, Li T1 0x80000000]
     @ [Sub T0 T0 T2, Cache op 0 T1, Add T1 T1 T2, Bne T0 ZERO (i + 22)]"

lemma sweep_setup:
  fixes s :: mips and ss sa sl :: nat
  defines "cfg \<equiv> cp0 s C0_CONFIG1"
  defines "n \<equiv> cfg_lines cfg ss sa" and "sz \<equiv> cfg_line_size cfg sl"
  obtains u where "execs (take 22 (l1_code ss sa sl op i)) s = Some u"
    "rd u T0 = of_nat (n * sz)" "rd u T2 = of_nat sz" "rd u T1 = 0x80000000" "cache_ops u = cache_ops s"
    "ram u = ram s" "cp0 u = (cp0 s)(C0_TAGLO := 0, C0_TAGHI := 0)" "\<And>r. r \<notin> {T0, T1, T2} \<Longrightarrow> rd u r = rd s r"
proof -
  define fs fa fl where "fs = GETVALUE cfg ss (MAKEMASK 3 ss)" and "fa = GETVALUE cfg sa (MAKEMASK 3 sa)"
    and "fl = GETVALUE cfg sl (MAKEMASK 3 sl)"
  have f: "drop_bit ss (MAKEMASK 3 ss AND cfg) = fs" "drop_bit sa (MAKEMASK 3 sa AND cfg) = fa"
    "drop_bit sl (MAKEMASK 3 sl AND cfg) = fl"
    by (simp_all add: fs_def fa_def fl_def GETVALUE_def and.commute)
  have lt: "unat fs < 8" "unat fa < 8" "unat fl < 8" by (simp_all add: fs_def fa_def fl_def cfg_field_less)
  define a c z :: nat where "a = 64 * 2 ^ unat fs" and "c = Suc (unat fa)" and "z = 2 * 2 ^ unat fl"
  have nz: "n = a * c" "sz = z"
    by (simp_all add: n_def sz_def cfg_lines_def cfg_line_size_def a_def c_def z_def fs_def fa_def fl_def)
  have "a * c \<le> 65536" "z \<le> 256" using cfg_sizes(2) [of cfg ss sa] cfg_sizes(4) [of cfg sl] by (simp_all add: nz n_def [symmetric] sz_def [symmetric])
  moreover have "0 < a" "0 < c" by (simp_all add: a_def c_def)
  then have "a \<le> a * c" "c \<le> a * c" by simp_all
  moreover have "x < 2 ^ 32" if "x \<le> 65536" for x :: nat using that by simp
  ultimately have "a < 2 ^ 32" "c < 2 ^ 32" "z < 2 ^ 32" "a * c < 2 ^ 32" by (meson order_trans, meson order_trans, simp, blast)
  then have u: "unat (of_nat a :: u32) = a" "unat (of_nat c :: u32) = c" "unat (of_nat z :: u32) = z"
    "unat (of_nat (a * c) :: u32) = a * c"
    by (simp_all only: unat_of_nat) (simp_all add: take_bit_nat_eq_self)
  have sh: "push_bit (unat (fs AND 31)) 64 = (of_nat a :: u32)" "push_bit (unat (fl AND 31)) 2 = (of_nat z :: u32)"
    "fa + 1 = of_nat c"
    by (simp_all add: and_31 lt push_bit_eq_mult a_def z_def c_def)
  have "\<exists>u. execs (take 22 (l1_code ss sa sl op i)) s = Some u \<and>
      rd u T0 = of_nat (n * sz) \<and> rd u T2 = of_nat sz \<and> rd u T1 = 0x80000000 \<and> cache_ops u = cache_ops s \<and>
      ram u = ram s \<and> cp0 u = (cp0 s)(C0_TAGLO := 0, C0_TAGHI := 0) \<and> (\<forall>r. r \<notin> {T0, T1, T2} \<longrightarrow> rd u r = rd s r)"
    by (simp add: l1_code_def l1_size_S_def f sh u nz Let_def del: of_nat_mult push_bit_and drop_bit_and flip: cfg_def)
  then show thesis using that by blast
qed

lemma sweep_runs:
  assumes code: "take 26 (drop i code) = l1_code ss sa sl op i"
  obtains t where "run ext True code b i s = run ext True code b (i + 26) t"
    "swept op (cfg_lines (cp0 s C0_CONFIG1) ss sa) (cfg_line_size (cp0 s C0_CONFIG1) sl) s t"
proof -
  let ?n = "cfg_lines (cp0 s C0_CONFIG1) ss sa" and ?z = "cfg_line_size (cp0 s C0_CONFIG1) sl"
  obtain u where u: "execs (take 22 (l1_code ss sa sl op i)) s = Some u" and
    r: "rd u T0 = of_nat (?n * ?z)" "rd u T2 = of_nat ?z" "rd u T1 = 0x80000000" and
    f: "cache_ops u = cache_ops s" "ram u = ram s" "cp0 u = (cp0 s)(C0_TAGLO := 0, C0_TAGHI := 0)"
      "\<And>r. r \<notin> {T0, T1, T2} \<Longrightarrow> rd u r = rd s r"
    by (rule sweep_setup [of ss sa sl op i s]) blast
  have l: "length (l1_code ss sa sl op i) = 26" by (simp add: l1_code_def l1_size_S_def)
  have "take 22 (drop i code) = take 22 (take 26 (drop i code))" by simp
  then have c22: "take 22 (drop i code) = take 22 (l1_code ss sa sl op i)" unfolding code .
  have "run ext True code b i s = run ext True code b (i + 22) u"
    by (rule run_take [OF c22 _ _ u]) (simp_all add: l1_code_def l1_size_S_def)
  moreover have "take 4 (drop (i + 22) code) = drop 22 (take 26 (drop i code))" by (simp add: drop_take add.commute)
  then have c4: "take 4 (drop (i + 22) code) = [Sub T0 T0 T2, Cache op 0 T1, Add T1 T1 T2, Bne T0 ZERO (i + 22)]"
    unfolding code by (simp add: l1_code_def l1_size_S_def)
  have "\<exists>t. run ext True code b (i + 22) u = run ext True code b (i + 22 + 4) t \<and>
      cache_ops t = cache_ops u @ map (\<lambda>k. (op, 0x80000000 + of_nat (k * ?z), 0)) [0..<0 + ?n] \<and>
      (\<forall>r. r \<notin> {T0, T1, T2} \<longrightarrow> rd t r = rd u r) \<and> ram t = ram u \<and> cp0 t = cp0 u"
    using r f(3) cfg_sizes [of "cp0 s C0_CONFIG1"] order.strict_trans1 [OF cfg_sizes(5), of "2 ^ 31"]
      less_le_trans [OF _ cfg_sizes(1)] less_le_trans [OF _ cfg_sizes(3)]
    by (intro sweep_loop [OF c4]) simp_all
  ultimately obtain t where "run ext True code b i s = run ext True code b (i + 26) t" "cp0 t = cp0 u" "ram t = ram u"
      "cache_ops t = cache_ops u @ map (\<lambda>k. (op, 0x80000000 + of_nat (k * ?z), 0)) [0..<?n]"
      "\<forall>r. r \<notin> {T0, T1, T2} \<longrightarrow> rd t r = rd u r"
    by (auto simp: add.assoc)
  then show thesis using f by (intro that [of t]) (simp_all add: swept_def)
qed

text \<open>The three routines as assembled.\<close>

lemma l1_assembled:
  "assemble bcmcore_l1cache_init_S = l1_code 22 16 19 8 0 @ l1_code 13 7 10 9 26 @ [Jr RA]"
  "assemble bcmcore_l1cache_inval_i_S = l1_code 22 16 19 0 0 @ [Jr RA]"
  "assemble bcmcore_l1cache_flush_d_S = l1_code 13 7 10 1 0 @ [Jr RA]"
  by code_simp+

lemma length_l1_code [simp]: "length (l1_code ss sa sl op i) = 26"
  by (simp add: l1_code_def l1_size_S_def)

lemma run_Jr_out:
  "i < length code \<Longrightarrow> code ! i = Jr r \<Longrightarrow> position b code (rd s r) = None \<Longrightarrow>
     run ext True code b i s = Some (rd s r, s)"
  by (subst run.simps) (simp add: step_def slot_def)

text \<open>Flushing and invalidating: every line once, and back.\<close>

lemma l1cache_flush_d_runs:
  assumes "position b (assemble bcmcore_l1cache_flush_d_S) (rd s RA) = None"
  defines "cfg \<equiv> cp0 s C0_CONFIG1"
  obtains t where "run ext True (assemble bcmcore_l1cache_flush_d_S) b 0 s = Some (rd s RA, t)"
    "swept Index_Writeback_Inv_D (cfg_lines cfg S_CFG_DS S_CFG_DA) (cfg_line_size cfg S_CFG_DL) s t"
proof -
  let ?c = "assemble bcmcore_l1cache_flush_d_S"
  have "take 26 (drop 0 ?c) = l1_code 13 7 10 1 0" by (simp add: l1_assembled)
  from sweep_runs [OF this, of ext b s] obtain t where t: "run ext True ?c b 0 s = run ext True ?c b 26 t"
    "swept 1 (cfg_lines cfg 13 7) (cfg_line_size cfg 10) s t" by (auto simp: cfg_def)
  moreover have "rd t RA = rd s RA" using t(2) by (simp add: swept_def)
  moreover have "run ext True ?c b 26 t = Some (rd t RA, t)"
    by (rule run_Jr_out) (use assms(1) \<open>rd t RA = rd s RA\<close> in \<open>simp_all add: l1_assembled nth_append\<close>)
  ultimately show thesis
    by (intro that [of t]) (simp_all add: Index_Writeback_Inv_D_def S_CFG_DS_def S_CFG_DA_def S_CFG_DL_def)
qed

lemma l1cache_inval_i_runs:
  assumes "position b (assemble bcmcore_l1cache_inval_i_S) (rd s RA) = None"
  defines "cfg \<equiv> cp0 s C0_CONFIG1"
  obtains t where "run ext True (assemble bcmcore_l1cache_inval_i_S) b 0 s = Some (rd s RA, t)"
    "swept Index_Invalidate_I (cfg_lines cfg S_CFG_IS S_CFG_IA) (cfg_line_size cfg S_CFG_IL) s t"
proof -
  let ?c = "assemble bcmcore_l1cache_inval_i_S"
  have "take 26 (drop 0 ?c) = l1_code 22 16 19 0 0" by (simp add: l1_assembled)
  from sweep_runs [OF this, of ext b s] obtain t where t: "run ext True ?c b 0 s = run ext True ?c b 26 t"
    "swept 0 (cfg_lines cfg 22 16) (cfg_line_size cfg 19) s t" by (auto simp: cfg_def)
  moreover have "rd t RA = rd s RA" using t(2) by (simp add: swept_def)
  moreover have "run ext True ?c b 26 t = Some (rd t RA, t)"
    by (rule run_Jr_out) (use assms(1) \<open>rd t RA = rd s RA\<close> in \<open>simp_all add: l1_assembled nth_append\<close>)
  ultimately show thesis
    by (intro that [of t]) (simp_all add: Index_Invalidate_I_def S_CFG_IS_def S_CFG_IA_def S_CFG_IL_def)
qed

lemma l1cache_init_runs:
  assumes "position b (assemble bcmcore_l1cache_init_S) (rd s RA) = None"
  defines "cfg \<equiv> cp0 s C0_CONFIG1"
  obtains t u where "run ext True (assemble bcmcore_l1cache_init_S) b 0 s = Some (rd s RA, u)"
    "swept Index_Store_Tag_I (cfg_lines cfg S_CFG_IS S_CFG_IA) (cfg_line_size cfg S_CFG_IL) s t"
    "swept Index_Store_Tag_D (cfg_lines cfg S_CFG_DS S_CFG_DA) (cfg_line_size cfg S_CFG_DL) t u"
proof -
  let ?c = "assemble bcmcore_l1cache_init_S"
  have "take 26 (drop 0 ?c) = l1_code 22 16 19 8 0" by (simp add: l1_assembled)
  from sweep_runs [OF this, of ext b s] obtain t where t: "run ext True ?c b 0 s = run ext True ?c b 26 t"
    "swept 8 (cfg_lines cfg 22 16) (cfg_line_size cfg 19) s t" by (auto simp: cfg_def)
  have "cp0 t C0_CONFIG1 = cfg" using t(2) by (simp add: swept_def cfg_def)
  moreover have "take 26 (drop 26 ?c) = l1_code 13 7 10 9 26" by (simp add: l1_assembled)
  from sweep_runs [OF this, of ext b t] obtain u where "run ext True ?c b 26 t = run ext True ?c b 52 u"
    "swept 9 (cfg_lines (cp0 t C0_CONFIG1) 13 7) (cfg_line_size (cp0 t C0_CONFIG1) 10) t u" by auto
  ultimately have u: "run ext True ?c b 26 t = run ext True ?c b 52 u"
    "swept 9 (cfg_lines cfg 13 7) (cfg_line_size cfg 10) t u" by simp_all
  have "rd u RA = rd s RA" using t(2) u(2) by (simp add: swept_def)
  moreover have "run ext True ?c b 52 u = Some (rd u RA, u)"
    by (rule run_Jr_out) (use assms(1) \<open>rd u RA = rd s RA\<close> in \<open>simp_all add: l1_assembled nth_append\<close>)
  ultimately show thesis using t u
    by (intro that [of u t]) (simp_all add: Index_Store_Tag_I_def Index_Store_Tag_D_def S_CFG_DS_def S_CFG_DA_def
        S_CFG_DL_def S_CFG_IS_def S_CFG_IA_def S_CFG_IL_def)
qed

text \<open>An index operation acts on the line whose set and way the address selects. A sweep comes to every
  line of every way, once.\<close>

definition cache_place :: "nat \<Rightarrow> nat \<Rightarrow> addr \<Rightarrow> nat \<times> nat" where
  "cache_place sets sz a = (let k = unat (a - 0x80000000) div sz in (k mod sets, k div sets))"

lemma sweep_hits_every_line:
  assumes "0 < sets" "0 < sz" "sets * ways * sz < 2 ^ 31"
  defines "places \<equiv> map (\<lambda>k. cache_place sets sz (0x80000000 + of_nat (k * sz))) [0..<sets * ways]"
  shows "distinct places" and "set places = {..<sets} \<times> {..<ways}"
proof -
  have p: "places = map (\<lambda>k. (k mod sets, k div sets)) [0..<sets * ways]"
    unfolding places_def
  proof (rule map_cong [OF refl])
    fix k assume "k \<in> set [0..<sets * ways]"
    then have "k * sz < sets * ways * sz" using assms(2) by simp
    with assms(3) have "k * sz < 2 ^ 31" by (rule less_trans [rotated])
    then have "unat (of_nat (k * sz) :: u32) = k * sz" by (simp only: unat_of_nat) (simp add: take_bit_nat_eq_self)
    then show "cache_place sets sz (0x80000000 + of_nat (k * sz)) = (k mod sets, k div sets)"
      using assms(2) by (simp add: cache_place_def Let_def del: of_nat_mult)
  qed
  show "distinct places" unfolding p by (simp add: distinct_map inj_on_def) (metis div_mult_mod_eq)
  show "set places = {..<sets} \<times> {..<ways}"
  proof
    show "set places \<subseteq> {..<sets} \<times> {..<ways}" using assms(1) by (auto simp: p less_mult_imp_div_less mult.commute)
    show "{..<sets} \<times> {..<ways} \<subseteq> set places"
    proof
      fix q assume "q \<in> {..<sets} \<times> {..<ways}"
      then obtain i j where i: "q = (i, j)" "i < sets" "j < ways" by auto
      have "Suc j * sets \<le> ways * sets" using i(3) by (intro mult_le_mono1) simp
      then have "j * sets + i < ways * sets" using i(2) by simp
      then have "j * sets + i \<in> set [0..<sets * ways]" by (simp add: mult.commute)
      moreover have "q = (\<lambda>k. (k mod sets, k div sets)) (j * sets + i)" using i by simp
      ultimately show "q \<in> set places" unfolding p set_map by (rule image_eqI [rotated])
    qed
  qed
qed

section \<open>Ranges of memory\<close>

definition BCMCORE_CACHELINE_SIZE :: int where "BCMCORE_CACHELINE_SIZE = 16"
definition L1CACHEOP :: "nat \<Rightarrow> nat \<Rightarrow> nat" where "L1CACHEOP cachename op = or cachename (push_bit 2 op)"
definition L1C_OP_HITINVAL :: nat where "L1C_OP_HITINVAL = 4"
definition L1C_OP_HITWBINVAL :: nat where "L1C_OP_HITWBINVAL = 5"
definition L1C_D :: nat where "L1C_D = 1"

text \<open>The first statements of both routines: the limits of the range.\<close>

definition range_limits_S :: "stmt list" where
  "range_limits_S =
     [I (Beq A1 ZERO (F 2)),
      I (Li T0 (of_int (- BCMCORE_CACHELINE_SIZE))), I (Add A1 A0 A1), I (And A0 A0 T0),
      I (Addi A1 A1 (BCMCORE_CACHELINE_SIZE - 1)), I (And A1 A1 T0), I (Addi A0 A0 BCMCORE_CACHELINE_SIZE)]"

definition bcmcore_sync_range_S :: "stmt list" where
  "bcmcore_sync_range_S = range_limits_S @
     [I (Lui T0 0xb800), I (Ori T0 T0 0xf90),
      L 1, I (Lw T1 0 T0), I (Cache (L1CACHEOP L1C_D L1C_OP_HITWBINVAL) (- BCMCORE_CACHELINE_SIZE) A0),
      I (Bne A0 A1 (B 1)), I (Addi A0 A0 BCMCORE_CACHELINE_SIZE),
      L 2, I (Jr RA), I Nop]"

definition bcmcore_inval_range_S :: "stmt list" where
  "bcmcore_inval_range_S = range_limits_S @
     [L 1, I (Cache (L1CACHEOP L1C_D L1C_OP_HITINVAL) (- BCMCORE_CACHELINE_SIZE) A0),
      I (Bne A0 A1 (B 1)), I (Addi A0 A0 BCMCORE_CACHELINE_SIZE),
      L 2, I (Jr RA), I Nop]"

lemma range_assembled:
  "assemble bcmcore_sync_range_S = [Beq A1 ZERO 13, Li T0 (- 16), Add A1 A0 A1, And A0 A0 T0, Addi A1 A1 15, And A1 A1 T0,
     Addi A0 A0 16, Lui T0 0xb800, Ori T0 T0 0xf90, Lw T1 0 T0, Cache 21 (- 16) A0, Bne A0 A1 9, Addi A0 A0 16, Jr RA, Nop]"
  "assemble bcmcore_inval_range_S = [Beq A1 ZERO 10, Li T0 (- 16), Add A1 A0 A1, And A0 A0 T0, Addi A1 A1 15, And A1 A1 T0,
     Addi A0 A0 16, Cache 17 (- 16) A0, Bne A0 A1 7, Addi A0 A0 16, Jr RA, Nop]"
  by (simp_all add: assemble_def bcmcore_sync_range_S_def bcmcore_inval_range_S_def range_limits_S_def
      BCMCORE_CACHELINE_SIZE_def L1CACHEOP_def L1C_OP_HITINVAL_def L1C_OP_HITWBINVAL_def L1C_D_def)

text \<open>The lines, by the address of their first byte.\<close>

definition range_lines :: "nat \<Rightarrow> nat \<Rightarrow> nat list" where
  "range_lines start n =
     (if n = 0 then []
      else map (\<lambda>k. 16 * (start div 16 + k)) [0..<(start + n + 15) div 16 - start div 16])"

lemma range_lines_exact:
  "distinct (range_lines start n)"
  "set (range_lines start n) = {a. a mod 16 = 0 \<and> (\<exists>x. start \<le> x \<and> x < start + n \<and> x div 16 = a div 16)}"
proof -
  show "distinct (range_lines start n)" by (simp add: range_lines_def distinct_map inj_on_def)
  show "set (range_lines start n) = {a. a mod 16 = 0 \<and> (\<exists>x. start \<le> x \<and> x < start + n \<and> x div 16 = a div 16)}"
  proof (cases "n = 0")
    case False
    have iff: "(\<exists>x. start \<le> x \<and> x < start + n \<and> x div 16 = q) \<longleftrightarrow> start div 16 \<le> q \<and> q < (start + n + 15) div 16" for q
    proof
      assume "start div 16 \<le> q \<and> q < (start + n + 15) div 16"
      then have "start \<le> max start (16 * q) \<and> max start (16 * q) < start + n \<and> max start (16 * q) div 16 = q"
        using False by (auto simp: max_def)
      then show "\<exists>x. start \<le> x \<and> x < start + n \<and> x div 16 = q" by blast
    qed auto
    have "set (range_lines start n) = {a. a mod 16 = 0 \<and> start div 16 \<le> a div 16 \<and> a div 16 < (start + n + 15) div 16}"
    proof (intro set_eqI iffI)
      fix a assume "a \<in> {a. a mod 16 = 0 \<and> start div 16 \<le> a div 16 \<and> a div 16 < (start + n + 15) div 16}"
      then show "a \<in> set (range_lines start n)" using False
        by (auto simp: range_lines_def image_iff intro!: bexI [of _ "a div 16 - start div 16"])
    qed (use False in \<open>auto simp: range_lines_def\<close>)
    then show ?thesis using iff by simp
  qed (simp add: range_lines_def)
qed

text \<open>Arithmetic in the kernel windows, where addresses are negative.\<close>

lemma trapping_kernel:
  assumes "2 ^ 31 \<le> u" "u + d < 2 ^ 32"
  shows "trapping r (sint (of_nat u :: u32) + int d) s = Some (wr r (of_nat (u + d)) s)"
proof -
  have "(of_nat u :: u32) = 0x80000000 + of_nat (u - 2 ^ 31)"
  proof -
    have "(of_nat u :: u32) = of_nat (2 ^ 31 + (u - 2 ^ 31))" using assms(1) by simp
    also have "\<dots> = 0x80000000 + of_nat (u - 2 ^ 31)" by (simp only: of_nat_add) simp
    finally show ?thesis .
  qed
  moreover have "sint (0x80000000 + of_nat (u - 2 ^ 31) :: u32) = int (u - 2 ^ 31) - 2 ^ 31"
    using assms by (intro sint_kseg) simp
  ultimately have s: "sint (of_nat u :: u32) = int u - 2 ^ 32" using assms(1) by simp
  have "(of_int (int u - 2 ^ 32 + int d) :: u32) = of_nat (u + d)" by simp
  moreover have "trapping r (int u - 2 ^ 32 + int d) s = Some (wr r (of_int (int u - 2 ^ 32 + int d)) s)"
    by (rule trapping_ok) (use assms in simp_all)
  ultimately show ?thesis unfolding s by (simp only:)
qed

lemma and_line:
  assumes "u < 2 ^ 32" shows "(of_nat u AND - 16 :: u32) = of_nat (16 * (u div 16))"
proof -
  have "(- 16 :: u32) = NOT (mask 4)" by (simp add: mask_eq_exp_minus_1 not_eq_complement)
  moreover have "of_nat u AND NOT (mask 4) = push_bit 4 (drop_bit 4 (of_nat u :: u32))"
    by (rule bit_word_eqI) (auto simp: bit_and_iff bit_not_iff bit_mask_iff bit_push_bit_iff bit_drop_bit_eq)
  moreover have "drop_bit 4 (of_nat u :: u32) = of_nat (u div 16)"
    using assms by (simp add: word_unat_eq_iff unat_drop_bit_eq drop_bit_nat_def unat_of_nat take_bit_nat_eq_self)
  ultimately show ?thesis by (simp add: push_bit_eq_mult mult.commute)
qed

text \<open>The loop from its last two instructions on: \<open>body\<close> is what comes before them, one operation on the line
  in front of \<^verbatim>\<open>a0\<close>.\<close>

lemma range_loop:
  assumes code: "q + 2 < length code" "code ! q = Bne A0 A1 p" "code ! Suc q = Addi A0 A0 16"
    and body: "\<And>u. rd u T0 = v \<Longrightarrow> \<exists>w. run ext False code b p u = run ext False code b q w \<and>
       cache_ops w = cache_ops u @ [(op, rd u A0 - 16, cp0 u C0_TAGLO)] \<and> (\<forall>r. r \<noteq> T1 \<longrightarrow> rd w r = rd u r) \<and>
       ram w = ram u \<and> cp0 w = cp0 u"
    and regs: "rd s T0 = v" "rd s A0 = of_nat (l + 16)" "rd s A1 = of_nat (l + 16 * n)"
    and size: "0 < n" "2 ^ 31 \<le> l" "l + 16 * n + 16 < 2 ^ 32"
  shows "\<exists>t. run ext False code b p s = run ext False code b (q + 2) t \<and>
       cache_ops t = cache_ops s @ map (\<lambda>k. (op, of_nat (l + 16 * k), cp0 s C0_TAGLO)) [0..<n] \<and>
       (\<forall>r. r \<notin> {A0, T1} \<longrightarrow> rd t r = rd s r) \<and> ram t = ram s \<and> cp0 t = cp0 s"
  using regs size
proof (induction n arbitrary: l s)
  case (Suc n)
  obtain w where w: "run ext False code b p s = run ext False code b q w"
      "cache_ops w = cache_ops s @ [(op, rd s A0 - 16, cp0 s C0_TAGLO)]" "\<forall>r. r \<noteq> T1 \<longrightarrow> rd w r = rd s r"
      "ram w = ram s" "cp0 w = cp0 s"
    using body [OF Suc.prems(1)] by blast
  define x where "x = wr A0 (of_nat (l + 16 + 16)) w"
  have "exec (Addi A0 A0 16) w = Some x"
    using trapping_kernel [of "l + 16" 16 A0 w] Suc.prems w(3) by (simp add: x_def del: of_nat_add)
  then have sl: "slot False code q w = Some x" using code by (simp add: slot_def)
  have "rd w A0 = rd w A1 \<longleftrightarrow> n = 0"
  proof -
    have "rd w A0 = of_nat (l + 16)" "rd w A1 = of_nat (l + 16 * Suc n)" using w(3) Suc.prems(2,3) by simp_all
    moreover have "(of_nat (l + 16) :: u32) = of_nat (l + 16 * Suc n) \<longleftrightarrow> l + 16 = l + 16 * Suc n"
      using Suc.prems(6) by (simp only: word_of_nat_eq_iff) (simp add: take_bit_nat_eq_self)
    ultimately show ?thesis by simp
  qed
  then have r: "run ext False code b q w = run ext False code b (if n = 0 then q + 2 else p) x"
    using run_Bne [OF _ code(2) sl, of ext b] code(1) by (auto simp: after_def)
  have op: "rd s A0 - 16 = of_nat l" using Suc.prems(2) by simp
  show ?case
  proof (cases "n = 0")
    case True
    then show ?thesis using w r op by (intro exI [of _ x]) (simp add: x_def)
  next
    case False
    have "\<exists>t. run ext False code b p x = run ext False code b (q + 2) t \<and>
       cache_ops t = cache_ops x @ map (\<lambda>k. (op, of_nat (l + 16 + 16 * k), cp0 x C0_TAGLO)) [0..<n] \<and>
       (\<forall>r. r \<notin> {A0, T1} \<longrightarrow> rd t r = rd x r) \<and> ram t = ram x \<and> cp0 t = cp0 x"
      using False Suc.prems w(3) by (intro Suc.IH) (simp_all add: x_def)
    moreover have "map (\<lambda>k. (op, of_nat (l + 16 + 16 * k) :: u32, cp0 s C0_TAGLO)) [0..<n]
        = map (\<lambda>k. (op, of_nat (l + 16 * k), cp0 s C0_TAGLO)) [Suc 0..<Suc n]"
      by (simp only: map_Suc_upt [symmetric] map_map) (simp add: comp_def algebra_simps)
    ultimately show ?thesis using w r op False by (simp add: x_def upt_conv_Cons)
  qed
qed simp

text \<open>The limits: rounded down and up to lines.\<close>

lemma range_limits:
  fixes s :: mips
  defines "start \<equiv> unat (rd s A0)" and "n \<equiv> unat (rd s A1)"
  assumes code: "take 7 code = [Beq A1 ZERO l, Li T0 (- 16), Add A1 A0 A1, And A0 A0 T0, Addi A1 A1 15, And A1 A1 T0, Addi A0 A0 16]"
    and size: "0 < n" "2 ^ 31 \<le> start" "start + n + 48 < 2 ^ 32"
  obtains u where "run ext False code b 0 s = run ext False code b 7 u"
    "rd u A0 = of_nat (16 * (start div 16) + 16)" "rd u A1 = of_nat (16 * ((start + n + 15) div 16))"
    "rd u T0 = - 16" "\<forall>r. r \<notin> {A0, A1, T0} \<longrightarrow> rd u r = rd s r" "ram u = ram s" "cp0 u = cp0 s" "cache_ops u = cache_ops s"
proof -
  have len: "7 \<le> length code" using arg_cong [OF code, of length] by simp
  have nth: "code ! i = take 7 code ! i" if "i < 7" for i using that by simp
  define s1 where "s1 = wr T0 (- 16) s"
  have z: "rd s A1 \<noteq> rd s ZERO" using size(1) by (auto simp: n_def)
  have ne: "code \<noteq> []" using len by auto
  have c0: "code ! 0 = Beq A1 ZERO l" using nth [of 0] by (simp add: code)
  have sl: "slot False code 0 s = Some s1"
    using len nth [of 1] by (simp add: slot_def code s1_def)
  have "run ext False code b 0 s = run ext False code b 2 s1"
    using run_Beq(2) [OF _ c0 sl z, of ext b] ne by (simp add: after_def numeral_2_eq_2)
  define u where "u = wr A0 (of_nat (16 * (start div 16) + 16)) (wr A1 (of_nat (16 * ((start + n + 15) div 16)))
      (wr A1 (of_nat (start + n + 15)) (wr A0 (of_nat (16 * (start div 16))) (wr A1 (of_nat (start + n)) s1))))"
  have a0: "rd s A0 = of_nat start" "rd s A1 = of_nat n" by (simp_all add: start_def n_def)
  have n31: "sint (of_nat n :: u32) = int n" using size by (intro sint_of_small) simp
  have e1: "trapping A1 (sint (of_nat start :: u32) + sint (of_nat n :: u32)) s1 = Some (wr A1 (of_nat (start + n)) s1)"
    unfolding n31 by (rule trapping_kernel) (use size in simp_all)
  have e2: "trapping A1 (sint (of_nat (start + n) :: u32) + 15) x = Some (wr A1 (of_nat (start + n + 15)) x)" for x
    using trapping_kernel [of "start + n" 15 A1 x] size by simp
  have e3: "trapping A0 (sint (of_nat (16 * (start div 16)) :: u32) + 16) x = Some (wr A0 (of_nat (16 * (start div 16) + 16)) x)" for x
    using trapping_kernel [of "16 * (start div 16)" 16 A0 x] size by simp
  have l1: "(of_nat start :: u32) AND - 16 = of_nat (16 * (start div 16))" by (rule and_line) (use size in simp)
  have l2: "(of_nat (start + n + 15) :: u32) AND - 16 = of_nat (16 * ((start + n + 15) div 16))"
    by (rule and_line) (use size in simp)
  have e: "execs [Add A1 A0 A1, And A0 A0 T0, Addi A1 A1 15, And A1 A1 T0, Addi A0 A0 16] s1 = Some u"
    by (simp add: s1_def a0 e1 [unfolded s1_def] e2 e3 l1 l2 u_def del: of_nat_add of_nat_mult)
  have "take 5 (drop 2 code) = drop 2 (take 7 code)" by (simp add: drop_take)
  then have "take 5 (drop 2 code) = [Add A1 A0 A1, And A0 A0 T0, Addi A1 A1 15, And A1 A1 T0, Addi A0 A0 16]"
    by (simp add: code)
  from run_take [OF this _ _ e, of ext False b] have "run ext False code b 2 s1 = run ext False code b 7 u" by simp
  then show thesis using \<open>run ext False code b 0 s = run ext False code b 2 s1\<close>
    by (intro that [of u]) (simp_all add: u_def s1_def)
qed

text \<open>What the driver relies on: on a range in the kernel windows each routine returns having carried out its
  operation on every line that overlaps the range, once, and on no other; on an empty range, on none.\<close>

definition range_op :: "nat \<Rightarrow> nat \<Rightarrow> nat \<Rightarrow> mips \<Rightarrow> mips \<Rightarrow> bool" where
  "range_op op start n s t \<longleftrightarrow>
     cache_ops t = cache_ops s @ map (\<lambda>a. (op, of_nat a, cp0 s C0_TAGLO)) (range_lines start n) \<and>
     (\<forall>r. r \<notin> {A0, A1, T0, T1} \<longrightarrow> rd t r = rd s r) \<and> ram t = ram s \<and> cp0 t = cp0 s"

lemma range_lines_map:
  "0 < n \<Longrightarrow> range_lines start n = map (\<lambda>k. 16 * (start div 16) + 16 * k) [0..<(start + n + 15) div 16 - start div 16]"
  by (simp add: range_lines_def algebra_simps)

text \<open>Both routines are of this form: \<open>p\<close> begins the loop, \<open>q\<close> ends it, and \<open>v\<close> is what the loop finds in \<^verbatim>\<open>t0\<close>.\<close>

lemma range_routine:
  fixes s :: mips
  defines "start \<equiv> unat (rd s A0)" and "n \<equiv> unat (rd s A1)"
  assumes code: "take 7 code = [Beq A1 ZERO (q + 2), Li T0 (- 16), Add A1 A0 A1, And A0 A0 T0, Addi A1 A1 15, And A1 A1 T0,
       Addi A0 A0 16]"
      "drop q code = [Bne A0 A1 p, Addi A0 A0 16, Jr RA, Nop]"
    and entry: "\<And>u. rd u T0 = - 16 \<Longrightarrow> \<exists>w. run ext False code b 7 u = run ext False code b p w \<and> rd w T0 = v \<and>
       (\<forall>r. r \<noteq> T0 \<longrightarrow> rd w r = rd u r) \<and> cache_ops w = cache_ops u \<and> ram w = ram u \<and> cp0 w = cp0 u"
    and body: "\<And>u. rd u T0 = v \<Longrightarrow> \<exists>w. run ext False code b p u = run ext False code b q w \<and>
       cache_ops w = cache_ops u @ [(op, rd u A0 - 16, cp0 u C0_TAGLO)] \<and> (\<forall>r. r \<noteq> T1 \<longrightarrow> rd w r = rd u r) \<and>
       ram w = ram u \<and> cp0 w = cp0 u"
    and size: "2 ^ 31 \<le> start" "start + n + 48 < 2 ^ 32"
    and out: "position b code (rd s RA) = None"
  shows "\<exists>t. run ext False code b 0 s = Some (rd s RA, t) \<and> range_op op start n s t"
proof -
  have q: "q < length code" using code(2) by (metis drop_all list.distinct(1) not_le)
  then have len: "length code = q + 4" using arg_cong [OF code(2), of length] by simp
  have at: "code ! (q + k) = drop q code ! k" for k using q by simp
  have nth: "code ! q = Bne A0 A1 p" "code ! Suc q = Addi A0 A0 16" "code ! (q + 2) = Jr RA" "code ! (q + 3) = Nop"
    using at [of 0] at [of 1] at [of 2] at [of 3] by (simp_all add: code(2))
  have ret: "run ext False code b (q + 2) t = Some (rd s RA, t)" if "rd t RA = rd s RA" for t
    using out that nth by (subst run_Jr [of _ _ RA]) (simp_all add: len slot_def numeral_3_eq_3)
  show ?thesis
  proof (cases "n = 0")
    case True
    then have "rd s A1 = 0" by (simp add: n_def unat_eq_zero)
    moreover have "code ! 0 = Beq A1 ZERO (q + 2)" "code ! 1 = Li T0 (- 16)" "7 \<le> length code"
      using arg_cong [OF code(1), of "\<lambda>xs. xs ! 0"] arg_cong [OF code(1), of "\<lambda>xs. xs ! 1"] arg_cong [OF code(1), of length]
      by simp_all
    ultimately have "run ext False code b 0 s = run ext False code b (q + 2) (wr T0 (- 16) s)"
      by (subst run_Beq(1) [of _ _ A1 ZERO "q + 2"]) (auto simp: slot_def)
    then show ?thesis using True ret by (simp add: range_op_def range_lines_def)
  next
    case False
    let ?l = "16 * (start div 16)" and ?n = "(start + n + 15) div 16 - start div 16"
    have n: "0 < ?n" "16 * ((start + n + 15) div 16) = ?l + 16 * ?n" using False by simp_all
    have low: "134217728 \<le> start div 16" using div_le_mono [OF size(1), of 16] by simp
    have bound: "?l + 16 * ?n + 16 < 2 ^ 32" using n(2) size(2) by linarith
    obtain u where u: "run ext False code b 0 s = run ext False code b 7 u"
      "rd u A0 = of_nat (?l + 16)" "rd u A1 = of_nat (16 * ((start + n + 15) div 16))" "rd u T0 = - 16"
      "\<forall>r. r \<notin> {A0, A1, T0} \<longrightarrow> rd u r = rd s r" "ram u = ram s" "cp0 u = cp0 s" "cache_ops u = cache_ops s"
      using range_limits [OF code(1)] False size unfolding start_def n_def by blast
    obtain w where w: "run ext False code b 7 u = run ext False code b p w" "rd w T0 = v" "\<forall>r. r \<noteq> T0 \<longrightarrow> rd w r = rd u r"
      "cache_ops w = cache_ops u" "ram w = ram u" "cp0 w = cp0 u" using entry [OF u(4)] by blast
    have "\<exists>t. run ext False code b p w = run ext False code b (q + 2) t \<and>
        cache_ops t = cache_ops w @ map (\<lambda>k. (op, of_nat (?l + 16 * k), cp0 w C0_TAGLO)) [0..<?n] \<and>
        (\<forall>r. r \<notin> {A0, T1} \<longrightarrow> rd t r = rd w r) \<and> ram t = ram w \<and> cp0 t = cp0 w"
      by (rule range_loop [OF _ nth(1,2) body w(2)])
         (use u(2,3) w(3) n size bound low in \<open>simp_all add: len del: of_nat_add of_nat_mult\<close>)
    then obtain t where t: "run ext False code b p w = run ext False code b (q + 2) t"
        "cache_ops t = cache_ops w @ map (\<lambda>k. (op, of_nat (?l + 16 * k), cp0 w C0_TAGLO)) [0..<?n]"
        "\<forall>r. r \<notin> {A0, T1} \<longrightarrow> rd t r = rd w r" "ram t = ram w" "cp0 t = cp0 w" by blast
    have "run ext False code b 0 s = Some (rd s RA, t)" using u(1,5) w(1,3) t(1,3) ret by simp
    moreover have "range_op op start n s t"
      using t(2-5) u(5-8) w(3-6) False by (simp add: range_op_def range_lines_map comp_def)
    ultimately show ?thesis by blast
  qed
qed

text \<open>C8: \<^verbatim>\<open>bcmcore_sync_range\<close>, which the Ethernet driver calls before it hands memory to the hardware, returns for
  every range in the kernel windows, an empty one included, having written back and invalidated each cache line that
  overlaps the range exactly once and no other line, and with memory and all registers its callers use unchanged.\<close>

lemma sync_range_covers:
  fixes s :: mips
  defines "start \<equiv> unat (rd s A0)" and "n \<equiv> unat (rd s A1)"
  assumes size: "2 ^ 31 \<le> start" "start + n + 48 < 2 ^ 32"
    and out: "position b (assemble bcmcore_sync_range_S) (rd s RA) = None"
  shows "(\<exists>t. run ext False (assemble bcmcore_sync_range_S) b 0 s = Some (rd s RA, t) \<and> range_op 21 start n s t) \<and>
      distinct (range_lines start n) \<and>
      set (range_lines start n) = {a. a mod 16 = 0 \<and> (\<exists>x. start \<le> x \<and> x < start + n \<and> x div 16 = a div 16)}"
proof -
  let ?c = "assemble bcmcore_sync_range_S"
  have "\<exists>t. run ext False ?c b 0 s = Some (rd s RA, t) \<and> range_op 21 (unat (rd s A0)) (unat (rd s A1)) s t"
  proof (rule range_routine [where p = 9 and q = 11 and v = "0xb8000f90"])
    fix u :: mips
    let ?w = "wr T0 0xb8000f90 (wr T0 0xb8000000 u)"
    have "run ext False ?c b 7 u = run ext False ?c b (7 + 2) ?w"
      by (rule run_take [of 2 7 _ "[Lui T0 0xb800, Ori T0 T0 0xf90]"]) (simp_all add: range_assembled)
    then show "\<exists>w. run ext False ?c b 7 u = run ext False ?c b 9 w \<and> rd w T0 = 0xb8000f90 \<and>
       (\<forall>r. r \<noteq> T0 \<longrightarrow> rd w r = rd u r) \<and> cache_ops w = cache_ops u \<and> ram w = ram u \<and> cp0 w = cp0 u"
      by (intro exI [of _ ?w]) simp
  next
    fix u assume T0: "rd u T0 = 0xb8000f90"
    let ?w = "(wr T1 (ram u 0xb8000f90) u)\<lparr>cache_ops := cache_ops u @ [(21, rd u A0 - 16, cp0 u C0_TAGLO)]\<rparr>"
    have "run ext False ?c b 9 u = run ext False ?c b (9 + 2) ?w"
      by (rule run_take [of 2 9 _ "[Lw T1 0 T0, Cache 21 (- 16) A0]"]) (simp_all add: range_assembled T0)
    then show "\<exists>w. run ext False ?c b 9 u = run ext False ?c b 11 w \<and>
       cache_ops w = cache_ops u @ [(21, rd u A0 - 16, cp0 u C0_TAGLO)] \<and> (\<forall>r. r \<noteq> T1 \<longrightarrow> rd w r = rd u r) \<and>
       ram w = ram u \<and> cp0 w = cp0 u" by (intro exI [of _ ?w]) simp
  qed (use size out in \<open>simp_all add: range_assembled start_def n_def\<close>)
  then show ?thesis unfolding start_def n_def by (intro conjI range_lines_exact)
qed

lemma sync_range_covers_witness:
  "\<exists>t. run (\<lambda>_ _. None) False (assemble bcmcore_sync_range_S) 0x80700000 0
      (\<lparr>rf = (\<lambda>_. 0)(A0 := 0x80002005, A1 := 20, RA := 0x80001000), m_lo = 0, m_hi = 0, cp0 = \<lambda>_. 0, ram = \<lambda>_. 7,
        cache_ops = []\<rparr>) = Some (0x80001000, t) \<and>
     cache_ops t = [(21, 0x80002000, 0), (21, 0x80002010, 0)] \<and> ram t = (\<lambda>_. 7)"
proof -
  define s where "s = \<lparr>rf = (\<lambda>_. 0)(A0 := 0x80002005, A1 := 20, RA := 0x80001000), m_lo = 0, m_hi = 0, cp0 = \<lambda>_. 0,
    ram = \<lambda>_. 7, cache_ops = []\<rparr>"
  have r: "rd s A0 = 0x80002005" "rd s A1 = 20" "rd s RA = 0x80001000" "cp0 s C0_TAGLO = 0" "cache_ops s = []" "ram s = (\<lambda>_. 7)"
    by (simp_all add: s_def rd_def)
  have p: "position 0x80700000 (assemble bcmcore_sync_range_S) (rd s RA) = None" by (simp add: position_def Let_def r range_assembled)
  have l: "range_lines 0x80002005 20 = [0x80002000, 0x80002010]"
    by (simp add: range_lines_def upt_rec)
  from sync_range_covers [of s "0x80700000" "\<lambda>_ _. None"] p show ?thesis
    unfolding s_def [symmetric] by (auto simp: r range_op_def l)
qed

lemma inval_range_covers:
  fixes s :: mips
  assumes "2 ^ 31 \<le> unat (rd s A0)" "unat (rd s A0) + unat (rd s A1) + 48 < 2 ^ 32"
    and "position b (assemble bcmcore_inval_range_S) (rd s RA) = None"
  shows "\<exists>t. run ext False (assemble bcmcore_inval_range_S) b 0 s = Some (rd s RA, t) \<and>
    range_op 17 (unat (rd s A0)) (unat (rd s A1)) s t"
proof -
  let ?c = "assemble bcmcore_inval_range_S"
  show ?thesis
  proof (rule range_routine [where p = 7 and q = 8 and v = "- 16"])
    fix u :: mips
    let ?w = "u\<lparr>cache_ops := cache_ops u @ [(17, rd u A0 - 16, cp0 u C0_TAGLO)]\<rparr>"
    have "run ext False ?c b 7 u = run ext False ?c b (7 + 1) ?w"
      by (rule run_take [of 1 7 _ "[Cache 17 (- 16) A0]"]) (simp_all add: range_assembled)
    then show "\<exists>w. run ext False ?c b 7 u = run ext False ?c b 8 w \<and>
       cache_ops w = cache_ops u @ [(17, rd u A0 - 16, cp0 u C0_TAGLO)] \<and> (\<forall>r. r \<noteq> T1 \<longrightarrow> rd w r = rd u r) \<and>
       ram w = ram u \<and> cp0 w = cp0 u" by (intro exI [of _ ?w]) simp
  qed (use assms in \<open>auto simp: range_assembled\<close>)
qed

text \<open>Invalidating a range that does not begin and end with a line also drops what other data in its first
  and last line a write-back cache held.\<close>

lemma inval_range_drops_neighbour:
  "0 < n \<Longrightarrow> start mod 16 \<noteq> 0 \<Longrightarrow> \<exists>a \<in> set (range_lines start n). a \<le> start - 1 \<and> start - 1 < a + 16"
proof -
  assume n: "0 < n" and m: "start mod 16 \<noteq> 0"
  have "start = 16 * (start div 16) + start mod 16" by simp
  then have "16 * (start div 16) \<le> start - 1 \<and> start - 1 < 16 * (start div 16) + 16" using m by linarith
  moreover have "16 * (start div 16) \<in> set (range_lines start n)" unfolding range_lines_exact(2) using n by auto
  ultimately show ?thesis by blast
qed

end
