(* ===== verification/Machine.thy ===== *)
theory Machine
  imports Prelude
begin

text \<open>
  The machine the code runs on, as far as the code sees it: device registers reached through
  loads and stores, the CP0 status register, the interrupt descriptors and the exception vectors.
  A device is not code of this repository, so it is a parameter: a function \<open>dev\<close> that answers
  every load from the history of accesses so far. The history itself is part of the state, so a
  property can speak of the order in which registers are read and written. Also here: the chip
  identification of \<^verbatim>\<open>cfe/dev_sb_mac.c\<close> and \<^verbatim>\<open>main.c\<close> and the backplane interrupt map of
  \<^verbatim>\<open>cfe/sb_utils.c\<close>.
\<close>

section \<open>State\<close>

datatype mmio_ev = Rd addr u32 | Wr addr u32 | Usleep u32 | Sleep nat

type_synonym device = "mmio_ev list \<Rightarrow> addr \<Rightarrow> u32"

text \<open>
  \<^verbatim>\<open>irq_action_t\<close> and \<^verbatim>\<open>irq_desc_t\<close> of \<^verbatim>\<open>cfe/bcmcore_irq.c\<close>. The chain of actions is a
  list; a handler is its address.
\<close>

record irq_action_t =
  act_handler :: addr
  act_arg :: addr
  act_flags :: u32
  act_device :: int

record irq_desc_t =
  actions :: "irq_action_t list"
  depth :: int
  status :: u32

datatype exc_target = Cfe_exception | Exc_cache_crash_sim | Bcmcore_irq_demux

record machine =
  io_log :: "mmio_ev list"
  cp0_sr :: u32
  cp0_cause :: u32
  irq_desc :: "irq_desc_t list"
  ip_handler :: "addr list"
  exc_vectors :: "u32 \<Rightarrow> exc_target option"

section \<open>Register access\<close>

text \<open>
  \<^verbatim>\<open>phys_read32\<close>, \<^verbatim>\<open>phys_write32\<close> of \<^verbatim>\<open>cfe/lib_physio.S\<close>: the physical address is moved to
  the uncached window. A pointer access through \<^verbatim>\<open>PHYS_TO_K1\<close> is the same load or store.
\<close>

definition load :: "device \<Rightarrow> addr \<Rightarrow> 'a machine_scheme \<Rightarrow> u32 \<times> 'a machine_scheme" where
  "load dev a s = (let v = dev (io_log s) a in (v, s\<lparr>io_log := io_log s @ [Rd a v]\<rparr>))"

definition store :: "addr \<Rightarrow> u32 \<Rightarrow> 'a machine_scheme \<Rightarrow> 'a machine_scheme" where
  "store a v s = s\<lparr>io_log := io_log s @ [Wr a v]\<rparr>"

definition phys_read32 :: "device \<Rightarrow> u32 \<Rightarrow> 'a machine_scheme \<Rightarrow> u32 \<times> 'a machine_scheme" where
  "phys_read32 dev pa s = load dev (PHYS_TO_K1 pa) s"

definition phys_write32 :: "u32 \<Rightarrow> u32 \<Rightarrow> 'a machine_scheme \<Rightarrow> 'a machine_scheme" where
  "phys_write32 pa v s = store (PHYS_TO_K1 pa) v s"

text \<open>A delay is recorded in the history: microseconds (\<^verbatim>\<open>cfe_usleep\<close>) or ticks (\<^verbatim>\<open>cfe_sleep\<close>). The
  waiting itself is in the timer theory.\<close>

definition CFE_HZ :: nat where "CFE_HZ = 10"

definition usleep :: "u32 \<Rightarrow> 'a machine_scheme \<Rightarrow> 'a machine_scheme" where
  "usleep us s = s\<lparr>io_log := io_log s @ [Usleep us]\<rparr>"

definition sleep :: "nat \<Rightarrow> 'a machine_scheme \<Rightarrow> 'a machine_scheme" where
  "sleep ticks s = s\<lparr>io_log := io_log s @ [Sleep ticks]\<rparr>"

definition writes :: "mmio_ev list \<Rightarrow> (addr \<times> u32) list" where
  "writes l = List.map_filter (\<lambda>e. case e of Wr a v \<Rightarrow> Some (a, v) | _ \<Rightarrow> None) l"

lemma writes_simps [simp]:
  "writes [] = []"
  "writes (Wr a v # l) = (a, v) # writes l"
  "writes (Rd a v # l) = writes l"
  "writes (Usleep d # l) = writes l"
  "writes (Sleep t # l) = writes l"
  by (simp_all add: writes_def map_filter_def)

lemma writes_append [simp]: "writes (l @ m) = writes l @ writes m"
  by (simp add: writes_def map_filter_def)

lemma load_simps [io_simps]:
  "fst (load dev a s) = dev (io_log s) a"
  "snd (load dev a s) = s\<lparr>io_log := io_log s @ [Rd a (dev (io_log s) a)]\<rparr>"
  by (simp_all add: load_def Let_def)

section \<open>Chip identification\<close>

definition SB_CHIPC_BASE :: u32 where "SB_CHIPC_BASE = 0x18000000"
definition SB_CPU_BASE :: u32 where "SB_CPU_BASE = 0x18005000"

definition getchipid :: "device \<Rightarrow> 'a machine_scheme \<Rightarrow> u32 \<times> 'a machine_scheme" where
  "getchipid dev s =
     (let (chipid, s) = load dev (PHYS_TO_K1 SB_CHIPC_BASE) s in (chipid AND 0xffff, s))"

definition isbcm5354 :: "device \<Rightarrow> 'a machine_scheme \<Rightarrow> bool \<times> 'a machine_scheme" where
  "isbcm5354 dev s = (let (c, s) = getchipid dev s in (c = 0x5354, s))"

definition isbcm5350 :: "device \<Rightarrow> 'a machine_scheme \<Rightarrow> bool \<times> 'a machine_scheme" where
  "isbcm5350 dev s = (let (c, s) = getchipid dev s in (c = 0x5350, s))"

definition isbcm535x :: "device \<Rightarrow> 'a machine_scheme \<Rightarrow> bool \<times> 'a machine_scheme" where
  "isbcm535x dev s = (let (c, s) = getchipid dev s in (c AND 0xfff0 = 0x5350, s))"

text \<open>The module numbers of \<^verbatim>\<open>main.c\<close> and \<^verbatim>\<open>getarch\<close>.\<close>

definition MODULE_UNKNOWN :: int where "MODULE_UNKNOWN = 0"
definition MODULE_BCM4712 :: int where "MODULE_BCM4712 = 2"
definition MODULE_BCM5350 :: int where "MODULE_BCM5350 = 4"
definition MODULE_BCM5352 :: int where "MODULE_BCM5352 = 5"
definition MODULE_BCM5354 :: int where "MODULE_BCM5354 = 6"

definition getarch :: "device \<Rightarrow> 'a machine_scheme \<Rightarrow> int \<times> 'a machine_scheme" where
  "getarch dev s =
     (let (chipid, s) = getchipid dev s
      in (if chipid = 0x4712 then MODULE_BCM4712
          else if chipid = 0x5350 then MODULE_BCM5350
          else if chipid = 0x5352 then MODULE_BCM5352
          else if chipid = 0x5354 then MODULE_BCM5354
          else MODULE_UNKNOWN, s))"

section \<open>Backplane interrupt map\<close>

definition R_SBIPSFLAG :: u32 where "R_SBIPSFLAG = 0xF08"
definition R_SBINTVEC :: u32 where "R_SBINTVEC = 0xF94"

definition G_SBISF_F1 :: "u32 \<Rightarrow> u32" where "G_SBISF_F1 x = GETVALUE x 0 (MAKEMASK 6 0)"
definition G_SBISF_F2 :: "u32 \<Rightarrow> u32" where "G_SBISF_F2 x = GETVALUE x 8 (MAKEMASK 6 8)"
definition G_SBISF_F3 :: "u32 \<Rightarrow> u32" where "G_SBISF_F3 x = GETVALUE x 16 (MAKEMASK 6 16)"
definition G_SBISF_F4 :: "u32 \<Rightarrow> u32" where "G_SBISF_F4 x = GETVALUE x 24 (MAKEMASK 6 24)"

definition sb_map_irq :: "device \<Rightarrow> u32 \<Rightarrow> 'a machine_scheme \<Rightarrow> u32 \<times> 'a machine_scheme" where
  "sb_map_irq dev flagnum s =
     (let (ipsflags, s) = load dev (PHYS_TO_K1 (SB_CPU_BASE + R_SBIPSFLAG)) s
      in if flagnum = G_SBISF_F1 ipsflags then (1, s)
         else if flagnum = G_SBISF_F2 ipsflags then (2, s)
         else if flagnum = G_SBISF_F3 ipsflags then (3, s)
         else if flagnum = G_SBISF_F4 ipsflags then (4, s)
         else let (intvec, s) = load dev (PHYS_TO_K1 (SB_CPU_BASE + R_SBINTVEC)) s;
                  intvec = intvec OR push_bit (unat flagnum) 1;
                  s = store (PHYS_TO_K1 (SB_CPU_BASE + R_SBINTVEC)) intvec s
              in (0, s))"

text \<open>Chip predicates and the map change nothing but the history.\<close>

lemma getchipid_snd [io_simps]: "snd (getchipid dev s) = snd (load dev (PHYS_TO_K1 SB_CHIPC_BASE) s)"
  by (simp add: getchipid_def split_beta)

lemma getchipid_fst [io_simps]:
  "fst (getchipid dev s) = dev (io_log s) (PHYS_TO_K1 SB_CHIPC_BASE) AND 0xffff"
  by (simp add: getchipid_def split_beta io_simps)

lemma isbcm_fst [io_simps]:
  "fst (isbcm5354 dev s) = (fst (getchipid dev s) = 0x5354)"
  "fst (isbcm5350 dev s) = (fst (getchipid dev s) = 0x5350)"
  "fst (isbcm535x dev s) = (fst (getchipid dev s) AND 0xfff0 = 0x5350)"
  by (simp_all add: isbcm5354_def isbcm5350_def isbcm535x_def split_beta)

lemma isbcm_snd [io_simps]:
  "snd (isbcm5354 dev s) = snd (getchipid dev s)"
  "snd (isbcm5350 dev s) = snd (getchipid dev s)"
  "snd (isbcm535x dev s) = snd (getchipid dev s)"
  by (simp_all add: isbcm5354_def isbcm5350_def isbcm535x_def split_beta)

lemma sb_map_irq_log_only: "\<exists>l. snd (sb_map_irq dev f s) = s\<lparr>io_log := l\<rparr>"
  by (auto simp: sb_map_irq_def split_beta Let_def io_simps store_def)

lemma sb_map_irq_le_4: "fst (sb_map_irq dev f s) \<le> 4"
  by (auto simp: sb_map_irq_def split_beta Let_def)

end
