(* ===== verification/CpuIrq.thy ===== *)
theory CpuIrq
  imports Machine
begin

text \<open>
  \<^verbatim>\<open>cfe/bcmcore_irq.c\<close> with the CP0 routines of \<^verbatim>\<open>cfe/bcmcore_ircpoll.S\<close> it calls: the first
  level of interrupt dispatch. The status register \<open>cp0_sr\<close> carries the interrupt enable bit and
  the nine mask bits; a descriptor per level keeps the chain of actions, a nesting depth and a
  status flag. An index outside the eight descriptors is undefined behaviour of the C code and
  is the value \<open>None\<close> here. The nesting depth, a C \<^verbatim>\<open>int\<close>, is unbounded here: the two agree for
  fewer than 2 ^ 31 nested calls, beyond which C promises nothing. The end of the file relates the mask bits
  and the descriptors along every sequence of the operations drivers call, and says whom a dispatch
  serves and which levels it masks off.
\<close>

section \<open>The status register\<close>

definition S_SR_IMMASK :: nat where "S_SR_IMMASK = 8"
definition M_SR_IMMASK :: u32 where "M_SR_IMMASK = MAKEMASK 9 S_SR_IMMASK"
definition M_SR_IE :: u32 where "M_SR_IE = MAKEMASK1 0"
definition M_SR_EN :: u32 where "M_SR_EN = M_SR_IMMASK OR M_SR_IE"
definition M_CAUSE_IV :: u32 where "M_CAUSE_IV = MAKEMASK1 23"
definition IP_LEVELS :: u32 where "IP_LEVELS = 8"
definition IRQ_DISABLED :: u32 where "IRQ_DISABLED = 1"
definition CFE_IRQ_FLAGS_SHARED :: u32 where "CFE_IRQ_FLAGS_SHARED = 1"
definition XTYPE_INTERRUPT :: u32 where "XTYPE_INTERRUPT = 40"

definition cfe_irq_disable :: "'a machine_scheme \<Rightarrow> u32 \<times> 'a machine_scheme" where
  "cfe_irq_disable s =
     (let v0 = cp0_sr s AND M_SR_EN
      in (v0, s\<lparr>cp0_sr := cp0_sr s AND NOT M_SR_EN\<rparr>))"

definition cfe_irq_enable :: "u32 \<Rightarrow> 'a machine_scheme \<Rightarrow> 'a machine_scheme" where
  "cfe_irq_enable m s =
     (let a0 = m AND M_SR_EN;
          t0 = cp0_sr s AND NOT M_SR_EN
      in s\<lparr>cp0_sr := t0 OR a0\<rparr>)"

definition bcmcore_update_sr :: "u32 \<Rightarrow> u32 \<Rightarrow> 'a machine_scheme \<Rightarrow> 'a machine_scheme" where
  "bcmcore_update_sr clr on s = s\<lparr>cp0_sr := (cp0_sr s AND NOT clr) OR on\<rparr>"

definition bcmcore_irq_arm :: "'a machine_scheme \<Rightarrow> 'a machine_scheme" where
  "bcmcore_irq_arm s =
     (let s = s\<lparr>cp0_cause := cp0_cause s OR M_CAUSE_IV\<rparr>
      in s\<lparr>cp0_sr := (cp0_sr s AND NOT M_SR_IMMASK) OR M_SR_IE\<rparr>)"

definition exc_setvector :: "u32 \<Rightarrow> exc_target \<Rightarrow> 'a machine_scheme \<Rightarrow> 'a machine_scheme" where
  "exc_setvector xtype target s = s\<lparr>exc_vectors := (exc_vectors s)(xtype \<mapsto> target)\<rparr>"

text \<open>The mask bit of a level, \<^verbatim>\<open>_MM_MAKEMASK1(S_SR_IMMASK + level)\<close>.\<close>

definition level_mask :: "nat \<Rightarrow> u32" where
  "level_mask level = MAKEMASK1 (S_SR_IMMASK + level)"

section \<open>Handlers and dispatch\<close>

definition cfe_irq_setvector :: "int \<Rightarrow> addr \<Rightarrow> 'a machine_scheme \<Rightarrow> 'a machine_scheme" where
  "cfe_irq_setvector index handler s =
     (if 0 \<le> index \<and> index < 8 then
        let (sr, s) = cfe_irq_disable s;
            s = s\<lparr>ip_handler := (ip_handler s)[nat index := NULL]\<rparr>;
            sr = (if handler = NULL then sr AND NOT (level_mask (nat index))
                  else sr OR level_mask (nat index));
            s = s\<lparr>ip_handler := (ip_handler s)[nat index := handler]\<rparr>
        in cfe_irq_enable sr s
      else s)"

text \<open>
  A handler is code behind an address: \<open>run h arg\<close> is its effect on the machine.
\<close>

fun bcmcore_dispatch_irqs ::
  "(addr \<Rightarrow> u32 \<Rightarrow> 'a machine_scheme \<Rightarrow> 'a machine_scheme) \<Rightarrow> irq_action_t list
     \<Rightarrow> 'a machine_scheme \<Rightarrow> 'a machine_scheme" where
  "bcmcore_dispatch_irqs run [] s = s"
| "bcmcore_dispatch_irqs run (a # as) s =
     bcmcore_dispatch_irqs run as
       (if act_handler a \<noteq> NULL then run (act_handler a) (act_arg a) s else s)"

text \<open>The loop body for level \<open>i\<close>, shared by the two dispatchers, and the loop from level 7 down.\<close>

definition dispatch_level ::
  "(addr \<Rightarrow> u32 \<Rightarrow> 'a machine_scheme \<Rightarrow> 'a machine_scheme) \<Rightarrow> u32 \<Rightarrow> nat
     \<Rightarrow> 'a machine_scheme \<Rightarrow> 'a machine_scheme" where
  "dispatch_level run pending i s =
     (if pending AND level_mask i \<noteq> 0 then
        if ip_handler s ! i \<noteq> NULL then run (ip_handler s ! i) (of_nat i) s
        else if actions (irq_desc s ! i) \<noteq> [] then
          bcmcore_dispatch_irqs run (actions (irq_desc s ! i)) s
        else bcmcore_update_sr (level_mask i) 0 s
      else s)"

definition bcmcore_dispatch_pending ::
  "(addr \<Rightarrow> u32 \<Rightarrow> 'a machine_scheme \<Rightarrow> 'a machine_scheme) \<Rightarrow> u32
     \<Rightarrow> 'a machine_scheme \<Rightarrow> 'a machine_scheme" where
  "bcmcore_dispatch_pending run pending s =
     foldl (\<lambda>s i. dispatch_level run pending i s) s (rev [0..<8])"

text \<open>From the exception handler: the saved CAUSE and SR registers give the pending levels.\<close>

definition bcmcore_irq_demux ::
  "(addr \<Rightarrow> u32 \<Rightarrow> 'a machine_scheme \<Rightarrow> 'a machine_scheme) \<Rightarrow> u32 \<Rightarrow> u32
     \<Rightarrow> 'a machine_scheme \<Rightarrow> 'a machine_scheme" where
  "bcmcore_irq_demux run cause sr s =
     (let pending = cause AND sr
      in foldl (\<lambda>s i. dispatch_level run pending i s) s (rev [0..<8]))"

definition bcmcore_irq_vectorinit :: "'a machine_scheme \<Rightarrow> 'a machine_scheme" where
  "bcmcore_irq_vectorinit s =
     (let s = s\<lparr>ip_handler := replicate 8 NULL\<rparr>;
          s = exc_setvector XTYPE_INTERRUPT Bcmcore_irq_demux s
      in bcmcore_irq_arm s)"

definition cfe_irq_init :: "'a machine_scheme \<Rightarrow> 'a machine_scheme" where
  "cfe_irq_init s =
     (let s = s\<lparr>irq_desc := replicate 8 \<lparr>actions = [], depth = 0, status = IRQ_DISABLED\<rparr>\<rparr>
      in bcmcore_irq_vectorinit s)"

section \<open>Enabling, disabling, requesting and freeing\<close>

definition bcmcore_map_irq :: "device \<Rightarrow> u32 \<Rightarrow> 'a machine_scheme \<Rightarrow> u32 \<times> 'a machine_scheme" where
  "bcmcore_map_irq dev irq s =
     (if irq = 5 then (7, s)
      else let (b, s) = isbcm535x dev s
           in if b then (irq + 3, s)
              else let (l, s) = sb_map_irq dev irq s in (l + 2, s))"

definition cfe_enable_irq :: "device \<Rightarrow> u32 \<Rightarrow> 'a machine_scheme \<Rightarrow> 'a machine_scheme" where
  "cfe_enable_irq dev irq s =
     (let (level, s) = bcmcore_map_irq dev irq s
      in if level < IP_LEVELS then
           let i = unat level;
               (sr, s) = cfe_irq_disable s;
               desc = irq_desc s ! i;
               (sr, desc) =
                 (if depth desc = 0
                  then (sr OR level_mask i, desc\<lparr>status := status desc AND NOT IRQ_DISABLED\<rparr>)
                  else (sr, desc));
               desc = desc\<lparr>depth := depth desc + 1\<rparr>;
               s = s\<lparr>irq_desc := (irq_desc s)[i := desc]\<rparr>
           in cfe_irq_enable sr s
         else s)"

definition cfe_disable_irq :: "device \<Rightarrow> u32 \<Rightarrow> 'a machine_scheme \<Rightarrow> 'a machine_scheme" where
  "cfe_disable_irq dev irq s =
     (let (level, s) = bcmcore_map_irq dev irq s
      in if level < IP_LEVELS then
           let i = unat level;
               (sr, s) = cfe_irq_disable s;
               desc = irq_desc s ! i;
               desc = desc\<lparr>depth := depth desc - 1\<rparr>;
               (sr, desc) =
                 (if depth desc = 0
                  then (sr AND NOT (level_mask i), desc\<lparr>status := status desc OR IRQ_DISABLED\<rparr>)
                  else (sr, desc));
               s = s\<lparr>irq_desc := (irq_desc s)[i := desc]\<rparr>
           in cfe_irq_enable sr s
         else s)"

text \<open>\<open>alloc\<close> says whether the allocation of the action succeeds.\<close>

definition cfe_request_irq ::
  "device \<Rightarrow> bool \<Rightarrow> u32 \<Rightarrow> addr \<Rightarrow> addr \<Rightarrow> u32 \<Rightarrow> int \<Rightarrow> 'a machine_scheme
     \<Rightarrow> (int \<times> 'a machine_scheme) option" where
  "cfe_request_irq dev alloc irq handler arg irqflags device s =
     (if handler = NULL then Some (-1, s)
      else
        let (level, s) = bcmcore_map_irq dev irq s
        in if \<not> alloc then Some (-1, s)
           else
             let action = \<lparr>act_handler = handler, act_arg = arg, act_flags = irqflags,
                           act_device = device\<rparr>
             in if unat level \<ge> length (irq_desc s) then None
                else
                  let i = unat level;
                      (sr, s) = cfe_irq_disable s;
                      desc = irq_desc s ! i
                  in case actions desc of
                       [] \<Rightarrow>
                         let desc = desc\<lparr>actions := [action], depth := 0,
                                         status := status desc OR IRQ_DISABLED\<rparr>;
                             s = s\<lparr>irq_desc := (irq_desc s)[i := desc]\<rparr>;
                             sr = sr AND NOT (level_mask i);
                             s = cfe_irq_enable sr s
                         in Some (0, cfe_enable_irq dev irq s)
                     | p # ps \<Rightarrow>
                         if act_flags p AND act_flags action AND CFE_IRQ_FLAGS_SHARED = 0 then
                           Some (-1, cfe_enable_irq dev irq s)
                         else
                           let desc = desc\<lparr>actions := actions desc @ [action]\<rparr>;
                               s = s\<lparr>irq_desc := (irq_desc s)[i := desc]\<rparr>;
                               s = cfe_irq_enable sr s
                           in Some (0, cfe_enable_irq dev irq s))"

text \<open>The walk of \<^verbatim>\<open>cfe_free_irq\<close> along the chain unlinks the first action of the device.\<close>

fun unlink_action :: "int \<Rightarrow> irq_action_t list \<Rightarrow> irq_action_t list" where
  "unlink_action device [] = []"
| "unlink_action device (p # ps) =
     (if act_device p = device then ps else p # unlink_action device ps)"

definition cfe_free_irq ::
  "device \<Rightarrow> u32 \<Rightarrow> int \<Rightarrow> 'a machine_scheme \<Rightarrow> 'a machine_scheme option" where
  "cfe_free_irq dev irq device s =
     (let (level, s) = bcmcore_map_irq dev irq s
      in if unat level \<ge> length (irq_desc s) then None
         else
           let i = unat level;
               (sr, s) = cfe_irq_disable s;
               desc = irq_desc s ! i;
               chain = unlink_action device (actions desc);
               (sr, desc') =
                 (if actions desc \<noteq> [] \<and> chain = []
                  then (sr AND NOT (level_mask i),
                        desc\<lparr>actions := [], status := status desc OR IRQ_DISABLED\<rparr>)
                  else (sr, desc\<lparr>actions := chain\<rparr>));
               s = s\<lparr>irq_desc := (irq_desc s)[i := desc']\<rparr>
           in Some (cfe_irq_enable sr s))"


section \<open>Effects in closed form\<close>

lemma bit_level_mask: "i < 8 \<Longrightarrow> bit (level_mask i) n \<longleftrightarrow> n = 8 + i"
  unfolding level_mask_def MAKEMASK1_def S_SR_IMMASK_def
  by (auto simp only: bit_push_bit_iff bit_1_iff possible_bit_word len_of_numeral_defs)

lemma bit_sr_en: "bit M_SR_EN n \<longleftrightarrow> n = 0 \<or> (8 \<le> n \<and> n < 17)"
proof -
  have m: "push_bit 9 1 - 1 = (mask 9 :: u32)" by (simp add: mask_eq_exp_minus_1 push_bit_eq_mult)
  have "bit M_SR_IMMASK n \<longleftrightarrow> 8 \<le> n \<and> n < 17"
    unfolding M_SR_IMMASK_def MAKEMASK_def S_SR_IMMASK_def m
    bit_push_bit_iff bit_mask_iff possible_bit_word by auto
  moreover have "bit M_SR_IE n \<longleftrightarrow> n = 0"
    by (simp add: M_SR_IE_def MAKEMASK1_def bit_1_iff)
  ultimately show ?thesis by (auto simp: M_SR_EN_def bit_or_iff)
qed

lemma level_mask_and_eq_0:
  assumes "i < 8"
  shows "(p AND level_mask i = 0) \<longleftrightarrow> \<not> bit p (8 + i)"
proof -
  have "p AND level_mask i = (if bit p (8 + i) then level_mask i else 0)"
    by (rule bit_word_eqI) (auto simp: bit_and_iff bit_level_mask assms)
  moreover have "level_mask i \<noteq> 0" using bit_level_mask [OF assms, of "8 + i"] by auto
  ultimately show ?thesis by simp
qed

text \<open>The three ways a saved mask is put back: as it was, with a level added, with one removed.\<close>

lemma sr_restore [simp]:
  "(x AND NOT M_SR_EN) OR (x AND M_SR_EN) = x"
  "i < 8 \<Longrightarrow> (x AND NOT M_SR_EN) OR (((x AND M_SR_EN) OR level_mask i) AND M_SR_EN)
     = x OR level_mask i"
  "i < 8 \<Longrightarrow> (x AND NOT M_SR_EN) OR (((x AND M_SR_EN) AND NOT (level_mask i)) AND M_SR_EN)
     = x AND NOT (level_mask i)"
  by (rule bit_word_eqI; auto simp: bit_and_iff bit_or_iff bit_not_iff bit_sr_en bit_level_mask)+

text \<open>The level an interrupt is mapped to; mapping it only adds to the access history.\<close>

definition irq_level :: "device \<Rightarrow> u32 \<Rightarrow> 'a machine_scheme \<Rightarrow> nat" where
  "irq_level dev irq s = unat (fst (bcmcore_map_irq dev irq s))"

definition map_log :: "device \<Rightarrow> u32 \<Rightarrow> 'a machine_scheme \<Rightarrow> mmio_ev list" where
  "map_log dev irq s = io_log (snd (bcmcore_map_irq dev irq s))"

lemma bcmcore_map_irq_snd: "snd (bcmcore_map_irq dev irq s) = s\<lparr>io_log := map_log dev irq s\<rparr>"
proof -
  have "\<exists>l. snd (bcmcore_map_irq dev irq s) = s\<lparr>io_log := l\<rparr>"
  proof (cases "irq = 5")
    case True
    then show ?thesis by (intro exI [of _ "io_log s"]) (simp add: bcmcore_map_irq_def)
  next
    case False
    then show ?thesis
      using sb_map_irq_log_only [of dev irq "snd (isbcm535x dev s)"]
      by (auto simp: bcmcore_map_irq_def split_beta Let_def io_simps)
  qed
  then show ?thesis by (auto simp: map_log_def)
qed

lemma bcmcore_map_irq_split:
  "bcmcore_map_irq dev irq s
     = (fst (bcmcore_map_irq dev irq s), s\<lparr>io_log := map_log dev irq s\<rparr>)"
  by (metis bcmcore_map_irq_snd prod.collapse)

lemma level_less_8: "(w < IP_LEVELS) = (unat w < 8)"
  by (simp add: IP_LEVELS_def word_less_nat_alt)

definition desc_up :: "irq_desc_t \<Rightarrow> irq_desc_t" where
  "desc_up d = (if depth d = 0 then d\<lparr>status := status d AND NOT IRQ_DISABLED, depth := 1\<rparr>
                else d\<lparr>depth := depth d + 1\<rparr>)"

definition desc_down :: "irq_desc_t \<Rightarrow> irq_desc_t" where
  "desc_down d = (if depth d = 1 then d\<lparr>depth := 0, status := status d OR IRQ_DISABLED\<rparr>
                  else d\<lparr>depth := depth d - 1\<rparr>)"

lemma cfe_enable_irq_eq:
  "cfe_enable_irq dev irq s =
     (let i = irq_level dev irq s; d = irq_desc s ! i
      in if i < 8 then
           s\<lparr>io_log := map_log dev irq s, irq_desc := (irq_desc s)[i := desc_up d],
             cp0_sr := (if depth d = 0 then cp0_sr s OR level_mask i else cp0_sr s)\<rparr>
         else s\<lparr>io_log := map_log dev irq s\<rparr>)"
  unfolding cfe_enable_irq_def
  by (subst bcmcore_map_irq_split)
    (simp add: Let_def level_less_8 irq_level_def cfe_irq_disable_def cfe_irq_enable_def
      desc_up_def)

lemma cfe_disable_irq_eq:
  "cfe_disable_irq dev irq s =
     (let i = irq_level dev irq s; d = irq_desc s ! i
      in if i < 8 then
           s\<lparr>io_log := map_log dev irq s, irq_desc := (irq_desc s)[i := desc_down d],
             cp0_sr := (if depth d = 1 then cp0_sr s AND NOT (level_mask i) else cp0_sr s)\<rparr>
         else s\<lparr>io_log := map_log dev irq s\<rparr>)"
  unfolding cfe_disable_irq_def
  by (subst bcmcore_map_irq_split)
    (simp add: Let_def level_less_8 irq_level_def cfe_irq_disable_def cfe_irq_enable_def
      desc_down_def)


lemma irq_level_535x:
  assumes "\<And>l. dev l (PHYS_TO_K1 SB_CHIPC_BASE) = c" "c AND 0xfff0 = 0x5350" "irq \<noteq> 5"
  shows "irq_level dev irq s = unat (irq + 3)"
proof -
  have "(c AND 0xffff) AND 0xfff0 = c AND 0xfff0" by (simp add: and.assoc)
  with assms show ?thesis
    by (simp add: irq_level_def bcmcore_map_irq_def split_beta Let_def io_simps)
qed

lemma cfe_free_irq_eq:
  "length (irq_desc s) = 8 \<Longrightarrow> cfe_free_irq dev irq device s =
     (let i = irq_level dev irq s; d = irq_desc s ! i; chain = unlink_action device (actions d);
          last = (actions d \<noteq> [] \<and> chain = [])
      in if i \<ge> 8 then None
         else Some (s\<lparr>io_log := map_log dev irq s,
                irq_desc := (irq_desc s)[i := (if last then d\<lparr>actions := [], status := status d OR IRQ_DISABLED\<rparr>
                                            else d\<lparr>actions := chain\<rparr>)],
                cp0_sr := (if last then cp0_sr s AND NOT (level_mask i) else cp0_sr s)\<rparr>))"
  unfolding cfe_free_irq_def
  by (subst bcmcore_map_irq_split)
    (simp add: Let_def irq_level_def cfe_irq_disable_def cfe_irq_enable_def)

section \<open>The mask bits follow the descriptors\<close>

definition masks_follow :: "'a machine_scheme \<Rightarrow> bool" where
  "masks_follow s \<longleftrightarrow> length (irq_desc s) = 8 \<and> bit (cp0_sr s) 0 \<and> \<not> bit (cp0_sr s) 16 \<and>
     (\<forall>i<8. bit (cp0_sr s) (8 + i) = even (status (irq_desc s ! i)))"

lemma masks_follow_upd:
  assumes "masks_follow s" "i < 8"
    and "\<And>n. bit sr n = (if n = 8 + i then even (status d) else bit (cp0_sr s) n)"
  shows "masks_follow (s\<lparr>io_log := l, irq_desc := (irq_desc s)[i := d], cp0_sr := sr\<rparr>)"
  using assms by (auto simp: masks_follow_def nth_list_update)

lemma masks_follow_log [simp]: "masks_follow (s\<lparr>io_log := l\<rparr>) = masks_follow s"
  by (simp add: masks_follow_def)

lemma even_status [simp]:
  "even ((w :: u32) AND NOT IRQ_DISABLED)" "\<not> even (w OR IRQ_DISABLED)"
  by (simp_all add: IRQ_DISABLED_def even_and_iff even_or_iff even_not_iff)

lemma masks_follow_bit: "masks_follow s \<Longrightarrow> i < 8 \<Longrightarrow> bit (cp0_sr s) (8 + i) = even (status (irq_desc s ! i))"
  by (simp add: masks_follow_def)

lemma masks_follow_same:
  assumes "masks_follow s" "i < 8" "even (status d) = even (status (irq_desc s ! i))"
  shows "masks_follow (s\<lparr>io_log := l, irq_desc := (irq_desc s)[i := d]\<rparr>)"
  using assms by (auto simp: masks_follow_def nth_list_update)

lemma bit_level_upd [simp]:
  "i < 8 \<Longrightarrow> bit (x OR level_mask i) n = (n = 8 + i \<or> bit x n)"
  "i < 8 \<Longrightarrow> bit (x AND NOT (level_mask i)) n = (n \<noteq> 8 + i \<and> bit x n)"
  by (auto simp: bit_or_iff bit_and_iff bit_not_iff bit_level_mask dest: bit_imp_le_length)

lemma masks_follow_enable: "masks_follow s \<Longrightarrow> masks_follow (cfe_enable_irq dev irq s)"
  by (auto simp: cfe_enable_irq_eq Let_def desc_up_def split: if_splits intro!: masks_follow_upd masks_follow_same)

lemma masks_follow_disable: "masks_follow s \<Longrightarrow> masks_follow (cfe_disable_irq dev irq s)"
  by (auto simp: cfe_disable_irq_eq Let_def desc_down_def split: if_splits intro!: masks_follow_upd masks_follow_same)

lemma masks_follow_length: "masks_follow s \<Longrightarrow> length (irq_desc s) = 8"
  by (simp add: masks_follow_def)

lemma masks_follow_free:
  "masks_follow s \<Longrightarrow> cfe_free_irq dev irq device s = Some s' \<Longrightarrow> masks_follow s'"
  by (auto simp: cfe_free_irq_eq masks_follow_length Let_def split: if_splits
      intro!: masks_follow_upd masks_follow_same)

lemma masks_follow_request:
  assumes "masks_follow s" "cfe_request_irq dev alloc irq h arg fl device s = Some (0, s')"
  shows "masks_follow s'"
proof -
  let ?i = "irq_level dev irq s" and ?a = "\<lparr>act_handler = h, act_arg = arg, act_flags = fl, act_device = device\<rparr>"
  let ?d = "irq_desc s ! ?i"
  have len: "length (irq_desc s) = 8" using assms(1) by (rule masks_follow_length)
  from assms(2) have i: "?i < 8"
    by (auto simp: cfe_request_irq_def Let_def split_beta bcmcore_map_irq_snd irq_level_def len split: if_splits)
  from assms(2) consider
      (first) "s' = cfe_enable_irq dev irq (s\<lparr>io_log := map_log dev irq s,
          irq_desc := (irq_desc s)[?i := ?d\<lparr>actions := [?a], depth := 0, status := status ?d OR IRQ_DISABLED\<rparr>],
          cp0_sr := cp0_sr s AND NOT (level_mask ?i)\<rparr>)"
    | (more) "s' = cfe_enable_irq dev irq (s\<lparr>io_log := map_log dev irq s,
          irq_desc := (irq_desc s)[?i := ?d\<lparr>actions := actions ?d @ [?a]\<rparr>]\<rparr>)"
    using i
    by (auto simp: cfe_request_irq_def Let_def split_beta bcmcore_map_irq_snd irq_level_def len
        cfe_irq_disable_def cfe_irq_enable_def split: if_splits list.splits)
  then show ?thesis
  proof cases
    case first
    then show ?thesis
      by (auto simp: i split: if_splits intro!: masks_follow_enable masks_follow_upd assms(1))
  next
    case more
    then show ?thesis
      by (auto simp: i split: if_splits intro!: masks_follow_enable masks_follow_same assms(1))
  qed
qed

lemma masks_follow_init: "masks_follow (cfe_irq_init s)"
proof -
  have "bit (cp0_sr (cfe_irq_init s)) n = (n = 0 \<or> bit (cp0_sr s) n \<and> \<not> (8 \<le> n \<and> n < 17))" for n
    using bit_sr_en [of n]
    by (auto simp: cfe_irq_init_def bcmcore_irq_vectorinit_def bcmcore_irq_arm_def exc_setvector_def
        Let_def bit_or_iff bit_and_iff bit_not_iff M_SR_EN_def M_SR_IE_def MAKEMASK1_def bit_1_iff
        dest: bit_imp_le_length)
  then show ?thesis
    by (simp add: masks_follow_def)
      (simp add: cfe_irq_init_def bcmcore_irq_vectorinit_def bcmcore_irq_arm_def exc_setvector_def
        Let_def nth_replicate IRQ_DISABLED_def)
qed


text \<open>Disabling a level of depth 1 and enabling it again gives the descriptor back.\<close>

lemma even_clear_disabled: "even w \<Longrightarrow> w AND NOT IRQ_DISABLED = w"
  unfolding IRQ_DISABLED_def
  by (rule bit_word_eqI) (auto simp: bit_and_iff bit_not_iff bit_1_iff bit_0 intro!: gr0I)

lemma or_disabled_clear: "(w OR IRQ_DISABLED) AND NOT IRQ_DISABLED = w AND NOT IRQ_DISABLED"
  by (rule bit_word_eqI) (auto simp: bit_and_iff bit_or_iff bit_not_iff)

lemma desc_up_down: "depth d = 1 \<Longrightarrow> even (status d) \<Longrightarrow> desc_up (desc_down d) = d"
  by (simp add: desc_up_def desc_down_def or_disabled_clear even_clear_disabled)

text \<open>
  Whom the dispatch of a level serves, read off the tables: the installed handler, else the
  handlers of the level's actions, each with its argument; and the levels nobody serves.
\<close>

definition level_calls :: "'a machine_scheme \<Rightarrow> nat \<Rightarrow> (addr \<times> u32) list" where
  "level_calls s i =
     (if ip_handler s ! i \<noteq> NULL then [(ip_handler s ! i, of_nat i)]
      else map (\<lambda>a. (act_handler a, act_arg a)) (filter (\<lambda>a. act_handler a \<noteq> NULL) (actions (irq_desc s ! i))))"

definition unserved :: "'a machine_scheme \<Rightarrow> nat \<Rightarrow> bool" where
  "unserved s i \<longleftrightarrow> ip_handler s ! i = NULL \<and> actions (irq_desc s ! i) = []"

text \<open>Two machines that agree in the tables serve alike.\<close>

definition same_tables :: "'a machine_scheme \<Rightarrow> 'a machine_scheme \<Rightarrow> bool" where
  "same_tables s t \<longleftrightarrow> ip_handler t = ip_handler s \<and>
     (\<forall>i. actions (irq_desc t ! i) = actions (irq_desc s ! i))"

lemma same_tables_serve:
  "same_tables s t \<Longrightarrow> level_calls t = level_calls s \<and> unserved t = unserved s"
  by (simp add: same_tables_def level_calls_def unserved_def fun_eq_iff)

lemma same_tables_trans: "same_tables s t \<Longrightarrow> same_tables t u \<Longrightarrow> same_tables s u"
  by (simp add: same_tables_def)

text \<open>The dispatch loop over handlers that leave SR and the tables alone; \<open>log\<close> is the record of their
  calls.\<close>

lemma dispatch_irqs_calls:
  assumes run: "\<And>h arg s. cp0_sr (run h arg s) = cp0_sr s \<and> same_tables s (run h arg s)"
    and log: "\<And>h arg s. log (run h arg s) = log s @ [(h, arg)]"
  shows "cp0_sr (bcmcore_dispatch_irqs run as s) = cp0_sr s \<and>
    same_tables s (bcmcore_dispatch_irqs run as s) \<and>
    log (bcmcore_dispatch_irqs run as s) =
      log s @ map (\<lambda>a. (act_handler a, act_arg a)) (filter (\<lambda>a. act_handler a \<noteq> NULL) as)"
proof (induction as arbitrary: s)
  case Nil
  then show ?case by (simp add: same_tables_def)
next
  case (Cons a as)
  let ?s = "if act_handler a \<noteq> NULL then run (act_handler a) (act_arg a) s else s"
  have "same_tables s ?s" using run by (simp add: same_tables_def)
  with Cons.IH [of ?s] run log show ?case by (auto intro: same_tables_trans)
qed

lemma dispatch_level_calls:
  assumes run: "\<And>h arg s. cp0_sr (run h arg s) = cp0_sr s \<and> same_tables s (run h arg s)"
    and log: "\<And>h arg s. log (run h arg s) = log s @ [(h, arg)]" "\<And>s c. log (s\<lparr>cp0_sr := c\<rparr>) = log s"
    and i: "i < 8" and t_def: "t = dispatch_level run pending i s"
  shows "(bit (cp0_sr t) n \<longleftrightarrow> bit (cp0_sr s) n \<and> \<not> (n = 8 + i \<and> bit pending n \<and> unserved s i)) \<and>
    same_tables s t \<and> log t = log s @ (if bit pending (8 + i) then level_calls s i else [])"
proof -
  note calls = dispatch_irqs_calls [where run = run and log = log, OF run log(1)]
  have refl: "same_tables s s" "same_tables s (s\<lparr>cp0_sr := c\<rparr>)" for c by (simp_all add: same_tables_def)
  consider (off) "\<not> bit pending (8 + i)" | (handler) "bit pending (8 + i)" "ip_handler s ! i \<noteq> NULL"
    | (acts) "bit pending (8 + i)" "ip_handler s ! i = NULL" "actions (irq_desc s ! i) \<noteq> []"
    | (spur) "bit pending (8 + i)" "unserved s i"
    by (auto simp: unserved_def)
  then show ?thesis
  proof cases
    case off
    then show ?thesis using i refl by (auto simp: t_def dispatch_level_def level_mask_and_eq_0)
  next
    case handler
    then show ?thesis
      using i run log by (simp add: t_def dispatch_level_def level_mask_and_eq_0 unserved_def level_calls_def)
  next
    case acts
    then show ?thesis
      using i calls [of "actions (irq_desc s ! i)" s]
      by (simp add: t_def dispatch_level_def level_mask_and_eq_0 unserved_def level_calls_def)
  next
    case spur
    then have "t = s\<lparr>cp0_sr := cp0_sr s AND NOT (level_mask i)\<rparr>" "level_calls s i = []"
      using i by (simp_all add: t_def dispatch_level_def level_mask_and_eq_0 bcmcore_update_sr_def
          unserved_def level_calls_def)
    then show ?thesis using spur i refl log(2) by auto
  qed
qed

lemma dispatch_levels_calls:
  assumes run: "\<And>h arg s. cp0_sr (run h arg s) = cp0_sr s \<and> same_tables s (run h arg s)"
    and log: "\<And>h arg s. log (run h arg s) = log s @ [(h, arg)]" "\<And>s c. log (s\<lparr>cp0_sr := c\<rparr>) = log s"
  shows "\<forall>i \<in> set is. i < 8 \<Longrightarrow> t = foldl (\<lambda>s i. dispatch_level run pending i s) s is \<Longrightarrow>
    (bit (cp0_sr t) n \<longleftrightarrow> bit (cp0_sr s) n \<and> \<not> (8 \<le> n \<and> n - 8 \<in> set is \<and> bit pending n \<and> unserved s (n - 8))) \<and>
    same_tables s t \<and> log t = log s @ concat (map (level_calls s) (filter (\<lambda>i. bit pending (8 + i)) is))"
proof (induction "is" arbitrary: s)
  case Nil
  then show ?case by (simp add: same_tables_def)
next
  case (Cons i js)
  let ?s = "dispatch_level run pending i s"
  note l = dispatch_level_calls [where run = run and log = log and i = i and s = s and pending = pending and n = n
      and t = ?s, OF run log _ refl]
  have tab: "same_tables s ?s" using l Cons.prems(1) by simp
  note IH = Cons.IH [of ?s]
  have "(bit (cp0_sr t) n \<longleftrightarrow> bit (cp0_sr ?s) n \<and> \<not> (8 \<le> n \<and> n - 8 \<in> set js \<and> bit pending n \<and> unserved s (n - 8))) \<and>
    same_tables ?s t \<and> log t = log ?s @ concat (map (level_calls s) (filter (\<lambda>i. bit pending (8 + i)) js))"
    using IH Cons.prems same_tables_serve [OF tab] by simp
  then show ?case using l tab Cons.prems(1) by (auto intro: same_tables_trans)
qed

section \<open>Sequences of operations\<close>

text \<open>
  What drivers do: enable, disable, request successfully and free, in any order, after
  \<^verbatim>\<open>cfe_irq_init\<close>.
\<close>

inductive irq_step :: "device \<Rightarrow> 'a machine_scheme \<Rightarrow> 'a machine_scheme \<Rightarrow> bool" for dev where
  enable: "irq_step dev s (cfe_enable_irq dev irq s)"
| disable: "irq_step dev s (cfe_disable_irq dev irq s)"
| request: "cfe_request_irq dev alloc irq h arg fl device s = Some (0, s') \<Longrightarrow> irq_step dev s s'"
| free: "cfe_free_irq dev irq device s = Some s' \<Longrightarrow> irq_step dev s s'"

inductive irq_reachable :: "device \<Rightarrow> 'a machine_scheme \<Rightarrow> bool" for dev where
  start: "irq_reachable dev (cfe_irq_init s)"
| step: "irq_reachable dev s \<Longrightarrow> irq_step dev s s' \<Longrightarrow> irq_reachable dev s'"

inductive_cases irq_stepE: "irq_step dev s s'"

lemma irq_reachable_masks: "irq_reachable dev s \<Longrightarrow> masks_follow s"
  by (induction rule: irq_reachable.induct)
    (auto elim!: irq_stepE intro: masks_follow_init masks_follow_enable masks_follow_disable
      masks_follow_request masks_follow_free)

text \<open>The machine and the device used by the concrete instances: a 5354 with silent registers.\<close>

definition dev5354 :: device where
  "dev5354 l a = (if a = PHYS_TO_K1 SB_CHIPC_BASE then 0x5354 else 0)"

definition machine0 :: machine where
  "machine0 = cfe_irq_init \<lparr>io_log = [], cp0_sr = 0, cp0_cause = 0, irq_desc = [], ip_handler = [],
                            exc_vectors = Map.empty\<rparr>"

text \<open>The mapping looks at the access history only.\<close>

lemma irq_level_frame [simp]:
  "irq_level dev irq (s\<lparr>cp0_sr := x\<rparr>) = irq_level dev irq s"
  "irq_level dev irq (s\<lparr>irq_desc := d\<rparr>) = irq_level dev irq s"
  by (simp_all add: irq_level_def bcmcore_map_irq_def sb_map_irq_def split_beta Let_def io_simps
      store_def)

lemma irq_level_dev5354: "irq \<noteq> 5 \<Longrightarrow> irq_level dev5354 irq s = unat (irq + 3)"
  by (rule irq_level_535x) (auto simp: dev5354_def)

lemma length_irq_desc_machine0 [simp]: "length (irq_desc machine0) = 8"
  by (simp add: machine0_def cfe_irq_init_def bcmcore_irq_vectorinit_def bcmcore_irq_arm_def
      exc_setvector_def Let_def)

lemma irq_desc_machine0:
  "i < 8 \<Longrightarrow> irq_desc machine0 ! i = \<lparr>actions = [], depth = 0, status = IRQ_DISABLED\<rparr>"
  by (simp add: machine0_def cfe_irq_init_def bcmcore_irq_vectorinit_def bcmcore_irq_arm_def
      exc_setvector_def Let_def)

lemma cfe_enable_irq_level:
  "irq_level dev irq s = i \<Longrightarrow> i < 8 \<Longrightarrow> length (irq_desc s) = 8 \<Longrightarrow>
   irq_desc (cfe_enable_irq dev irq s) ! i = desc_up (irq_desc s ! i) \<and>
   length (irq_desc (cfe_enable_irq dev irq s)) = 8"
  by (simp add: cfe_enable_irq_eq Let_def)

section \<open>Properties\<close>

text \<open>C2: Along every sequence of enabling, disabling, successful requests and frees after
  \<^verbatim>\<open>cfe_irq_init\<close>, the interrupt enable bit of SR stays set, the extra mask bit 16 stays clear,
  and the mask bit of every level is set exactly when its descriptor is not flagged disabled.\<close>
theorem irq_masks_follow_status:
  assumes "irq_reachable dev s"
  shows "bit (cp0_sr s) 0 \<and> \<not> bit (cp0_sr s) 16 \<and> length (irq_desc s) = 8 \<and>
    (\<forall>i<8. bit (cp0_sr s) (8 + i) \<longleftrightarrow> status (irq_desc s ! i) AND IRQ_DISABLED = 0)"
  using irq_reachable_masks [OF assms]
  by (auto simp: masks_follow_def IRQ_DISABLED_def even_iff_mod_2_eq_zero and_one_eq)

lemma irq_masks_follow_status_witness:
  "let s = cfe_enable_irq dev5354 2 machine0 in
   bit (cp0_sr s) 13 \<longleftrightarrow> status (irq_desc s ! 5) AND IRQ_DISABLED = 0"
proof -
  have "irq_reachable dev5354 machine0" unfolding machine0_def by (rule irq_reachable.start)
  then have "irq_reachable dev5354 (cfe_enable_irq dev5354 2 machine0)"
    by (rule irq_reachable.step) (rule irq_step.enable)
  from irq_masks_follow_status [OF this] show ?thesis
    by (auto simp: Let_def dest: spec [of _ 5])
qed

text \<open>The critical section of the drivers, \<^verbatim>\<open>cfe_disable_irq\<close> then \<^verbatim>\<open>cfe_enable_irq\<close> on an
  interrupt of a level whose depth is 1 and that is enabled: inside, the level is masked and
  every other SR bit is as before; afterwards SR and all descriptors are exactly what they
  were.\<close>
theorem irq_critical_section:
  assumes "length (irq_desc s) = 8" "i < 8"
    and "irq_level dev irq s = i" "irq_level dev irq (cfe_disable_irq dev irq s) = i"
    and "depth (irq_desc s ! i) = 1" "even (status (irq_desc s ! i))" "bit (cp0_sr s) (8 + i)"
  defines "s1 \<equiv> cfe_disable_irq dev irq s"
  defines "s2 \<equiv> cfe_enable_irq dev irq s1"
  shows "(\<forall>n. bit (cp0_sr s1) n \<longleftrightarrow> n \<noteq> 8 + i \<and> bit (cp0_sr s) n)
    \<and> cp0_sr s2 = cp0_sr s \<and> irq_desc s2 = irq_desc s"
proof -
  let ?d = "irq_desc s ! i"
  have s1: "cp0_sr s1 = cp0_sr s AND NOT (level_mask i)" "irq_desc s1 = (irq_desc s)[i := desc_down ?d]"
    using assms(1-3,5) by (simp_all add: s1_def cfe_disable_irq_eq Let_def)
  have d: "desc_up (desc_down ?d) = ?d" "depth (desc_down ?d) = 0"
    using assms(5,6) by (simp_all add: desc_up_down) (simp add: desc_down_def)
  have "cp0_sr s AND NOT (level_mask i) OR level_mask i = cp0_sr s"
    using assms(2,7) by (intro bit_word_eqI) auto
  moreover have "irq_level dev irq s1 = i" using assms(4) by (simp add: s1_def)
  ultimately have "cp0_sr s2 = cp0_sr s \<and> irq_desc s2 = irq_desc s"
    using assms(1,2) s1 d by (simp add: s2_def cfe_enable_irq_eq Let_def)
  then show ?thesis using s1(1) assms(2) by simp
qed

lemma irq_critical_section_witness:
  "let s = cfe_enable_irq dev5354 2 machine0; s1 = cfe_disable_irq dev5354 2 s
   in \<not> bit (cp0_sr s1) 13 \<and> cp0_sr (cfe_enable_irq dev5354 2 s1) = cp0_sr s"
proof -
  let ?s = "cfe_enable_irq dev5354 2 machine0"
  have l: "irq_level dev5354 2 s = 5" for s :: machine by (simp add: irq_level_dev5354)
  have *: "irq_desc ?s ! 5 = desc_up (irq_desc machine0 ! 5)" "length (irq_desc ?s) = 8"
    using cfe_enable_irq_level [OF l, of machine0] by simp_all
  moreover have "bit (cp0_sr ?s) (8 + 5)"
    by (simp add: cfe_enable_irq_eq Let_def l irq_desc_machine0 del: One_nat_def)
  ultimately show ?thesis
    using irq_critical_section [of ?s 5 dev5354 2] l
    by (simp add: Let_def desc_up_def irq_desc_machine0)
qed

text \<open>C3: Whatever handlers and actions are installed, the dispatcher, from level 7 down, calls for
  every pending level its handler, or else the handlers of its actions in their order, each with
  its argument, and nothing else; and of SR it clears exactly the mask bits of the pending levels
  that have neither a handler nor actions: it cannot be caught on them forever, and a level that is
  served is not masked. The handlers are parameters, assumed to leave SR and the dispatcher's
  tables alone; \<open>log\<close> is the record of their calls.\<close>
theorem dispatch_masks_spurious:
  fixes s :: "'a machine_scheme" and pending :: u32
  assumes "\<And>h arg s. cp0_sr (run h arg s) = cp0_sr s \<and> same_tables s (run h arg s)"
    and "\<And>h arg s. log (run h arg s) = log s @ [(h, arg)]" "\<And>s c. log (s\<lparr>cp0_sr := c\<rparr>) = log s"
  defines "t \<equiv> bcmcore_dispatch_pending run pending s"
  shows "(\<forall>n. bit (cp0_sr t) n \<longleftrightarrow> bit (cp0_sr s) n \<and>
      \<not> (8 \<le> n \<and> n < 16 \<and> bit pending n \<and> ip_handler s ! (n - 8) = NULL \<and> actions (irq_desc s ! (n - 8)) = []))
    \<and> log t = log s @ concat (map (level_calls s) (filter (\<lambda>i. bit pending (8 + i)) [7, 6, 5, 4, 3, 2, 1, 0]))
    \<and> same_tables s t"
proof -
  have levels: "rev [0..<8] = [7, 6, 5, 4, 3, 2, 1, 0 :: nat]" by (simp add: upt_rec)
  have t: "t = foldl (\<lambda>s i. dispatch_level run pending i s) s (rev [0..<8])"
    by (simp add: t_def bcmcore_dispatch_pending_def)
  have calls: "(bit (cp0_sr t) n \<longleftrightarrow> bit (cp0_sr s) n \<and>
      \<not> (8 \<le> n \<and> n - 8 \<in> set (rev [0..<8]) \<and> bit pending n \<and> unserved s (n - 8))) \<and> same_tables s t \<and>
      log t = log s @ concat (map (level_calls s) (filter (\<lambda>i. bit pending (8 + i)) (rev [0..<8])))" for n
    by (rule dispatch_levels_calls [where run = run, OF assms(1-3) _ t]) simp
  have "n - 8 \<in> set (rev [0..<8]) \<longleftrightarrow> n < 16" if "8 \<le> n" for n :: nat using that by auto
  then have "bit (cp0_sr t) n \<longleftrightarrow> bit (cp0_sr s) n \<and>
      \<not> (8 \<le> n \<and> n < 16 \<and> bit pending n \<and> unserved s (n - 8))" for n
    using calls [of n] by (cases "8 \<le> n") (simp_all del: set_rev set_upt)
  then show ?thesis using calls [of 0] by (simp only: unserved_def levels) simp
qed

text \<open>Levels 7 (a handler), 5 (one action) and 3 (nothing) pending, with all mask bits set: the handler and
  the action run, in this order, and only level 3 is masked off. The handlers append to the record kept in
  the extension of the machine.\<close>

definition served0 :: "(addr \<times> u32) list machine_scheme" where
  "served0 = machine.extend (machine0\<lparr>cp0_sr := 0xFF01,
     ip_handler := (replicate 8 NULL)[7 := 0x80004000],
     irq_desc := (irq_desc machine0)[5 := \<lparr>actions = [\<lparr>act_handler = 0x80005000, act_arg = 9, act_flags = 0,
       act_device = 0\<rparr>], depth = 1, status = 0\<rparr>]\<rparr>) []"

definition record_call :: "addr \<Rightarrow> u32 \<Rightarrow> (addr \<times> u32) list machine_scheme \<Rightarrow> (addr \<times> u32) list machine_scheme" where
  "record_call h arg s = machine.more_update (\<lambda>l. l @ [(h, arg)]) s"

lemma dispatch_masks_spurious_witness:
  "let t = bcmcore_dispatch_pending record_call 0xA800 served0
   in machine.more t = [(0x80004000, 7), (0x80005000, 9)] \<and>
      bit (cp0_sr t) 15 \<and> bit (cp0_sr t) 13 \<and> \<not> bit (cp0_sr t) 11 \<and> bit (cp0_sr t) 10"
proof -
  have run: "cp0_sr (record_call h arg s) = cp0_sr s \<and> same_tables s (record_call h arg s)" for h arg s
    by (simp add: record_call_def same_tables_def)
  have log: "machine.more (record_call h arg s) = machine.more s @ [(h, arg)]" for h arg s
    by (simp add: record_call_def)
  have sr: "machine.more (s\<lparr>cp0_sr := c\<rparr>) = machine.more s" for s :: "(addr \<times> u32) list machine_scheme" and c
    by simp
  have s: "ip_handler served0 = [0, 0, 0, 0, 0, 0, 0, 0x80004000]" "machine.more served0 = []"
    "cp0_sr served0 = 0xFF01" "actions (irq_desc served0 ! 3) = []"
    "actions (irq_desc served0 ! 5) = [\<lparr>act_handler = 0x80005000, act_arg = 9, act_flags = 0, act_device = 0\<rparr>]"
    by (simp_all add: served0_def machine.extend_def irq_desc_machine0 eval_nat_numeral)
  have w: "bit (0xA800 :: u32) 15" "bit (0xA800 :: u32) 13" "bit (0xA800 :: u32) 11" "\<not> bit (0xA800 :: u32) 14"
      "\<not> bit (0xA800 :: u32) 12" "\<not> bit (0xA800 :: u32) 10" "\<not> bit (0xA800 :: u32) 9" "\<not> bit (0xA800 :: u32) 8"
      "bit (0xFF01 :: u32) 15" "bit (0xFF01 :: u32) 13" "bit (0xFF01 :: u32) 10"
    by simp_all
  note d = dispatch_masks_spurious [where run = record_call and log = machine.more and s = served0 and pending = "0xA800",
      OF run log sr, unfolded s(2,3)]
  show ?thesis
    using d by (simp add: Let_def level_calls_def s w)
qed

text \<open>A request that conflicts with an unsharable handler already installed on an enabled
  level returns -1 and leaves the interrupt enable bit and all nine mask bits of SR clear, and
  the depth of the level one too high: the code calls \<^verbatim>\<open>cfe_enable_irq\<close> where it should put the
  saved SR back.\<close>
theorem request_conflict_disables_all:
  assumes "length (irq_desc s) = 8" "i < 8" "\<And>l. irq_level dev irq (s\<lparr>io_log := l\<rparr>) = i"
    and "actions (irq_desc s ! i) = p # ps" "act_flags p AND fl AND CFE_IRQ_FLAGS_SHARED = 0"
    and "h \<noteq> NULL" "depth (irq_desc s ! i) \<noteq> 0"
  shows "\<exists>s'. cfe_request_irq dev True irq h arg fl device s = Some (-1, s') \<and>
    cp0_sr s' AND M_SR_EN = 0 \<and> depth (irq_desc s' ! i) = depth (irq_desc s ! i) + 1"
proof -
  have [simp]: "unat (fst (bcmcore_map_irq dev irq s)) = i"
    using assms(3) [of "io_log s"] by (simp add: irq_level_def)
  let ?s = "s\<lparr>io_log := map_log dev irq s, cp0_sr := cp0_sr s AND NOT M_SR_EN\<rparr>"
  have "cfe_request_irq dev True irq h arg fl device s = Some (-1, cfe_enable_irq dev irq ?s)"
    using assms by (simp add: cfe_request_irq_def Let_def split_beta bcmcore_map_irq_snd
        cfe_irq_disable_def)
  moreover have "(cp0_sr s AND NOT M_SR_EN) AND M_SR_EN = 0" by (simp add: and.assoc)
  ultimately show ?thesis
    using assms by (simp add: cfe_enable_irq_eq Let_def desc_up_def)
qed

lemma request_conflict_disables_all_witness:
  "let a = \<lparr>act_handler = 0x100, act_arg = 0, act_flags = 0, act_device = 1\<rparr>;
       s = machine0\<lparr>irq_desc := (irq_desc machine0)[5 := \<lparr>actions = [a], depth = 1, status = 0\<rparr>],
                    cp0_sr := 0xff01\<rparr>
   in \<exists>s'. cfe_request_irq dev5354 True 2 0x200 0 1 2 s = Some (-1, s') \<and> cp0_sr s' AND M_SR_EN = 0"
  unfolding Let_def
  using request_conflict_disables_all [of "machine0\<lparr>irq_desc := (irq_desc machine0)[5 := \<lparr>actions =
      [\<lparr>act_handler = 0x100, act_arg = 0, act_flags = 0, act_device = 1\<rparr>], depth = 1, status = 0\<rparr>],
      cp0_sr := 0xff01\<rparr>" 5 dev5354 2 _ _ 1 "0x200" 0 2]
  by (auto simp: irq_level_dev5354)

text \<open>Freeing the only action of an enabled level of depth 1 masks the level but keeps its
  depth, so the next critical section on the interrupt unmasks a level that has no actions.\<close>
theorem free_then_critical_section_unmasks:
  assumes "length (irq_desc s) = 8" "i < 8" "\<And>t :: 'a machine_scheme. irq_level dev irq t = i"
    and "actions (irq_desc s ! i) = [a]" "act_device a = device" "depth (irq_desc s ! i) = 1"
  shows "\<exists>s'. cfe_free_irq dev irq device (s :: 'a machine_scheme) = Some s' \<and>
    \<not> bit (cp0_sr s') (8 + i) \<and> actions (irq_desc s' ! i) = [] \<and>
    (let s'' = cfe_enable_irq dev irq (cfe_disable_irq dev irq s')
     in bit (cp0_sr s'') (8 + i) \<and> actions (irq_desc s'' ! i) = [])"
  using assms
  by (simp add: cfe_free_irq_eq Let_def cfe_disable_irq_eq cfe_enable_irq_eq desc_down_def
      desc_up_def)

lemma free_then_critical_section_unmasks_witness:
  "let a = \<lparr>act_handler = 0x100, act_arg = 0, act_flags = 0, act_device = 1\<rparr>;
       s = machine0\<lparr>irq_desc := (irq_desc machine0)[5 := \<lparr>actions = [a], depth = 1, status = 0\<rparr>]\<rparr>
   in \<exists>s'. cfe_free_irq dev5354 2 1 s = Some s' \<and> \<not> bit (cp0_sr s') 13"
  unfolding Let_def
  using free_then_critical_section_unmasks [of "machine0\<lparr>irq_desc := (irq_desc machine0)[5 := \<lparr>actions =
      [\<lparr>act_handler = 0x100, act_arg = 0, act_flags = 0, act_device = 1\<rparr>], depth = 1, status = 0\<rparr>]\<rparr>"
      5 dev5354 2 _ 1]
  by (auto simp: irq_level_dev5354)

end
