(* ===== verification/LibQueue.thy ===== *)
theory LibQueue
  imports Prelude
begin

text \<open>
  \<^verbatim>\<open>cfe/lib_queue.c\<close> and \<^verbatim>\<open>cfe/lib_queue.h\<close>: intrusive doubly linked circular queues. A
  queue is a header block and its elements, all of type \<^verbatim>\<open>queue_t\<close>, in a store from
  addresses to the two link fields; every operation is the sequence of field writes of the C
  code. The abstraction \<open>q_list h qb xs\<close> says that the store \<open>h\<close> holds the queue with header
  \<open>qb\<close> and elements \<open>xs\<close> in order; the operations are shown to act on \<open>xs\<close> as on a list, one by one
  and in any sequence. The locale \<open>fifo\<close> is the interface the network driver relies on.
\<close>

section \<open>The store and the operations\<close>

record queue_t =
  q_next :: addr
  q_prev :: addr

type_synonym qheap = "addr \<Rightarrow> queue_t"

definition set_next :: "qheap \<Rightarrow> addr \<Rightarrow> addr \<Rightarrow> qheap" where
  "set_next h a v = h(a := (h a)\<lparr>q_next := v\<rparr>)"

definition set_prev :: "qheap \<Rightarrow> addr \<Rightarrow> addr \<Rightarrow> qheap" where
  "set_prev h a v = h(a := (h a)\<lparr>q_prev := v\<rparr>)"

definition q_init :: "qheap \<Rightarrow> addr \<Rightarrow> qheap" where
  "q_init h q = set_next (set_prev h q q) q q"

definition q_isempty :: "qheap \<Rightarrow> addr \<Rightarrow> bool" where
  "q_isempty h q \<longleftrightarrow> q_next (h q) = q"

definition q_getfirst :: "qheap \<Rightarrow> addr \<Rightarrow> addr" where
  "q_getfirst h q = q_next (h q)"

definition q_getlast :: "qheap \<Rightarrow> addr \<Rightarrow> addr" where
  "q_getlast h q = q_prev (h q)"

definition q_enqueue :: "qheap \<Rightarrow> addr \<Rightarrow> addr \<Rightarrow> qheap" where
  "q_enqueue h qb item =
     (let h = set_next h (q_prev (h qb)) item;
          h = set_next h item qb;
          h = set_prev h item (q_prev (h qb));
          h = set_prev h qb item
      in h)"

definition q_dequeue :: "qheap \<Rightarrow> addr \<Rightarrow> qheap" where
  "q_dequeue h item =
     (let h = set_next h (q_prev (h item)) (q_next (h item));
          h = set_prev h (q_next (h item)) (q_prev (h item))
      in h)"

text \<open>The dequeued element, or \<open>None\<close> for the \<open>NULL\<close> of an empty queue, and the new store.\<close>

definition q_deqnext :: "qheap \<Rightarrow> addr \<Rightarrow> addr option \<times> qheap" where
  "q_deqnext h qb =
     (if q_next (h qb) = qb then (None, h)
      else let e = q_next (h qb);
               h = set_next h (q_prev (h e)) (q_next (h e));
               h = set_prev h (q_next (h e)) (q_prev (h e))
           in (Some e, h))"

text \<open>
  The three traversals. A traversal of links that never come back to the header does not
  return: \<open>None\<close>. The callback of \<open>q_map\<close> may change the store and a state of its own.
\<close>

partial_function (option) q_map_from ::
  "(addr \<Rightarrow> u32 \<Rightarrow> u32 \<Rightarrow> qheap \<times> 's \<Rightarrow> int \<times> qheap \<times> 's) \<Rightarrow> u32 \<Rightarrow> u32 \<Rightarrow> addr \<Rightarrow> addr
     \<Rightarrow> qheap \<times> 's \<Rightarrow> (int \<times> qheap \<times> 's) option" where
  "q_map_from func a b qb qe hs =
     (if qe = qb then Some (0, hs)
      else let nextq = q_next (fst hs qe);
               r = func qe a b hs
           in if fst r \<noteq> 0 then Some r
              else q_map_from func a b qb nextq (snd r))"

definition q_map ::
  "addr \<Rightarrow> (addr \<Rightarrow> u32 \<Rightarrow> u32 \<Rightarrow> qheap \<times> 's \<Rightarrow> int \<times> qheap \<times> 's) \<Rightarrow> u32 \<Rightarrow> u32
     \<Rightarrow> qheap \<times> 's \<Rightarrow> (int \<times> qheap \<times> 's) option" where
  "q_map qb func a b hs = q_map_from func a b qb (q_next (fst hs qb)) hs"

partial_function (option) q_count_from :: "qheap \<Rightarrow> addr \<Rightarrow> addr \<Rightarrow> int \<Rightarrow> int option" where
  "q_count_from h qb qe res =
     (if q_next (h qe) = qb then Some res
      else q_count_from h qb (q_next (h qe)) (res + 1))"

definition q_count :: "qheap \<Rightarrow> addr \<Rightarrow> int option" where
  "q_count h qb = q_count_from h qb qb 0"

partial_function (option) q_find_from ::
  "qheap \<Rightarrow> addr \<Rightarrow> addr \<Rightarrow> addr \<Rightarrow> int \<Rightarrow> int option" where
  "q_find_from h qb item q res =
     (if q = item then Some res
      else if q = qb then Some 0
      else q_find_from h qb item (q_next (h q)) (res + 1))"

definition q_find :: "qheap \<Rightarrow> addr \<Rightarrow> addr \<Rightarrow> int option" where
  "q_find h qb item = q_find_from h qb item (q_next (h qb)) 1"

section \<open>Segments and queues\<close>

text \<open>
  \<open>seg h a xs b\<close>: starting after \<open>a\<close>, the links run through \<open>xs\<close> and reach \<open>b\<close>, and the
  backward links agree.
\<close>

fun seg :: "qheap \<Rightarrow> addr \<Rightarrow> addr list \<Rightarrow> addr \<Rightarrow> bool" where
  "seg h a [] b \<longleftrightarrow> q_next (h a) = b \<and> q_prev (h b) = a"
| "seg h a (x # xs) b \<longleftrightarrow> q_next (h a) = x \<and> q_prev (h x) = a \<and> seg h x xs b"

definition q_list :: "qheap \<Rightarrow> addr \<Rightarrow> addr list \<Rightarrow> bool" where
  "q_list h qb xs \<longleftrightarrow> distinct (qb # xs) \<and> seg h qb xs qb"

lemma seg_append: "seg h a (xs @ y # ys) b \<longleftrightarrow> seg h a xs y \<and> seg h y ys b"
  by (induction xs arbitrary: a) auto

lemma set_next_simps [simp]:
  "q_next (set_next h a v x) = (if x = a then v else q_next (h x))"
  "q_prev (set_next h a v x) = q_prev (h x)"
  "q_prev (set_prev h a v x) = (if x = a then v else q_prev (h x))"
  "q_next (set_prev h a v x) = q_next (h x)"
  by (simp_all add: set_next_def set_prev_def)

text \<open>Writes away from the nodes a segment reads leave it alone.\<close>

lemma seg_set_next: "x \<noteq> a \<Longrightarrow> x \<notin> set xs \<Longrightarrow> seg (set_next h x v) a xs b = seg h a xs b"
  by (induction xs arbitrary: a) auto

lemma seg_set_prev: "x \<noteq> b \<Longrightarrow> x \<notin> set xs \<Longrightarrow> seg (set_prev h x v) a xs b = seg h a xs b"
  by (induction xs arbitrary: a) auto

lemma seg_cong:
  "\<lbrakk> \<And>x. x \<in> set (a # xs) \<Longrightarrow> q_next (h' x) = q_next (h x);
     \<And>x. x \<in> set xs \<union> {b} \<Longrightarrow> q_prev (h' x) = q_prev (h x) \<rbrakk>
   \<Longrightarrow> seg h' a xs b = seg h a xs b"
  by (induction xs arbitrary: a) auto

lemma q_list_init: "q_list (q_init h qb) qb []"
  by (simp add: q_list_def q_init_def)

lemma q_list_enqueue:
  assumes "q_list h qb xs" and "item \<notin> set (qb # xs)"
  shows "q_list (q_enqueue h qb item) qb (xs @ [item])"
proof (cases xs rule: rev_cases)
  case Nil
  with assms show ?thesis by (auto simp: q_list_def q_enqueue_def Let_def)
next
  case (snoc ys l)
  with assms have *: "distinct (qb # ys @ [l])" "seg h qb ys l" "q_next (h l) = qb"
      "q_prev (h qb) = l" "item \<noteq> qb" "item \<noteq> l" "item \<notin> set ys"
    by (auto simp: q_list_def seg_append)
  have "seg (q_enqueue h qb item) qb ys l = seg h qb ys l"
    by (rule seg_cong) (use * in \<open>auto simp: q_enqueue_def Let_def\<close>)
  with * snoc show ?thesis
    by (auto simp: q_list_def seg_append q_enqueue_def Let_def)
qed

lemma q_list_unlink:
  assumes "q_list h qb (xs @ e # ys)"
  shows "q_list (q_dequeue h e) qb (xs @ ys)"
proof -
  from assms have d: "distinct (qb # xs @ e # ys)" and s: "seg h qb xs e" "seg h e ys qb"
    by (auto simp: q_list_def seg_append)
  show ?thesis
  proof (cases xs rule: rev_cases)
    case Nil
    then show ?thesis
    proof (cases ys)
      case Nil
      with \<open>xs = []\<close> s d show ?thesis by (auto simp: q_list_def q_dequeue_def Let_def)
    next
      case (Cons y zs)
      have "seg (q_dequeue h e) y zs qb = seg h y zs qb"
        by (rule seg_cong) (use d s Cons \<open>xs = []\<close> in \<open>auto simp: q_dequeue_def Let_def\<close>)
      with Cons \<open>xs = []\<close> s d show ?thesis by (auto simp: q_list_def q_dequeue_def Let_def)
    qed
  next
    case (snoc ws l)
    from s snoc have l: "seg h qb ws l" "q_next (h l) = e" "q_prev (h e) = l"
      by (auto simp: seg_append)
    have 1: "seg (q_dequeue h e) qb ws l = seg h qb ws l"
      by (rule seg_cong) (use d s snoc l in \<open>cases ys; auto simp: q_dequeue_def Let_def\<close>)+
    show ?thesis
    proof (cases ys)
      case Nil
      with snoc s d l 1 show ?thesis
        by (auto simp: q_list_def seg_append q_dequeue_def Let_def)
    next
      case (Cons y zs)
      have "seg (q_dequeue h e) y zs qb = seg h y zs qb"
        by (rule seg_cong) (use d s Cons snoc l in \<open>auto simp: q_dequeue_def Let_def\<close>)
      with Cons snoc s d l 1 show ?thesis
        by (auto simp: q_list_def seg_append q_dequeue_def Let_def)
    qed
  qed
qed

lemma q_deqnext_empty: "q_list h qb [] \<Longrightarrow> q_deqnext h qb = (None, h)"
  by (simp add: q_list_def q_deqnext_def)

lemma q_deqnext_Cons:
  assumes "q_list h qb (x # xs)"
  shows "q_deqnext h qb = (Some x, q_dequeue h x)" "q_list (q_dequeue h x) qb xs"
proof -
  from assms have "q_next (h qb) = x" "x \<noteq> qb" by (auto simp: q_list_def)
  then show "q_deqnext h qb = (Some x, q_dequeue h x)"
    by (simp add: q_deqnext_def q_dequeue_def Let_def)
  show "q_list (q_dequeue h x) qb xs" using q_list_unlink [of h qb "[]" x xs] assms by simp
qed

lemma q_isempty_iff: "q_list h qb xs \<Longrightarrow> q_isempty h qb \<longleftrightarrow> xs = []"
  by (cases xs) (auto simp: q_list_def q_isempty_def)

lemma q_getfirst_hd: "q_list h qb (x # xs) \<Longrightarrow> q_getfirst h qb = x"
  by (simp add: q_list_def q_getfirst_def)

lemma q_getlast_last: "q_list h qb (xs @ [x]) \<Longrightarrow> q_getlast h qb = x"
  by (simp add: q_list_def q_getlast_def seg_append)

text \<open>An operation on one queue leaves a disjoint queue of the same store alone.\<close>

lemma q_list_cong:
  "(\<And>x. x \<in> set (qb # xs) \<Longrightarrow> h' x = h x) \<Longrightarrow> q_list h' qb xs = q_list h qb xs"
  unfolding q_list_def by (subst seg_cong [of qb xs h' h qb]) auto

lemma q_enqueue_frame:
  assumes "q_list h qb xs" and "y \<notin> set (qb # item # xs)"
  shows "q_enqueue h qb item y = h y"
proof -
  from assms(1) have "q_prev (h qb) \<in> set (qb # xs)"
    by (cases xs rule: rev_cases) (auto simp: q_list_def seg_append)
  with assms(2) have "y \<noteq> q_prev (h qb)" "y \<noteq> qb" "y \<noteq> item" by auto
  then show ?thesis by (auto simp: q_enqueue_def Let_def set_next_def set_prev_def)
qed

lemma q_dequeue_frame:
  assumes "q_list h qb (xs @ e # ys)" and "y \<notin> set (qb # xs @ e # ys)"
  shows "q_dequeue h e y = h y"
proof -
  from assms(1) have "q_prev (h e) \<in> set (qb # xs)"
    by (cases xs rule: rev_cases) (auto simp: q_list_def seg_append)
  moreover from assms(1) have "q_next (h e) \<in> set (qb # ys)"
    by (cases ys) (auto simp: q_list_def seg_append)
  ultimately have "y \<noteq> q_prev (h e)" "y \<noteq> q_next (h e)" "y \<noteq> e" using assms(2) by auto
  moreover have "q_next (set_next h (q_prev (h e)) (q_next (h e)) e) = q_next (h e)" by simp
  ultimately show ?thesis by (simp add: q_dequeue_def Let_def set_next_def set_prev_def)
qed

section \<open>Traversals\<close>

lemma q_count_from_seg:
  "seg h a xs qb \<Longrightarrow> qb \<notin> set xs \<Longrightarrow> q_count_from h qb a res = Some (res + int (length xs))"
  by (induction xs arbitrary: a res) (auto simp: q_count_from.simps)

lemma q_find_from_seg:
  "seg h a (xs @ item # ys) qb \<Longrightarrow> item \<notin> set xs \<Longrightarrow> qb \<notin> set xs
   \<Longrightarrow> q_find_from h qb item (q_next (h a)) res = Some (res + int (length xs))"
  by (induction xs arbitrary: a res) (auto simp: q_find_from.simps)

lemma q_find_from_absent:
  "seg h a xs qb \<Longrightarrow> item \<notin> set xs \<Longrightarrow> item \<noteq> qb
   \<Longrightarrow> q_find_from h qb item (q_next (h a)) res = Some 0"
  by (induction xs arbitrary: a res) (auto simp: q_find_from.simps)

lemma q_count_length: "q_list h qb xs \<Longrightarrow> q_count h qb = Some (int (length xs))"
  by (auto simp: q_list_def q_count_def q_count_from_seg)

lemma q_find_position:
  "q_list h qb (ys @ item # zs) \<Longrightarrow> q_find h qb item = Some (int (length ys) + 1)"
  using q_find_from_seg [of h qb ys item zs qb 1] by (auto simp: q_list_def q_find_def)

lemma q_find_none:
  "q_list h qb xs \<Longrightarrow> item \<notin> set (qb # xs) \<Longrightarrow> q_find h qb item = Some 0"
  by (auto simp: q_list_def q_find_def intro: q_find_from_absent)

text \<open>
  \<open>q_map\<close> reads the link of the next element before it calls back, so a callback may unlink
  the element it is given. Over any callback that does so for some elements (those that are not
  \<open>keep\<close>) and returns 0, all elements are visited in order and the others stay.
\<close>

lemma q_map_from_list:
  assumes cb: "\<And>e h t. e \<noteq> qb \<Longrightarrow> func e a b (h, t) = (0, if keep e then h else q_dequeue h e, g e t)"
  shows "q_list h qb (ys @ xs) \<Longrightarrow> seg h x xs qb \<Longrightarrow>
   \<exists>h'. q_map_from func a b qb (q_next (h x)) (h, t) = Some (0, h', fold g xs t) \<and>
     q_list h' qb (ys @ filter keep xs)"
proof (induction xs arbitrary: h t x ys)
  case Nil
  then show ?case by (auto simp: q_map_from.simps)
next
  case (Cons e xs)
  then have e: "q_next (h x) = e" "e \<noteq> qb" "seg h e xs qb" by (auto simp: q_list_def)
  let ?h = "if keep e then h else q_dequeue h e"
  let ?ys = "if keep e then ys @ [e] else ys"
  have q: "q_list ?h qb (?ys @ xs)" using Cons.prems(1) q_list_unlink [of h qb ys e xs] by simp
  have n: "q_next (?h z) = q_next (h e)" "seg ?h z xs qb" if "z = last (qb # ?ys)" for z
    using Cons.prems(1) q that
    by (cases ys rule: rev_cases; auto simp: q_list_def seg_append q_dequeue_def Let_def)+
  obtain h' where "q_map_from func a b qb (q_next (?h (last (qb # ?ys)))) (?h, g e t) = Some (0, h', fold g xs (g e t))"
      "q_list h' qb (?ys @ filter keep xs)"
    using Cons.IH [OF q n(2) [OF refl]] by blast
  with e n(1) [OF refl] show ?case
    by (subst q_map_from.simps) (auto simp: cb Let_def)
qed

section \<open>The queue interface\<close>

text \<open>
  A sequence of operations, run on a store by a given \<open>put\<close> and \<open>get\<close>, with the results of the
  removals; the same on a list; and the sequences in which no element is added that is queued
  already.
\<close>

datatype 'e fifo_op = Enq 'e | Deq

fun fifo_run :: "('s \<Rightarrow> 'e \<Rightarrow> 's) \<Rightarrow> ('s \<Rightarrow> 'e option \<times> 's) \<Rightarrow> 'e fifo_op list \<Rightarrow> 's \<Rightarrow> 'e option list \<times> 's" where
  "fifo_run put get [] s = ([], s)"
| "fifo_run put get (Enq e # ops) s = fifo_run put get ops (put s e)"
| "fifo_run put get (Deq # ops) s =
     (let (r, s) = get s; (rs, s) = fifo_run put get ops s in (r # rs, s))"

fun fifo_list :: "'e fifo_op list \<Rightarrow> 'e list \<Rightarrow> 'e option list \<times> 'e list" where
  "fifo_list [] xs = ([], xs)"
| "fifo_list (Enq e # ops) xs = fifo_list ops (xs @ [e])"
| "fifo_list (Deq # ops) xs =
     (let (rs, ys) = fifo_list ops (tl xs) in ((case xs of [] \<Rightarrow> None | x # _ \<Rightarrow> Some x) # rs, ys))"

fun fifo_ok :: "('e \<Rightarrow> bool) \<Rightarrow> 'e fifo_op list \<Rightarrow> 'e list \<Rightarrow> bool" where
  "fifo_ok ok [] xs \<longleftrightarrow> True"
| "fifo_ok ok (Enq e # ops) xs \<longleftrightarrow> ok e \<and> e \<notin> set xs \<and> fifo_ok ok ops (xs @ [e])"
| "fifo_ok ok (Deq # ops) xs \<longleftrightarrow> fifo_ok ok ops (tl xs)"

text \<open>
  What a client of a queue relies on: \<open>put\<close> appends, \<open>get\<close> removes the first element or
  reports emptiness. \<open>holds s xs\<close> relates a store to the list of the queue.
\<close>

locale fifo =
  fixes put :: "'s \<Rightarrow> 'e \<Rightarrow> 's"
    and get :: "'s \<Rightarrow> 'e option \<times> 's"
    and holds :: "'s \<Rightarrow> 'e list \<Rightarrow> bool"
    and ok :: "'e \<Rightarrow> bool"
  assumes put_holds: "holds s xs \<Longrightarrow> ok e \<Longrightarrow> e \<notin> set xs \<Longrightarrow> holds (put s e) (xs @ [e])"
    and get_nil: "holds s [] \<Longrightarrow> get s = (None, s)"
    and get_cons: "holds s (x # xs) \<Longrightarrow> \<exists>s'. get s = (Some x, s') \<and> holds s' xs"
    and holds_distinct: "holds s xs \<Longrightarrow> distinct xs"
begin

lemma puts_holds:
  "holds s xs \<Longrightarrow> distinct (xs @ es) \<Longrightarrow> (\<And>e. e \<in> set es \<Longrightarrow> ok e) \<Longrightarrow> holds (foldl put s es) (xs @ es)"
proof (induction es arbitrary: s xs)
  case Nil
  then show ?case by simp
next
  case (Cons e es)
  have "holds (put s e) (xs @ [e])" using Cons.prems by (intro put_holds) auto
  then have "holds (foldl put (put s e) es) ((xs @ [e]) @ es)"
    using Cons.prems by (intro Cons.IH) auto
  then show ?case by simp
qed

lemma get_some_iff: "holds s xs \<Longrightarrow> fst (get s) = None \<longleftrightarrow> xs = []"
  by (cases xs) (auto simp: get_nil dest: get_cons)

lemma get_holds: "holds s xs \<Longrightarrow> holds (snd (get s)) (tl xs)"
  by (cases xs) (auto simp: get_nil dest: get_cons)

lemma get_fst: "holds s xs \<Longrightarrow> fst (get s) = (case xs of [] \<Rightarrow> None | x # _ \<Rightarrow> Some x)"
  by (cases xs) (auto simp: get_nil dest: get_cons)

text \<open>Any sequence of operations gives the results and the contents of the list.\<close>

lemma run_refines:
  "holds s xs \<Longrightarrow> fifo_ok ok ops xs \<Longrightarrow>
   fst (fifo_run put get ops s) = fst (fifo_list ops xs) \<and>
   holds (snd (fifo_run put get ops s)) (snd (fifo_list ops xs))"
proof (induction ops arbitrary: s xs)
  case (Cons p ops)
  show ?case
  proof (cases p)
    case (Enq e)
    with Cons.prems have "holds (put s e) (xs @ [e])" by (auto intro: put_holds)
    from Cons.IH [OF this] Cons.prems Enq show ?thesis by simp
  next
    case Deq
    have "holds (snd (get s)) (tl xs)" using Cons.prems(1) by (rule get_holds)
    from Cons.IH [OF this] Cons.prems Deq get_fst [OF Cons.prems(1)] show ?thesis
      by (simp add: split_beta)
  qed
qed simp

lemma put_get_empty: "holds s [] \<Longrightarrow> ok e \<Longrightarrow> fst (get (put s e)) = Some e"
  using put_holds [of s "[]" e] by (auto dest: get_cons)

end

text \<open>The C queue with header \<open>qb\<close> provides the interface on elements other than the header.\<close>

interpretation cq: fifo "\<lambda>h e. q_enqueue h qb e" "\<lambda>h. q_deqnext h qb"
    "\<lambda>h xs. q_list h qb xs" "\<lambda>e. e \<noteq> qb" for qb
proof (unfold_locales, goal_cases)
  case (1 s xs e)
  then show ?case by (intro q_list_enqueue) auto
next
  case (2 s)
  then show ?case by (rule q_deqnext_empty)
next
  case (3 s x xs)
  then show ?case using q_deqnext_Cons [of s qb x xs] by blast
next
  case (4 s xs)
  then show ?case by (simp add: q_list_def)
qed


section \<open>Properties\<close>

text \<open>Unlinking any element of a queue, wherever it stands, leaves the queue of the other
  elements in their order, with count and position as the traversals of the code report them;
  the element is no longer found.\<close>
theorem queue_unlink_any:
  assumes "q_list h qb (xs @ e # ys)"
  shows "q_find h qb e = Some (int (length xs) + 1)
    \<and> q_list (q_dequeue h e) qb (xs @ ys)
    \<and> q_count (q_dequeue h e) qb = Some (int (length xs + length ys))
    \<and> q_find (q_dequeue h e) qb e = Some 0
    \<and> q_isempty (q_dequeue h e) qb = (xs @ ys = [])"
proof -
  have q: "q_list (q_dequeue h e) qb (xs @ ys)" using assms by (rule q_list_unlink)
  have "e \<notin> set (qb # xs @ ys)" using assms by (auto simp: q_list_def)
  with q q_find_position [OF assms] show ?thesis
    by (simp add: q_count_length q_find_none q_isempty_iff)
qed

definition heap0 :: qheap where "heap0 a = \<lparr>q_next = 0, q_prev = 0\<rparr>"

lemma queue_unlink_any_witness:
  "q_count (q_dequeue (q_enqueue (q_enqueue (q_init heap0 16) 16 32) 16 48) 32) 16 = Some 1"
proof -
  have "q_list (q_enqueue (q_enqueue (q_init heap0 16) 16 32) 16 48) 16 ([] @ 32 # [48])"
    using q_list_enqueue [OF q_list_enqueue [OF q_list_init, of 32 16 heap0], of 48] by simp
  from queue_unlink_any [OF this] show ?thesis by simp
qed

text \<open>Nodes that are neither in the queue nor added to it are never written.\<close>

lemma fifo_run_frame:
  "q_list h qb xs \<Longrightarrow> fifo_ok (\<lambda>e. e \<noteq> qb) ops xs \<Longrightarrow> y \<notin> set (qb # xs) \<Longrightarrow> Enq y \<notin> set ops \<Longrightarrow>
   snd (fifo_run (\<lambda>h e. q_enqueue h qb e) (\<lambda>h. q_deqnext h qb) ops h) y = h y"
proof (induction ops arbitrary: h xs)
  case (Cons p ops)
  show ?case
  proof (cases p)
    case (Enq e)
    have "q_list (q_enqueue h qb e) qb (xs @ [e])"
      using Cons.prems Enq by (intro q_list_enqueue) auto
    moreover have "q_enqueue h qb e y = h y"
      using Cons.prems Enq by (intro q_enqueue_frame) auto
    ultimately show ?thesis using Cons.IH [of "q_enqueue h qb e" "xs @ [e]"] Cons.prems Enq by auto
  next
    case Deq
    show ?thesis
    proof (cases xs)
      case Nil
      then show ?thesis using Cons Deq by (simp add: q_deqnext_empty split_beta)
    next
      case (Cons x zs)
      with Cons.prems Deq q_deqnext_Cons [of h qb x zs] q_dequeue_frame [of h qb "[]" x zs y]
      show ?thesis using Cons.IH [of "q_dequeue h x" zs] by (simp add: split_beta)
    qed
  qed
qed simp

text \<open>C10: The circular queue is a FIFO. Over any sequence of \<^verbatim>\<open>q_enqueue\<close> and \<^verbatim>\<open>q_deqnext\<close> on a queue,
  interleaved in any way, in which nothing is added that is queued already, every \<^verbatim>\<open>q_deqnext\<close>
  returns what the list of the elements gives (the oldest element left, or NULL when there is
  none); the store then holds the queue of exactly the elements left, in order, which \<^verbatim>\<open>q_count\<close>
  and \<^verbatim>\<open>q_isempty\<close> report; no other node of the store is written; and \<^verbatim>\<open>q_map\<close> then visits the
  elements left in order, each once, even when its callback unlinks some of them, and the others
  stay queued.\<close>
theorem queue_fifo_order:
  assumes "q_list h qb xs" "fifo_ok (\<lambda>e. e \<noteq> qb) ops xs"
    and "\<And>e h t. e \<noteq> qb \<Longrightarrow> func e a b (h, t) = (0, if keep e then h else q_dequeue h e, g e t)"
  defines "r \<equiv> fifo_run (\<lambda>h e. q_enqueue h qb e) (\<lambda>h. q_deqnext h qb) ops h"
    and "l \<equiv> fifo_list ops xs"
  shows "fst r = fst l \<and> q_list (snd r) qb (snd l)
    \<and> q_count (snd r) qb = Some (int (length (snd l))) \<and> (q_isempty (snd r) qb \<longleftrightarrow> snd l = [])
    \<and> (\<forall>y. y \<notin> set (qb # xs) \<longrightarrow> Enq y \<notin> set ops \<longrightarrow> snd r y = h y)
    \<and> (\<exists>h'. q_map qb func a b (snd r, t) = Some (0, h', fold g (snd l) t)
          \<and> q_list h' qb (filter keep (snd l)))"
proof -
  have r: "fst r = fst l" "q_list (snd r) qb (snd l)"
    using cq.run_refines [OF assms(1,2)] by (simp_all add: r_def l_def)
  then have "seg (snd r) qb (snd l) qb" by (simp add: q_list_def)
  with r(2) q_map_from_list [where func = func and a = a and b = b and keep = keep and g = g and qb = qb
      and ys = "[]" and xs = "snd l" and h = "snd r" and x = qb and t = t] assms(3)
  have "\<exists>h'. q_map qb func a b (snd r, t) = Some (0, h', fold g (snd l) t)
      \<and> q_list h' qb (filter keep (snd l))"
    by (simp add: q_map_def)
  moreover have "snd r y = h y" if "y \<notin> set (qb # xs)" "Enq y \<notin> set ops" for y
    unfolding r_def using assms(1,2) that by (rule fifo_run_frame)
  ultimately show ?thesis using r by (simp add: q_count_length q_isempty_iff)
qed

text \<open>A fresh queue: two elements in, three out (the last \<^verbatim>\<open>q_deqnext\<close> finds nothing), two in again;
  then a traversal that unlinks the element 64.\<close>

lemma queue_fifo_order_witness:
  "let r = fifo_run (\<lambda>h e. q_enqueue h 16 e) (\<lambda>h. q_deqnext h 16)
       [Enq 32, Enq 48, Deq, Deq, Deq, Enq 64, Enq 32] (q_init heap0 16)
   in fst r = [Some 32, Some 48, None] \<and> q_list (snd r) 16 [64, 32] \<and> snd r 80 = heap0 80 \<and>
      (\<exists>h'. q_map 16 (\<lambda>e a b (h, t). (0, if e \<noteq> 64 then h else q_dequeue h e, t @ [e])) 0 0 (snd r, [])
         = Some (0, h', [64, 32]) \<and> q_list h' 16 [32])"
  using queue_fifo_order [of "q_init heap0 16" 16 "[]" "[Enq 32, Enq 48, Deq, Deq, Deq, Enq 64, Enq 32]"
      "\<lambda>e a b (h, t). (0, if e \<noteq> 64 then h else q_dequeue h e, t @ [e])" 0 0 "\<lambda>e. e \<noteq> 64"
      "\<lambda>e t. t @ [e]" "[]", OF q_list_init]
  by (simp add: Let_def q_init_def set_next_def set_prev_def)

end
