(* ===== verification/Xprintf.thy ===== *)
theory Xprintf
  imports Prelude
begin

text \<open>
  Formatted console input and output, \<^verbatim>\<open>xprintf.c\<close>, in the configuration of \<^verbatim>\<open>xprintf.h\<close>: CR is
  put before LF, \<^verbatim>\<open>long long\<close> is off, input is echoed. \<^verbatim>\<open>long\<close> and \<^verbatim>\<open>int\<close> have 32 bits and \<^verbatim>\<open>char\<close> is
  signed on the target. A C string is the list of its bytes before the terminator, a variable
  argument a word or a string; the result \<open>None\<close> marks a call whose arguments do not fit its
  format, for which C promises nothing.
\<close>

section \<open>Output\<close>

text \<open>The destination: \<^verbatim>\<open>outptr\<close> points behind the bytes put so far (\<open>None\<close> for NULL),
  \<^verbatim>\<open>xfunc_out\<close> names the output function (\<open>0\<close> for NULL), whose calls are recorded.\<close>

record xio =
  outptr :: "u8 list option"
  xfunc_out :: addr
  x_sent :: "(addr \<times> u8) list"

function xputc :: "u8 \<Rightarrow> xio \<Rightarrow> xio" where
  "xputc c s =
     (let s = (if c = 0x0a then xputc 0x0d s else s)
      in case outptr s of
           Some b \<Rightarrow> s\<lparr>outptr := Some (b @ [c])\<rparr>
         | None \<Rightarrow> if xfunc_out s \<noteq> 0 then s\<lparr>x_sent := x_sent s @ [(xfunc_out s, c)]\<rparr> else s)"
  by pat_completeness auto
termination by (relation "measure (\<lambda>(c, s). if c = 0x0a then 1 else 0)") auto

declare xputc.simps [simp del]

fun xputs :: "u8 list \<Rightarrow> xio \<Rightarrow> xio" where
  "xputs [] s = s"
| "xputs (c # str) s = xputs str (xputc c s)"

definition xfputs :: "addr \<Rightarrow> u8 list \<Rightarrow> xio \<Rightarrow> xio" where
  "xfputs func str s =
     (let pf = xfunc_out s;
          s = s\<lparr>xfunc_out := func\<rparr>;
          s = xputs str s
      in s\<lparr>xfunc_out := pf\<rparr>)"

section \<open>Formatted output\<close>

datatype va_item = VInt u32 | VStr "u8 list"

text \<open>\<^verbatim>\<open>c = *fmt++\<close>\<close>

fun fmt_next :: "u8 list \<Rightarrow> u8 \<times> u8 list" where
  "fmt_next [] = (0, [])"
| "fmt_next (c # fmt) = (c, fmt)"

text \<open>The minimum width.\<close>

fun fmt_width :: "u32 \<Rightarrow> u8 \<Rightarrow> u8 list \<Rightarrow> u32 \<times> u8 \<times> u8 list" where
  "fmt_width w c [] = (if 0x30 \<le> c \<and> c \<le> 0x39 then (w * 10 + ucast c - 0x30, 0, []) else (w, c, []))"
| "fmt_width w c (c' # fmt) =
     (if 0x30 \<le> c \<and> c \<le> 0x39 then fmt_width (w * 10 + ucast c - 0x30) c' fmt else (w, c, c' # fmt))"

text \<open>The flags and the width after a per cent sign: flags, width, type character, rest.\<close>

definition fmt_spec :: "u8 list \<Rightarrow> u32 \<times> u32 \<times> u8 \<times> u8 list" where
  "fmt_spec fmt =
     (let f = 0;
          (c, fmt) = fmt_next fmt;
          (f, c, fmt) =
            (if c = 0x30 then (let (c, fmt) = fmt_next fmt in (1, c, fmt))
             else if c = 0x2d then (let (c, fmt) = fmt_next fmt in (2, c, fmt))
             else (f, c, fmt));
          (w, c, fmt) = fmt_width 0 c fmt;
          (f, c, fmt) =
            (if c = 0x6c \<or> c = 0x4c then (let (c, fmt) = fmt_next fmt in (f OR 4, c, fmt)) else (f, c, fmt))
      in (f, w, c, fmt))"

text \<open>\<^verbatim>\<open>while (j++ < w) xputc(d)\<close>\<close>

function pad_loop :: "u8 \<Rightarrow> u32 \<Rightarrow> u32 \<Rightarrow> xio \<Rightarrow> u32 \<times> xio" where
  "pad_loop d j w s = (if j < w then pad_loop d (j + 1) w (xputc d s) else (j + 1, s))"
  by pat_completeness auto
termination
  by (relation "measure (\<lambda>(d, j, w, s). unat w - unat j)")
    (auto simp: unat_plus_one word_less_nat_alt)

declare pad_loop.simps [simp del]

text \<open>The digits of a number, the lowest first, into the free part of the buffer of 24 bytes; \<open>c\<close> is
  the type character as written.\<close>

function num_digits :: "u8 \<Rightarrow> u32 \<Rightarrow> u32 \<Rightarrow> nat \<Rightarrow> u8 list" where
  "num_digits c r vs i =
     (let d = ucast (vs mod r) :: u8;
          vs = vs div r;
          d = (if 9 < d then d + (if c = 0x78 then 0x27 else 0x07) else d);
          i = i + 1
      in (d + 0x30) # (if vs \<noteq> 0 \<and> i < 24 then num_digits c r vs i else []))"
  by pat_completeness auto
termination by (relation "measure (\<lambda>(c, r, vs, i). 24 - i)") auto

declare num_digits.simps [simp del]

text \<open>The number \<open>v\<close> as \<^verbatim>\<open>s[0 .. i]\<close> and the flags.\<close>

definition num_text :: "u8 \<Rightarrow> u8 \<Rightarrow> u32 \<Rightarrow> u32 \<Rightarrow> u32 \<Rightarrow> u32 \<times> u8 list" where
  "num_text c d r f v =
     (let (f, v) = (if d = 0x44 \<and> sint v < 0 then (f OR 16, 0 - v) else (f, v));
          s = num_digits c r v 0
      in (f, if f AND 16 \<noteq> 0 then s @ [0x2d] else s))"

definition put_number :: "u8 \<Rightarrow> u8 \<Rightarrow> u32 \<Rightarrow> u32 \<Rightarrow> u32 \<Rightarrow> u32 \<Rightarrow> xio \<Rightarrow> xio" where
  "put_number c d r f w v s =
     (let (f, buf) = num_text c d r f v;
          j = of_nat (length buf);
          d = (if f AND 1 \<noteq> 0 then 0x30 else 0x20);
          (j, s) = (if f AND 2 = 0 then pad_loop d j w s else (j, s));
          s = xputs (rev buf) s
      in snd (pad_loop 0x20 j w s))"

definition put_string :: "u32 \<Rightarrow> u32 \<Rightarrow> u8 list \<Rightarrow> xio \<Rightarrow> xio" where
  "put_string f w p s =
     (let j = of_nat (length p);
          (j, s) = (if f AND 2 = 0 then pad_loop 0x20 j w s else (j, s));
          s = xputs p s
      in snd (pad_loop 0x20 j w s))"

definition conv_radix :: "u8 \<Rightarrow> u32" where
  "conv_radix d = (if d = 0x42 then 2 else if d = 0x4f then 8 else if d = 0x44 \<or> d = 0x55 then 10
                   else if d = 0x58 then 16 else 0)"

lemma fmt_width_length: "fmt_width w c fmt = (w', c', fmt') \<Longrightarrow> length fmt' \<le> length fmt"
  by (induction w c fmt rule: fmt_width.induct) (auto split: if_splits)

lemma fmt_spec_length: "fmt_spec fmt = (f, w, c, fmt') \<Longrightarrow> length fmt' \<le> length fmt"
  by (cases fmt) (auto simp: fmt_spec_def Let_def fmt_next.simps split: if_splits prod.splits
      dest!: fmt_width_length elim!: fmt_next.elims)

function xvprintf :: "u8 list \<Rightarrow> va_item list \<Rightarrow> xio \<Rightarrow> xio option" where
  "xvprintf [] arp s = Some s"
| "xvprintf (c # fmt) arp s =
     (if c \<noteq> 0x25 then xvprintf fmt arp (xputc c s)
      else let (f, w, c, fmt) = fmt_spec fmt
      in if c = 0 then Some s
      else let d = (if 0x61 \<le> c \<and> c < 0x80 then c - 0x20 else c)
      in if d = 0x53 then
           (case arp of VStr p # arp \<Rightarrow> xvprintf fmt arp (put_string f w p s) | _ \<Rightarrow> None)
         else if d = 0x43 then
           (case arp of VInt v # arp \<Rightarrow> xvprintf fmt arp (xputc (ucast v) s) | _ \<Rightarrow> None)
         else if conv_radix d = 0 then xvprintf fmt arp (xputc c s)
         else (case arp of VInt v # arp \<Rightarrow>
                 xvprintf fmt arp (put_number c d (conv_radix d) f w v s) | _ \<Rightarrow> None))"
  by pat_completeness auto
termination
  by (relation "measure (\<lambda>(fmt, arp, s). length fmt)") (auto intro!: le_imp_less_Suc elim!: fmt_spec_length [OF sym])

declare xvprintf.simps(2) [simp del]

definition xprintf :: "u8 list \<Rightarrow> va_item list \<Rightarrow> xio \<Rightarrow> xio option" where
  "xprintf fmt arp s = xvprintf fmt arp s"

text \<open>\<^verbatim>\<open>xsprintf\<close> returns the bytes put at \<^verbatim>\<open>buff\<close>, the terminator included.\<close>

definition xsprintf :: "u8 list \<Rightarrow> va_item list \<Rightarrow> xio \<Rightarrow> (u8 list \<times> xio) option" where
  "xsprintf fmt arp s =
     (case xvprintf fmt arp (s\<lparr>outptr := Some []\<rparr>) of
        None \<Rightarrow> None
      | Some s \<Rightarrow> Some (the (outptr s) @ [0], s\<lparr>outptr := None\<rparr>))"

definition xfprintf :: "addr \<Rightarrow> u8 list \<Rightarrow> va_item list \<Rightarrow> xio \<Rightarrow> xio option" where
  "xfprintf func fmt arp s =
     (let pf = xfunc_out s
      in case xvprintf fmt arp (s\<lparr>xfunc_out := func\<rparr>) of
           None \<Rightarrow> None
         | Some s \<Rightarrow> Some (s\<lparr>xfunc_out := pf\<rparr>))"

text \<open>The dump of \<^verbatim>\<open>len\<close> items at \<^verbatim>\<open>buff\<close>, by the size of the items. The loops over shorts and longs
  test their counter at the end, so a length below one leads out of any object and is \<open>None\<close>.\<close>

definition DW_CHAR :: int where "DW_CHAR = 1"
definition DW_SHORT :: int where "DW_SHORT = 2"
definition DW_LONG :: int where "DW_LONG = 4"

fun dump_items :: "u8 list \<Rightarrow> u32 list \<Rightarrow> xio \<Rightarrow> xio option" where
  "dump_items fmt [] s = Some s"
| "dump_items fmt (v # vs) s =
     (case xprintf fmt [VInt v] s of None \<Rightarrow> None | Some s \<Rightarrow> dump_items fmt vs s)"

definition put_dump :: "(addr \<Rightarrow> u8) \<Rightarrow> addr \<Rightarrow> u32 \<Rightarrow> int \<Rightarrow> int \<Rightarrow> xio \<Rightarrow> xio option" where
  "put_dump mem buff addr len width s =
     (case xprintf [0x25, 0x30, 0x38, 0x6c, 0x58, 0x20] [VInt addr] s of
        None \<Rightarrow> None
      | Some s \<Rightarrow>
         case (if width = DW_CHAR then
                 (case dump_items [0x20, 0x25, 0x30, 0x32, 0x58]
                         (map (\<lambda>i. ucast (mem (buff + of_nat i))) [0..<nat len]) s of
                    None \<Rightarrow> None
                  | Some s \<Rightarrow>
                      Some (xputs (map (\<lambda>i. let b = mem (buff + of_nat i)
                                            in if 0x20 \<le> b \<and> b \<le> 0x7e then b else 0x2e) [0..<nat len])
                              (xputc 0x20 s)))
               else if width = DW_SHORT then
                 (if len < 1 then None
                  else dump_items [0x20, 0x25, 0x30, 0x34, 0x58]
                         (map (\<lambda>i. let a = buff + 2 * of_nat i
                                   in ucast (mem a) OR push_bit 8 (ucast (mem (a + 1)))) [0..<nat len]) s)
               else if width = DW_LONG then
                 (if len < 1 then None
                  else dump_items [0x20, 0x25, 0x30, 0x38, 0x4c, 0x58]
                         (map (\<lambda>i. mem32 mem (buff + 4 * of_nat i)) [0..<nat len]) s)
               else Some s) of
           None \<Rightarrow> None
         | Some s \<Rightarrow> Some (xputc 0x0a s))"

section \<open>Input\<close>

text \<open>The characters the input function will return, and 0 after them. A line: the result, the
  buffer and the input left. The caller's buffer has at least \<^verbatim>\<open>len\<close> bytes.\<close>

fun xgets_loop :: "int \<Rightarrow> nat \<Rightarrow> u8 list \<Rightarrow> u8 list \<Rightarrow> xio \<Rightarrow> int \<times> u8 list \<times> u8 list \<times> xio" where
  "xgets_loop len i buff [] s = (0, buff, [], s)"
| "xgets_loop len i buff (c # inp) s =
     (if c = 0 then (0, buff, inp, s)
      else if c = 0x0d then (1, buff[i := 0], inp, xputc 0x0a s)
      else if c = 0x08 \<and> i \<noteq> 0 then xgets_loop len (i - 1) buff inp (xputc c s)
      else if 0x20 \<le> c \<and> int i < len - 1 then xgets_loop len (i + 1) (buff[i := c]) inp (xputc c s)
      else xgets_loop len i buff inp s)"

text \<open>\<^verbatim>\<open>None\<close> as the input is \<^verbatim>\<open>xfunc_in\<close> not set.\<close>

definition xgets :: "u8 list \<Rightarrow> int \<Rightarrow> u8 list option \<Rightarrow> xio \<Rightarrow> int \<times> u8 list \<times> u8 list option \<times> xio" where
  "xgets buff len inp s =
     (case inp of None \<Rightarrow> (0, buff, None, s)
      | Some inp \<Rightarrow> (let (r, buff, inp, s) = xgets_loop len 0 buff inp s in (r, buff, Some inp, s)))"

text \<open>\<^verbatim>\<open>xfgets\<close> returns what is left of its own input and keeps \<^verbatim>\<open>xfunc_in\<close>.\<close>

definition xfgets ::
  "u8 list option \<Rightarrow> u8 list \<Rightarrow> int \<Rightarrow> u8 list option \<Rightarrow> xio
     \<Rightarrow> int \<times> u8 list \<times> u8 list option \<times> u8 list option \<times> xio" where
  "xfgets func buff len inp s =
     (let pf = inp;
          (n, buff, left, s) = xgets buff len func s
      in (n, buff, left, pf, s))"

text \<open>
  The value of a string, which is what is left from the pointer on: \<^verbatim>\<open>**str\<close> is \<open>cur str\<close> and
  \<^verbatim>\<open>*(++( *str))\<close> that of the tail. The digits first, then the function: the result, the value and
  the new pointer.
\<close>

abbreviation cur :: "u8 list \<Rightarrow> u8" where
  "cur str \<equiv> fst (fmt_next str)"

fun atoi_loop :: "u8 \<Rightarrow> u32 \<Rightarrow> u8 list \<Rightarrow> u32 option \<times> u8 list" where
  "atoi_loop r val [] = (Some val, [])"
| "atoi_loop r val (c # str) =
     (if c \<le> 0x20 then (Some val, c # str)
      else let d = (if 0x61 \<le> c then c - 0x20 else c) - 0x30;
               e = (if 17 \<le> d then d - 7 else d)
      in if 17 \<le> d \<and> e \<le> 9 then (None, c # str)
         else if r \<le> e then (None, c # str)
         else atoi_loop r (val * ucast r + ucast e) str)"

text \<open>The radix prefix: failure, a single zero, or the radix and the first digit's place.\<close>

datatype radix_result = Bad_char | Single_zero | Radix u8

definition atoi_radix :: "u8 list \<Rightarrow> radix_result \<times> u8 list" where
  "atoi_radix str =
     (if cur str = 0x30 then
        let str = tl str; c = cur str
        in if c = 0x78 then (Radix 16, tl str)
           else if c = 0x62 then (Radix 2, tl str)
           else if c \<le> 0x20 then (Single_zero, str)
           else if c < 0x30 \<or> 0x39 < c then (Bad_char, str)
           else (Radix 8, str)
      else if cur str < 0x30 \<or> 0x39 < cur str then (Bad_char, str)
      else (Radix 10, str))"

definition xatoi :: "u8 list \<Rightarrow> int \<times> u32 \<times> u8 list" where
  "xatoi str =
     (let res = 0;
          str = dropWhile (\<lambda>c. c = 0x20) str;
          neg = (cur str = 0x2d);
          str = (if neg then tl str else str)
      in case atoi_radix str of
           (Bad_char, str) \<Rightarrow> (0, res, str)
         | (Single_zero, str) \<Rightarrow> (1, res, str)
         | (Radix r, str) \<Rightarrow>
             (case atoi_loop r 0 str of
                (None, str) \<Rightarrow> (0, res, str)
              | (Some val, str) \<Rightarrow> (1, if neg then 0 - val else val, str)))"

section \<open>What is sent\<close>

text \<open>The bytes of a string on the line, and sending bytes to the current destination.\<close>

definition crlf :: "u8 list \<Rightarrow> u8 list" where
  "crlf str = concat (map (\<lambda>c. if c = 0x0a then [0x0d, 0x0a] else [c]) str)"

definition x_emit :: "u8 list \<Rightarrow> xio \<Rightarrow> xio" where
  "x_emit bs s =
     (case outptr s of
        Some b \<Rightarrow> s\<lparr>outptr := Some (b @ bs)\<rparr>
      | None \<Rightarrow> if xfunc_out s \<noteq> 0 then s\<lparr>x_sent := x_sent s @ map (Pair (xfunc_out s)) bs\<rparr> else s)"

named_theorems x_simps "evaluation of the console output"

lemma crlf_simps [x_simps]:
  "crlf [] = []" "crlf (a @ b) = crlf a @ crlf b"
  by (simp_all add: crlf_def)

lemma crlf_plain: "0x0a \<notin> set p \<Longrightarrow> crlf p = p"
  by (induction p) (auto simp: crlf_def)

lemma x_emit_Nil [x_simps]: "x_emit [] s = s"
  by (auto simp: x_emit_def split: option.splits)

lemma x_emit_emit [x_simps]: "x_emit b (x_emit a s) = x_emit (a @ b) s"
  by (auto simp: x_emit_def split: option.splits)

lemma xputc_emit: "xputc c s = x_emit (crlf [c]) s"
  by (auto simp: xputc.simps [of c] xputc.simps [of 13] x_emit_def crlf_def split: option.splits)

lemma xputs_emit: "xputs p s = x_emit (crlf p) s"
  by (induction p arbitrary: s) (auto simp: crlf_def xputc_emit x_simps)

lemma x_emit_func: "xfunc_out (x_emit bs s) = xfunc_out s"
  by (auto simp: x_emit_def split: option.splits)

text \<open>Padding, as a number of characters.\<close>

definition x_pads :: "u8 \<Rightarrow> nat \<Rightarrow> u8 list" where
  "x_pads d n = replicate n d"

lemma pad_loop_emit:
  assumes "d \<noteq> 0x0a"
  shows "pad_loop d j w s = ((if j < w then w else j) + 1, x_emit (x_pads d (unat w - unat j)) s)"
  using assms
proof (induction d j w s rule: pad_loop.induct)
  case (1 d j w s)
  show ?case
  proof (cases "j < w")
    case True
    then have j: "unat (j + 1) = unat j + 1" by (rule unat_plus_one)
    have n: "unat w - unat j = Suc (unat w - unat (j + 1))" using True j by (simp add: word_less_nat_alt)
    have "j + 1 < w \<or> j + 1 = w" using True j by (auto simp: word_less_nat_alt word_unat_eq_iff)
    then show ?thesis using 1 True n
      by (subst pad_loop.simps) (auto simp: xputc_emit crlf_plain x_simps x_pads_def)
  next
    case False
    then show ?thesis by (subst pad_loop.simps) (simp add: x_pads_def x_simps word_less_nat_alt)
  qed
qed

text \<open>A field: the text, padded to its width on the left or on the right.\<close>

definition x_field :: "u32 \<Rightarrow> u32 \<Rightarrow> u8 \<Rightarrow> u8 list \<Rightarrow> u8 list" where
  "x_field f w d t =
     (let n = unat w - length t
      in if f AND 2 \<noteq> 0 then t @ x_pads 0x20 n else x_pads d n @ t)"

text \<open>Both padding loops around a text, as \<^verbatim>\<open>xvprintf\<close> has them.\<close>

lemma pad_field:
  assumes "w \<noteq> - 1" "length t + 1 < 2 ^ 32" "d \<noteq> 0x0a"
  shows "(let (j, s) = (if f AND 2 = 0 then pad_loop d (of_nat (length t)) w s
                        else (of_nat (length t), s))
          in snd (pad_loop 0x20 j w (x_emit t s))) = x_emit (x_field f w d t) s"
proof -
  let ?j = "of_nat (length t) :: u32"
  have j: "unat ?j = length t" using assms(2) by (simp add: unat_of_nat take_bit_nat_eq_self)
  have "\<not> (if ?j < w then w else ?j) + 1 < w"
  proof -
    have "w < - 1" using assms(1) by (metis word_order.not_eq_extremum)
    then have "unat (w + 1) = unat w + 1" by (rule unat_plus_one)
    moreover have "unat (?j + 1) = unat ?j + 1"
      using assms(2) j by (simp add: unat_word_ariths)
    ultimately show ?thesis by (auto simp: word_less_nat_alt)
  qed
  then show ?thesis
    by (auto simp: x_field_def pad_loop_emit assms(3) j x_simps x_pads_def word_less_nat_alt Let_def)
qed

section \<open>Digits\<close>

definition digit_char :: "u8 \<Rightarrow> u32 \<Rightarrow> u8" where
  "digit_char c d = (let d = ucast d :: u8 in (if 9 < d then d + (if c = 0x78 then 0x27 else 0x07) else d) + 0x30)"

lemma num_digits_rec:
  "num_digits c r vs i = digit_char c (vs mod r) #
     (if vs div r \<noteq> 0 \<and> i + 1 < 24 then num_digits c r (vs div r) (i + 1) else [])"
  by (subst num_digits.simps) (simp add: digit_char_def Let_def)

lemma below_16: "(d :: u32) < 16 \<Longrightarrow> d \<in> {0, 1, 2, 3, 4, 5, 6, 7, 8, 9, 10, 11, 12, 13, 14, 15}"
proof -
  assume "d < 16"
  then have "unat d < 16" by (simp add: word_less_nat_alt)
  then have "unat d = 0 \<or> unat d = 1 \<or> unat d = 2 \<or> unat d = 3 \<or> unat d = 4 \<or> unat d = 5
      \<or> unat d = 6 \<or> unat d = 7 \<or> unat d = 8 \<or> unat d = 9 \<or> unat d = 10 \<or> unat d = 11
      \<or> unat d = 12 \<or> unat d = 13 \<or> unat d = 14 \<or> unat d = 15" by presburger
  then show ?thesis by (elim disjE) (drule arg_cong [where f = "of_nat :: nat \<Rightarrow> u32"], simp)+
qed

lemma not_17_1: "\<not> (17 :: u8) \<le> 1"
  by (simp add: word_le_nat_alt)

text \<open>What \<^verbatim>\<open>xatoi\<close> makes of a digit.\<close>

lemma digit_decode:
  fixes c :: u8
  assumes "d < 16"
  defines "x \<equiv> digit_char c d"
  defines "y \<equiv> (if 0x61 \<le> x then x - 0x20 else x) - 0x30"
  shows "\<not> x \<le> 0x20 \<and> \<not> (17 \<le> y \<and> (if 17 \<le> y then y - 7 else y) \<le> 9)
    \<and> (if 17 \<le> y then y - 7 else y) = ucast d"
proof (cases "c = 0x78")
  case True
  show ?thesis
    unfolding y_def x_def digit_char_def True using below_16 [OF assms(1)] not_17_1
    by (elim insertE emptyE) simp_all
next
  case False
  then have "x = (let d = ucast d :: u8 in (if 9 < d then d + 7 else d) + 0x30)"
    by (simp add: x_def digit_char_def)
  then show ?thesis
    unfolding y_def using below_16 [OF assms(1)] not_17_1 by (elim insertE emptyE) simp_all
qed

lemma digit_char_visible: "d < 16 \<Longrightarrow> 0x20 < digit_char c d"
  using digit_decode by (simp add: not_le)

lemma atoi_digit:
  assumes "d < 16" "d < ucast r"
  shows "atoi_loop r val (digit_char c d # str) = atoi_loop r (val * ucast r + d) str"
proof -
  have u: "ucast (ucast d :: u8) = d"
    using below_16 [OF assms(1)] by (elim insertE emptyE) simp_all
  have "unat (ucast d :: u8) = unat d"
    using below_16 [OF assms(1)] by (elim insertE emptyE) simp_all
  moreover have "unat d < unat r" using assms(2) by (simp add: word_less_nat_alt)
  ultimately have r: "\<not> r \<le> ucast d" by (simp add: word_le_nat_alt)
  define y where "y = (if 0x61 \<le> digit_char c d then digit_char c d - 0x20 else digit_char c d) - 0x30"
  have "\<not> digit_char c d \<le> 0x20 \<and> \<not> (17 \<le> y \<and> (if 17 \<le> y then y - 7 else y) \<le> 9)
      \<and> (if 17 \<le> y then y - 7 else y) = ucast d"
    unfolding y_def by (rule digit_decode [OF assms(1)])
  then have "\<not> digit_char c d \<le> 0x20" "\<not> (17 \<le> y \<and> ucast d \<le> (9 :: u8))"
    "(if 17 \<le> y then y - 7 else y) = ucast d" by auto
  then show ?thesis
    using r u by (subst atoi_loop.simps(2)) (simp only: Let_def y_def [symmetric] if_False)
qed

declare atoi_loop.simps(2) [simp del]

text \<open>Read back, the digits give the number, when they fit the buffer.\<close>

lemma atoi_num_digits:
  assumes "unat vs < unat r ^ (24 - i)" "2 \<le> r" "r \<le> 16" "i < 24"
  shows "atoi_loop r 0 (rev (num_digits c (ucast r) vs i) @ rest) = atoi_loop r vs rest"
  using assms
proof (induction "24 - i" arbitrary: i vs rest)
  case (Suc k)
  let ?r = "ucast r :: u32"
  have d: "vs mod ?r < 16" "vs mod ?r < ?r"
  proof -
    show "vs mod ?r < ?r" using Suc.prems(2) by (simp add: word_less_nat_alt word_le_nat_alt unat_mod)
    then show "vs mod ?r < 16" using Suc.prems(3) by (simp add: word_less_nat_alt word_le_nat_alt)
  qed
  have v: "vs div ?r * ?r + vs mod ?r = vs" by (rule word_mod_div_equality)
  show ?case
  proof (cases "vs div ?r = 0")
    case True
    then have "vs mod ?r = vs" using v by simp
    then show ?thesis
      using True d Suc.prems(3) by (subst num_digits_rec) (simp add: atoi_digit)
  next
    case False
    have p: "unat vs div unat r < unat r ^ k"
    proof -
      have "unat vs < unat r ^ k * unat r" using Suc.prems(1) Suc.hyps(2) by (metis power_Suc mult.commute)
      then show ?thesis by (simp add: less_mult_imp_div_less)
    qed
    have k: "0 < k"
    proof (rule ccontr)
      assume "\<not> 0 < k"
      then have "unat (vs div ?r) = 0" using p by (simp add: unat_div)
      then show False using False by (simp add: unat_eq_zero)
    qed
    then have "i + 1 < 24" "24 - (i + 1) = k" using Suc.hyps(2) by auto
    then show ?thesis
      using False d Suc.prems(2, 3) Suc.hyps(1) [of "i + 1" "vs div ?r"] p v
      by (subst num_digits_rec) (simp add: atoi_digit unat_div)
  qed
qed simp

text \<open>The length of a number, its characters, and its first one.\<close>

lemma num_digits_length: "length (num_digits c r vs i) \<le> max 1 (24 - i)"
proof (induction "24 - i" arbitrary: i vs)
  case 0
  then show ?case by (subst num_digits_rec) simp
next
  case (Suc k)
  have "24 - (i + 1) = k" using Suc.hyps(2) by simp
  then show ?case
    using Suc.hyps(1) [of "i + 1" "vs div r"] by (subst num_digits_rec) auto
qed

lemma num_digits_fit:
  fixes r :: u8
  assumes "unat vs < unat r ^ Suc k"
  shows "length (num_digits c (ucast r) vs i) \<le> Suc k"
  using assms
proof (induction k arbitrary: vs i)
  case 0
  then have "vs div ucast r = 0" by (simp add: word_unat_eq_iff unat_div)
  then show ?case by (subst num_digits_rec) simp
next
  case (Suc k)
  have "unat vs < unat r ^ Suc k * unat r" using Suc.prems by (simp add: ac_simps)
  then have "unat vs div unat r < unat r ^ Suc k" by (rule less_mult_imp_div_less)
  then have "length (num_digits c (ucast r) (vs div ucast r) (i + 1)) \<le> Suc k"
    by (intro Suc.IH) (simp add: unat_div)
  then show ?case by (subst num_digits_rec) simp
qed

lemma mod_radix: "2 \<le> r \<Longrightarrow> r \<le> 16 \<Longrightarrow> vs mod r < 16" for r :: u32
  by (simp add: word_less_nat_alt word_le_nat_alt unat_mod)
    (meson le_less_trans less_le_trans mod_less_divisor not_less zero_less_numeral order_less_le_trans)

lemma num_digits_visible:
  assumes "2 \<le> r" "r \<le> 16"
  shows "x \<in> set (num_digits c r vs i) \<Longrightarrow> 0x20 < x"
proof (induction "24 - i" arbitrary: i vs rule: less_induct)
  case less
  then show ?case
    using digit_char_visible [OF mod_radix [OF assms], of c vs] less.hyps [of "i + 1" "vs div r"]
    by (subst (asm) num_digits_rec) (auto split: if_splits)
qed

lemma num_text_props:
  assumes "2 \<le> r" "r \<le> 16" "num_text c d r f v = (f', buf)"
  shows "crlf (rev buf) = rev buf" "length buf \<le> 25"
proof -
  have "set buf \<subseteq> insert 0x2d (set (num_digits c r v 0) \<union> set (num_digits c r (- v) 0))"
    "length buf \<le> 25"
    using assms(3) num_digits_length [of c r v 0] num_digits_length [of c r "- v" 0]
    by (auto simp: num_text_def Let_def split: if_splits)
  moreover from this have v: "0x20 < x" if "x \<in> set buf" for x
    using that num_digits_visible [OF assms(1,2)] by (auto simp: word_less_nat_alt)
  have "0x0a \<notin> set buf" using v [of "0x0a"] by auto
  ultimately show "crlf (rev buf) = rev buf" "length buf \<le> 25"
    by (auto intro!: crlf_plain)
qed

text \<open>Numbers and strings come out as padded fields.\<close>

lemma put_number_emit:
  assumes "2 \<le> r" "r \<le> 16" "w \<noteq> - 1" "num_text c d r f v = (f', buf)"
  shows "put_number c d r f w v s =
    x_emit (x_field f' w (if f' AND 1 \<noteq> 0 then 0x30 else 0x20) (rev buf)) s"
proof -
  note t = num_text_props [OF assms(1,2,4)]
  let ?e = "if f' AND 1 \<noteq> 0 then 0x30 else 0x20 :: u8"
  have "put_number c d r f w v s =
      (let (j, s) = (if f' AND 2 = 0 then pad_loop ?e (of_nat (length (rev buf))) w s
                     else (of_nat (length (rev buf)), s))
       in snd (pad_loop 0x20 j w (x_emit (rev buf) s)))"
    by (simp only: put_number_def assms(4) Let_def prod.case xputs_emit t(1) length_rev)
  also have "\<dots> = x_emit (x_field f' w ?e (rev buf)) s"
    using t(2) by (intro pad_field assms(3)) auto
  finally show ?thesis .
qed

lemma put_string_emit:
  assumes "w \<noteq> - 1" "length p + 1 < 2 ^ 32" "0x0a \<notin> set p"
  shows "put_string f w p s = x_emit (x_field f w 0x20 p) s"
proof -
  have "put_string f w p s =
      (let (j, s) = (if f AND 2 = 0 then pad_loop 0x20 (of_nat (length p)) w s
                     else (of_nat (length p), s))
       in snd (pad_loop 0x20 j w (x_emit p s)))"
    by (simp only: put_string_def Let_def xputs_emit crlf_plain [OF assms(3)])
  also have "\<dots> = x_emit (x_field f w 0x20 p) s" by (intro pad_field assms) auto
  finally show ?thesis .
qed

text \<open>One conversion at the end of a format.\<close>

lemma xvprintf_number:
  assumes "fmt_spec spec = (f, w, c, [])" "d = (if 0x61 \<le> c \<and> c < 0x80 then c - 0x20 else c)"
    "conv_radix d \<noteq> 0" "w \<noteq> - 1" "num_text c d (conv_radix d) f v = (f', buf)"
  shows "xvprintf (0x25 # spec) [VInt v] s =
    Some (x_emit (x_field f' w (if f' AND 1 \<noteq> 0 then 0x30 else 0x20) (rev buf)) s)"
proof -
  have d: "d \<noteq> 0x53" "d \<noteq> 0x43" "c \<noteq> 0" using assms(2,3) by (auto simp: conv_radix_def)
  have r: "2 \<le> conv_radix d" "conv_radix d \<le> 16"
    using assms(3) by (auto simp: conv_radix_def split: if_splits)
  show ?thesis
    using d assms(3) put_number_emit [OF r assms(4,5)]
    by (subst xvprintf.simps(2)) (simp add: assms(1) Let_def flip: assms(2))
qed

text \<open>The text of a decimal and of a hexadecimal number.\<close>

lemma atoi_decimal: "atoi_loop 10 0 (rev (num_digits c 10 v 0) @ rest) = atoi_loop 10 v rest"
  using atoi_num_digits [of v 10 0 c rest] unsigned_less [where ?'a = nat and 'b = 32, of v] by simp

lemma atoi_hex: "atoi_loop 16 0 (rev (num_digits c 16 v 0) @ rest) = atoi_loop 16 v rest"
  using atoi_num_digits [of v 16 0 c rest] unsigned_less [where ?'a = nat and 'b = 32, of v] by simp

lemma num_digits_first:
  assumes "unat vs < 10 ^ (24 - i)" "i < 24"
  shows "\<exists>d. last (num_digits c 10 vs i) = digit_char c d \<and> d < 10 \<and> (vs \<noteq> 0 \<longrightarrow> d \<noteq> 0)"
  using assms
proof (induction "24 - i" arbitrary: i vs)
  case (Suc k)
  have m: "vs mod 10 < 10" by (simp add: word_less_nat_alt unat_mod)
  show ?case
  proof (cases "vs div 10 = 0 \<or> \<not> i + 1 < 24")
    case True
    have "vs mod 10 = 0 \<longrightarrow> vs = 0"
    proof (cases "vs div 10 = 0")
      case True
      then show ?thesis using word_mod_div_equality [of vs 10] by simp
    next
      case False
      then have "k = 0" using True Suc.hyps(2) by simp
      then have "unat vs < 10" using Suc.prems(1) Suc.hyps(2) by (simp flip: Suc.hyps(2))
      then show ?thesis by (simp add: word_unat_eq_iff unat_mod)
    qed
    then show ?thesis using True m by (subst num_digits_rec) auto
  next
    case False
    have "unat vs < 10 ^ k * 10" using Suc.prems(1) Suc.hyps(2) by (metis power_Suc2)
    moreover have "24 - (i + 1) = k" using Suc.hyps(2) by simp
    ultimately have "unat (vs div 10) < 10 ^ (24 - (i + 1))" by (simp add: unat_div less_mult_imp_div_less)
    then have "\<exists>d. last (num_digits c 10 (vs div 10) (i + 1)) = digit_char c d \<and> d < 10
        \<and> (vs div 10 \<noteq> 0 \<longrightarrow> d \<noteq> 0)"
      using False Suc.hyps(2) by (intro Suc.hyps(1)) auto
    moreover have "num_digits c 10 (vs div 10) (i + 1) \<noteq> []" by (subst num_digits_rec) simp
    ultimately show ?thesis using False by (subst num_digits_rec) auto
  qed
qed simp

lemma decimal_text:
  fixes c :: u8
  defines "t v \<equiv> rev (num_digits c 10 v 0)"
  shows "\<exists>x r. t v = x # r \<and> x \<noteq> 0x20 \<and> x \<noteq> 0x2d \<and> (v = 0 \<longrightarrow> t v = [0x30])
    \<and> (v \<noteq> 0 \<longrightarrow> atoi_radix (t v) = (Radix 10, t v))"
proof -
  have "unat v < 10 ^ (24 - 0)" using unsigned_less [where ?'a = nat and 'b = 32, of v] by simp
  from num_digits_first [OF this, of c] obtain d
    where d: "last (num_digits c 10 v 0) = digit_char c d" "d < 10" "v \<noteq> 0 \<longrightarrow> d \<noteq> 0" by auto
  have "num_digits c 10 v 0 \<noteq> []" by (subst num_digits_rec) simp
  then have t: "t v = digit_char c d # tl (t v)"
    by (metis d(1) hd_rev list.collapse rev_is_Nil_conv t_def)
  have "d < 16" using d(2) by (simp add: word_less_nat_alt)
  then have "digit_char c d = ucast d + 0x30" "d \<in> {0, 1, 2, 3, 4, 5, 6, 7, 8, 9}"
    using d(2) below_16 [of d] by (auto simp: digit_char_def)
  then have x: "digit_char c d \<noteq> 0x20" "digit_char c d \<noteq> 0x2d" "0x30 \<le> digit_char c d"
    "digit_char c d \<le> 0x39" "d \<noteq> 0 \<Longrightarrow> digit_char c d \<noteq> 0x30" by auto
  have "t v = [0x30]" if "v = 0"
    using that by (simp add: t_def num_digits_rec [of c 10 0] digit_char_def)
  moreover have "atoi_radix (t v) = (Radix 10, t v)" if "v \<noteq> 0"
    using x that d(3) by (subst (1 2) t) (simp add: atoi_radix_def not_less)
  ultimately show ?thesis using t x by blast
qed

lemma skip_blanks: "\<forall>x \<in> set pre. x = 0x20 \<Longrightarrow> dropWhile (\<lambda>c. c = 0x20) (pre @ t) = dropWhile (\<lambda>c. c = 0x20) t"
  by (induction pre) auto

lemma xatoi_digits:
  assumes "\<forall>x \<in> set pre. x = 0x20"
  shows "xatoi (pre @ rev (num_digits c 10 v 0)) = (1, v, [])"
    and "v \<noteq> 0 \<Longrightarrow> xatoi (pre @ 0x2d # rev (num_digits c 10 v 0)) = (1, - v, [])"
proof -
  let ?t = "rev (num_digits c 10 v 0)"
  obtain x r where t: "?t = x # r" "x \<noteq> 0x20" "x \<noteq> 0x2d" "v = 0 \<longrightarrow> ?t = [0x30]"
    "v \<noteq> 0 \<longrightarrow> atoi_radix ?t = (Radix 10, ?t)"
    using decimal_text [of c v] by blast
  have l: "atoi_loop 10 0 ?t = (Some v, [])" using atoi_decimal [of c v "[]"] by simp
  have w: "dropWhile (\<lambda>c. c = 0x20) (pre @ ?t) = ?t" "cur ?t \<noteq> 0x2d"
    using t by (simp_all add: skip_blanks [OF assms])
  show "xatoi (pre @ ?t) = (1, v, [])"
    using w t(4,5) l by (cases "v = 0") (simp_all add: xatoi_def atoi_radix_def)
  assume "v \<noteq> 0"
  then show "xatoi (pre @ 0x2d # ?t) = (1, - v, [])"
    using t(5) l by (simp add: xatoi_def skip_blanks [OF assms])
qed

lemma x_emit_mem: "x_emit b (s\<lparr>outptr := Some a\<rparr>) = s\<lparr>outptr := Some (a @ b)\<rparr>"
  by (simp add: x_emit_def)

lemma xsprintf_decimal:
  assumes "w \<noteq> - 1" "fmt_spec spec = (0, w, 0x64, [])"
  shows "\<exists>out. xsprintf (0x25 # spec) [VInt v] s = Some (out @ [0], s\<lparr>outptr := None\<rparr>)
    \<and> xatoi out = (1, v, []) \<and> unat w \<le> length out"
proof -
  obtain f buf where n: "num_text 0x64 0x44 10 0 v = (f, buf)" by fastforce
  have f: "f AND 2 = 0" "f AND 1 = 0"
    and b: "buf = (if sint v < 0 then num_digits 0x64 10 (- v) 0 @ [0x2d] else num_digits 0x64 10 v 0)"
    using n by (auto simp: num_text_def split: if_splits)
  let ?out = "x_pads 0x20 (unat w - length buf) @ rev buf"
  have "xatoi ?out = (1, v, [])"
    using xatoi_digits(1) [of "x_pads 0x20 (unat w - length buf)" "0x64" v]
      xatoi_digits(2) [of "x_pads 0x20 (unat w - length buf)" "- v" "0x64"]
    by (cases "v = 0"; cases "sint v < 0") (auto simp: b x_pads_def)
  moreover have "xvprintf (0x25 # spec) [VInt v] (s\<lparr>outptr := Some []\<rparr>) = Some (s\<lparr>outptr := Some ?out\<rparr>)"
    using xvprintf_number [OF assms(2) refl, of v f buf] n assms(1) f
    by (simp add: conv_radix_def x_emit_mem x_field_def)
  ultimately show ?thesis by (intro exI [of _ ?out]) (simp add: xsprintf_def x_pads_def)
qed

lemma atoi_zeros: "atoi_loop 16 0 (x_pads 0x30 n @ str) = atoi_loop 16 0 str"
proof (induction n)
  case (Suc n)
  then show ?case using atoi_digit [of 0 16 0 0] by (simp add: x_pads_def digit_char_def)
qed (simp add: x_pads_def)

lemma xsprintf_hex:
  assumes "w \<noteq> - 1" "fmt_spec spec = (1, w, 0x78, [])"
  shows "\<exists>out. xsprintf (0x30 # 0x78 # 0x25 # spec) [VInt v] s = Some (out @ [0], s\<lparr>outptr := None\<rparr>)
    \<and> xatoi out = (1, v, []) \<and> unat w + 2 \<le> length out"
proof -
  let ?buf = "num_digits 0x78 16 v 0"
  have n: "num_text 0x78 0x58 16 1 v = (1, ?buf)" by (simp add: num_text_def)
  let ?out = "0x30 # 0x78 # x_pads 0x30 (unat w - length ?buf) @ rev ?buf"
  have "xatoi ?out = (1, v, [])"
    using atoi_hex [of "0x78" v "[]"] by (simp add: xatoi_def atoi_radix_def atoi_zeros)
  moreover have "xvprintf (0x30 # 0x78 # 0x25 # spec) [VInt v] (s\<lparr>outptr := Some []\<rparr>)
      = Some (s\<lparr>outptr := Some ?out\<rparr>)"
    using xvprintf_number [OF assms(2) refl, of v 1 ?buf] n assms(1)
    by (simp add: xvprintf.simps(2) [of "0x30"] xvprintf.simps(2) [of "0x78"] xputc_emit crlf_plain
        conv_radix_def x_emit_mem x_field_def)
  ultimately show ?thesis by (intro exI [of _ ?out]) (simp add: xsprintf_def x_pads_def)
qed

text \<open>C29: Numbers written with \<^verbatim>\<open>%d\<close>, blank padded to any width, and with \<^verbatim>\<open>0x%x\<close>, zero padded to
  any width, read back with \<^verbatim>\<open>xatoi\<close> to the same 32-bit value, negative ones and the smallest one
  included. (A width of 2 to the 32 minus 1 wraps the padding counter.)\<close>
theorem xsprintf_xatoi:
  assumes "w \<noteq> - 1" "fmt_spec dec = (0, w, 0x64, [])" "fmt_spec hex = (1, w, 0x78, [])"
  shows "(\<exists>out. xsprintf (0x25 # dec) [VInt v] s = Some (out @ [0], s\<lparr>outptr := None\<rparr>)
        \<and> xatoi out = (1, v, []) \<and> unat w \<le> length out)
    \<and> (\<exists>out. xsprintf (0x30 # 0x78 # 0x25 # hex) [VInt v] s = Some (out @ [0], s\<lparr>outptr := None\<rparr>)
        \<and> xatoi out = (1, v, []) \<and> unat w + 2 \<le> length out)"
  using xsprintf_decimal [OF assms(1,2)] xsprintf_hex [OF assms(1,3)] by simp

definition xio0 :: xio where
  "xio0 = \<lparr>outptr = None, xfunc_out = 0xbfc00000, x_sent = []\<rparr>"

lemma xsprintf_xatoi_witness:
  "(\<exists>out. xsprintf [0x25, 0x36, 0x64] [VInt (- 42)] xio0 = Some (out @ [0], xio0)
      \<and> xatoi out = (1, - 42, []) \<and> 6 \<le> length out)
    \<and> (\<exists>out. xsprintf [0x30, 0x78, 0x25, 0x30, 0x36, 0x78] [VInt (- 42)] xio0 = Some (out @ [0], xio0)
      \<and> xatoi out = (1, - 42, []) \<and> 8 \<le> length out)"
  using xsprintf_xatoi [of 6 "[0x36, 0x64]" "[0x30, 0x36, 0x78]" "- 42" xio0]
  by (simp add: fmt_spec_def xio0_def)

text \<open>\<^verbatim>\<open>xatoi\<close> takes the characters between the digits and the letters for hexadecimal digits: the
  test that should reject them compares with 17 where their codes end at 16.\<close>
theorem xatoi_accepts_colon:
  "\<forall>c \<in> {0x3a, 0x3b, 0x3c, 0x3d, 0x3e, 0x3f}. xatoi [0x30, 0x78, c] = (1, ucast c - 0x30, [])"
  by (simp add: xatoi_def atoi_radix_def atoi_loop.simps)

lemma xatoi_accepts_colon_witness:
  "xatoi [0x30, 0x78, 0x3a] = (1, 10, [])"
  using xatoi_accepts_colon by simp

section \<open>Line input\<close>

lemma xgets_loop_bounds:
  assumes "xgets_loop len i buff inp s = (r, buff', inp', s')" "int i \<le> len - 1" "len \<le> int (length buff)"
  shows "length buff' = length buff \<and> drop (nat len) buff' = drop (nat len) buff
    \<and> (r = 1 \<longrightarrow> 0 \<in> set (take (nat len) buff'))"
  using assms
proof (induction len i buff inp s rule: xgets_loop.induct)
  case (2 len i buff c inp s)
  have i: "i < length buff" "i < nat len" using "2.prems"(2,3) by auto
  then have "take (nat len) (buff[i := 0]) ! i = 0" "i < length (take (nat len) (buff[i := 0]))" by auto
  then have z: "0 \<in> set (take (nat len) (buff[i := 0]))" by (metis nth_mem)
  show ?case
    using 2 i z by (auto split: if_splits)
qed auto

text \<open>C30: A line never leaves its buffer: whatever the input, \<^verbatim>\<open>xgets\<close> changes only the first
  \<^verbatim>\<open>len\<close> bytes, and when it returns 1 the terminator is among them.\<close>
theorem xgets_stays_in_buffer:
  assumes "xgets buff len inp s = (r, buff', inp', s')" "1 \<le> len" "len \<le> int (length buff)"
  shows "length buff' = length buff \<and> drop (nat len) buff' = drop (nat len) buff
    \<and> (r = 1 \<longrightarrow> 0 \<in> set (take (nat len) buff'))"
  using assms xgets_loop_bounds [of len 0 buff "the inp" s]
  by (auto simp: xgets_def split: option.splits prod.splits)

lemma xgets_stays_in_buffer_witness:
  "\<exists>inp' s'. xgets [1, 2, 3, 4] 3 (Some [0x41, 0x42, 0x43, 0x08, 0x0d]) xio0 = (1, [0x41, 0, 3, 4], inp', s')
    \<and> 0 \<in> set (take 3 [0x41, 0, 3, 4 :: u8])"
proof -
  obtain r b i s where x: "xgets [1, 2, 3, 4] 3 (Some [0x41, 0x42, 0x43, 0x08, 0x0d]) xio0 = (r, b, i, s)"
    by (metis prod.exhaust)
  have "r = 1 \<and> b = [0x41, 0, 3, 4]" using x by (auto simp: xgets_def)
  then show ?thesis using x xgets_stays_in_buffer [OF x] by auto
qed

end
