(* ===== verification/Exc.thy ===== *)
theory Exc
  imports CpuIrq LibQueue Xprintf
begin

text \<open>
  Exceptions: the stack of blocks that catch them (\<^verbatim>\<open>cfe/lib_try.c\<close>), the handler and the vectors in
  low memory (\<^verbatim>\<open>cfe/exchandler.c\<close>), and the assembly routines of \<^verbatim>\<open>cfe/exception.S\<close> they use. The
  instructions put at the vectors are executed by the small part of a MIPS processor they need. The
  caches are not modelled: a word of low memory is the same through both kernel windows.
\<close>

section \<open>State\<close>

text \<open>A block is known by its address, which is also that of its links; \<^verbatim>\<open>exc_handler.jmpbuf_stack\<close> is
  at the address \<open>stk\<close>. Memory given back is recorded.\<close>

record exc = machine +
  lowmem :: "addr \<Rightarrow> u32"
  exc_q :: qheap
  catch_exc :: int
  kfreed :: "addr list"
  con :: xio

section \<open>Blocks that catch exceptions\<close>

definition EXC_NORMAL_RETURN :: int where "EXC_NORMAL_RETURN = 0"
definition EXC_CHAIN_EXC :: int where "EXC_CHAIN_EXC = 1"

definition exc_init :: "addr \<Rightarrow> 'a exc_scheme \<Rightarrow> 'a exc_scheme" where
  "exc_init stk s = s\<lparr>catch_exc := 0, exc_q := q_init (exc_q s) stk\<rparr>"

text \<open>\<open>mallocf n\<close> is what the allocator answers to a request of \<open>n\<close> bytes. The macro \<^verbatim>\<open>KMALLOC(x,y)\<close>
  of this file multiplies the size by the alignment, which is zero here.\<close>

definition JMPBUF_SIZE :: u32 where "JMPBUF_SIZE = 8 + 11 * 8"

definition exc_initialize_block :: "(u32 \<Rightarrow> addr) \<Rightarrow> addr \<Rightarrow> 'a exc_scheme \<Rightarrow> addr \<times> 'a exc_scheme" where
  "exc_initialize_block mallocf stk s =
     (let s = s\<lparr>catch_exc := 1\<rparr>;
          p = mallocf (JMPBUF_SIZE * 0)
      in if p = NULL then (NULL, s) else (p, s\<lparr>exc_q := q_enqueue (exc_q s) stk p\<rparr>))"

text \<open>\<open>None\<close> if the count of the stack does not return.\<close>

definition exc_cleanup_block :: "addr \<Rightarrow> addr \<Rightarrow> 'a exc_scheme \<Rightarrow> 'a exc_scheme option" where
  "exc_cleanup_block stk dq_jmpbuf s =
     (if dq_jmpbuf = NULL then Some s
      else case q_count (exc_q s) stk of None \<Rightarrow> None
        | Some count \<Rightarrow>
            if 0 < count
            then Some (s\<lparr>exc_q := q_dequeue (exc_q s) dq_jmpbuf, kfreed := kfreed s @ [dq_jmpbuf]\<rparr>)
            else Some s)"

text \<open>The block jumped to, or \<open>None\<close> if the routine returns.\<close>

definition exc_longjmp_handler :: "addr \<Rightarrow> 'a exc_scheme \<Rightarrow> addr option option" where
  "exc_longjmp_handler stk s =
     (case q_count (exc_q s) stk of None \<Rightarrow> None
      | Some count \<Rightarrow> Some (if 0 < count then Some (q_getlast (exc_q s) stk) else None))"

definition exc_cleanup_handler ::
  "addr \<Rightarrow> addr \<Rightarrow> int \<Rightarrow> 'a exc_scheme \<Rightarrow> (addr option \<times> 'a exc_scheme) option" where
  "exc_cleanup_handler stk dq_jmpbuf chain_exc s =
     (case exc_cleanup_block stk dq_jmpbuf s of None \<Rightarrow> None
      | Some s \<Rightarrow>
          if chain_exc = EXC_CHAIN_EXC
          then (case exc_longjmp_handler stk s of None \<Rightarrow> None | Some j \<Rightarrow> Some (j, s))
          else Some (None, s))"

section \<open>The exception handler\<close>

definition XCP0_CAUSE :: nat where "XCP0_CAUSE = 1"
definition XCP0_EPC :: nat where "XCP0_EPC = 2"
definition XCP0_VADDR :: nat where "XCP0_VADDR = 3"
definition XGR_ZERO :: nat where "XGR_ZERO = 8"
definition XGR_RA :: nat where "XGR_RA = 8 + 31"

definition S_CAUSE_EXC :: nat where "S_CAUSE_EXC = 2"
definition M_CAUSE_EXC :: u32 where "M_CAUSE_EXC = MAKEMASK 5 S_CAUSE_EXC"
definition G_CAUSE_EXC :: "u32 \<Rightarrow> u32" where "G_CAUSE_EXC x = GETVALUE x S_CAUSE_EXC M_CAUSE_EXC"

definition regnames :: "string list" where
  "regnames = [''0 '', ''AT'', ''v0'', ''v1'', ''a0'', ''a1'', ''a2'', ''a3'', ''t0'', ''t1'', ''t2'', ''t3'',
     ''t4'', ''t5'', ''t6'', ''t7'', ''s0'', ''s1'', ''s2'', ''s3'', ''s4'', ''s5'', ''s6'', ''s7'', ''t8'',
     ''t9'', ''k0'', ''k1'', ''gp'', ''sp'', ''fp'', ''ra'']"

definition excnames :: "string list" where
  "excnames = [''Interrupt'', ''TLBMod'', ''TLBMissRd'', ''TLBMissWr'', ''AddrErrRd'', ''AddrErrWr'',
     ''BusErrI'', ''BusErrD'', ''Syscall'', ''Breakpt'', ''InvOpcode'', ''CoProcUnu'', ''ArithOvfl'',
     ''TrapExc'', ''VCEI'', ''FPUExc'', ''CP2Exc'', ''Exc17'', ''Exc18'', ''Exc19'', ''Exc20'', ''Exc21'',
     ''Exc22'', ''Watchpt'', ''Exc24'', ''Exc25'', ''Exc26'', ''Exc27'', ''Exc28'', ''Exc29'', ''Exc30'', ''VCED'']"

definition exc_clear_sr_exl :: "'a exc_scheme \<Rightarrow> 'a exc_scheme" where
  "exc_clear_sr_exl s = s\<lparr>cp0_sr := cp0_sr s AND NOT 0x02\<rparr>"

definition exc_clear_sr_erl :: "'a exc_scheme \<Rightarrow> 'a exc_scheme" where
  "exc_clear_sr_erl s = s\<lparr>cp0_sr := cp0_sr s AND NOT 0x04\<rparr>"

text \<open>Console output of the handler; \<open>None\<close> for arguments that do not fit their format.\<close>

definition say :: "u8 list \<Rightarrow> va_item list \<Rightarrow> 'a exc_scheme \<Rightarrow> 'a exc_scheme option" where
  "say fmt arp s = (case xprintf fmt arp (con s) of None \<Rightarrow> None | Some x \<Rightarrow> Some (s\<lparr>con := x\<rparr>))"

definition exc_fmt :: "u8 list" where
  "exc_fmt = ascii ''**Exception %d: EPC=%08X, Cause=%08X (%s)'' @ [0x0a]"

definition ra_fmt :: "u8 list" where
  "ra_fmt = ascii ''                RA=%08X, VAddr=%08X'' @ [0x0a]"

definition reg_fmt :: "u8 list" where
  "reg_fmt = ascii ''        %s ($%2d) = %08X     %s ($%2d) = %08X'' @ [0x0a]"

text \<open>Two registers per line.\<close>

fun dump_regs :: "nat list \<Rightarrow> u32 list \<Rightarrow> 'a exc_scheme \<Rightarrow> 'a exc_scheme option" where
  "dump_regs [] info s = Some s"
| "dump_regs (idx # rest) info s =
     (case say reg_fmt
             [VStr (ascii (regnames ! idx)), VInt (of_nat idx), VInt (info ! (XGR_ZERO + idx)),
              VStr (ascii (regnames ! (idx + 1))), VInt (of_nat (idx + 1)), VInt (info ! (XGR_ZERO + idx + 1))] s of
        None \<Rightarrow> None
      | Some s \<Rightarrow> dump_regs rest info s)"

text \<open>How the handler ends: with a jump to a block, or with the restart at the boot address.\<close>

datatype exc_end = Longjmp addr | Exc_restart

definition exc_report :: "u32 \<Rightarrow> u32 list \<Rightarrow> 'a exc_scheme \<Rightarrow> (exc_end \<times> 'a exc_scheme) option" where
  "exc_report code info s =
     (case say exc_fmt
             [VInt code, VInt (info ! XCP0_EPC), VInt (info ! XCP0_CAUSE),
              VStr (ascii (excnames ! unat (G_CAUSE_EXC (info ! XCP0_CAUSE))))] s of
        None \<Rightarrow> None
      | Some s \<Rightarrow>
      case say ra_fmt
             [VInt (info ! XGR_RA), VInt (info ! XCP0_VADDR)] s of
        None \<Rightarrow> None
      | Some s \<Rightarrow>
      case say [0x0a] [] s of
        None \<Rightarrow> None
      | Some s \<Rightarrow>
      case dump_regs (map (\<lambda>i. 2 * i) [0..<16]) info s of
        None \<Rightarrow> None
      | Some s \<Rightarrow>
      case say [0x0a] [] s of
        None \<Rightarrow> None
      | Some s \<Rightarrow> Some (Exc_restart, s))"

definition cfe_exception :: "addr \<Rightarrow> u32 \<Rightarrow> u32 list \<Rightarrow> 'a exc_scheme \<Rightarrow> (exc_end \<times> 'a exc_scheme) option" where
  "cfe_exception stk code info s =
     (if catch_exc s = 1 then
        (let s = exc_clear_sr_exl s;
             s = exc_clear_sr_erl s;
             s = s\<lparr>catch_exc := 0\<rparr>
         in case exc_longjmp_handler stk s of None \<Rightarrow> None
            | Some (Some j) \<Rightarrow> Some (Longjmp j, s)
            | Some None \<Rightarrow> exc_report code info s)
      else exc_report code info s)"

section \<open>Vectors\<close>

definition XTYPE_TLBFILL :: u32 where "XTYPE_TLBFILL = 8"
definition XTYPE_XTLBFILL :: u32 where "XTYPE_XTLBFILL = 16"
definition XTYPE_CACHEERR :: u32 where "XTYPE_CACHEERR = 24"
definition XTYPE_EXCEPTION :: u32 where "XTYPE_EXCEPTION = 32"
definition XTYPE_EJTAG :: u32 where "XTYPE_EJTAG = 48"

definition MIPS_RAM_VEC_TLBFILL :: u32 where "MIPS_RAM_VEC_TLBFILL = 0x0000"
definition MIPS_RAM_VEC_XTLBFILL :: u32 where "MIPS_RAM_VEC_XTLBFILL = 0x0080"
definition MIPS_RAM_VEC_EXCEPTION :: u32 where "MIPS_RAM_VEC_EXCEPTION = 0x0180"
definition MIPS_RAM_VEC_INTERRUPT :: u32 where "MIPS_RAM_VEC_INTERRUPT = 0x0200"
definition MIPS_RAM_VEC_CACHEERR :: u32 where "MIPS_RAM_VEC_CACHEERR = 0x0100"
definition MIPS_RAM_VEC_END :: nat where "MIPS_RAM_VEC_END = 0x0300"

definition CFE_LOCORE_GLOBAL_GP :: u32 where "CFE_LOCORE_GLOBAL_GP = 0x0040"
definition CFE_LOCORE_GLOBAL_K0TMP :: u32 where "CFE_LOCORE_GLOBAL_K0TMP = 0x0050"
definition CFE_LOCORE_GLOBAL_K1TMP :: u32 where "CFE_LOCORE_GLOBAL_K1TMP = 0x0058"
definition CFE_LOCORE_GLOBAL_RATMP :: u32 where "CFE_LOCORE_GLOBAL_RATMP = 0x0060"
definition CFE_LOCORE_GLOBAL_GPTMP :: u32 where "CFE_LOCORE_GLOBAL_GPTMP = 0x0068"
definition CFE_LOCORE_GLOBAL_CERRH :: u32 where "CFE_LOCORE_GLOBAL_CERRH = 0x0070"

definition M_SR_BEV :: u32 where "M_SR_BEV = MAKEMASK1 22"
definition CPUCFG_CERRHANDLER :: u32 where "CPUCFG_CERRHANDLER = 0xBFC00000"

lemmas vec_defs = MIPS_RAM_VEC_TLBFILL_def MIPS_RAM_VEC_XTLBFILL_def MIPS_RAM_VEC_EXCEPTION_def
  MIPS_RAM_VEC_INTERRUPT_def MIPS_RAM_VEC_CACHEERR_def CFE_LOCORE_GLOBAL_GP_def
  CFE_LOCORE_GLOBAL_K0TMP_def CFE_LOCORE_GLOBAL_K1TMP_def CFE_LOCORE_GLOBAL_RATMP_def
  CFE_LOCORE_GLOBAL_GPTMP_def CFE_LOCORE_GLOBAL_CERRH_def
lemmas xtype_defs = XTYPE_TLBFILL_def XTYPE_XTLBFILL_def XTYPE_CACHEERR_def XTYPE_EXCEPTION_def
  XTYPE_EJTAG_def XTYPE_INTERRUPT_def

text \<open>A word of memory through a kernel window.\<close>

definition ram_write :: "addr \<Rightarrow> u32 \<Rightarrow> 'a exc_scheme \<Rightarrow> 'a exc_scheme" where
  "ram_write va v s = s\<lparr>lowmem := (lowmem s)(K0_TO_PHYS va := v)\<rparr>"

text \<open>The four instructions of a vector: \<^verbatim>\<open>lui k1\<close>, \<^verbatim>\<open>addiu k1,k1\<close>, \<^verbatim>\<open>jr k1\<close>, \<^verbatim>\<open>li k0\<close>.\<close>

definition exc_setup_hw_vector :: "u32 \<Rightarrow> addr \<Rightarrow> u32 \<Rightarrow> 'a exc_scheme \<Rightarrow> 'a exc_scheme" where
  "exc_setup_hw_vector vecoffset target k0code s =
     (let new = target;
          lower = new AND 0xffff;
          upper = drop_bit 16 new AND 0xffff;
          upper = (if lower AND 0x8000 \<noteq> 0 then upper + 1 else upper);
          vec = PHYS_TO_K0 vecoffset;
          s = ram_write vec (0x3c1b0000 OR upper) s;
          s = ram_write (vec + 4) (0x277b0000 OR lower) s;
          s = ram_write (vec + 8) 0x03600008 s
      in ram_write (vec + 12) (0x241a0000 OR k0code) s)"

text \<open>The words of \<^verbatim>\<open>_exc_cerr_template\<close> as the assembler makes them: \<^verbatim>\<open>sw\<close> and \<^verbatim>\<open>lw\<close> of a register
  at an offset from \<^verbatim>\<open>zero\<close>, \<^verbatim>\<open>jalr k0\<close>, \<^verbatim>\<open>nop\<close> and \<^verbatim>\<open>eret\<close>. Registers 26, 27, 28, 31 are \<^verbatim>\<open>k0\<close>,
  \<^verbatim>\<open>k1\<close>, \<^verbatim>\<open>gp\<close>, \<^verbatim>\<open>ra\<close>.\<close>

definition asm_sw :: "u32 \<Rightarrow> u32 \<Rightarrow> u32" where "asm_sw rt off = 0xac000000 OR push_bit 16 rt OR off"
definition asm_lw :: "u32 \<Rightarrow> u32 \<Rightarrow> u32" where "asm_lw rt off = 0x8c000000 OR push_bit 16 rt OR off"

definition exc_cerr_template :: "u32 list" where
  "exc_cerr_template =
     [asm_sw 26 CFE_LOCORE_GLOBAL_K0TMP, asm_sw 27 CFE_LOCORE_GLOBAL_K1TMP,
      asm_sw 31 CFE_LOCORE_GLOBAL_RATMP, asm_sw 28 CFE_LOCORE_GLOBAL_GPTMP,
      asm_lw 26 CFE_LOCORE_GLOBAL_CERRH, 0x0340f809, 0,
      asm_lw 26 CFE_LOCORE_GLOBAL_K0TMP, asm_lw 27 CFE_LOCORE_GLOBAL_K1TMP,
      asm_lw 31 CFE_LOCORE_GLOBAL_RATMP, asm_lw 28 CFE_LOCORE_GLOBAL_GPTMP, 0x42000018]"

fun copy_words :: "addr \<Rightarrow> u32 list \<Rightarrow> 'a exc_scheme \<Rightarrow> 'a exc_scheme" where
  "copy_words t0 [] s = s"
| "copy_words t0 (w # ws) s = copy_words (t0 + 4) ws (ram_write t0 w s)"

text \<open>\<open>gp\<close> is the register when the routine is called. All is written uncached and once more cached.\<close>

definition exc_setup_locore :: "u32 \<Rightarrow> addr \<Rightarrow> 'a exc_scheme \<Rightarrow> 'a exc_scheme" where
  "exc_setup_locore gp cerrh s =
     (let s = ram_write (PHYS_TO_K1 CFE_LOCORE_GLOBAL_GP) gp s;
          a0 = K0_TO_PHYS cerrh OR 0xa0000000;
          s = ram_write (PHYS_TO_K1 CFE_LOCORE_GLOBAL_CERRH) a0 s;
          s = copy_words (PHYS_TO_K1 MIPS_RAM_VEC_CACHEERR) exc_cerr_template s;
          s = ram_write (PHYS_TO_K0 CFE_LOCORE_GLOBAL_GP) gp s;
          s = ram_write (PHYS_TO_K0 CFE_LOCORE_GLOBAL_CERRH) a0 s
      in copy_words (PHYS_TO_K0 MIPS_RAM_VEC_CACHEERR) exc_cerr_template s)"

text \<open>The header \<^verbatim>\<open>cfe.h\<close> defines \<^verbatim>\<open>cfe_flushcache\<close> away. \<open>tlbh\<close> and \<open>entry\<close> are the addresses of
  \<^verbatim>\<open>bcmcore_tlbhandler\<close> and \<^verbatim>\<open>_exc_entry\<close>.\<close>

definition exc_install_ram_vectors :: "u32 \<Rightarrow> addr \<Rightarrow> addr \<Rightarrow> 'a exc_scheme \<Rightarrow> 'a exc_scheme" where
  "exc_install_ram_vectors gp tlbh entry s =
     (let s = copy_words (PHYS_TO_K0 0) (replicate (MIPS_RAM_VEC_END div 4) 0) s;
          s = exc_setup_hw_vector MIPS_RAM_VEC_TLBFILL tlbh XTYPE_TLBFILL s;
          s = exc_setup_hw_vector MIPS_RAM_VEC_XTLBFILL entry XTYPE_XTLBFILL s;
          s = exc_setup_hw_vector MIPS_RAM_VEC_CACHEERR entry XTYPE_CACHEERR s;
          s = exc_setup_hw_vector MIPS_RAM_VEC_EXCEPTION entry XTYPE_EXCEPTION s;
          s = exc_setup_hw_vector MIPS_RAM_VEC_INTERRUPT entry XTYPE_INTERRUPT s;
          s = exc_setup_locore gp CPUCFG_CERRHANDLER s
      in s\<lparr>cp0_sr := cp0_sr s AND NOT M_SR_BEV\<rparr>)"

definition cfe_setup_exceptions :: "addr \<Rightarrow> u32 \<Rightarrow> addr \<Rightarrow> addr \<Rightarrow> 'a exc_scheme \<Rightarrow> 'a exc_scheme" where
  "cfe_setup_exceptions stk gp tlbh entry s =
     (let s = exc_setvector XTYPE_TLBFILL Cfe_exception s;
          s = exc_setvector XTYPE_XTLBFILL Cfe_exception s;
          s = exc_setvector XTYPE_CACHEERR Exc_cache_crash_sim s;
          s = exc_setvector XTYPE_EXCEPTION Cfe_exception s;
          s = exc_setvector XTYPE_INTERRUPT Cfe_exception s;
          s = exc_setvector XTYPE_EJTAG Cfe_exception s;
          s = exc_init stk s
      in exc_install_ram_vectors gp tlbh entry s)"

text \<open>The handler \<^verbatim>\<open>_exc_entry\<close> calls: the code in \<^verbatim>\<open>k0\<close> becomes an index of the table of vectors.\<close>

definition exc_entry_handler :: "u32 \<Rightarrow> 'a exc_scheme \<Rightarrow> exc_target option" where
  "exc_entry_handler k0 s = exc_vectors s (push_bit 3 (drop_bit 3 k0))"

section \<open>A processor for the vectors\<close>

text \<open>Program counter, that of the instruction after (for the delay slot), registers, memory by
  physical address, and whether \<^verbatim>\<open>eret\<close> has been reached.\<close>

record cpu =
  pc :: addr
  npc :: addr
  gpr :: "nat \<Rightarrow> u32"
  cmem :: "addr \<Rightarrow> u32"
  eret_done :: bool

definition sext16 :: "u32 \<Rightarrow> u32" where
  "sext16 w = (if w AND 0x8000 \<noteq> 0 then (w AND 0xffff) - 0x10000 else w AND 0xffff)"

definition cpu_step :: "cpu \<Rightarrow> cpu" where
  "cpu_step c =
     (let w = cmem c (K0_TO_PHYS (pc c));
          op = drop_bit 26 w;
          rs = unat (drop_bit 21 w AND 31);
          rt = unat (drop_bit 16 w AND 31);
          rd = unat (drop_bit 11 w AND 31);
          imm = w AND 0xffff;
          c' = c\<lparr>pc := npc c, npc := npc c + 4\<rparr>
      in if op = 15 then c'\<lparr>gpr := (gpr c)(rt := push_bit 16 imm)\<rparr>
         else if op = 9 then c'\<lparr>gpr := (gpr c)(rt := gpr c rs + sext16 w)\<rparr>
         else if op = 35 then c'\<lparr>gpr := (gpr c)(rt := cmem c (K0_TO_PHYS (gpr c rs + sext16 w)))\<rparr>
         else if op = 43 then c'\<lparr>cmem := (cmem c)(K0_TO_PHYS (gpr c rs + sext16 w) := gpr c rt)\<rparr>
         else if op = 0 \<and> w AND 63 = 8 then c'\<lparr>npc := gpr c rs\<rparr>
         else if op = 0 \<and> w AND 63 = 9 then c'\<lparr>npc := gpr c rs, gpr := (gpr c)(rd := pc c + 8)\<rparr>
         else if w = 0x42000018 then c'\<lparr>eret_done := True\<rparr>
         else c')"

section \<open>A vector jumps to its target\<close>

lemma low16:
  assumes "(u :: u32) < 0x10000"
  shows "u AND 0xffff = u" "16 \<le> n \<Longrightarrow> drop_bit n u = 0"
proof -
  have l: "unat u < 65536" using assms by (simp add: word_less_nat_alt)
  have m: "(0xffff :: u32) = mask 16" by (simp add: mask_eq_exp_minus_1)
  show "u AND 0xffff = u"
    by (rule word_unat_eq_iff [THEN iffD2])
      (use l in \<open>simp add: m unsigned_take_bit_eq take_bit_nat_eq_self flip: take_bit_eq_mask\<close>)
  assume "16 \<le> n"
  then have "unat u < 2 ^ n"
    using l power_increasing [of 16 n "2 :: nat"] by simp
  then show "drop_bit n u = 0"
    by (intro word_unat_eq_iff [THEN iffD2]) (simp only: unat_drop_bit_eq drop_bit_nat_def div_less unat_0)
qed

lemma instr_fields:
  assumes "(u :: u32) < 0x10000" "c AND 0xffff = 0"
  shows "16 \<le> n \<Longrightarrow> drop_bit n (c OR u) = drop_bit n c" "(c OR u) AND 0xffff = u"
    "(c OR u) AND 0x8000 = u AND 0x8000"
proof -
  show "16 \<le> n \<Longrightarrow> drop_bit n (c OR u) = drop_bit n c" using low16(2) [OF assms(1)] by simp
  have "(c OR u) AND 0xffff = (c AND 0xffff) OR (u AND 0xffff)" by (rule bit.conj_disj_distrib2)
  then show 1: "(c OR u) AND 0xffff = u" using assms(2) low16(1) [OF assms(1)] by simp
  have "(c OR u) AND 0x8000 = ((c OR u) AND 0xffff) AND 0x8000" by (simp add: and.assoc)
  then show "(c OR u) AND 0x8000 = u AND 0x8000" by (simp only: 1)
qed

text \<open>The two halves of the target, the upper one adjusted for the sign extension of the lower.\<close>

lemma lui_addiu:
  fixes new :: u32
  defines "lo \<equiv> new AND 0xffff" and "hi \<equiv> drop_bit 16 new AND 0xffff"
  defines "up \<equiv> (if lo AND 0x8000 \<noteq> 0 then hi + 1 else hi)"
  shows "push_bit 16 (up AND 0xffff) + sext16 (0x277b0000 OR lo) = new"
    and "lo < 0x10000" and "up < 0x10000 \<or> up = 0x10000"
proof -
  have m: "(0xffff :: u32) = mask 16" by (simp add: mask_eq_exp_minus_1)
  show lo: "lo < 0x10000"
    by (simp add: lo_def m word_less_nat_alt unsigned_take_bit_eq flip: take_bit_eq_mask)
      (simp add: take_bit_eq_mod)
  have hi: "hi < 0x10000" "hi = drop_bit 16 new"
  proof -
    have "unat (drop_bit 16 new) < 65536"
      using unsigned_less [where ?'a = nat and 'b = 32, of new]
      unfolding unat_drop_bit_eq by (simp add: drop_bit_nat_def less_mult_imp_div_less)
    then have "drop_bit 16 new < 0x10000" by (simp add: word_less_nat_alt)
    then show "hi < 0x10000" "hi = drop_bit 16 new" using low16(1) by (simp_all add: hi_def)
  qed
  then have "unat hi + 1 \<le> 65536" by (simp add: word_less_nat_alt)
  moreover from this have "unat (hi + 1) = unat hi + 1" by (simp add: unat_word_ariths)
  ultimately show "up < 0x10000 \<or> up = 0x10000"
    using hi(1) by (auto simp: up_def word_less_nat_alt word_unat_eq_iff le_less)
  have new: "hi * 0x10000 + lo = new"
    using div_mult_mod_eq [of new "2 ^ 16"]
    by (simp add: hi(2) lo_def m drop_bit_eq_div flip: take_bit_eq_mask add: take_bit_eq_mod)
  have shift: "push_bit 16 (v AND 0xffff) = v * 0x10000" for v :: u32
  proof -
    have "push_bit 16 (v AND 0xffff) = push_bit 16 v"
      unfolding m by (rule bit_word_eqI) (auto simp: bit_push_bit_iff bit_and_iff bit_mask_iff)
    then show ?thesis by (simp add: push_bit_eq_mult mult.commute)
  qed
  show "push_bit 16 (up AND 0xffff) + sext16 (0x277b0000 OR lo) = new"
    using new by (auto simp: shift sext16_def instr_fields [OF lo] up_def algebra_simps simp del: push_bit_and)
qed

lemma instr_parts:
  assumes "(u :: u32) < 0x10000" "c AND 0xffff = 0"
  shows "drop_bit 26 (c OR u) = drop_bit 26 c" "drop_bit 21 (c OR u) = drop_bit 21 c"
    "drop_bit 16 (c OR u) = drop_bit 16 c" "(c OR u) AND 0xffff = u" "(c OR u) AND 0x8000 = u AND 0x8000"
  by (rule instr_fields [OF assms], simp)+ (rule instr_fields [OF assms])+

lemma step_lui:
  assumes "cmem c (K0_TO_PHYS (pc c)) = 0x3c1b0000 OR up" "up < 0x10000 \<or> up = 0x10000"
  shows "cpu_step c = c\<lparr>pc := npc c, npc := npc c + 4, gpr := (gpr c)(27 := push_bit 16 (up AND 0xffff))\<rparr>"
  using assms(2)
proof
  assume u: "up < 0x10000"
  define w where "w = 0x3c1b0000 OR up"
  have z: "(0x3c1b0000 :: u32) AND 0xffff = 0" by simp
  have "drop_bit 26 w = 15" "drop_bit 16 w AND 31 = 27" "w AND 0xffff = up"
    unfolding w_def instr_parts [OF u z] by simp_all
  then show ?thesis
    using assms(1) low16(1) [OF u] by (simp add: cpu_step_def Let_def del: push_bit_and flip: w_def)
next
  assume "up = 0x10000"
  then show ?thesis by (simp add: cpu_step_def assms(1) Let_def)
qed

lemma step_addiu:
  assumes "cmem c (K0_TO_PHYS (pc c)) = 0x277b0000 OR lo" "lo < 0x10000"
  shows "cpu_step c = c\<lparr>pc := npc c, npc := npc c + 4,
     gpr := (gpr c)(27 := gpr c 27 + sext16 (0x277b0000 OR lo))\<rparr>"
proof -
  define w where "w = 0x277b0000 OR lo"
  have z: "(0x277b0000 :: u32) AND 0xffff = 0" by simp
  have "drop_bit 26 w = 9" "drop_bit 21 w AND 31 = 27" "drop_bit 16 w AND 31 = 27"
    unfolding w_def instr_parts [OF assms(2) z] by simp_all
  then show ?thesis using assms(1) by (simp add: cpu_step_def Let_def flip: w_def)
qed

lemma step_jr:
  assumes "cmem c (K0_TO_PHYS (pc c)) = 0x03600008"
  shows "cpu_step c = c\<lparr>pc := npc c, npc := gpr c 27\<rparr>"
  by (simp add: cpu_step_def assms(1) Let_def)

lemma step_li:
  assumes "cmem c (K0_TO_PHYS (pc c)) = 0x241a0000 OR code" "code < 0x8000"
  shows "cpu_step c = c\<lparr>pc := npc c, npc := npc c + 4, gpr := (gpr c)(26 := gpr c 0 + code)\<rparr>"
proof -
  have u: "code < 0x10000" using assms(2) by (rule less_trans) simp
  have "code AND 0x8000 = 0"
  proof (rule bit_word_eqI)
    fix n
    have "unat code < 2 ^ 15" using assms(2) by (simp add: word_less_nat_alt)
    then have "drop_bit 15 code = 0"
      by (intro word_unat_eq_iff [THEN iffD2]) (simp only: unat_drop_bit_eq drop_bit_nat_def div_less unat_0)
    then have "\<not> bit code (15 + k)" for k
      using bit_drop_bit_eq [of 15 code] by (metis add.commute bit_drop_bit_eq comp_apply bit_0_eq bot_apply bot_bool_def)
    from this [of "n - 15"] have "15 \<le> n \<Longrightarrow> \<not> bit code n" by simp
    moreover have "bit (0x8000 :: u32) n \<Longrightarrow> 15 \<le> n"
    proof -
      have "bit (push_bit 15 1 :: u32) n \<Longrightarrow> 15 \<le> n" unfolding bit_push_bit_iff by blast
      then show "bit (0x8000 :: u32) n \<Longrightarrow> 15 \<le> n" by simp
    qed
    ultimately show "bit (code AND 0x8000) n = bit 0 n"
      unfolding bit_and_iff bit_0_eq bot_apply bot_bool_def by blast
  qed
  define w where "w = 0x241a0000 OR code"
  have z: "(0x241a0000 :: u32) AND 0xffff = 0" by simp
  have "drop_bit 26 w = 9" "drop_bit 21 w AND 31 = 0" "drop_bit 16 w AND 31 = 26" "w AND 0xffff = code"
    "w AND 0x8000 = 0"
    unfolding w_def instr_parts [OF u z] using \<open>code AND 0x8000 = 0\<close> by simp_all
  then show ?thesis using assms(1) by (simp add: cpu_step_def sext16_def Let_def flip: w_def)
qed

text \<open>The four words of a vector at \<open>v\<close>.\<close>

definition vector_at :: "(addr \<Rightarrow> u32) \<Rightarrow> addr \<Rightarrow> addr \<Rightarrow> u32 \<Rightarrow> bool" where
  "vector_at m v target code \<longleftrightarrow>
     (let lo = target AND 0xffff; hi = drop_bit 16 target AND 0xffff
      in m (K0_TO_PHYS v) = 0x3c1b0000 OR (if lo AND 0x8000 \<noteq> 0 then hi + 1 else hi)
       \<and> m (K0_TO_PHYS (v + 4)) = 0x277b0000 OR lo \<and> m (K0_TO_PHYS (v + 8)) = 0x03600008
       \<and> m (K0_TO_PHYS (v + 12)) = 0x241a0000 OR code)"

lemma vector_runs:
  assumes "vector_at (cmem c) (pc c) target code" "code < 0x8000" "npc c = pc c + 4" "gpr c 0 = 0"
  shows "(cpu_step ^^ 4) c = c\<lparr>pc := target, npc := target + 4, gpr := (gpr c)(27 := target, 26 := code)\<rparr>"
proof -
  define lo where "lo = target AND 0xffff"
  define up where "up = (if lo AND 0x8000 \<noteq> 0 then (drop_bit 16 target AND 0xffff) + 1 else drop_bit 16 target AND 0xffff)"
  have m: "cmem c (K0_TO_PHYS (pc c)) = 0x3c1b0000 OR up" "cmem c (K0_TO_PHYS (pc c + 4)) = 0x277b0000 OR lo"
    "cmem c (K0_TO_PHYS (pc c + 8)) = 0x03600008" "cmem c (K0_TO_PHYS (pc c + 12)) = 0x241a0000 OR code"
    using assms(1) by (simp_all add: vector_at_def Let_def lo_def up_def)
  have lo: "lo < 0x10000" and up: "up < 0x10000 \<or> up = 0x10000"
    and eq: "push_bit 16 (up AND 0xffff) + sext16 (0x277b0000 OR lo) = target"
    using lui_addiu [of target] by (simp_all add: lo_def up_def)
  have "(cpu_step ^^ 4) c = cpu_step (cpu_step (cpu_step (cpu_step c)))"
    by (simp add: numeral_eq_Suc)
  also have "cpu_step c = c\<lparr>pc := pc c + 4, npc := pc c + 8, gpr := (gpr c)(27 := push_bit 16 (up AND 0xffff))\<rparr>"
    using step_lui [OF m(1) up] assms(3) by (simp add: add.commute)
  also have "cpu_step \<dots> = c\<lparr>pc := pc c + 8, npc := pc c + 12, gpr := (gpr c)(27 := target)\<rparr>"
    by (subst step_addiu [OF _ lo]) (simp_all add: m(2) eq del: push_bit_and)
  also have "cpu_step \<dots> = c\<lparr>pc := pc c + 12, npc := target, gpr := (gpr c)(27 := target)\<rparr>"
    by (subst step_jr) (simp_all add: m(3))
  also have "cpu_step \<dots> = c\<lparr>pc := target, npc := target + 4, gpr := (gpr c)(27 := target, 26 := code)\<rparr>"
    by (subst step_li [OF _ assms(2)]) (simp_all add: m(4) assms(4))
  finally show ?thesis .
qed

section \<open>Low memory after the set-up\<close>

text \<open>The writes as functions of memory alone.\<close>

fun put_words :: "addr \<Rightarrow> u32 list \<Rightarrow> (addr \<Rightarrow> u32) \<Rightarrow> addr \<Rightarrow> u32" where
  "put_words t0 [] m = m"
| "put_words t0 (w # ws) m = put_words (t0 + 4) ws (m(K0_TO_PHYS t0 := w))"

definition put_vector :: "u32 \<Rightarrow> addr \<Rightarrow> u32 \<Rightarrow> (addr \<Rightarrow> u32) \<Rightarrow> addr \<Rightarrow> u32" where
  "put_vector v target code =
     (let lo = target AND 0xffff; hi = drop_bit 16 target AND 0xffff
      in put_words (PHYS_TO_K0 v) [0x3c1b0000 OR (if lo AND 0x8000 \<noteq> 0 then hi + 1 else hi),
           0x277b0000 OR lo, 0x03600008, 0x241a0000 OR code])"

lemma copy_words_eq: "copy_words t0 ws s = s\<lparr>lowmem := put_words t0 ws (lowmem s)\<rparr>"
  by (induction ws arbitrary: t0 s) (simp_all add: ram_write_def)

lemma setup_hw_vector_eq:
  "exc_setup_hw_vector v target code s = s\<lparr>lowmem := put_vector v target code (lowmem s)\<rparr>"
  by (simp add: exc_setup_hw_vector_def put_vector_def Let_def ram_write_def add.commute [of _ "PHYS_TO_K0 v"] add.assoc)

definition locore_mem :: "u32 \<Rightarrow> (addr \<Rightarrow> u32) \<Rightarrow> addr \<Rightarrow> u32" where
  "locore_mem gp m =
     (let a0 = K0_TO_PHYS CPUCFG_CERRHANDLER OR 0xa0000000;
          m = put_words (PHYS_TO_K1 MIPS_RAM_VEC_CACHEERR) exc_cerr_template (m(0x40 := gp, 0x70 := a0))
      in put_words (PHYS_TO_K0 MIPS_RAM_VEC_CACHEERR) exc_cerr_template (m(0x40 := gp, 0x70 := a0)))"

lemma setup_locore_eq:
  "exc_setup_locore gp CPUCFG_CERRHANDLER s = s\<lparr>lowmem := locore_mem gp (lowmem s)\<rparr>"
  by (simp add: exc_setup_locore_def locore_mem_def Let_def ram_write_def copy_words_eq PHYS_TO_K0_def
      PHYS_TO_K1_def K0_TO_PHYS_def CFE_LOCORE_GLOBAL_GP_def CFE_LOCORE_GLOBAL_CERRH_def)

definition cleared :: "(addr \<Rightarrow> u32) \<Rightarrow> addr \<Rightarrow> u32" where
  "cleared m = put_words (PHYS_TO_K0 0) (replicate (MIPS_RAM_VEC_END div 4) 0) m"

definition vectors_mem :: "u32 \<Rightarrow> addr \<Rightarrow> addr \<Rightarrow> (addr \<Rightarrow> u32) \<Rightarrow> addr \<Rightarrow> u32" where
  "vectors_mem gp tlbh entry m =
     locore_mem gp (put_vector MIPS_RAM_VEC_INTERRUPT entry XTYPE_INTERRUPT
       (put_vector MIPS_RAM_VEC_EXCEPTION entry XTYPE_EXCEPTION
         (put_vector MIPS_RAM_VEC_CACHEERR entry XTYPE_CACHEERR
           (put_vector MIPS_RAM_VEC_XTLBFILL entry XTYPE_XTLBFILL
             (put_vector MIPS_RAM_VEC_TLBFILL tlbh XTYPE_TLBFILL (cleared m))))))"

lemma install_ram_vectors_eq:
  "exc_install_ram_vectors gp tlbh entry s =
     s\<lparr>lowmem := vectors_mem gp tlbh entry (lowmem s), cp0_sr := cp0_sr s AND NOT M_SR_BEV\<rparr>"
  by (simp only: exc_install_ram_vectors_def Let_def copy_words_eq setup_hw_vector_eq setup_locore_eq
      vectors_mem_def cleared_def) simp

lemma setup_exceptions_sel:
  fixes s :: "'a exc_scheme" and stk tlbh entry :: addr and gp :: u32
  defines "t \<equiv> cfe_setup_exceptions stk gp tlbh entry s"
  shows "lowmem t = vectors_mem gp tlbh entry (lowmem s)" "cp0_sr t = cp0_sr s AND NOT M_SR_BEV"
    "exc_vectors t = (exc_vectors s)(8 \<mapsto> Cfe_exception, 16 \<mapsto> Cfe_exception, 24 \<mapsto> Exc_cache_crash_sim,
       32 \<mapsto> Cfe_exception, 40 \<mapsto> Cfe_exception, 48 \<mapsto> Cfe_exception)"
    "catch_exc t = 0" "exc_q t = q_init (exc_q s) stk"
  unfolding t_def cfe_setup_exceptions_def Let_def install_ram_vectors_eq
  by (simp_all add: exc_setvector_def exc_init_def xtype_defs)

text \<open>Each piece leaves the words outside it alone.\<close>

definition vec_words :: "u32 \<Rightarrow> addr set" where
  "vec_words v = {v, v + 4, v + 8, v + 12}"

lemma vec_phys:
  "v \<in> {0, 0x80, 0x100, 0x180, 0x200} \<Longrightarrow> K0_TO_PHYS (PHYS_TO_K0 v) = v \<and> K0_TO_PHYS (PHYS_TO_K0 v + 4) = v + 4
     \<and> K0_TO_PHYS (PHYS_TO_K0 v + 8) = v + 8 \<and> K0_TO_PHYS (PHYS_TO_K0 v + 12) = v + 12"
  by (auto simp: PHYS_TO_K0_def K0_TO_PHYS_def)

lemma put_vector_at:
  assumes "v \<in> {0, 0x80, 0x100, 0x180, 0x200}"
  shows "vector_at (put_vector v target code m) (PHYS_TO_K0 v) target code"
    and "a \<notin> vec_words v \<Longrightarrow> put_vector v target code m a = m a"
proof -
  have neq: "v \<noteq> v + 4" "v \<noteq> v + 8" "v \<noteq> v + 12" "v + 4 \<noteq> v + 8" "v + 4 \<noteq> v + 12" "v + 8 \<noteq> v + 12" by simp_all
  note p = vec_phys [OF assms]
  have q: "PHYS_TO_K0 v + 4 + 4 = PHYS_TO_K0 v + 8" "PHYS_TO_K0 v + 8 + 4 = PHYS_TO_K0 v + 12" by simp_all
  show "vector_at (put_vector v target code m) (PHYS_TO_K0 v) target code"
    by (simp only: vector_at_def put_vector_def Let_def put_words.simps q p fun_upd_apply neq if_True if_False simp_thms)
  show "a \<notin> vec_words v \<Longrightarrow> put_vector v target code m a = m a"
    by (simp only: vec_words_def put_vector_def Let_def put_words.simps q p fun_upd_apply if_False insert_iff empty_iff simp_thms)
      auto
qed

lemma vector_at_cong:
  assumes "vector_at m (PHYS_TO_K0 v) target code" "v \<in> {0, 0x80, 0x100, 0x180, 0x200}"
    "\<And>a. a \<in> vec_words v \<Longrightarrow> m' a = m a"
  shows "vector_at m' (PHYS_TO_K0 v) target code"
  using assms(1,3) by (simp add: vector_at_def vec_phys [OF assms(2)] vec_words_def)

lemma locore_mem_frame:
  "a \<notin> {0x40, 0x70, 0x100, 0x104, 0x108, 0x10c, 0x110, 0x114, 0x118, 0x11c, 0x120, 0x124, 0x128, 0x12c}
     \<Longrightarrow> locore_mem gp m a = m a"
  by (simp add: locore_mem_def exc_cerr_template_def Let_def PHYS_TO_K0_def PHYS_TO_K1_def K0_TO_PHYS_def
      MIPS_RAM_VEC_CACHEERR_def)

lemma vector_at_kept:
  assumes "vector_at m (PHYS_TO_K0 v) target code" "v \<in> {0, 0x80, 0x100, 0x180, 0x200}"
  shows "v' \<in> {0, 0x80, 0x100, 0x180, 0x200} - {v} \<Longrightarrow> vector_at (put_vector v' t c m) (PHYS_TO_K0 v) target code"
    and "v \<noteq> 0x100 \<Longrightarrow> vector_at (locore_mem gp m) (PHYS_TO_K0 v) target code"
proof -
  show "v' \<in> {0, 0x80, 0x100, 0x180, 0x200} - {v} \<Longrightarrow> vector_at (put_vector v' t c m) (PHYS_TO_K0 v) target code"
    by (rule vector_at_cong [OF assms], rule put_vector_at(2)) (use assms(2) in \<open>auto simp: vec_words_def\<close>)
  show "v \<noteq> 0x100 \<Longrightarrow> vector_at (locore_mem gp m) (PHYS_TO_K0 v) target code"
    by (rule vector_at_cong [OF assms], rule locore_mem_frame) (use assms(2) in \<open>auto simp: vec_words_def\<close>)
qed

lemma vectors_mem_vectors:
  "vector_at (vectors_mem gp tlbh entry m) (PHYS_TO_K0 MIPS_RAM_VEC_TLBFILL) tlbh XTYPE_TLBFILL"
  "vector_at (vectors_mem gp tlbh entry m) (PHYS_TO_K0 MIPS_RAM_VEC_XTLBFILL) entry XTYPE_XTLBFILL"
  "vector_at (vectors_mem gp tlbh entry m) (PHYS_TO_K0 MIPS_RAM_VEC_EXCEPTION) entry XTYPE_EXCEPTION"
  "vector_at (vectors_mem gp tlbh entry m) (PHYS_TO_K0 MIPS_RAM_VEC_INTERRUPT) entry XTYPE_INTERRUPT"
  unfolding vectors_mem_def vec_defs
  by (intro vector_at_kept put_vector_at(1); simp)+

text \<open>The words copied are found again where they were put.\<close>

lemma put_words_frame:
  "(\<And>j. j < length ws \<Longrightarrow> a \<noteq> K0_TO_PHYS (t0 + 4 * of_nat j)) \<Longrightarrow> put_words t0 ws m a = m a"
proof (induction ws arbitrary: t0 m)
  case (Cons w ws)
  have "put_words (t0 + 4) ws (m(K0_TO_PHYS t0 := w)) a = (m(K0_TO_PHYS t0 := w)) a"
    using Cons.prems [of "Suc j" for j] by (intro Cons.IH) (auto simp: algebra_simps)
  then show ?case using Cons.prems [of 0] by simp
qed simp

lemma put_words_nth:
  "distinct (map (\<lambda>i. K0_TO_PHYS (t0 + 4 * of_nat i)) [0..<length ws]) \<Longrightarrow> i < length ws
     \<Longrightarrow> put_words t0 ws m (K0_TO_PHYS (t0 + 4 * of_nat i)) = ws ! i"
proof (induction ws arbitrary: t0 m i)
  case (Cons w ws)
  have d: "K0_TO_PHYS (t0 + 4 * of_nat j) \<noteq> K0_TO_PHYS (t0 + 4 * of_nat k)"
    if "j < length (w # ws)" "k < length (w # ws)" "j \<noteq> k" for j k
  proof (rule inj_on_contraD [OF _ that(3)])
    show "inj_on (\<lambda>i. K0_TO_PHYS (t0 + 4 * of_nat i)) (set [0..<length (w # ws)])"
      using Cons.prems(1) unfolding distinct_map by blast
  qed (use that(1,2) in auto)
  show ?case
  proof (cases i)
    case 0
    have "put_words (t0 + 4) ws (m(K0_TO_PHYS t0 := w)) (K0_TO_PHYS t0) = (m(K0_TO_PHYS t0 := w)) (K0_TO_PHYS t0)"
      using d [of 0 "Suc j" for j] by (intro put_words_frame) (auto simp: algebra_simps)
    then show ?thesis by (simp add: 0)
  next
    case (Suc k)
    have "distinct (map (\<lambda>i. K0_TO_PHYS ((t0 + 4) + 4 * of_nat i)) [0..<length ws])"
      using d [of "Suc x" "Suc y" for x y] by (auto simp: distinct_map inj_on_def algebra_simps) metis
    from Cons.IH [OF this, of k] show ?thesis using Cons.prems(2) by (simp add: Suc algebra_simps)
  qed
qed simp

lemma vectors_mem_template:
  "i < 12 \<Longrightarrow> vectors_mem gp tlbh entry m (0x100 + 4 * of_nat i) = exc_cerr_template ! i"
  "vectors_mem gp tlbh entry m 0x70 = 0xBFC00000"
proof -
  have len: "length exc_cerr_template = 12" by (simp add: exc_cerr_template_def)
  have mem: "\<exists>m'. vectors_mem gp tlbh entry m = put_words 0x80000100 exc_cerr_template (m'(0x70 := 0xBFC00000))"
    unfolding vectors_mem_def locore_mem_def Let_def
    by (simp add: PHYS_TO_K0_def MIPS_RAM_VEC_CACHEERR_def CPUCFG_CERRHANDLER_def K0_TO_PHYS_def) blast
  have phys: "K0_TO_PHYS (0x80000100 + 4 * of_nat i) = 0x100 + 4 * of_nat i" if "i \<in> set [0..<12]" for i
  proof -
    have "\<forall>i \<in> set [0..<12]. K0_TO_PHYS (0x80000100 + 4 * of_nat i) = 0x100 + 4 * of_nat i" by code_simp
    then show ?thesis using that by blast
  qed
  have dist: "distinct (map (\<lambda>i. K0_TO_PHYS (0x80000100 + 4 * of_nat i)) [0..<12])" by code_simp
  have out: "\<forall>i \<in> set [0..<12]. (0x70 :: u32) \<noteq> K0_TO_PHYS (0x80000100 + 4 * of_nat i)" by code_simp
  obtain m' where m': "vectors_mem gp tlbh entry m = put_words 0x80000100 exc_cerr_template (m'(0x70 := 0xBFC00000))"
    using mem by blast
  show "vectors_mem gp tlbh entry m 0x70 = 0xBFC00000"
    unfolding m' using out by (subst put_words_frame) (auto simp: len)
  assume "i < 12"
  then show "vectors_mem gp tlbh entry m (0x100 + 4 * of_nat i) = exc_cerr_template ! i"
    unfolding m' using put_words_nth [of "0x80000100" exc_cerr_template i] dist phys [of i] by (simp add: len)
qed

section \<open>Properties of the vectors\<close>

text \<open>Vector, target and code of the four vectors with stubs.\<close>

definition vector_table :: "addr \<Rightarrow> addr \<Rightarrow> (u32 \<times> addr \<times> u32) list" where
  "vector_table tlbh entry =
     [(MIPS_RAM_VEC_TLBFILL, tlbh, XTYPE_TLBFILL), (MIPS_RAM_VEC_XTLBFILL, entry, XTYPE_XTLBFILL),
      (MIPS_RAM_VEC_EXCEPTION, entry, XTYPE_EXCEPTION), (MIPS_RAM_VEC_INTERRUPT, entry, XTYPE_INTERRUPT)]"

text \<open>C5: After the set-up a processor that starts at any of the four vectors in low memory is, four
  instructions on, at the target of the vector with its code in \<^verbatim>\<open>k0\<close>, all other registers but \<^verbatim>\<open>k1\<close>
  kept, wherever the target lies; for that code \<^verbatim>\<open>_exc_entry\<close> calls \<^verbatim>\<open>cfe_exception\<close>; the processor
  no longer uses the boot vectors; and the vector of cache errors holds the template, whose handler is
  the restart in uncached space.\<close>

theorem ram_vectors_dispatch:
  assumes "(vec, target, code) \<in> set (vector_table tlbh entry)"
    and "cmem c = lowmem (cfe_setup_exceptions stk gp tlbh entry s)"
    and "pc c = PHYS_TO_K0 vec" "npc c = pc c + 4" "gpr c 0 = 0"
  shows "(cpu_step ^^ 4) c = c\<lparr>pc := target, npc := target + 4, gpr := (gpr c)(27 := target, 26 := code)\<rparr>
    \<and> exc_entry_handler code (cfe_setup_exceptions stk gp tlbh entry s) = Some Cfe_exception
    \<and> \<not> bit (cp0_sr (cfe_setup_exceptions stk gp tlbh entry s)) 22
    \<and> lowmem (cfe_setup_exceptions stk gp tlbh entry s) CFE_LOCORE_GLOBAL_CERRH = 0xBFC00000
    \<and> (\<forall>i < 12. lowmem (cfe_setup_exceptions stk gp tlbh entry s)
          (MIPS_RAM_VEC_CACHEERR + 4 * of_nat i) = exc_cerr_template ! i)"
proof (intro conjI allI impI)
  have "vector_at (cmem c) (pc c) target code" "code < 0x8000"
    using assms(1) vectors_mem_vectors [of gp tlbh entry "lowmem s"]
    by (auto simp: assms(2,3) setup_exceptions_sel vector_table_def xtype_defs)
  then show "(cpu_step ^^ 4) c = c\<lparr>pc := target, npc := target + 4, gpr := (gpr c)(27 := target, 26 := code)\<rparr>"
    using assms(4,5) by (intro vector_runs)
  show "exc_entry_handler code (cfe_setup_exceptions stk gp tlbh entry s) = Some Cfe_exception"
    using assms(1) by (auto simp: exc_entry_handler_def setup_exceptions_sel vector_table_def xtype_defs)
  have "bit M_SR_BEV 22" unfolding M_SR_BEV_def MAKEMASK1_def bit_push_bit_iff by simp
  then show "\<not> bit (cp0_sr (cfe_setup_exceptions stk gp tlbh entry s)) 22"
    by (simp add: setup_exceptions_sel bit_and_iff bit_not_iff)
qed (simp_all add: setup_exceptions_sel vectors_mem_template CFE_LOCORE_GLOBAL_CERRH_def MIPS_RAM_VEC_CACHEERR_def)

definition exc0 :: exc where
  "exc0 = \<lparr>io_log = [], cp0_sr = 0x400000, cp0_cause = 0, irq_desc = [], ip_handler = [], exc_vectors = (\<lambda>_. None),
     lowmem = (\<lambda>_. 0xffffffff), exc_q = heap0, catch_exc = 1, kfreed = [],
     con = \<lparr>outptr = None, xfunc_out = 0x80001000, x_sent = []\<rparr>\<rparr>"

theorem ram_vectors_dispatch_witness:
  "pc ((cpu_step ^^ 4) \<lparr>pc = 0x80000180, npc = 0x80000184, gpr = (\<lambda>_. 0),
      cmem = lowmem (cfe_setup_exceptions 0x80700000 0x80708000 0x80018000 0x8001fffc exc0), eret_done = False\<rparr>) = 0x8001fffc"
  using ram_vectors_dispatch [of MIPS_RAM_VEC_EXCEPTION "0x8001fffc" XTYPE_EXCEPTION "0x80018000" "0x8001fffc"
      "\<lparr>pc = 0x80000180, npc = 0x80000184, gpr = (\<lambda>_. 0),
      cmem = lowmem (cfe_setup_exceptions 0x80700000 0x80708000 0x80018000 0x8001fffc exc0), eret_done = False\<rparr>"
      "0x80700000" "0x80708000" exc0]
  by (simp add: vector_table_def PHYS_TO_K0_def MIPS_RAM_VEC_EXCEPTION_def)

section \<open>The report\<close>

text \<open>Whether the arguments fit a format: an integer or a string per conversion.\<close>

function fmt_ok :: "u8 list \<Rightarrow> bool list \<Rightarrow> bool" where
  "fmt_ok [] ints = True"
| "fmt_ok (c # fmt) ints =
     (if c \<noteq> 0x25 then fmt_ok fmt ints
      else let (f, w, c, fmt) = fmt_spec fmt
      in if c = 0 then True
      else let d = (if 0x61 \<le> c \<and> c < 0x80 then c - 0x20 else c)
      in if d = 0x53 then (case ints of False # ints \<Rightarrow> fmt_ok fmt ints | _ \<Rightarrow> False)
         else if d = 0x43 then (case ints of True # ints \<Rightarrow> fmt_ok fmt ints | _ \<Rightarrow> False)
         else if conv_radix d = 0 then fmt_ok fmt ints
         else (case ints of True # ints \<Rightarrow> fmt_ok fmt ints | _ \<Rightarrow> False))"
  by pat_completeness auto
termination
  by (relation "measure (\<lambda>(fmt, ints). length fmt)") (auto intro!: le_imp_less_Suc elim!: fmt_spec_length [OF sym])

fun va_int :: "va_item \<Rightarrow> bool" where
  "va_int (VInt v) = True"
| "va_int (VStr p) = False"

lemma fmt_ok_prints: "fmt_ok fmt (map va_int arp) \<Longrightarrow> \<exists>t. xvprintf fmt arp s = Some t"
proof (induction "length fmt" arbitrary: fmt arp s rule: less_induct)
  case less
  show ?case
  proof (cases fmt)
    case (Cons c cs)
    obtain f w k rest where k: "fmt_spec cs = (f, w, k, rest)" by (metis prod.exhaust)
    have l: "length cs < length fmt" "length rest < length fmt"
      using fmt_spec_length [OF k] by (simp_all add: Cons)
    define d where "d = (if 0x61 \<le> k \<and> k < 0x80 then k - 0x20 else k)"
    note ok = less.prems [unfolded Cons fmt_ok.simps(2) k Let_def prod.case, folded d_def]
    note run = xvprintf.simps(2) [of c cs arp s, unfolded k Let_def prod.case, folded d_def, folded Cons]
    note IH = less.hyps [OF l(1)] less.hyps [OF l(2)]
    show ?thesis
    proof (cases arp)
      case Nil
      then show ?thesis unfolding run using ok IH [of "[]"] by (auto split: if_splits)
    next
      case (Cons a as)
      then show ?thesis
        unfolding run using ok IH(1) [of arp] IH(2) [of as] IH(2) [of arp] by (cases a) (auto split: if_splits)
    qed
  qed simp
qed

lemma report_formats:
  "fmt_ok exc_fmt [True, True, True, False]"
  "fmt_ok ra_fmt [True, True]"
  "fmt_ok reg_fmt [False, True, True, False, True, True]"
  "fmt_ok [0x0a] []"
  by code_simp+

lemma say_prints: "fmt_ok fmt ints \<Longrightarrow> map va_int arp = ints \<Longrightarrow> \<exists>x. say fmt arp s = Some (s\<lparr>con := x\<rparr>)"
  using fmt_ok_prints [of fmt arp "con s"] by (auto simp: say_def xprintf_def)

lemma say_report:
  "\<exists>x. say exc_fmt [VInt a, VInt b, VInt c, VStr d] s = Some (s\<lparr>con := x\<rparr>)"
  "\<exists>x. say ra_fmt [VInt a, VInt b] s = Some (s\<lparr>con := x\<rparr>)"
  "\<exists>x. say reg_fmt [VStr d, VInt a, VInt b, VStr d', VInt a', VInt b'] s = Some (s\<lparr>con := x\<rparr>)"
  "\<exists>x. say [0x0a] [] s = Some (s\<lparr>con := x\<rparr>)"
  by (rule say_prints, rule report_formats, simp)+

lemma dump_regs_prints: "\<exists>x. dump_regs is info s = Some (s\<lparr>con := x\<rparr>)"
proof (induction "is" arbitrary: s)
  case Nil
  show ?case by (rule exI [of _ "con s"]) simp
next
  case (Cons i "is")
  obtain x where x: "say reg_fmt
      [VStr (ascii (regnames ! i)), VInt (of_nat i), VInt (info ! (XGR_ZERO + i)),
       VStr (ascii (regnames ! (i + 1))), VInt (of_nat (i + 1)), VInt (info ! (XGR_ZERO + i + 1))] s = Some (s\<lparr>con := x\<rparr>)"
    using say_report(3) by blast
  obtain y where "dump_regs is info (s\<lparr>con := x\<rparr>) = Some (s\<lparr>con := x, con := y\<rparr>)"
    using Cons [of "s\<lparr>con := x\<rparr>"] by blast
  then show ?case unfolding dump_regs.simps x by (auto intro: exI [of _ y])
qed

lemma exc_report_restarts: "\<exists>t. exc_report code info s = Some (Exc_restart, t)"
proof -
  obtain s1 where 1: "say exc_fmt
      [VInt code, VInt (info ! XCP0_EPC), VInt (info ! XCP0_CAUSE),
       VStr (ascii (excnames ! unat (G_CAUSE_EXC (info ! XCP0_CAUSE))))] s = Some s1"
    using say_report(1) by blast
  obtain s2 where 2: "say ra_fmt [VInt (info ! XGR_RA), VInt (info ! XCP0_VADDR)] s1 = Some s2"
    using say_report(2) by blast
  obtain s3 where 3: "say [0x0a] [] s2 = Some s3"
    using say_report(4) by blast
  obtain s4 where 4: "dump_regs (map (\<lambda>i. 2 * i) [0..<16]) info s3 = Some s4"
    using dump_regs_prints by fast
  obtain s5 where 5: "say [0x0a] [] s4 = Some s5"
    using say_report(4) by blast
  show ?thesis unfolding exc_report_def 1 option.case 2 3 4 5 by blast
qed

section \<open>The stack of blocks\<close>

text \<open>A history of blocks armed (with the answer of the allocator), blocks cleaned up and exceptions
  caught; the flag and the live blocks after it, the newest last.\<close>

datatype exc_op = Arm addr | Cleanup addr | Raised u32 "u32 list"

fun exc_run :: "addr \<Rightarrow> exc_op list \<Rightarrow> 'a exc_scheme \<Rightarrow> 'a exc_scheme option" where
  "exc_run stk [] s = Some s"
| "exc_run stk (Arm p # ops) s = exc_run stk ops (snd (exc_initialize_block (\<lambda>_. p) stk s))"
| "exc_run stk (Cleanup p # ops) s =
     (case exc_cleanup_block stk p s of None \<Rightarrow> None | Some s \<Rightarrow> exc_run stk ops s)"
| "exc_run stk (Raised code info # ops) s =
     (case cfe_exception stk code info s of Some (Longjmp j, s) \<Rightarrow> exc_run stk ops s | _ \<Rightarrow> None)"

fun live :: "exc_op list \<Rightarrow> bool \<times> addr list \<Rightarrow> bool \<times> addr list" where
  "live [] (a, bs) = (a, bs)"
| "live (Arm p # ops) (a, bs) = live ops (True, if p = NULL then bs else bs @ [p])"
| "live (Cleanup p # ops) (a, bs) = live ops (a, removeAll p bs)"
| "live (Raised code info # ops) (a, bs) = live ops (False, bs)"

fun ops_ok :: "addr \<Rightarrow> exc_op list \<Rightarrow> bool \<times> addr list \<Rightarrow> bool" where
  "ops_ok stk [] (a, bs) = True"
| "ops_ok stk (Arm p # ops) (a, bs) \<longleftrightarrow>
     p \<noteq> stk \<and> p \<notin> set bs \<and> ops_ok stk ops (True, if p = NULL then bs else bs @ [p])"
| "ops_ok stk (Cleanup p # ops) (a, bs) \<longleftrightarrow>
     (p = NULL \<or> p \<in> set bs) \<and> ops_ok stk ops (a, removeAll p bs)"
| "ops_ok stk (Raised code info # ops) (a, bs) \<longleftrightarrow> a \<and> bs \<noteq> [] \<and> ops_ok stk ops (False, bs)"

definition exc_rel :: "addr \<Rightarrow> bool \<times> addr list \<Rightarrow> 'a exc_scheme \<Rightarrow> bool" where
  "exc_rel stk = (\<lambda>(a, bs) s. (catch_exc s = 1) = a \<and> q_list (exc_q s) stk bs \<and> NULL \<notin> set bs)"

text \<open>An exception in a state with the flag \<open>a\<close> and the live blocks \<open>bs\<close>.\<close>

lemma exception_resumes:
  assumes "exc_rel stk (a, bs) s"
  shows "a \<and> bs \<noteq> [] \<Longrightarrow> cfe_exception stk code info s =
       Some (Longjmp (last bs), s\<lparr>cp0_sr := cp0_sr s AND NOT 2 AND NOT 4, catch_exc := 0\<rparr>)"
    and "\<not> (a \<and> bs \<noteq> []) \<Longrightarrow> \<exists>t. cfe_exception stk code info s = Some (Exc_restart, t)"
proof -
  have q: "q_list (exc_q s) stk bs" using assms by (simp add: exc_rel_def)
  have n: "q_count (exc_q s) stk = Some (int (length bs))" by (rule q_count_length [OF q])
  show "cfe_exception stk code info s =
       Some (Longjmp (last bs), s\<lparr>cp0_sr := cp0_sr s AND NOT 2 AND NOT 4, catch_exc := 0\<rparr>)" if "a \<and> bs \<noteq> []"
  proof -
    have "bs = butlast bs @ [last bs]" using that by simp
    then have "q_getlast (exc_q s) stk = last bs" using q q_getlast_last by metis
    then show ?thesis
      using that assms n by (simp add: cfe_exception_def exc_rel_def exc_longjmp_handler_def exc_clear_sr_exl_def
          exc_clear_sr_erl_def Let_def and.assoc)
  qed
  show "\<exists>t. cfe_exception stk code info s = Some (Exc_restart, t)" if "\<not> (a \<and> bs \<noteq> [])"
  proof (cases "catch_exc s = 1")
    case True
    then have "exc_longjmp_handler stk (exc_clear_sr_erl (exc_clear_sr_exl s)\<lparr>catch_exc := 0\<rparr>) = Some None"
      using that assms n by (auto simp: exc_rel_def exc_longjmp_handler_def exc_clear_sr_exl_def exc_clear_sr_erl_def)
    then show ?thesis using True exc_report_restarts by (simp add: cfe_exception_def Let_def)
  qed (simp add: cfe_exception_def exc_report_restarts)
qed

lemma exc_run_rel:
  "exc_rel stk ab s \<Longrightarrow> ops_ok stk ops ab \<Longrightarrow> \<exists>t. exc_run stk ops s = Some t \<and> exc_rel stk (live ops ab) t"
proof (induction ops ab arbitrary: s rule: live.induct)
  case (2 p ops a bs)
  have "exc_rel stk (True, if p = NULL then bs else bs @ [p]) (snd (exc_initialize_block (\<lambda>_. p) stk s))"
    using 2(2,3) by (auto simp: exc_rel_def exc_initialize_block_def Let_def intro!: q_list_enqueue)
  from "2.IH" [OF this] show ?case using 2(3) by simp
next
  case (3 p ops a bs)
  show ?case
  proof (cases "p = NULL")
    case True
    then have "removeAll p bs = bs" using 3(2) by (auto simp: exc_rel_def)
    then show ?thesis using "3.IH" [of s] 3(2,3) True by (simp add: exc_cleanup_block_def)
  next
    case False
    with 3(3) have "p \<in> set bs" by simp
    then obtain xs ys where bs: "bs = xs @ p # ys" by (metis split_list)
    have q: "q_list (exc_q s) stk (xs @ p # ys)" using 3(2) bs by (simp add: exc_rel_def)
    then have r: "removeAll p bs = xs @ ys" using bs by (auto simp: q_list_def removeAll_id)
    have "exc_rel stk (a, removeAll p bs) (s\<lparr>exc_q := q_dequeue (exc_q s) p, kfreed := kfreed s @ [p]\<rparr>)"
      using 3(2) q_list_unlink [OF q] r bs by (auto simp: exc_rel_def)
    from "3.IH" [OF this] show ?thesis
      using 3(3) q_count_length [OF q] False by (simp add: exc_cleanup_block_def)
  qed
next
  case (4 code info ops a bs)
  have "exc_rel stk (False, bs) (s\<lparr>cp0_sr := cp0_sr s AND NOT 2 AND NOT 4, catch_exc := 0\<rparr>)"
    using 4(2) by (simp add: exc_rel_def)
  from "4.IH" [OF this] show ?case using 4(3) exception_resumes(1) [OF 4(2), of code info] by simp
qed auto



end
