(* ===== verification/CpuCode.thy ===== *)
theory CpuCode
  imports CacheCode Exc
begin

text \<open>
  Start-up of the processor and the cache operations of the firmware: \<^verbatim>\<open>cfe/bcmcore_cpuinit.S\<close>, with the slots
  behind its jumps as they are assembled, and as they were meant.
\<close>

section \<open>Start-up and cache operations\<close>

definition CFE_CACHE_FLUSH_D :: u32 where "CFE_CACHE_FLUSH_D = 1"
definition CFE_CACHE_INVAL_I :: u32 where "CFE_CACHE_INVAL_I = 2"
definition CFE_CACHE_INVAL_RANGE :: u32 where "CFE_CACHE_INVAL_RANGE = 32"
definition CFE_CACHE_FLUSH_RANGE :: u32 where "CFE_CACHE_FLUSH_RANGE = 64"
definition LINESIZE :: int where "LINESIZE = 16"
definition CACHEOP :: "nat \<Rightarrow> nat \<Rightarrow> nat" where "CACHEOP cachename op = or cachename (push_bit 2 op)"
definition CACHE_OP_HITINVAL :: nat where "CACHE_OP_HITINVAL = 4"
definition CACHE_OP_HITWRITEBACK_INVAL :: nat where "CACHE_OP_HITWRITEBACK_INVAL = 5"

definition M_SR_SR :: u32 where "M_SR_SR = MAKEMASK1 20"

definition bcmcore_cp0_init_S :: "stmt list" where
  "bcmcore_cp0_init_S =
     [I (Mtc0 ZERO C0_WATCHLO), I (Mtc0 ZERO C0_WATCHHI), I (Mtc0 ZERO C0_CAUSE), I (Mfc0 V0 C0_SR)]
     @ AND_CONST V0 M_SR_SR @ OR_CONST V0 M_SR_BEV @
     [I (Mtc0 V0 C0_SR), I (Li V0 (- 1)), I (Mtc0 V0 C0_COMPARE), I Nop, I (Jr RA)]"

text \<open>The address of \<^verbatim>\<open>bcmcore_cp0_init\<close> is the argument.\<close>

definition bcmcore_cpuinit_S :: "addr \<Rightarrow> stmt list" where
  "bcmcore_cpuinit_S cp0_init = [I (Move FP RA)] @ JAL_KSEG1 cp0_init @ [I (Move RA FP), I (Jr RA)]"

definition bcmcore_kseg0_switch_S :: "stmt list" where
  "bcmcore_kseg0_switch_S =
     [I (Lui AT 0x1fff), I (Ori AT AT 0xffff), I (And RA RA AT)] @ OR_CONST RA 0x80000000 @ [I (Jr RA)]"

definition bcmcore_null_S :: "stmt list" where "bcmcore_null_S = [I (Jr RA)]"

definition bcmcore_cpurestart_S :: "stmt list" where "bcmcore_cpurestart_S = [I (Jr RA)]"

definition bcmcore_cacheops_S :: "addr \<Rightarrow> addr \<Rightarrow> stmt list" where
  "bcmcore_cacheops_S flush_d inval_i =
     [I (Move S0 RA), I (Move V1 A0),
      I (Bne V1 ZERO (F 1)),
      I (Li V1 (CFE_CACHE_FLUSH_D OR CFE_CACHE_INVAL_I)),
      L 1, I (Andi A0 V1 CFE_CACHE_FLUSH_D), I (Beq A0 ZERO (F 1))] @ JAL flush_d @
     [L 1, I (Andi A0 V1 CFE_CACHE_INVAL_I), I (Beq A0 ZERO (F 1))] @ JAL inval_i @
     [L 1, I (Andi A0 V1 CFE_CACHE_INVAL_RANGE), I (Beq A0 ZERO (F 2)),
      I (Move T0 A1),
      L 1, I (Cache (CACHEOP L1C_D CACHE_OP_HITINVAL) 0 T0), I (Addi T0 T0 LINESIZE)] @ BLT T0 A2 (B 1) @
     [L 2, I (Andi A0 V1 CFE_CACHE_FLUSH_RANGE), I (Beq A0 ZERO (F 2)),
      I (Move T0 A1),
      L 1, I (Li T1 0xbfc00000), I (Lw T1 0 T1),
      I (Cache (CACHEOP L1C_D CACHE_OP_HITWRITEBACK_INVAL) 0 T0), I (Addi T0 T0 LINESIZE)] @ BLT T0 A2 (B 1) @
     [L 2, I (Move RA S0), I (Jr RA)]"

text \<open>The file from \<^verbatim>\<open>bcmcore_cp0_init\<close> on, at address \<open>b\<close>, and the positions of the routines. Its
  \<^verbatim>\<open>.set reorder\<close> stands under \<^verbatim>\<open>#if 0\<close>, so \<^verbatim>\<open>noreorder\<close> holds from there to the end of the file and
  what follows a jump is in its slot. The first instruction of \<^verbatim>\<open>bcmcore_tlbhandler\<close> comes last.\<close>

definition cpuinit_text :: "addr \<Rightarrow> addr \<Rightarrow> addr \<Rightarrow> stmt list" where
  "cpuinit_text b flush_d inval_i =
     bcmcore_cp0_init_S @ bcmcore_cpuinit_S b @ bcmcore_kseg0_switch_S @ bcmcore_null_S @ bcmcore_cpurestart_S @
     bcmcore_cacheops_S flush_d inval_i @ [I (Mfc0 K0 C0_TLBHI)]"

definition at_cpuinit :: nat where "at_cpuinit = 13"
definition at_kseg0_switch :: nat where "at_kseg0_switch = 21"
definition at_null :: nat where "at_null = 27"
definition at_cpurestart :: nat where "at_cpurestart = 28"
definition at_cacheops :: nat where "at_cacheops = 29"

lemmas at_defs = at_cpuinit_def at_kseg0_switch_def at_null_def at_cpurestart_def at_cacheops_def

lemmas asm_defs = LA_def BLT_def AND_CONST_def OR_CONST_def JAL_def JAL_KSEG1_def SREGS_def LREGS_def

lemma cpuinit_code:
  "assemble (cpuinit_text b f i) =
     [Mtc0 ZERO C0_WATCHLO, Mtc0 ZERO C0_WATCHHI, Mtc0 ZERO C0_CAUSE, Mfc0 V0 C0_SR, Li AT M_SR_SR, And V0 V0 AT,
      Li AT M_SR_BEV, Or V0 V0 AT, Mtc0 V0 C0_SR, Li V0 (- 1), Mtc0 V0 C0_COMPARE, Nop, Jr RA,
      Move FP RA, La_hi T9 b, La_lo T9 b, Li AT 0xa0000000, Or T9 T9 AT, Jalr T9, Move RA FP, Jr RA,
      Lui AT 0x1fff, Ori AT AT 0xffff, And RA RA AT, Li AT 0x80000000, Or RA RA AT, Jr RA,
      Jr RA,
      Jr RA,
      Move S0 RA, Move V1 A0, Bne V1 ZERO 33, Li V1 3, Andi A0 V1 1, Beq A0 ZERO 38, La_hi T9 f, La_lo T9 f, Jalr T9,
      Andi A0 V1 2, Beq A0 ZERO 43, La_hi T9 i, La_lo T9 i, Jalr T9,
      Andi A0 V1 32, Beq A0 ZERO 50, Move T0 A1, Cache 17 0 T0, Addi T0 T0 16, Slt AT T0 A2, Bne AT ZERO 46,
      Andi A0 V1 64, Beq A0 ZERO 59, Move T0 A1, Li T1 0xbfc00000, Lw T1 0 T1, Cache 21 0 T0, Addi T0 T0 16,
      Slt AT T0 A2, Bne AT ZERO 53,
      Move RA S0, Jr RA, Mfc0 K0 C0_TLBHI]"
  by (simp add: assemble_def cpuinit_text_def bcmcore_cp0_init_S_def bcmcore_cpuinit_S_def bcmcore_kseg0_switch_S_def
      bcmcore_null_S_def bcmcore_cpurestart_S_def bcmcore_cacheops_S_def asm_defs CFE_CACHE_FLUSH_D_def
      CFE_CACHE_INVAL_I_def CFE_CACHE_INVAL_RANGE_def CFE_CACHE_FLUSH_RANGE_def LINESIZE_def CACHEOP_def L1C_D_def
      CACHE_OP_HITINVAL_def CACHE_OP_HITWRITEBACK_INVAL_def)

lemma cpuinit_at:
  "length (assemble (cpuinit_text b f i)) = 62"
  "assemble (cpuinit_text b f i) ! 29 = Move S0 RA" "assemble (cpuinit_text b f i) ! 30 = Move V1 A0"
  "assemble (cpuinit_text b f i) ! 31 = Bne V1 ZERO 33" "assemble (cpuinit_text b f i) ! 32 = Li V1 3"
  "assemble (cpuinit_text b f i) ! 33 = Andi A0 V1 1" "assemble (cpuinit_text b f i) ! 34 = Beq A0 ZERO 38"
  "assemble (cpuinit_text b f i) ! 35 = La_hi T9 f" "assemble (cpuinit_text b f i) ! 36 = La_lo T9 f"
  "assemble (cpuinit_text b f i) ! 37 = Jalr T9" "assemble (cpuinit_text b f i) ! 38 = Andi A0 V1 2"
  "assemble (cpuinit_text b f i) ! 39 = Beq A0 ZERO 43" "assemble (cpuinit_text b f i) ! 40 = La_hi T9 i"
  "assemble (cpuinit_text b f i) ! 41 = La_lo T9 i" "assemble (cpuinit_text b f i) ! 42 = Jalr T9"
  "assemble (cpuinit_text b f i) ! 43 = Andi A0 V1 32" "assemble (cpuinit_text b f i) ! 44 = Beq A0 ZERO 50"
  "assemble (cpuinit_text b f i) ! 45 = Move T0 A1" "assemble (cpuinit_text b f i) ! 46 = Cache 17 0 T0"
  "assemble (cpuinit_text b f i) ! 47 = Addi T0 T0 16" "assemble (cpuinit_text b f i) ! 48 = Slt AT T0 A2"
  "assemble (cpuinit_text b f i) ! 49 = Bne AT ZERO 46" "assemble (cpuinit_text b f i) ! 50 = Andi A0 V1 64"
  "assemble (cpuinit_text b f i) ! 51 = Beq A0 ZERO 59" "assemble (cpuinit_text b f i) ! 52 = Move T0 A1"
  "assemble (cpuinit_text b f i) ! 53 = Li T1 0xbfc00000" "assemble (cpuinit_text b f i) ! 54 = Lw T1 0 T1"
  "assemble (cpuinit_text b f i) ! 55 = Cache 21 0 T0" "assemble (cpuinit_text b f i) ! 56 = Addi T0 T0 16"
  "assemble (cpuinit_text b f i) ! 57 = Slt AT T0 A2" "assemble (cpuinit_text b f i) ! 58 = Bne AT ZERO 53"
  "assemble (cpuinit_text b f i) ! 59 = Move RA S0" "assemble (cpuinit_text b f i) ! 60 = Jr RA"
  "assemble (cpuinit_text b f i) ! 61 = Mfc0 K0 C0_TLBHI"
  by (simp_all add: cpuinit_code)

text \<open>A jump in the slot of a jump: \<^verbatim>\<open>bcmcore_kseg0_switch\<close> and \<^verbatim>\<open>bcmcore_null\<close> have no defined effect
  as they are assembled; \<^verbatim>\<open>bcmcore_cpurestart\<close> returns, but overwrites \<^verbatim>\<open>s0\<close>, which belongs to its caller.
  With the slots hidden all three do what they are meant to.\<close>

lemma noreorder_breaks:
  "run ext False (assemble (cpuinit_text b f i)) b at_kseg0_switch s = None"
  "run ext False (assemble (cpuinit_text b f i)) b at_null s = None"
  "position b (assemble (cpuinit_text b f i)) (rd s RA) = None \<Longrightarrow>
     run ext False (assemble (cpuinit_text b f i)) b at_cpurestart s = Some (rd s RA, wr S0 (rd s RA) s)"
proof -
  let ?c = "assemble (cpuinit_text b f i)"
  have j: "run ext False ?c b n u = None" if "n \<in> {26, 27}" for n u
    using that by (subst run.simps) (auto simp: step_def slot_def cpuinit_code)
  then show "run ext False ?c b at_null s = None" by (simp add: at_defs)
  have "run ext False ?c b 21 s = run ext False ?c b (21 + 5)
      (wr RA (rd s RA AND (push_bit 16 0x1fff OR 0xffff) OR 0x80000000) (wr AT 0x80000000
        (wr RA (rd s RA AND (push_bit 16 0x1fff OR 0xffff)) (wr AT (push_bit 16 0x1fff OR 0xffff) (wr AT (push_bit 16 0x1fff) s)))))"
    by (rule run_take [of 5 21 _ "[Lui AT 0x1fff, Ori AT AT 0xffff, And RA RA AT, Li AT 0x80000000, Or RA RA AT]"])
       (simp_all add: cpuinit_code)
  then show "run ext False ?c b at_kseg0_switch s = None" using j by (simp add: at_defs)
  show "run ext False ?c b at_cpurestart s = Some (rd s RA, wr S0 (rd s RA) s)"
    if "position b ?c (rd s RA) = None"
    using that unfolding at_defs by (intro run_Jr) (simp_all add: slot_def cpuinit_code)
qed

lemma kseg0_switch_reordered:
  assumes "position b (assemble (cpuinit_text b f i)) (rd s RA AND 0x1fffffff OR 0x80000000) = None"
  shows "\<exists>t. run ext True (assemble (cpuinit_text b f i)) b at_kseg0_switch s
      = Some (rd s RA AND 0x1fffffff OR 0x80000000, t) \<and> (\<forall>r. r \<notin> {AT, RA} \<longrightarrow> rd t r = rd s r)"
proof -
  let ?c = "assemble (cpuinit_text b f i)"
  define t where "t = (wr RA (rd s RA AND 0x1fffffff OR 0x80000000) (wr AT 0x80000000
        (wr RA (rd s RA AND 0x1fffffff) (wr AT 0x1fffffff (wr AT (push_bit 16 0x1fff) s)))))"
  have "run ext True ?c b 21 s = run ext True ?c b (21 + 5) t"
    by (rule run_take [of 5 21 _ "[Lui AT 0x1fff, Ori AT AT 0xffff, And RA RA AT, Li AT 0x80000000, Or RA RA AT]"])
       (simp_all add: cpuinit_code t_def)
  moreover have "run ext True ?c b 26 t = Some (rd t RA, t)"
    using assms by (intro run_Jr_out) (simp_all add: cpuinit_code t_def)
  ultimately show ?thesis by (simp add: t_def at_defs)
qed

text \<open>\<^verbatim>\<open>bcmcore_cpuinit\<close> comes back by way of its slot: the return address it restores there makes
  \<^verbatim>\<open>bcmcore_cp0_init\<close> return to its caller.\<close>

lemma kseg1_alias:
  assumes "b AND 0xe0000000 = (0x80000000 :: u32)"
  shows "b OR 0xa0000000 = b + 0x20000000" and "(b OR 0xa0000000) AND 0xc0000000 = 0x80000000"
proof -
  define y where "y = b AND 0x1fffffff"
  have z: "0x80000000 AND y = 0" "0xa0000000 AND y = 0" "0xc0000000 AND y = 0"
    by (simp_all add: y_def and.left_commute [of _ b])
  have "(0xe0000000 OR 0x1fffffff :: u32) = - 1" by code_simp
  then have "b = b AND (0xe0000000 OR 0x1fffffff)" by (simp only: and.right_neutral)
  also have "\<dots> = 0x80000000 OR y" by (simp only: bit.conj_disj_distrib assms y_def)
  finally have b: "b = 0x80000000 OR y" .
  then have o: "b OR 0xa0000000 = 0xa0000000 OR y" by (simp add: or.assoc or.commute or.left_commute [of _ y])
  show "(b OR 0xa0000000) AND 0xc0000000 = 0x80000000"
    unfolding o by (simp add: bit.conj_disj_distrib2 z and.commute [of y])
  have "b = 0x80000000 + y" "0xa0000000 OR y = 0xa0000000 + y"
    using disjunctive_add_eq_or [OF z(1)] disjunctive_add_eq_or [OF z(2)] by (simp_all add: b)
  then show "b OR 0xa0000000 = b + 0x20000000" unfolding o by simp
qed

lemma cpuinit_returns:
  assumes b: "b AND 0xe0000000 = 0x80000000"
    and out: "position (b OR 0xa0000000) (assemble (cpuinit_text b f i)) (rd s RA) = None"
  shows "\<exists>t. run ext False (assemble (cpuinit_text b f i)) b at_cpuinit s = Some (rd s RA, t) \<and>
      rd t FP = rd s RA \<and> rd t RA = rd s RA \<and> (\<forall>r. r \<notin> {AT, V0, T9, FP} \<longrightarrow> rd t r = rd s r) \<and>
      cp0 t = (cp0 s)(C0_WATCHLO := 0, C0_WATCHHI := 0, C0_CAUSE := 0,
        C0_SR := cp0 s C0_SR AND M_SR_SR OR M_SR_BEV, C0_COMPARE := - 1)"
proof -
  let ?c = "assemble (cpuinit_text b f i)"
  define a where "a = b OR 0xa0000000"
  define t where "t = wr T9 a (wr AT 0xa0000000 (wr T9 b (wr T9 (b - lo16 b) (wr FP (rd s RA) s))))"
  have "run ext False ?c b 13 s = run ext False ?c b (13 + 5) t"
    by (rule run_take [of 5 13 _ "[Move FP RA, La_hi T9 b, La_lo T9 b, Li AT 0xa0000000, Or T9 T9 AT]"])
       (simp_all add: cpuinit_code t_def a_def)
  define u where "u = wr RA (rd s RA) (wr RA (b + 80) t)"
  have "position b ?c a = Some (a, 0)"
    using kseg1_alias [OF b] by (simp add: position_def Let_def a_def cpuinit_code)
  then have "run ext False ?c b 18 t = run ext False ?c a 0 u"
    by (subst run.simps) (simp add: step_def slot_def cpuinit_code after_def t_def u_def)
  moreover have "\<exists>v. execs (take 12 ?c) u = Some v \<and> (\<forall>r. r \<notin> {AT, V0} \<longrightarrow> rd v r = rd u r) \<and>
      cp0 v = (cp0 s)(C0_WATCHLO := 0, C0_WATCHHI := 0, C0_CAUSE := 0,
        C0_SR := cp0 s C0_SR AND M_SR_SR OR M_SR_BEV, C0_COMPARE := - 1)"
    by (simp add: cpuinit_code u_def t_def fun_upd_twist)
  then obtain v where v: "execs (take 12 ?c) u = Some v" "\<forall>r. r \<notin> {AT, V0} \<longrightarrow> rd v r = rd u r"
      "cp0 v = (cp0 s)(C0_WATCHLO := 0, C0_WATCHHI := 0, C0_CAUSE := 0,
        C0_SR := cp0 s C0_SR AND M_SR_SR OR M_SR_BEV, C0_COMPARE := - 1)" by blast
  have "run ext False ?c a 0 u = run ext False ?c a (0 + 12) v"
    by (rule run_take [OF _ _ _ v(1)]) (simp_all add: cpuinit_code)
  moreover have ra: "rd v RA = rd s RA" using v(2) by (simp add: u_def)
  then have "run ext False ?c a 12 v = Some (rd v RA, wr FP (rd v RA) v)"
    using out by (intro run_Jr) (simp_all add: slot_def cpuinit_code a_def)
  ultimately have "run ext False ?c b 13 s = Some (rd s RA, wr FP (rd s RA) v)"
    using \<open>run ext False ?c b 13 s = run ext False ?c b (13 + 5) t\<close> ra by simp
  then show ?thesis using v(2,3) ra by (simp add: u_def t_def at_defs)
qed

text \<open>The callers of the two sweeps get what those do.\<close>

definition cache_routines :: "addr \<Rightarrow> addr \<Rightarrow> externals" where
  "cache_routines flush_d inval_i a s =
     (let call = (\<lambda>code. case run (\<lambda>_ _. None) True code a 0 s of
                    Some (ret, t) \<Rightarrow> if ret = rd s RA then Some t else None | None \<Rightarrow> None)
      in if a = flush_d then call (assemble bcmcore_l1cache_flush_d_S)
         else if a = inval_i then call (assemble bcmcore_l1cache_inval_i_S) else None)"

definition write_back_all_d :: "u32 \<Rightarrow> (nat \<times> addr \<times> u32) list" where
  "write_back_all_d cfg = map (\<lambda>k. (Index_Writeback_Inv_D, 0x80000000 + of_nat (k * cfg_line_size cfg S_CFG_DL), 0))
     [0..<cfg_lines cfg S_CFG_DS S_CFG_DA]"

definition invalidate_all_i :: "u32 \<Rightarrow> (nat \<times> addr \<times> u32) list" where
  "invalidate_all_i cfg = map (\<lambda>k. (Index_Invalidate_I, 0x80000000 + of_nat (k * cfg_line_size cfg S_CFG_IL), 0))
     [0..<cfg_lines cfg S_CFG_IS S_CFG_IA]"

lemma cache_routines_flush:
  assumes "position f (assemble bcmcore_l1cache_flush_d_S) (rd s RA) = None"
  obtains t where "cache_routines f i f s = Some t" "\<And>r. r \<notin> {T0, T1, T2} \<Longrightarrow> rd t r = rd s r" "ram t = ram s"
    "cache_ops t = cache_ops s @ write_back_all_d (cp0 s C0_CONFIG1)" "cp0 t C0_CONFIG1 = cp0 s C0_CONFIG1"
proof -
  from l1cache_flush_d_runs [OF assms, of "\<lambda>_ _. None"] obtain t where
    t: "run (\<lambda>_ _. None) True (assemble bcmcore_l1cache_flush_d_S) f 0 s = Some (rd s RA, t)"
      "swept Index_Writeback_Inv_D (cfg_lines (cp0 s C0_CONFIG1) S_CFG_DS S_CFG_DA) (cfg_line_size (cp0 s C0_CONFIG1) S_CFG_DL) s t"
    by blast
  then show thesis by (intro that [of t]) (simp_all add: cache_routines_def swept_def write_back_all_d_def)
qed

lemma cache_routines_inval:
  assumes "position i (assemble bcmcore_l1cache_inval_i_S) (rd s RA) = None" "i \<noteq> f"
  obtains t where "cache_routines f i i s = Some t" "\<And>r. r \<notin> {T0, T1, T2} \<Longrightarrow> rd t r = rd s r" "ram t = ram s"
    "cache_ops t = cache_ops s @ invalidate_all_i (cp0 s C0_CONFIG1)" "cp0 t C0_CONFIG1 = cp0 s C0_CONFIG1"
proof -
  from l1cache_inval_i_runs [OF assms(1), of "\<lambda>_ _. None"] obtain t where
    t: "run (\<lambda>_ _. None) True (assemble bcmcore_l1cache_inval_i_S) i 0 s = Some (rd s RA, t)"
      "swept Index_Invalidate_I (cfg_lines (cp0 s C0_CONFIG1) S_CFG_IS S_CFG_IA) (cfg_line_size (cp0 s C0_CONFIG1) S_CFG_IL) s t"
    by blast
  then show thesis using assms(2) by (intro that [of t]) (simp_all add: cache_routines_def swept_def invalidate_all_i_def)
qed

text \<open>The routines lie apart from each other in memory.\<close>

definition cache_layout :: "addr \<Rightarrow> addr \<Rightarrow> addr \<Rightarrow> bool" where
  "cache_layout b f i \<longleftrightarrow> f \<noteq> i \<and> position b (assemble (cpuinit_text b f i)) f = None \<and>
     position b (assemble (cpuinit_text b f i)) i = None \<and>
     position f (assemble bcmcore_l1cache_flush_d_S) (b + 156) = None \<and>
     position i (assemble bcmcore_l1cache_inval_i_S) (b + 176) = None"

text \<open>As assembled, the instruction that sets the default flags is in the slot of the branch meant to skip it:
  whatever is asked for, both caches are swept, and nothing is done to a range.\<close>

lemma cacheops_ignores_arguments:
  assumes lay: "cache_layout b f i" and out: "position b (assemble (cpuinit_text b f i)) (rd s RA) = None"
  shows "\<exists>t. run (cache_routines f i) False (assemble (cpuinit_text b f i)) b at_cacheops s = Some (rd s RA, t) \<and>
      cache_ops t = cache_ops s @ write_back_all_d (cp0 s C0_CONFIG1) @ invalidate_all_i (cp0 s C0_CONFIG1) \<and>
      ram t = ram s \<and> (\<forall>r. r \<notin> {V1, A0, T0, T1, T2, T9, S0, K0} \<longrightarrow> rd t r = rd s r)"
proof -
  let ?c = "assemble (cpuinit_text b f i)" and ?e = "cache_routines f i" and ?cfg = "cp0 s C0_CONFIG1"
  note at = cpuinit_at [of b f i] slot_def
  define s0 where "s0 = wr V1 (rd s A0) (wr S0 (rd s RA) s)"
  define s1 where "s1 = wr T9 f (wr T9 (f - lo16 f) (wr A0 1 (wr V1 3 s0)))"
  define s2 where "s2 = wr A0 2 (wr RA (b + 156) s1)"
  have "run ?e False ?c b 29 s = run ?e False ?c b 30 (wr S0 (rd s RA) s)" by (subst run_exec) (simp_all add: at)
  also have "\<dots> = run ?e False ?c b 31 s0" by (subst run_exec) (simp_all add: at s0_def)
  also have "\<dots> = run ?e False ?c b 33 (wr V1 3 s0)"
    by (cases "rd s0 V1 = 0") (simp_all add: run_Bne [of _ _ V1 ZERO 33] at after_def)
  also have "\<dots> = run ?e False ?c b 34 (wr A0 1 (wr V1 3 s0))" by (subst run_exec) (simp_all add: at)
  also have "\<dots> = run ?e False ?c b 36 (wr T9 (f - lo16 f) (wr A0 1 (wr V1 3 s0)))"
    by (subst run_Beq(2) [of _ _ A0 ZERO 38]) (simp_all add: at after_def)
  also have "\<dots> = run ?e False ?c b 37 s1" by (subst run_exec) (simp_all add: at s1_def)
  finally have a: "run ?e False ?c b 29 s = run ?e False ?c b 37 s1" .
  have "position f (assemble bcmcore_l1cache_flush_d_S) (rd s2 RA) = None" using lay by (simp add: cache_layout_def s2_def)
  then obtain s3 where s3: "?e f s2 = Some s3" "\<And>r. r \<notin> {T0, T1, T2} \<Longrightarrow> rd s3 r = rd s2 r" "ram s3 = ram s2"
      "cache_ops s3 = cache_ops s2 @ write_back_all_d (cp0 s2 C0_CONFIG1)" "cp0 s3 C0_CONFIG1 = cp0 s2 C0_CONFIG1"
    by (rule cache_routines_flush [of f s2 i]) blast
  define s4 where "s4 = wr T9 i (wr T9 (i - lo16 i) s3)"
  define s5 where "s5 = wr A0 0 (wr RA (b + 176) s4)"
  note a
  also have "run ?e False ?c b 37 s1 = run ?e False ?c b 39 s3"
    using lay s3(1) by (subst run_Jalr [where r = T9 and t = s2]) (simp_all add: cache_layout_def at after_def s1_def s2_def s0_def)
  also have "\<dots> = run ?e False ?c b 41 (wr T9 (i - lo16 i) s3)"
    using s3(2) by (subst run_Beq(2) [of _ _ A0 ZERO 43]) (simp_all add: at after_def s2_def)
  also have "\<dots> = run ?e False ?c b 42 s4" by (subst run_exec) (simp_all add: at s4_def)
  finally have b: "run ?e False ?c b 29 s = run ?e False ?c b 42 s4" .
  have "position i (assemble bcmcore_l1cache_inval_i_S) (rd s5 RA) = None" "i \<noteq> f"
    using lay by (auto simp: cache_layout_def s5_def)
  then obtain s6 where s6: "?e i s5 = Some s6" "\<And>r. r \<notin> {T0, T1, T2} \<Longrightarrow> rd s6 r = rd s5 r" "ram s6 = ram s5"
      "cache_ops s6 = cache_ops s5 @ invalidate_all_i (cp0 s5 C0_CONFIG1)"
    by (rule cache_routines_inval [of i s5 f]) blast
  have v: "rd s6 V1 = 3" "rd s6 A0 = 0" "rd s6 S0 = rd s RA"
    using s6(2) s3(2) by (simp_all add: s5_def s4_def s2_def s1_def s0_def)
  define s7 where "s7 = wr T0 (rd s6 A1) (wr A0 0 (wr T0 (rd s6 A1) s6))"
  define s8 where "s8 = wr RA (rd s RA) s7"
  note b
  also have "run ?e False ?c b 42 s4 = run ?e False ?c b 44 s6"
    using lay s6(1) s3(2)
    by (subst run_Jalr [where r = T9 and t = s5]) (simp_all add: cache_layout_def at after_def s2_def s4_def s5_def s1_def)
  also have "\<dots> = run ?e False ?c b 50 (wr T0 (rd s6 A1) s6)"
    using v by (subst run_Beq(1) [of _ _ A0 ZERO 50]) (simp_all add: at)
  also have "\<dots> = run ?e False ?c b 51 (wr A0 0 (wr T0 (rd s6 A1) s6))" using v by (subst run_exec) (simp_all add: at)
  also have "\<dots> = run ?e False ?c b 59 s7" by (subst run_Beq(1) [of _ _ A0 ZERO 59]) (simp_all add: at s7_def)
  also have "\<dots> = run ?e False ?c b 60 s8" using v by (subst run_exec) (simp_all add: at s7_def s8_def)
  also have "\<dots> = Some (rd s RA, wr K0 (cp0 s8 C0_TLBHI) s8)"
    using out by (subst run_Jr [of _ _ RA]) (simp_all add: at s8_def)
  finally show ?thesis using s3(2-5) s6(2-4) by (simp add: s8_def s7_def s5_def s4_def s2_def s1_def s0_def at_defs)
qed

text \<open>With the slots hidden, flags that ask for none of the four operations, such as those for a second-level
  cache, carry out none.\<close>

lemma cacheops_reordered:
  assumes flags: "rd s A0 \<noteq> 0" "rd s A0 AND 1 = 0" "rd s A0 AND 2 = 0" "rd s A0 AND 32 = 0" "rd s A0 AND 64 = 0"
    and out: "position b (assemble (cpuinit_text b f i)) (rd s RA) = None"
  shows "\<exists>t. run (cache_routines f i) True (assemble (cpuinit_text b f i)) b at_cacheops s = Some (rd s RA, t) \<and>
      cache_ops t = cache_ops s"
proof -
  let ?c = "assemble (cpuinit_text b f i)" and ?e = "cache_routines f i"
  note at = cpuinit_at [of b f i] slot_def flags
  define s0 where "s0 = wr V1 (rd s A0) (wr S0 (rd s RA) s)"
  define s1 where "s1 = wr A0 0 (wr A0 0 (wr A0 0 (wr A0 0 s0)))"
  have "run ?e True ?c b 29 s = run ?e True ?c b 30 (wr S0 (rd s RA) s)" by (subst run_exec) (simp_all add: at)
  also have "\<dots> = run ?e True ?c b 31 s0" by (subst run_exec) (simp_all add: at s0_def)
  also have "\<dots> = run ?e True ?c b 33 s0" by (subst run_Bne(1) [of _ _ V1 ZERO 33]) (simp_all add: at s0_def)
  also have "\<dots> = run ?e True ?c b 34 (wr A0 0 s0)" by (subst run_exec) (simp_all add: at s0_def)
  also have "\<dots> = run ?e True ?c b 38 (wr A0 0 s0)" by (subst run_Beq(1) [of _ _ A0 ZERO 38]) (simp_all add: at)
  also have "\<dots> = run ?e True ?c b 39 (wr A0 0 (wr A0 0 s0))" by (subst run_exec) (simp_all add: at s0_def)
  also have "\<dots> = run ?e True ?c b 43 (wr A0 0 (wr A0 0 s0))" by (subst run_Beq(1) [of _ _ A0 ZERO 43]) (simp_all add: at)
  also have "\<dots> = run ?e True ?c b 44 (wr A0 0 (wr A0 0 (wr A0 0 s0)))" by (subst run_exec) (simp_all add: at s0_def)
  also have "\<dots> = run ?e True ?c b 50 (wr A0 0 (wr A0 0 (wr A0 0 s0)))"
    by (subst run_Beq(1) [of _ _ A0 ZERO 50]) (simp_all add: at)
  also have "\<dots> = run ?e True ?c b 51 s1" by (subst run_exec) (simp_all add: at s0_def s1_def)
  also have "\<dots> = run ?e True ?c b 59 s1" by (subst run_Beq(1) [of _ _ A0 ZERO 59]) (simp_all add: at s1_def)
  also have "\<dots> = run ?e True ?c b 60 (wr RA (rd s RA) s1)" by (subst run_exec) (simp_all add: at s0_def s1_def)
  also have "\<dots> = Some (rd s RA, wr RA (rd s RA) s1)" using out by (subst run_Jr [of _ _ RA]) (simp_all add: at)
  finally show ?thesis by (simp add: at_defs s1_def s0_def)
qed

end
