(* ===== verification/SavedRegs.thy ===== *)
theory SavedRegs
  imports CpuCode
begin

text \<open>
  Registers saved and restored: contexts (\<^verbatim>\<open>cfe/lib_setjmp.S\<close>) and the frame around an exception handler
  (\<^verbatim>\<open>_exc_entry\<close> in \<^verbatim>\<open>cfe/exception.S\<close>).
\<close>

section \<open>Saved registers\<close>

text \<open>Saving a list of registers and loading one.\<close>

lemma execs_saves:
  "\<forall>(r, off) \<in> set xs. (rd s b + of_int off) AND 3 = 0 \<Longrightarrow>
     execs (map (\<lambda>(r, off). Sw r off b :: nat instr) xs) s
       = Some (s\<lparr>ram := fold (\<lambda>(r, off) m. m(rd s b + of_int off := rd s r)) xs (ram s)\<rparr>)"
proof (induction xs arbitrary: s)
  case (Cons x xs)
  obtain r off where x: "x = (r, off)" by (cases x)
  define t where "t = s\<lparr>ram := (ram s)(rd s b + of_int off := rd s r)\<rparr>"
  have "\<forall>(r, off) \<in> set xs. (rd t b + of_int off) AND 3 = 0" using Cons.prems by (simp add: t_def)
  from Cons.IH [OF this] show ?case using Cons.prems by (simp add: x t_def Let_def)
qed simp

lemma saves_at:
  "distinct (map (\<lambda>(r, off). (a :: addr) + of_int off) xs) \<Longrightarrow> (r, off) \<in> set xs \<Longrightarrow>
     fold (\<lambda>(r, off) m. m(a + of_int off := v r)) xs m (a + of_int off) = v r"
proof (induction xs arbitrary: m)
  case (Cons x xs)
  show ?case
  proof (cases "(r, off) \<in> set xs")
    case True
    then show ?thesis using Cons by simp
  next
    case False
    then have x: "x = (r, off)" using Cons.prems(2) by simp
    have "\<forall>(q, o') \<in> set xs. a + of_int o' \<noteq> a + of_int off" using Cons.prems(1) by (force simp: x image_iff)
    then have "fold (\<lambda>(r, off) m. m(a + of_int off := v r)) xs m' (a + of_int off) = m' (a + of_int off)" for m'
      by (induction xs arbitrary: m') auto
    then show ?thesis unfolding x by (simp del: fun_upd_apply) (simp only: fun_upd_same)
  qed
qed simp

lemma saves_outside:
  "\<forall>(r, off) \<in> set xs. (a :: addr) + of_int off \<noteq> c \<Longrightarrow> fold (\<lambda>(r, off) m. m(a + of_int off := v r)) xs m c = m c"
  by (induction xs arbitrary: m) auto

lemma execs_loads:
  "b \<notin> fst ` set xs \<Longrightarrow> ZERO \<notin> fst ` set xs \<Longrightarrow> distinct (map fst xs) \<Longrightarrow>
   \<forall>(r, off) \<in> set xs. (rd s b + of_int off) AND 3 = 0 \<Longrightarrow>
     \<exists>t. execs (map (\<lambda>(r, off). Lw r off b :: nat instr) xs) s = Some t \<and>
       (\<forall>(r, off) \<in> set xs. rd t r = ram s (rd s b + of_int off)) \<and>
       (\<forall>r. r \<notin> fst ` set xs \<longrightarrow> rd t r = rd s r) \<and>
       ram t = ram s \<and> m_lo t = m_lo s \<and> m_hi t = m_hi s \<and> cp0 t = cp0 s \<and> cache_ops t = cache_ops s"
proof (induction xs arbitrary: s)
  case (Cons x xs)
  obtain r off where x: "x = (r, off)" by (cases x)
  define u where "u = wr r (ram s (rd s b + of_int off)) s"
  have u: "exec (Lw r off b) s = Some u" using Cons.prems(4) by (simp add: x u_def Let_def)
  have b: "rd u b = rd s b" using Cons.prems(1) by (auto simp: u_def x)
  have "\<exists>t. execs (map (\<lambda>(r, off). Lw r off b :: nat instr) xs) u = Some t \<and>
       (\<forall>(r, off) \<in> set xs. rd t r = ram u (rd u b + of_int off)) \<and>
       (\<forall>r. r \<notin> fst ` set xs \<longrightarrow> rd t r = rd u r) \<and>
       ram t = ram u \<and> m_lo t = m_lo u \<and> m_hi t = m_hi u \<and> cp0 t = cp0 u \<and> cache_ops t = cache_ops u"
    using Cons.prems by (intro Cons.IH) (auto simp: b)
  then obtain t where t: "execs (map (\<lambda>(r, off). Lw r off b :: nat instr) xs) u = Some t"
       "\<forall>(r, off) \<in> set xs. rd t r = ram s (rd s b + of_int off)"
       "\<forall>q. q \<notin> fst ` set xs \<longrightarrow> rd t q = rd u q"
       "ram t = ram s" "m_lo t = m_lo s" "m_hi t = m_hi s" "cp0 t = cp0 s" "cache_ops t = cache_ops s"
    unfolding b by (auto simp: u_def)
  have "r \<notin> fst ` set xs" "r \<noteq> ZERO" using Cons.prems by (auto simp: x)
  then have "rd t r = ram s (rd s b + of_int off)" using t(3) by (simp add: u_def)
  moreover have "\<forall>q. q \<notin> insert r (fst ` set xs) \<longrightarrow> rd t q = rd s q" using t(3) by (simp add: u_def)
  ultimately show ?case using u t by (intro exI [of _ t]) (simp add: x)
qed simp

definition JMPB :: "int \<Rightarrow> int" where "JMPB x = 8 * x"

text \<open>\<^verbatim>\<open>JMPB_S0\<close> to \<^verbatim>\<open>JMPB_RA\<close>.\<close>

definition jmp_regs :: "(reg \<times> int) list" where
  "jmp_regs = [(S0, JMPB 0), (S1, JMPB 1), (S2, JMPB 2), (S3, JMPB 3), (S4, JMPB 4), (S5, JMPB 5), (S6, JMPB 6),
     (S7, JMPB 7), (FP, JMPB 8), (SP, JMPB 9), (RA, JMPB 10)]"

definition JMPB_SIZE :: nat where "JMPB_SIZE = 88"

definition lib_setjmp_S :: "stmt list" where
  "lib_setjmp_S = SREGS A0 jmp_regs @ [I (Move V0 ZERO), I (Jr RA)]"

definition lib_longjmp_S :: "stmt list" where
  "lib_longjmp_S = LREGS A0 jmp_regs @ [I (Move V0 A1), I (Jr RA)]"

lemma setjmp_assembled:
  "assemble lib_setjmp_S = map (\<lambda>(r, off). Sw r off A0) jmp_regs @ [Move V0 ZERO, Jr RA]"
  "assemble lib_longjmp_S = map (\<lambda>(r, off). Lw r off A0) jmp_regs @ [Move V0 A1, Jr RA]"
  by code_simp+

text \<open>Offsets of a frame at an address that is a multiple of four.\<close>

lemma aligned_off:
  fixes a :: addr
  assumes "a AND 3 = 0" "off mod 4 = 0"
  shows "(a + of_int off) AND 3 = 0"
proof -
  have m: "x AND 3 = take_bit 2 x" for x :: u32 by (simp add: take_bit_eq_mask mask_eq_exp_minus_1)
  have o: "take_bit 2 (of_int off :: u32) = 0"
  proof -
    obtain k where "off = 4 * k" using assms(2) by blast
    then have "(of_int off :: u32) = push_bit 2 (of_int k)" by (simp add: push_bit_eq_mult mult.commute)
    then show ?thesis by (simp only: take_bit_push_bit) simp
  qed
  have u: "uint (take_bit 2 x) = take_bit 2 (uint x)" for x :: u32 by (simp add: unsigned_take_bit_eq)
  have "take_bit 2 (uint a) = 0" "take_bit 2 (uint (of_int off :: u32)) = 0"
    using assms(1) o unfolding m by (simp_all flip: u)
  then have "take_bit 2 (uint a + uint (of_int off :: u32)) = 0" by (metis add_0 take_bit_add take_bit_of_0)
  moreover have "take_bit 2 (uint (a + of_int off)) = take_bit 2 (uint a + uint (of_int off :: u32))"
    by (simp add: uint_word_ariths take_bit_eq_mod mod_mod_cancel)
  ultimately have "uint (take_bit 2 (a + of_int off)) = 0" unfolding u by simp
  then show ?thesis unfolding m by (simp only: unsigned_eq_0_iff)
qed

lemma frame_distinct:
  fixes a :: addr
  assumes "distinct offs" "\<forall>x \<in> set offs. 0 \<le> x \<and> x < 2 ^ 32"
  shows "distinct (map (\<lambda>x. a + of_int x) offs)"
proof -
  have "inj_on (\<lambda>x. a + of_int x) (set offs)"
  proof (rule inj_onI)
    fix x y assume x: "x \<in> set offs" "y \<in> set offs" and "a + of_int x = a + of_int y"
    then have "uint (of_int x :: u32) = uint (of_int y :: u32)" by simp
    then show "x = y" using assms(2) x by (simp add: uint_word_of_int)
  qed
  then show ?thesis using assms(1) by (simp add: distinct_map)
qed

lemma jmp_regs_facts:
  "distinct (map snd jmp_regs)" "distinct (map fst jmp_regs)" "A0 \<notin> fst ` set jmp_regs" "ZERO \<notin> fst ` set jmp_regs"
  "fst ` set jmp_regs = {S0, S1, S2, S3, S4, S5, S6, S7, FP, SP, RA}" "length jmp_regs = 11"
  "\<forall>(r, off) \<in> set jmp_regs. off mod 4 = 0 \<and> 0 \<le> off \<and> off < 88" "(RA, 80) \<in> set jmp_regs"
  by (simp_all add: jmp_regs_def JMPB_def insert_commute)

definition saved_regs :: "reg set" where "saved_regs = {S0, S1, S2, S3, S4, S5, S6, S7, FP, SP, RA}"

lemma lib_setjmp_runs:
  assumes jb: "rd s A0 AND 3 = 0" and out: "position b (assemble lib_setjmp_S) (rd s RA) = None"
  obtains u where "run ext True (assemble lib_setjmp_S) b 0 s = Some (rd s RA, u)" "rd u V0 = 0"
    "\<forall>r. r \<noteq> V0 \<longrightarrow> rd u r = rd s r" "\<forall>(r, off) \<in> set jmp_regs. ram u (rd s A0 + of_int off) = rd s r"
    "\<forall>c. (\<forall>x. 0 \<le> x \<and> x < 88 \<longrightarrow> c \<noteq> rd s A0 + of_int x) \<longrightarrow> ram u c = ram s c" "cp0 u = cp0 s"
proof -
  let ?c = "assemble lib_setjmp_S" and ?xs = "map (\<lambda>(r, off). Sw r off A0 :: nat instr) jmp_regs"
  have "\<forall>(r, off) \<in> set jmp_regs. (rd s A0 + of_int off) AND 3 = 0"
    using jmp_regs_facts(7) aligned_off [OF jb] by auto
  define v where "v = s\<lparr>ram := fold (\<lambda>(r, off) m. m(rd s A0 + of_int off := rd s r)) jmp_regs (ram s)\<rparr>"
  have e: "execs ?xs s = Some v" unfolding v_def by (rule execs_saves) fact
  have d: "distinct (map (\<lambda>x. rd s A0 + of_int x) (map snd jmp_regs))"
    using jmp_regs_facts(1,7) by (intro frame_distinct) auto
  have "run ext True ?c b 0 s = run ext True ?c b (0 + 11) v"
    by (rule run_take [OF _ _ _ e]) (simp_all add: setjmp_assembled jmp_regs_facts(6) jmp_regs_def)
  also have "run ext True ?c b (0 + 11) v = run ext True ?c b 12 (wr V0 0 v)"
    by (subst run_exec) (simp_all add: setjmp_assembled nth_append jmp_regs_facts(6))
  also have "\<dots> = Some (rd s RA, wr V0 0 v)"
    using out by (subst run_Jr_out [where r = RA]) (simp_all add: setjmp_assembled nth_append jmp_regs_facts(6) v_def)
  finally have r: "run ext True ?c b 0 s = Some (rd s RA, wr V0 0 v)" .
  show thesis
  proof (rule that [OF r])
    show "\<forall>(r, off) \<in> set jmp_regs. ram (wr V0 0 v) (rd s A0 + of_int off) = rd s r"
    proof clarify
      fix r off assume "(r, off) \<in> set jmp_regs"
      from saves_at [OF _ this, of "rd s A0" "rd s" "ram s"] show "ram (wr V0 0 v) (rd s A0 + of_int off) = rd s r"
        using d by (simp add: v_def comp_def split_def)
    qed
    show "\<forall>c. (\<forall>x. 0 \<le> x \<and> x < 88 \<longrightarrow> c \<noteq> rd s A0 + of_int x) \<longrightarrow> ram (wr V0 0 v) c = ram s c"
    proof (intro allI impI)
      fix c assume c: "\<forall>x. 0 \<le> x \<and> x < 88 \<longrightarrow> c \<noteq> rd s A0 + of_int x"
      show "ram (wr V0 0 v) c = ram s c"
        using saves_outside [of jmp_regs "rd s A0" c "rd s" "ram s"] jmp_regs_facts(7) c by (force simp: v_def)
    qed
  qed (simp_all add: v_def)
qed

lemma lib_longjmp_runs:
  assumes jb: "rd s A0 AND 3 = 0" and ra: "ram s (rd s A0 + 80) = ra" and out: "position b (assemble lib_longjmp_S) ra = None"
  obtains u where "run ext True (assemble lib_longjmp_S) b 0 s = Some (ra, u)" "rd u V0 = rd s A1"
    "\<forall>(r, off) \<in> set jmp_regs. rd u r = ram s (rd s A0 + of_int off)"
    "\<forall>r. r \<noteq> V0 \<and> r \<notin> saved_regs \<longrightarrow> rd u r = rd s r" "ram u = ram s" "cp0 u = cp0 s"
proof -
  let ?c = "assemble lib_longjmp_S" and ?xs = "map (\<lambda>(r, off). Lw r off A0 :: nat instr) jmp_regs"
  have "\<forall>(r, off) \<in> set jmp_regs. (rd s A0 + of_int off) AND 3 = 0"
    using jmp_regs_facts(7) aligned_off [OF jb] by auto
  from execs_loads [OF jmp_regs_facts(3,4,2) this] obtain v where v: "execs ?xs s = Some v"
    "\<forall>(r, off) \<in> set jmp_regs. rd v r = ram s (rd s A0 + of_int off)"
    "\<forall>r. r \<notin> fst ` set jmp_regs \<longrightarrow> rd v r = rd s r" "ram v = ram s" "cp0 v = cp0 s" by blast
  have v3: "rd v r = rd s r" if "r \<notin> saved_regs" for r using v(3) that by (simp add: saved_regs_def jmp_regs_facts(5))
  have RA: "rd v RA = ra" using v(2) ra jmp_regs_facts(8) by fastforce
  have "run ext True ?c b 0 s = run ext True ?c b (0 + 11) v"
    by (rule run_take [OF _ _ _ v(1)]) (simp_all add: setjmp_assembled jmp_regs_facts(6) jmp_regs_def)
  also have "run ext True ?c b (0 + 11) v = run ext True ?c b 12 (wr V0 (rd v A1) v)"
    by (subst run_exec) (simp_all add: setjmp_assembled nth_append jmp_regs_facts(6))
  also have "\<dots> = Some (ra, wr V0 (rd v A1) v)"
    using out RA by (subst run_Jr_out [where r = RA]) (simp_all add: setjmp_assembled nth_append jmp_regs_facts(6))
  finally have r: "run ext True ?c b 0 s = Some (ra, wr V0 (rd v A1) v)" .
  show thesis
  proof (rule that [OF r])
    show "\<forall>(r, off) \<in> set jmp_regs. rd (wr V0 (rd v A1) v) r = ram s (rd s A0 + of_int off)"
      using v(2) jmp_regs_facts(5) by (force simp: image_iff)
  qed (use v v3 in \<open>simp_all add: saved_regs_def\<close>)
qed

text \<open>C7: A context saved is the one that comes back. \<^verbatim>\<open>lib_setjmp\<close> returns zero, changes no other register and
  writes nothing outside the 88 bytes of the buffer; however memory outside the buffer and the registers have changed
  since, \<^verbatim>\<open>lib_longjmp\<close> on it returns where \<^verbatim>\<open>lib_setjmp\<close> did, with its value, with the saved registers as
  they were then and every other register and all memory as they are now.\<close>

lemma setjmp_longjmp:
  assumes jb: "rd s A0 AND 3 = 0"
    and out: "position b (assemble lib_setjmp_S) (rd s RA) = None" "position c (assemble lib_longjmp_S) (rd s RA) = None"
  shows "\<exists>u. run ext True (assemble lib_setjmp_S) b 0 s = Some (rd s RA, u) \<and>
      rd u V0 = 0 \<and> (\<forall>r. r \<noteq> V0 \<longrightarrow> rd u r = rd s r) \<and>
      (\<forall>a. (\<forall>x. 0 \<le> x \<and> x < int JMPB_SIZE \<longrightarrow> a \<noteq> rd s A0 + of_int x) \<longrightarrow> ram u a = ram s a) \<and>
      (\<forall>t. rd t A0 = rd s A0 \<and> (\<forall>x. 0 \<le> x \<and> x < int JMPB_SIZE \<longrightarrow> ram t (rd s A0 + of_int x) = ram u (rd s A0 + of_int x)) \<longrightarrow>
         (\<exists>v. run ext True (assemble lib_longjmp_S) c 0 t = Some (rd s RA, v) \<and>
              rd v V0 = rd t A1 \<and> (\<forall>r \<in> saved_regs. rd v r = rd s r) \<and>
              (\<forall>r. r \<noteq> V0 \<and> r \<notin> saved_regs \<longrightarrow> rd v r = rd t r) \<and> ram v = ram t))"
proof -
  obtain u where u: "run ext True (assemble lib_setjmp_S) b 0 s = Some (rd s RA, u)" "rd u V0 = 0"
      "\<forall>r. r \<noteq> V0 \<longrightarrow> rd u r = rd s r" "\<forall>(r, off) \<in> set jmp_regs. ram u (rd s A0 + of_int off) = rd s r"
      "\<forall>a. (\<forall>x. 0 \<le> x \<and> x < 88 \<longrightarrow> a \<noteq> rd s A0 + of_int x) \<longrightarrow> ram u a = ram s a" "cp0 u = cp0 s"
    by (rule lib_setjmp_runs [OF jb out(1), of ext])
  have again: "\<exists>v. run ext True (assemble lib_longjmp_S) c 0 t = Some (rd s RA, v) \<and>
      rd v V0 = rd t A1 \<and> (\<forall>r \<in> saved_regs. rd v r = rd s r) \<and>
      (\<forall>r. r \<noteq> V0 \<and> r \<notin> saved_regs \<longrightarrow> rd v r = rd t r) \<and> ram v = ram t"
    if t: "rd t A0 = rd s A0" "\<forall>x. 0 \<le> x \<and> x < 88 \<longrightarrow> ram t (rd s A0 + of_int x) = ram u (rd s A0 + of_int x)" for t
  proof -
    have m: "ram t (rd s A0 + of_int off) = rd s r" if "(r, off) \<in> set jmp_regs" for r off
      using t(2) u(4) jmp_regs_facts(7) that by fastforce
    have jt: "rd t A0 AND 3 = 0" using jb t(1) by simp
    have ra: "ram t (rd t A0 + 80) = rd s RA" using m [OF jmp_regs_facts(8)] t(1) by simp
    obtain v where v: "run ext True (assemble lib_longjmp_S) c 0 t = Some (rd s RA, v)" "rd v V0 = rd t A1"
        "\<forall>(r, off) \<in> set jmp_regs. rd v r = ram t (rd t A0 + of_int off)"
        "\<forall>r. r \<noteq> V0 \<and> r \<notin> saved_regs \<longrightarrow> rd v r = rd t r" "ram v = ram t" "cp0 v = cp0 t"
      by (rule lib_longjmp_runs [OF jt ra out(2), of ext])
    have "rd v r = rd s r" if "r \<in> saved_regs" for r
    proof -
      have "r \<in> fst ` set jmp_regs" using that by (simp only: saved_regs_def jmp_regs_facts(5))
      then obtain off where off: "(r, off) \<in> set jmp_regs" by (rule imageE) (metis prod.collapse)
      have "rd v r = ram t (rd t A0 + of_int off)" using bspec [OF v(3) off] by simp
      then show ?thesis using m [OF off] t(1) by simp
    qed
    then show ?thesis using v(1,2,4,5) by (intro exI [of _ v]) simp
  qed
  have 88: "int JMPB_SIZE = 88" by (simp add: JMPB_SIZE_def)
  show ?thesis unfolding 88
  proof (intro exI [of _ u] conjI)
    show "\<forall>t. rd t A0 = rd s A0 \<and> (\<forall>x. 0 \<le> x \<and> x < 88 \<longrightarrow> ram t (rd s A0 + of_int x) = ram u (rd s A0 + of_int x)) \<longrightarrow>
         (\<exists>v. run ext True (assemble lib_longjmp_S) c 0 t = Some (rd s RA, v) \<and>
              rd v V0 = rd t A1 \<and> (\<forall>r \<in> saved_regs. rd v r = rd s r) \<and>
              (\<forall>r. r \<noteq> V0 \<and> r \<notin> saved_regs \<longrightarrow> rd v r = rd t r) \<and> ram v = ram t)"
      by (intro allI impI, elim conjE) (rule again)
  qed (use u in simp_all)
qed

lemma setjmp_longjmp_witness:
  "\<exists>u v. run (\<lambda>_ _. None) True (assemble lib_setjmp_S) 0x80700000 0
        \<lparr>rf = (\<lambda>_. 5)(A0 := 0x80002000, SP := 0x80300000, RA := 0x80001000), m_lo = 0, m_hi = 0, cp0 = \<lambda>_. 0, ram = \<lambda>_. 7,
          cache_ops = []\<rparr> = Some (0x80001000, u) \<and> rd u V0 = 0 \<and>
     run (\<lambda>_ _. None) True (assemble lib_longjmp_S) 0x80700100 0 (u\<lparr>rf := (\<lambda>_. 9)(A0 := 0x80002000, A1 := 3)\<rparr>)
       = Some (0x80001000, v) \<and> rd v V0 = 3 \<and> rd v SP = 0x80300000 \<and> rd v S7 = 5 \<and> rd v T9 = 9"
proof -
  define s where "s = \<lparr>rf = (\<lambda>_. 5)(A0 := 0x80002000, SP := 0x80300000, RA := 0x80001000), m_lo = 0, m_hi = 0, cp0 = \<lambda>_. 0,
    ram = \<lambda>_. 7, cache_ops = []\<rparr>"
  have r: "rd s A0 = 0x80002000" "rd s SP = 0x80300000" "rd s RA = 0x80001000" "rd s S7 = 5" by (simp_all add: s_def rd_def)
  have p: "position 0x80700000 (assemble lib_setjmp_S) (rd s RA) = None" "position 0x80700100 (assemble lib_longjmp_S) (rd s RA) = None"
    by (simp_all add: position_def Let_def r setjmp_assembled jmp_regs_facts(6))
  have "rd s A0 AND 3 = 0" by (simp add: r)
  from setjmp_longjmp [OF this p, of "\<lambda>_ _. None"] obtain u where
    u: "run (\<lambda>_ _. None) True (assemble lib_setjmp_S) 0x80700000 0 s = Some (0x80001000, u)" "rd u V0 = 0"
      "\<And>t. rd t A0 = 0x80002000 \<and> (\<forall>x. 0 \<le> x \<and> x < int JMPB_SIZE \<longrightarrow> ram t (0x80002000 + of_int x) = ram u (0x80002000 + of_int x)) \<Longrightarrow>
         (\<exists>v. run (\<lambda>_ _. None) True (assemble lib_longjmp_S) 0x80700100 0 t = Some (0x80001000, v) \<and>
              rd v V0 = rd t A1 \<and> (\<forall>r \<in> saved_regs. rd v r = rd s r) \<and>
              (\<forall>r. r \<noteq> V0 \<and> r \<notin> saved_regs \<longrightarrow> rd v r = rd t r) \<and> ram v = ram t)"
    unfolding r by metis
  have "\<exists>v. run (\<lambda>_ _. None) True (assemble lib_longjmp_S) 0x80700100 0 (u\<lparr>rf := (\<lambda>_. 9)(A0 := 0x80002000, A1 := 3)\<rparr>)
       = Some (0x80001000, v) \<and> rd v V0 = 3 \<and> rd v SP = 0x80300000 \<and> rd v S7 = 5 \<and> rd v T9 = 9"
    using u(3) [of "u\<lparr>rf := (\<lambda>_. 9)(A0 := 0x80002000, A1 := 3)\<rparr>"] by (auto simp: rd_def [of "rf_update _ _"] saved_regs_def r)
  then show ?thesis using u(1,2) unfolding s_def by blast
qed

section \<open>The frame around an exception handler\<close>

definition EXCEPTION_SIZE :: int where "EXCEPTION_SIZE = 4 * 74"
definition XCP0 :: "int \<Rightarrow> int" where "XCP0 x = 4 * x"
definition XGR :: "int \<Rightarrow> int" where "XGR x = 4 * (x + 8)"

definition exc_saved :: "(reg \<times> int) list" where
  "exc_saved = [(ZERO, XGR 0), (AT, XGR 1), (V0, XGR 2), (V1, XGR 3), (A0, XGR 4), (A1, XGR 5), (A2, XGR 6), (A3, XGR 7),
     (T0, XGR 8), (T1, XGR 9), (T2, XGR 10), (T3, XGR 11), (T4, XGR 12), (T5, XGR 13), (T6, XGR 14), (T7, XGR 15),
     (S0, XGR 16), (S1, XGR 17), (S2, XGR 18), (S3, XGR 19), (S4, XGR 20), (S5, XGR 21), (S6, XGR 22), (S7, XGR 23),
     (T8, XGR 24), (T9, XGR 25), (GP, XGR 28), (SP, XGR 29), (FP, XGR 30), (RA, XGR 31)]"

text \<open>\<^verbatim>\<open>XCP0_CAUSE\<close>, \<^verbatim>\<open>XCP0_SR\<close>, \<^verbatim>\<open>XCP0_VADDR\<close>, \<^verbatim>\<open>XCP0_EPC\<close>, \<^verbatim>\<open>XCP0_PRID\<close>, \<^verbatim>\<open>XGR_LO\<close>, \<^verbatim>\<open>XGR_HI\<close>.\<close>

definition exc_saved_special :: "(reg \<times> int) list" where
  "exc_saved_special = [(T0, XCP0 1), (T1, XCP0 0), (T2, XCP0 3), (T3, XCP0 2), (T4, XCP0 4), (T5, XGR 32), (T6, XGR 33)]"

definition exc_loaded :: "(reg \<times> int) list" where
  "exc_loaded = [(A0, XGR 4), (A1, XGR 5), (A2, XGR 6), (A3, XGR 7),
     (T0, XGR 8), (T1, XGR 9), (T2, XGR 10), (T3, XGR 11), (T4, XGR 12), (T5, XGR 13), (T6, XGR 14), (T7, XGR 15),
     (S0, XGR 16), (S1, XGR 17), (S2, XGR 18), (S3, XGR 19), (S4, XGR 20), (S5, XGR 21), (S6, XGR 22), (S7, XGR 23),
     (T8, XGR 24), (T9, XGR 25), (GP, XGR 28), (SP, XGR 29), (FP, XGR 30), (RA, XGR 31), (V0, XGR 2), (V1, XGR 3)]"

text \<open>The low memory word \<^verbatim>\<open>CFE_LOCORE_GLOBAL_GP\<close> in the cached window; \<open>vectab\<close> is the address of \<^verbatim>\<open>_exc_vectab\<close>.\<close>

definition exc_entry_S :: "addr \<Rightarrow> stmt list" where
  "exc_entry_S vectab =
     [I (Addiu K1 SP (- EXCEPTION_SIZE)), I (Srl K1 K1 3), I (Sll K1 K1 3)] @ SREGS K1 exc_saved @
     [I (Mfc0 T0 C0_CAUSE), I (Mfc0 T1 C0_SR), I (Mfc0 T2 C0_BADVADDR), I (Mfc0 T3 C0_EPC), I (Mfc0 T4 C0_PRID),
      I (Mflo T5), I (Mfhi T6)] @ SREGS K1 exc_saved_special @
     LA GP (PHYS_TO_K0 0x40) @ [I (Lw GP 0 GP), I (Move A0 K0), I (Move A1 K1)] @ LA T0 vectab @
     [I (Srl K0 K0 3), I (Sll K0 K0 2), I (Addu T0 T0 K0), I (Lw T9 0 T0), I (Move SP K1), I (Jalr T9), I Nop,
      I (Move K1 SP)] @ LREGS K1 [(AT, XGR 1), (T0, XGR 32), (T1, XGR 33)] @ [I (Mtlo T0), I (Mthi T1)] @
     LREGS K1 exc_loaded @ [I Eret]"

definition exc_code :: "addr \<Rightarrow> nat instr list" where
  "exc_code vectab =
     [Addiu K1 SP (- EXCEPTION_SIZE), Srl K1 K1 3, Sll K1 K1 3] @ map (\<lambda>(r, off). Sw r off K1) exc_saved @
     [Mfc0 T0 C0_CAUSE, Mfc0 T1 C0_SR, Mfc0 T2 C0_BADVADDR, Mfc0 T3 C0_EPC, Mfc0 T4 C0_PRID, Mflo T5, Mfhi T6] @
     map (\<lambda>(r, off). Sw r off K1) exc_saved_special @
     [La_hi GP (PHYS_TO_K0 0x40), La_lo GP (PHYS_TO_K0 0x40), Lw GP 0 GP, Move A0 K0, Move A1 K1, La_hi T0 vectab,
      La_lo T0 vectab, Srl K0 K0 3, Sll K0 K0 2, Addu T0 T0 K0, Lw T9 0 T0, Move SP K1] @
     [Jalr T9, Nop] @ [Move K1 SP] @ map (\<lambda>(r, off). Lw r off K1) [(AT, XGR 1), (T0, XGR 32), (T1, XGR 33)] @
     [Mtlo T0, Mthi T1] @ map (\<lambda>(r, off). Lw r off K1) exc_loaded @ [Eret]"

lemma exc_assembled: "assemble (exc_entry_S vectab) = exc_code vectab"
  by (simp add: assemble_def exc_entry_S_def exc_code_def asm_defs exc_saved_def exc_saved_special_def exc_loaded_def)

lemma exc_lists:
  "length exc_saved = 30" "length exc_saved_special = 7" "length exc_loaded = 28"
  "\<forall>(r, off) \<in> set (exc_saved @ exc_saved_special @ exc_loaded). off mod 4 = 0 \<and> 0 \<le> off \<and> off < 296"
  "distinct (map snd (exc_saved @ exc_saved_special))"
  "K1 \<notin> fst ` set exc_loaded" "ZERO \<notin> fst ` set exc_loaded" "distinct (map fst exc_loaded)"
  "set exc_loaded \<subseteq> set exc_saved"
  by code_simp+

lemma exc_saved_no_K1: "K1 \<notin> fst ` set exc_saved"
  by code_simp

lemma exc_offs:
  "(r, off) \<in> set exc_saved \<or> (r, off) \<in> set exc_saved_special \<or> (r, off) \<in> set exc_loaded \<Longrightarrow>
     off mod 4 = 0 \<and> 0 \<le> off \<and> off < 296"
  using bspec [OF exc_lists(4), of "(r, off)"] by auto

lemma exc_loaded_regs: "fst ` set exc_loaded = - {ZERO, AT, K0, K1}"
proof (rule set_eqI)
  fix r show "r \<in> fst ` set exc_loaded \<longleftrightarrow> r \<in> - {ZERO, AT, K0, K1}" by (cases r) (simp_all add: exc_loaded_def)
qed

lemma exc_code_parts:
  "take 3 (drop 0 (exc_code v)) = [Addiu K1 SP (- EXCEPTION_SIZE), Srl K1 K1 3, Sll K1 K1 3]"
  "take 30 (drop 3 (exc_code v)) = map (\<lambda>(r, off). Sw r off K1) exc_saved"
  "take 7 (drop 33 (exc_code v)) = [Mfc0 T0 C0_CAUSE, Mfc0 T1 C0_SR, Mfc0 T2 C0_BADVADDR, Mfc0 T3 C0_EPC, Mfc0 T4 C0_PRID, Mflo T5, Mfhi T6]"
  "take 7 (drop 40 (exc_code v)) = map (\<lambda>(r, off). Sw r off K1) exc_saved_special"
  "take 12 (drop 47 (exc_code v)) = [La_hi GP (PHYS_TO_K0 0x40), La_lo GP (PHYS_TO_K0 0x40), Lw GP 0 GP, Move A0 K0, Move A1 K1, La_hi T0 v,
      La_lo T0 v, Srl K0 K0 3, Sll K0 K0 2, Addu T0 T0 K0, Lw T9 0 T0, Move SP K1]"
  "exc_code v ! 59 = Jalr T9" "exc_code v ! 60 = Nop" "exc_code v ! 61 = Move K1 SP"
  "take 3 (drop 62 (exc_code v)) = map (\<lambda>(r, off). Lw r off K1) [(AT, XGR 1), (T0, XGR 32), (T1, XGR 33)]"
  "take 2 (drop 65 (exc_code v)) = [Mtlo T0, Mthi T1]"
  "take 28 (drop 67 (exc_code v)) = map (\<lambda>(r, off). Lw r off K1) exc_loaded"
  "exc_code v ! 95 = Eret" "length (exc_code v) = 96"
  by (simp_all add: exc_code_def exc_lists(1-3) nth_append)

lemma eret_cong:
  "cp0 x = cp0 t \<Longrightarrow> fst (eret x) = fst (eret t) \<and> cp0 (snd (eret x)) = cp0 (snd (eret t)) \<and>
     ram (snd (eret x)) = ram x \<and> m_lo (snd (eret x)) = m_lo x \<and> m_hi (snd (eret x)) = m_hi x \<and> (\<forall>r. rd (snd (eret x)) r = rd x r)"
  by (simp add: eret_def Let_def)

lemma frame_neq:
  fixes a :: addr
  assumes "x \<noteq> y" "0 \<le> x" "x < 2 ^ 32" "0 \<le> y" "y < 2 ^ 32"
  shows "a + of_int x \<noteq> a + of_int y"
  using frame_distinct [of "[x, y]" a] assms by simp

text \<open>The frame as \<^verbatim>\<open>cfe_exception\<close> gets it, an array of 74 words.\<close>

definition frame_info :: "mips \<Rightarrow> addr \<Rightarrow> u32 list" where
  "frame_info s a = map (\<lambda>i. ram s (a + 4 * of_nat i)) [0..<74]"

text \<open>From the entry to the call: the frame holds all registers, and the handler gets the code and the frame.\<close>

lemma exc_entry_frame:
  fixes s :: mips
  defines "k1 \<equiv> push_bit 3 (drop_bit 3 (rd s SP - 296))" and "idx \<equiv> push_bit 2 (drop_bit 3 (rd s K0))"
  assumes vec: "vectab AND 3 = 0" "\<forall>x. 0 \<le> x \<and> x < 296 \<longrightarrow> vectab + idx \<noteq> k1 + of_int x"
  obtains u where "run ext False (exc_code vectab) b 0 s = run ext False (exc_code vectab) b 59 u"
    "rd u A0 = rd s K0" "rd u A1 = k1" "rd u SP = k1" "rd u T9 = ram s (vectab + idx)"
    "\<forall>(r, off) \<in> set exc_saved. ram u (k1 + of_int off) = rd s r"
    "ram u (k1 + of_int (XGR 32)) = m_lo s" "ram u (k1 + of_int (XGR 33)) = m_hi s" "cp0 u = cp0 s" "k1 AND 3 = 0"
    "frame_info u k1 ! XCP0_CAUSE = cp0 s C0_CAUSE" "frame_info u k1 ! XCP0_EPC = cp0 s C0_EPC"
    "frame_info u k1 ! XCP0_VADDR = cp0 s C0_BADVADDR"
proof -
  let ?c = "exc_code vectab"
  have k1: "k1 AND 3 = 0"
  proof -
    have "k1 AND 3 = take_bit 2 k1" by (simp add: take_bit_eq_mask mask_eq_exp_minus_1)
    then show ?thesis by (simp add: k1_def take_bit_push_bit)
  qed
  have al: "(k1 + of_int off) AND 3 = 0" if "off mod 4 = 0" for off using aligned_off [OF k1 that] .
  have al1: "\<forall>(r, off) \<in> set exc_saved. (k1 + of_int off) AND 3 = 0"
    "\<forall>(r, off) \<in> set exc_saved_special. (k1 + of_int off) AND 3 = 0"
    using exc_offs by (auto intro!: al)
  define s1 where "s1 = wr K1 k1 (wr K1 (drop_bit 3 (rd s SP - 296)) (wr K1 (rd s SP - 296) s))"
  have 1: "run ext False ?c b 0 s = run ext False ?c b (0 + 3) s1"
    by (rule run_take [OF exc_code_parts(1)]) (simp_all add: s1_def k1_def EXCEPTION_SIZE_def)
  define m1 where "m1 = fold (\<lambda>(r, off) m. m(k1 + of_int off := rd s1 r)) exc_saved (ram s)"
  define s2 where "s2 = s1\<lparr>ram := m1\<rparr>"
  have "execs (map (\<lambda>(r, off). Sw r off K1 :: nat instr) exc_saved) s1 = Some s2"
    using al1(1) by (subst execs_saves) (simp_all add: s2_def m1_def s1_def)
  then have 2: "run ext False ?c b 3 s1 = run ext False ?c b (3 + 30) s2"
    by (intro run_take [OF exc_code_parts(2)]) (auto simp: exc_lists list_all_iff)
  define s3 where "s3 = wr T6 (m_hi s) (wr T5 (m_lo s) (wr T4 (cp0 s C0_PRID) (wr T3 (cp0 s C0_EPC)
      (wr T2 (cp0 s C0_BADVADDR) (wr T1 (cp0 s C0_SR) (wr T0 (cp0 s C0_CAUSE) s2))))))"
  have 3: "run ext False ?c b 33 s2 = run ext False ?c b (33 + 7) s3"
    by (rule run_take [OF exc_code_parts(3)]) (simp_all add: s3_def s2_def s1_def)
  define m2 where "m2 = fold (\<lambda>(r, off) m. m(k1 + of_int off := rd s3 r)) exc_saved_special m1"
  define s4 where "s4 = s3\<lparr>ram := m2\<rparr>"
  have "execs (map (\<lambda>(r, off). Sw r off K1 :: nat instr) exc_saved_special) s3 = Some s4"
    using al1(2) by (subst execs_saves) (simp_all add: s4_def m2_def s3_def s2_def s1_def)
  then have 4: "run ext False ?c b 40 s3 = run ext False ?c b (40 + 7) s4"
    by (intro run_take [OF exc_code_parts(4)]) (auto simp: exc_lists list_all_iff)
  have in_m1: "m1 (k1 + of_int off) = rd s1 r" if "(r, off) \<in> set exc_saved" for r off
  proof -
    have "distinct (map (\<lambda>x. k1 + of_int x) (map snd exc_saved))"
      using exc_lists(5) exc_offs by (intro frame_distinct) force+
    then show ?thesis unfolding m1_def using that by (intro saves_at) (simp_all add: comp_def split_def)
  qed
  have in_m2: "m2 (k1 + of_int off) = rd s3 r" if "(r, off) \<in> set exc_saved_special" for r off
  proof -
    have "distinct (map (\<lambda>x. k1 + of_int x) (map snd exc_saved_special))"
      using exc_lists(5) exc_offs by (intro frame_distinct) force+
    then show ?thesis unfolding m2_def using that by (intro saves_at) (simp_all add: comp_def split_def)
  qed
  have m21: "m2 (k1 + of_int off) = m1 (k1 + of_int off)" if "(r, off) \<in> set exc_saved" for r off
    unfolding m2_def
  proof (rule saves_outside, clarify)
    fix q y assume y: "(q, y) \<in> set exc_saved_special" and eq: "k1 + of_int y = k1 + of_int off"
    have "off \<in> snd ` set exc_saved" "y \<in> snd ` set exc_saved_special" using that y by force+
    then have "off \<noteq> y" using exc_lists(5) by auto
    then show False using frame_neq [of off y k1] exc_offs [of r off] exc_offs [of q y] that y eq by simp
  qed
  have frame: "\<forall>(r, off) \<in> set exc_saved. m2 (k1 + of_int off) = rd s r"
  proof clarify
    fix r off assume r: "(r, off) \<in> set exc_saved"
    then have "r \<noteq> K1" using exc_saved_no_K1 by force
    then show "m2 (k1 + of_int off) = rd s r" using m21 [OF r] in_m1 [OF r] by (simp add: s1_def)
  qed
  have vecm: "m2 (vectab + idx) = ram s (vectab + idx)"
  proof -
    have "\<forall>(r, off) \<in> set exc_saved_special. k1 + of_int off \<noteq> vectab + idx"
      "\<forall>(r, off) \<in> set exc_saved. k1 + of_int off \<noteq> vectab + idx"
    proof -
      have "k1 + of_int off \<noteq> vectab + idx" if "(r, off) \<in> set exc_saved \<or> (r, off) \<in> set exc_saved_special" for r off
      proof -
        have "0 \<le> off \<and> off < 296" using exc_offs [of r off] that by auto
        then have "vectab + idx \<noteq> k1 + of_int off" using vec(2) by blast
        then show ?thesis by (rule not_sym)
      qed
      then show "\<forall>(r, off) \<in> set exc_saved_special. k1 + of_int off \<noteq> vectab + idx"
        "\<forall>(r, off) \<in> set exc_saved. k1 + of_int off \<noteq> vectab + idx" by auto
    qed
    then show ?thesis unfolding m2_def m1_def by (simp add: saves_outside)
  qed
  have i3: "idx AND 3 = 0"
  proof -
    have "idx AND 3 = take_bit 2 idx" by (simp add: take_bit_eq_mask mask_eq_exp_minus_1)
    then show ?thesis by (simp add: idx_def take_bit_push_bit)
  qed
  have va: "(vectab + idx) AND 3 = 0"
  proof -
    have "take_bit 2 idx = 0" using i3 by (simp add: take_bit_eq_mask mask_eq_exp_minus_1)
    then have "uint (take_bit 2 idx) = 0" by simp
    then have "take_bit 2 (uint idx) = 0" by (simp only: unsigned_take_bit_eq)
    then have "uint idx mod 4 = 0" by (simp add: take_bit_eq_mod)
    from aligned_off [OF vec(1) this] show ?thesis by simp
  qed
  define s5 where "s5 = wr SP k1 (wr T9 (ram s (vectab + idx)) (wr T0 (vectab + idx) (wr K0 idx (wr K0 (drop_bit 3 (rd s K0))
      (wr T0 vectab (wr T0 (vectab - lo16 vectab) (wr A1 k1 (wr A0 (rd s K0) (wr GP (m2 0x80000040) (wr GP 0x80000040
      (wr GP (0x80000040 - lo16 0x80000040) s4)))))))))))"
  have 5: "run ext False ?c b 47 s4 = run ext False ?c b (47 + 12) s5"
    by (rule run_take [OF exc_code_parts(5)])
       (simp_all add: s5_def s4_def s3_def s2_def s1_def PHYS_TO_K0_def vecm va Let_def idx_def [symmetric])
  have "run ext False ?c b 0 s = run ext False ?c b 59 s5" using 1 2 3 4 5 by simp
  then show thesis
  proof (rule that)
    show "\<forall>(r, off) \<in> set exc_saved. ram s5 (k1 + of_int off) = rd s r" using frame by (simp add: s5_def s4_def)
    show "ram s5 (k1 + of_int (XGR 32)) = m_lo s" "ram s5 (k1 + of_int (XGR 33)) = m_hi s"
      using in_m2 [of T5 "XGR 32"] in_m2 [of T6 "XGR 33"] by (simp_all add: s5_def s4_def s3_def exc_saved_special_def)
    show "frame_info s5 k1 ! XCP0_CAUSE = cp0 s C0_CAUSE" "frame_info s5 k1 ! XCP0_EPC = cp0 s C0_EPC"
      "frame_info s5 k1 ! XCP0_VADDR = cp0 s C0_BADVADDR"
      using in_m2 [of T0 "XCP0 1"] in_m2 [of T3 "XCP0 2"] in_m2 [of T2 "XCP0 3"]
      by (simp_all add: frame_info_def s5_def s4_def s3_def s2_def s1_def exc_saved_special_def XCP0_CAUSE_def XCP0_EPC_def
        XCP0_VADDR_def XCP0_def)
  qed (simp_all add: s5_def s4_def s3_def s2_def s1_def k1)
qed

text \<open>From the return of the handler to the end: the registers come from the frame.\<close>

lemma exc_entry_restore:
  fixes t :: mips
  assumes k1: "rd t SP AND 3 = 0"
  obtains w where "run ext False (exc_code vectab) b 61 t = Some (fst (eret t), w)"
    "\<forall>(r, off) \<in> set exc_loaded. rd w r = ram t (rd t SP + of_int off)" "rd w AT = ram t (rd t SP + of_int (XGR 1))"
    "m_lo w = ram t (rd t SP + of_int (XGR 32))" "m_hi w = ram t (rd t SP + of_int (XGR 33))"
    "ram w = ram t" "cp0 w = cp0 (snd (eret t))"
proof -
  let ?c = "exc_code vectab" and ?xs = "[(AT, XGR 1), (T0, XGR 32), (T1, XGR 33)]"
  define t1 where "t1 = wr K1 (rd t SP) t"
  have 1: "run ext False ?c b 61 t = run ext False ?c b 62 t1"
    by (subst run_exec) (simp_all add: exc_code_parts t1_def)
  have "\<forall>(r, off) \<in> set ?xs. (rd t1 K1 + of_int off) AND 3 = 0"
    using aligned_off [OF k1, of 36] aligned_off [OF k1, of 160] aligned_off [OF k1, of 164] by (simp add: t1_def XGR_def)
  moreover have "K1 \<notin> fst ` set ?xs" "ZERO \<notin> fst ` set ?xs" "distinct (map fst ?xs)" by simp_all
  ultimately obtain t2 where t2: "execs (map (\<lambda>(r, off). Lw r off K1 :: nat instr) ?xs) t1 = Some t2"
      "\<forall>(r, off) \<in> set ?xs. rd t2 r = ram t1 (rd t1 K1 + of_int off)" "\<forall>r. r \<notin> fst ` set ?xs \<longrightarrow> rd t2 r = rd t1 r"
      "ram t2 = ram t1" "cp0 t2 = cp0 t1"
    using execs_loads [of K1 ?xs t1] by blast
  have 2: "run ext False ?c b 62 t1 = run ext False ?c b (62 + 3) t2"
    by (rule run_take [OF exc_code_parts(9) _ _ t2(1)]) simp_all
  define t3 where "t3 = t2\<lparr>m_lo := rd t2 T0, m_hi := rd t2 T1\<rparr>"
  have 3: "run ext False ?c b 65 t2 = run ext False ?c b (65 + 2) t3"
    by (rule run_take [OF exc_code_parts(10)]) (simp_all add: t3_def)
  have K1: "rd t3 K1 = rd t SP" using t2(3) by (simp add: t3_def t1_def)
  then have "\<forall>(r, off) \<in> set exc_loaded. (rd t3 K1 + of_int off) AND 3 = 0"
    using exc_offs by (auto intro!: aligned_off [OF k1])
  from execs_loads [OF exc_lists(6-8) this] obtain t4 where
    t4: "execs (map (\<lambda>(r, off). Lw r off K1 :: nat instr) exc_loaded) t3 = Some t4"
      "\<forall>(r, off) \<in> set exc_loaded. rd t4 r = ram t3 (rd t3 K1 + of_int off)"
      "\<forall>r. r \<notin> fst ` set exc_loaded \<longrightarrow> rd t4 r = rd t3 r"
      "ram t4 = ram t3" "m_lo t4 = m_lo t3" "m_hi t4 = m_hi t3" "cp0 t4 = cp0 t3"
    by blast
  have 4: "run ext False ?c b 67 t3 = run ext False ?c b (67 + 28) t4"
    by (rule run_take [OF exc_code_parts(11) _ _ t4(1)]) (auto simp: exc_lists list_all_iff)
  have 5: "run ext False ?c b 95 t4 = Some (eret t4)" by (subst run.simps) (simp add: step_def exc_code_parts)
  have c: "cp0 t4 = cp0 t" using t4(7) t2(5) by (simp add: t3_def t1_def)
  note e = eret_cong [OF c]
  have "run ext False ?c b 61 t = Some (fst (eret t), snd (eret t4))"
    using 1 2 3 4 5 e by (simp add: prod_eq_iff)
  then show thesis
  proof (rule that)
    show "\<forall>(r, off) \<in> set exc_loaded. rd (snd (eret t4)) r = ram t (rd t SP + of_int off)"
      using t4(2) t2(4) e K1 by (simp add: t3_def t1_def)
    have "rd t4 AT = rd t3 AT" using t4(3) exc_loaded_regs by simp
    then show "rd (snd (eret t4)) AT = ram t (rd t SP + of_int (XGR 1))" using t2(2) e by (simp add: t3_def t1_def)
    show "m_lo (snd (eret t4)) = ram t (rd t SP + of_int (XGR 32))" "m_hi (snd (eret t4)) = ram t (rd t SP + of_int (XGR 33))"
      using t2(2) t4(5,6) e by (simp_all add: t3_def t1_def)
    show "ram (snd (eret t4)) = ram t" "cp0 (snd (eret t4)) = cp0 (snd (eret t))"
      using e t4(4) t2(4) by (simp_all add: t3_def t1_def)
  qed
qed

text \<open>C6: An exception is transparent to the program it interrupts. \<^verbatim>\<open>_exc_entry\<close> calls the handler the table has for the
  code with the code, a frame below the stack that holds every register but the two of the kernel and, where the handler
  looks for them, cause, address and program counter of the exception, and with that frame as its stack; if the handler comes back with its stack and without touching the frame, whatever else it changed, the program goes
  on where \<^verbatim>\<open>eret\<close> leads with all its registers as they were, but \<^verbatim>\<open>k0\<close> and \<^verbatim>\<open>k1\<close>, and with what the handler
  has done to memory and to the system registers.\<close>

lemma exc_entry_transparent:
  fixes s :: mips
  defines "k1 \<equiv> push_bit 3 (drop_bit 3 (rd s SP - 296))" and "idx \<equiv> push_bit 2 (drop_bit 3 (rd s K0))"
  assumes vec: "vectab AND 3 = 0" "\<forall>x. 0 \<le> x \<and> x < 296 \<longrightarrow> vectab + idx \<noteq> k1 + of_int x" "ram s (vectab + idx) = h"
    and out: "position b (assemble (exc_entry_S vectab)) h = None"
    and handler: "\<And>u. rd u SP = k1 \<Longrightarrow> \<exists>t. ext h u = Some t \<and> rd t SP = k1 \<and>
      (\<forall>x. 0 \<le> x \<and> x < 296 \<longrightarrow> ram t (k1 + of_int x) = ram u (k1 + of_int x))"
  shows "\<exists>u t w. ext h u = Some t \<and> rd u A0 = rd s K0 \<and> rd u A1 = k1 \<and> rd u SP = k1 \<and> cp0 u = cp0 s \<and>
      (\<forall>(r, off) \<in> set exc_saved. ram u (k1 + of_int off) = rd s r) \<and>
      frame_info u k1 ! XCP0_CAUSE = cp0 s C0_CAUSE \<and> frame_info u k1 ! XCP0_EPC = cp0 s C0_EPC \<and>
      frame_info u k1 ! XCP0_VADDR = cp0 s C0_BADVADDR \<and>
      run ext False (assemble (exc_entry_S vectab)) b 0 s = Some (fst (eret t), w) \<and>
      (\<forall>r. r \<notin> {K0, K1} \<longrightarrow> rd w r = rd s r) \<and> m_lo w = m_lo s \<and> m_hi w = m_hi s \<and>
      ram w = ram t \<and> cp0 w = cp0 (snd (eret t))"
proof -
  let ?c = "exc_code vectab"
  obtain u where u: "run ext False ?c b 0 s = run ext False ?c b 59 u"
    "rd u A0 = rd s K0" "rd u A1 = k1" "rd u SP = k1" "rd u T9 = ram s (vectab + idx)"
    "\<forall>(r, off) \<in> set exc_saved. ram u (k1 + of_int off) = rd s r"
    "ram u (k1 + of_int (XGR 32)) = m_lo s" "ram u (k1 + of_int (XGR 33)) = m_hi s" "cp0 u = cp0 s" "k1 AND 3 = 0"
    "frame_info u k1 ! XCP0_CAUSE = cp0 s C0_CAUSE" "frame_info u k1 ! XCP0_EPC = cp0 s C0_EPC"
    "frame_info u k1 ! XCP0_VADDR = cp0 s C0_BADVADDR"
    using exc_entry_frame [OF vec(1) vec(2) [unfolded k1_def idx_def]] unfolding k1_def [symmetric] idx_def [symmetric] .
  define v where "v = wr RA (b + 4 * of_nat (after False 59)) u"
  obtain t where t: "ext h v = Some t" "rd t SP = k1" "\<forall>x. 0 \<le> x \<and> x < 296 \<longrightarrow> ram t (k1 + of_int x) = ram u (k1 + of_int x)"
    using handler [of v] u(4) by (auto simp: v_def)
  have call: "run ext False ?c b 59 u = run ext False ?c b 61 t"
    using out t(1) u(5) vec(3)
    by (subst run_Jalr [where r = T9 and t = v]) (simp_all add: exc_code_parts slot_def v_def after_def exc_assembled)
  have "rd t SP AND 3 = 0" using t(2) u(10) by simp
  then obtain w where w: "run ext False ?c b 61 t = Some (fst (eret t), w)"
    "\<forall>(r, off) \<in> set exc_loaded. rd w r = ram t (rd t SP + of_int off)" "rd w AT = ram t (rd t SP + of_int (XGR 1))"
    "m_lo w = ram t (rd t SP + of_int (XGR 32))" "m_hi w = ram t (rd t SP + of_int (XGR 33))"
    "ram w = ram t" "cp0 w = cp0 (snd (eret t))"
    by (rule exc_entry_restore)
  have m: "ram t (k1 + of_int off) = rd s r" if "(r, off) \<in> set exc_saved" for r off
    using t(3) exc_offs [of r off] bspec [OF u(6) that] that by simp
  have "rd w r = rd s r" if r: "r \<notin> {K0, K1}" for r
  proof (cases "r = ZERO \<or> r = AT")
    case True
    then show ?thesis using w(3) m [of AT "XGR 1"] t(2) by (auto simp: exc_saved_def)
  next
    case False
    then have "r \<in> fst ` set exc_loaded" using r by (simp add: exc_loaded_regs)
    then obtain off where off: "(r, off) \<in> set exc_loaded" by (rule imageE) (metis prod.collapse)
    then show ?thesis using bspec [OF w(2) off] m [of r off] exc_lists(9) t(2) by auto
  qed
  moreover have "m_lo w = m_lo s" "m_hi w = m_hi s" using w(4,5) t(2) u(7,8) spec [OF t(3), of 160] spec [OF t(3), of 164] by (simp_all add: XGR_def)
  moreover have "run ext False ?c b 0 s = Some (fst (eret t), w)" using u(1) call w(1) by simp
  ultimately show ?thesis using t(1) u w(6,7) unfolding exc_assembled
    by (intro exI [of _ v] exI [of _ t] exI [of _ w]) (simp add: v_def frame_info_def)
qed

text \<open>A handler that spoils every register but its stack, and writes to memory.\<close>

lemma exc_entry_transparent_witness:
  "\<exists>w. run (\<lambda>_ u. Some (u\<lparr>rf := (\<lambda>_. 9)(SP := rf u SP), ram := (ram u)(0x80004000 := 1)\<rparr>)) False
        (assemble (exc_entry_S 0x80001000)) 0x80700000 0
        \<lparr>rf = (\<lambda>_. 5)(SP := 0x80300000, K0 := 24), m_lo = 1, m_hi = 2, cp0 = (\<lambda>_. 0)(C0_EPC := 0x80010000, C0_SR := 2),
          ram = (\<lambda>_. 7)(0x8000100c := 0x80003000), cache_ops = []\<rparr> = Some (0x80010000, w) \<and>
     rd w T9 = 5 \<and> rd w SP = 0x80300000 \<and> m_lo w = 1 \<and> m_hi w = 2 \<and> ram w 0x80004000 = 1 \<and> cp0 w C0_SR = 0"
proof -
  define ext :: externals where "ext = (\<lambda>_ u. Some (u\<lparr>rf := (\<lambda>_. 9)(SP := rf u SP), ram := (ram u)(0x80004000 := 1)\<rparr>))"
  define s where "s = \<lparr>rf = (\<lambda>_. 5)(SP := 0x80300000, K0 := 24), m_lo = 1, m_hi = 2,
      cp0 = (\<lambda>_. 0)(C0_EPC := 0x80010000, C0_SR := 2), ram = (\<lambda>_. 7)(0x8000100c := 0x80003000), cache_ops = []\<rparr>"
  have r: "rd s SP = 0x80300000" "rd s K0 = 24" "rd s T9 = 5" "m_lo s = 1" "m_hi s = 2" by (simp_all add: s_def rd_def)
  have k: "push_bit 3 (drop_bit 3 (rd s SP - 296)) = 0x802ffed8" "push_bit 2 (drop_bit 3 (rd s K0)) = 12" by (simp_all add: r)
  have away: "(c :: addr) \<noteq> 0x802ffed8 + of_int x" if "0 \<le> x" "x < 296" "c < 0x80200000" for x c
  proof
    assume "c = 0x802ffed8 + of_int x"
    then have "uint c = (0x802ffed8 + x) mod 2 ^ 32" by (simp add: uint_word_ariths uint_word_of_int take_bit_eq_mod mod_simps)
    then have "uint c = 0x802ffed8 + x" using that by simp
    moreover have "uint c < 0x80200000" using that(3) by (simp add: word_less_def)
    ultimately show False using that(1) by simp
  qed
  have v: "\<forall>x. 0 \<le> x \<and> x < 296 \<longrightarrow> 0x80001000 + 12 \<noteq> (0x802ffed8 :: addr) + of_int x" using away [of _ "0x8000100c"] by simp
  have h: "ram s (0x80001000 + 12) = 0x80003000" by (simp add: s_def)
  have p: "position 0x80700000 (assemble (exc_entry_S 0x80001000)) 0x80003000 = None"
    by (simp add: position_def Let_def exc_assembled exc_code_parts)
  have e: "\<exists>t. ext 0x80003000 u = Some t \<and> rd t SP = 0x802ffed8 \<and>
      (\<forall>x. 0 \<le> x \<and> x < 296 \<longrightarrow> ram t (0x802ffed8 + of_int x) = ram u (0x802ffed8 + of_int x))" if "rd u SP = 0x802ffed8" for u
    using that away [of _ "0x80004000"] by (auto simp: ext_def rd_def)
  from exc_entry_transparent [of "0x80001000" s "0x80003000" "0x80700000" ext, unfolded k, OF _ v h p e]
  obtain u t w where w: "ext 0x80003000 u = Some t" "cp0 u = cp0 s"
      "run ext False (assemble (exc_entry_S 0x80001000)) 0x80700000 0 s = Some (fst (eret t), w)"
      "\<forall>r. r \<notin> {K0, K1} \<longrightarrow> rd w r = rd s r" "m_lo w = m_lo s" "m_hi w = m_hi s" "ram w = ram t" "cp0 w = cp0 (snd (eret t))"
    by auto
  have t: "t = u\<lparr>rf := (\<lambda>_. 9)(SP := rf u SP), ram := (ram u)(0x80004000 := 1)\<rparr>" using w(1) by (simp add: ext_def)
  have "cp0 t = (\<lambda>_. 0)(C0_EPC := 0x80010000, C0_SR := 2)" "ram t 0x80004000 = 1" using w(2) by (simp_all add: t s_def)
  moreover have "unset_bit 1 2 = (0 :: u32)" by code_simp
  ultimately have "fst (eret t) = 0x80010000" "cp0 (snd (eret t)) C0_SR = 0" "ram t 0x80004000 = 1"
    by (simp_all add: eret_def Let_def bit_numeral_rec)
  then show ?thesis using w(3-) r unfolding s_def [symmetric] ext_def [symmetric] by (intro exI [of _ w]) simp
qed

end
