(* ===== verification/CfeApi.thy ===== *)
theory CfeApi
  imports Prelude
begin

text \<open>
  The calls into the boot firmware, \<^verbatim>\<open>cfe/cfe_api.c\<close>: each fills a request block on its stack, hands
  it to the entry point of the firmware and reads the answer from the same block. The firmware is a
  parameter: from the entry point, the handle, the block, the memory and its own state it makes a return
  code and the block, memory and state after. All fields of the union of parameters are 64-bit words, so
  the union is the list of its ten words. The block starts with whatever the stack holds (\<open>g\<close>). An
  \<^verbatim>\<open>int\<close> is its 32-bit word.
\<close>

section \<open>The request block\<close>

record cfe_xiocb_t =
  xiocb_fcode :: u64
  xiocb_status :: u64
  xiocb_handle :: u64
  xiocb_flags :: u64
  xiocb_psize :: u64
  xiocb_plist :: "u64 list"

text \<open>The words of the members of the union, and the sizes of the members.\<close>

definition buf_offset :: nat where "buf_offset = 0"
definition buf_ptr :: nat where "buf_ptr = 1"
definition buf_length :: nat where "buf_length = 2"
definition buf_retlen :: nat where "buf_retlen = 3"
definition buf_ioctlcmd :: nat where "buf_ioctlcmd = 4"
definition buf_devflags :: nat where "buf_devflags = buf_ioctlcmd"
definition inp_status :: nat where "inp_status = 0"
definition enum_idx :: nat where "enum_idx = 0"
definition name_ptr :: nat where "name_ptr = 1"
definition name_length :: nat where "name_length = 2"
definition val_ptr :: nat where "val_ptr = 3"
definition val_length :: nat where "val_length = 4"
definition cpu_number :: nat where "cpu_number = 0"
definition cpu_command :: nat where "cpu_command = 1"
definition start_addr :: nat where "start_addr = 2"
definition gp_val :: nat where "gp_val = 3"
definition sp_val :: nat where "sp_val = 4"
definition a1_val :: nat where "a1_val = 5"
definition ticks_word :: nat where "ticks_word = 0"
definition exitstat_status :: nat where "exitstat_status = 0"
definition mi_idx :: nat where "mi_idx = 0"
definition mi_type :: nat where "mi_type = 1"
definition mi_addr :: nat where "mi_addr = 2"
definition mi_size :: nat where "mi_size = 3"

definition sizeof_xiocb_buffer :: u64 where "sizeof_xiocb_buffer = 40"
definition sizeof_xiocb_inpstat :: u64 where "sizeof_xiocb_inpstat = 8"
definition sizeof_xiocb_envbuf :: u64 where "sizeof_xiocb_envbuf = 40"
definition sizeof_xiocb_cpuctl :: u64 where "sizeof_xiocb_cpuctl = 48"
definition sizeof_xiocb_time :: u64 where "sizeof_xiocb_time = 8"
definition sizeof_xiocb_exitstat :: u64 where "sizeof_xiocb_exitstat = 8"
definition sizeof_xiocb_meminfo :: u64 where "sizeof_xiocb_meminfo = 32"
definition sizeof_xiocb_fwinfo :: u64 where "sizeof_xiocb_fwinfo = 80"

definition CFE_CMD_FW_GETINFO :: u64 where "CFE_CMD_FW_GETINFO = 0"
definition CFE_CMD_FW_RESTART :: u64 where "CFE_CMD_FW_RESTART = 1"
definition CFE_CMD_FW_CPUCTL :: u64 where "CFE_CMD_FW_CPUCTL = 3"
definition CFE_CMD_FW_GETTIME :: u64 where "CFE_CMD_FW_GETTIME = 4"
definition CFE_CMD_FW_MEMENUM :: u64 where "CFE_CMD_FW_MEMENUM = 5"
definition CFE_CMD_FW_FLUSHCACHE :: u64 where "CFE_CMD_FW_FLUSHCACHE = 6"
definition CFE_CMD_DEV_GETHANDLE :: u64 where "CFE_CMD_DEV_GETHANDLE = 9"
definition CFE_CMD_DEV_ENUM :: u64 where "CFE_CMD_DEV_ENUM = 10"
definition CFE_CMD_DEV_OPEN :: u64 where "CFE_CMD_DEV_OPEN = 11"
definition CFE_CMD_DEV_INPSTAT :: u64 where "CFE_CMD_DEV_INPSTAT = 12"
definition CFE_CMD_DEV_READ :: u64 where "CFE_CMD_DEV_READ = 13"
definition CFE_CMD_DEV_WRITE :: u64 where "CFE_CMD_DEV_WRITE = 14"
definition CFE_CMD_DEV_IOCTL :: u64 where "CFE_CMD_DEV_IOCTL = 15"
definition CFE_CMD_DEV_CLOSE :: u64 where "CFE_CMD_DEV_CLOSE = 16"
definition CFE_CMD_DEV_GETINFO :: u64 where "CFE_CMD_DEV_GETINFO = 17"
definition CFE_CMD_ENV_ENUM :: u64 where "CFE_CMD_ENV_ENUM = 20"
definition CFE_CMD_ENV_GET :: u64 where "CFE_CMD_ENV_GET = 22"
definition CFE_CMD_ENV_SET :: u64 where "CFE_CMD_ENV_SET = 23"
definition CFE_FLG_WARMSTART :: u64 where "CFE_FLG_WARMSTART = 1"
definition CFE_CPU_CMD_START :: u64 where "CFE_CPU_CMD_START = 1"
definition CFE_CPU_CMD_STOP :: u64 where "CFE_CPU_CMD_STOP = 0"

text \<open>An \<^verbatim>\<open>int\<close>, a \<^verbatim>\<open>long\<close> and a pointer become signed 64-bit words with their sign extended; an
  unsigned one is extended by zeros; an answer is cut to 32 bits.\<close>

definition s64 :: "u32 \<Rightarrow> u64" where "s64 x = scast x"
definition z64 :: "u32 \<Rightarrow> u64" where "z64 x = ucast x"
definition lo32 :: "u64 \<Rightarrow> u32" where "lo32 x = ucast x"
definition XPTR_FROM_NATIVE :: "addr \<Rightarrow> u64" where "XPTR_FROM_NATIVE n = scast n"
definition NATIVE_FROM_XPTR :: "u64 \<Rightarrow> addr" where "NATIVE_FROM_XPTR x = ucast x"

text \<open>The five header fields every call sets.\<close>

definition request :: "u64 \<Rightarrow> u64 \<Rightarrow> u64 \<Rightarrow> u64 \<Rightarrow> cfe_xiocb_t \<Rightarrow> cfe_xiocb_t" where
  "request fcode handle flags psize g =
     g\<lparr>xiocb_fcode := fcode, xiocb_status := 0, xiocb_handle := handle, xiocb_flags := flags, xiocb_psize := psize\<rparr>"

definition param :: "nat \<Rightarrow> u64 \<Rightarrow> cfe_xiocb_t \<Rightarrow> cfe_xiocb_t" where
  "param i v x = x\<lparr>xiocb_plist := (xiocb_plist x)[i := v]\<rparr>"

definition answer :: "nat \<Rightarrow> cfe_xiocb_t \<Rightarrow> u64" where
  "answer i x = xiocb_plist x ! i"

section \<open>The firmware and the dispatcher\<close>

type_synonym cmemory = "addr \<Rightarrow> u8"
type_synonym 'f firmware =
  "addr \<Rightarrow> u32 \<Rightarrow> cfe_xiocb_t \<Rightarrow> cmemory \<Rightarrow> 'f \<Rightarrow> int \<times> cfe_xiocb_t \<times> cmemory \<times> 'f"

record 'f cfe_client =
  cfe_dispfunc :: addr
  cfe_handle :: u64
  cfe_mem :: cmemory
  cfe_state :: 'f

definition cfe_init :: "u64 \<Rightarrow> u64 \<Rightarrow> 'f cfe_client \<Rightarrow> int \<times> 'f cfe_client" where
  "cfe_init handle ept s = (0, s\<lparr>cfe_dispfunc := NATIVE_FROM_XPTR ept, cfe_handle := handle\<rparr>)"

definition cfe_iocb_dispatch ::
  "'f firmware \<Rightarrow> cfe_xiocb_t \<Rightarrow> 'f cfe_client \<Rightarrow> int \<times> cfe_xiocb_t \<times> 'f cfe_client" where
  "cfe_iocb_dispatch fw x s =
     (if cfe_dispfunc s = NULL then (-1, x, s)
      else let (r, x, m, f) = fw (cfe_dispfunc s) (lo32 (cfe_handle s)) x (cfe_mem s) (cfe_state s)
           in (r, x, s\<lparr>cfe_mem := m, cfe_state := f\<rparr>))"

text \<open>The block after the call and the state; no function looks at the return code.\<close>

definition cfe_call :: "'f firmware \<Rightarrow> cfe_xiocb_t \<Rightarrow> 'f cfe_client \<Rightarrow> cfe_xiocb_t \<times> 'f cfe_client" where
  "cfe_call fw x s = snd (cfe_iocb_dispatch fw x s)"

text \<open>Status or, if that is not negative, an answer.\<close>

definition status_or :: "cfe_xiocb_t \<Rightarrow> u64 \<Rightarrow> u32" where
  "status_or x v = (if xiocb_status x <s 0 then lo32 (xiocb_status x) else lo32 v)"

section \<open>The calls\<close>

definition cfe_close :: "'f firmware \<Rightarrow> cfe_xiocb_t \<Rightarrow> u32 \<Rightarrow> 'f cfe_client \<Rightarrow> u32 \<times> 'f cfe_client" where
  "cfe_close fw g handle s =
     (let x = request CFE_CMD_DEV_CLOSE (s64 handle) 0 0 g;
          (x, s) = cfe_call fw x s
      in (lo32 (xiocb_status x), s))"

definition cfe_cpu_start ::
  "'f firmware \<Rightarrow> cfe_xiocb_t \<Rightarrow> u32 \<Rightarrow> addr \<Rightarrow> u32 \<Rightarrow> u32 \<Rightarrow> u32 \<Rightarrow> 'f cfe_client \<Rightarrow> u32 \<times> 'f cfe_client" where
  "cfe_cpu_start fw g cpu fn sp gp a1 s =
     (let x = request CFE_CMD_FW_CPUCTL 0 0 sizeof_xiocb_cpuctl g;
          x = param cpu_number (s64 cpu) x;
          x = param cpu_command CFE_CPU_CMD_START x;
          x = param gp_val (s64 gp) x;
          x = param sp_val (s64 sp) x;
          x = param a1_val (s64 a1) x;
          x = param start_addr (s64 fn) x;
          (x, s) = cfe_call fw x s
      in (lo32 (xiocb_status x), s))"

definition cfe_cpu_stop :: "'f firmware \<Rightarrow> cfe_xiocb_t \<Rightarrow> u32 \<Rightarrow> 'f cfe_client \<Rightarrow> u32 \<times> 'f cfe_client" where
  "cfe_cpu_stop fw g cpu s =
     (let x = request CFE_CMD_FW_CPUCTL 0 0 sizeof_xiocb_cpuctl g;
          x = param cpu_number (s64 cpu) x;
          x = param cpu_command CFE_CPU_CMD_STOP x;
          (x, s) = cfe_call fw x s
      in (lo32 (xiocb_status x), s))"

definition cfe_enumenv ::
  "'f firmware \<Rightarrow> cfe_xiocb_t \<Rightarrow> u32 \<Rightarrow> addr \<Rightarrow> u32 \<Rightarrow> addr \<Rightarrow> u32 \<Rightarrow> 'f cfe_client \<Rightarrow> u32 \<times> 'f cfe_client" where
  "cfe_enumenv fw g idx name namelen val vallen s =
     (let x = request CFE_CMD_ENV_ENUM 0 0 sizeof_xiocb_envbuf g;
          x = param enum_idx (s64 idx) x;
          x = param name_ptr (XPTR_FROM_NATIVE name) x;
          x = param name_length (s64 namelen) x;
          x = param val_ptr (XPTR_FROM_NATIVE val) x;
          x = param val_length (s64 vallen) x;
          (x, s) = cfe_call fw x s
      in (lo32 (xiocb_status x), s))"

definition cfe_enumdev ::
  "'f firmware \<Rightarrow> cfe_xiocb_t \<Rightarrow> u32 \<Rightarrow> addr \<Rightarrow> u32 \<Rightarrow> 'f cfe_client \<Rightarrow> u32 \<times> 'f cfe_client" where
  "cfe_enumdev fw g idx name namelen s =
     (let x = request CFE_CMD_DEV_ENUM 0 0 sizeof_xiocb_envbuf g;
          x = param enum_idx (s64 idx) x;
          x = param name_ptr (XPTR_FROM_NATIVE name) x;
          x = param name_length (s64 namelen) x;
          (x, s) = cfe_call fw x s
      in (lo32 (xiocb_status x), s))"

text \<open>With the start, length and type stored when the status is not negative.\<close>

definition cfe_enummem ::
  "'f firmware \<Rightarrow> cfe_xiocb_t \<Rightarrow> u32 \<Rightarrow> u32 \<Rightarrow> 'f cfe_client \<Rightarrow> u32 \<times> (u64 \<times> u64 \<times> u64) option \<times> 'f cfe_client" where
  "cfe_enummem fw g idx flags s =
     (let x = request CFE_CMD_FW_MEMENUM 0 (s64 flags) sizeof_xiocb_meminfo g;
          x = param mi_idx (s64 idx) x;
          (x, s) = cfe_call fw x s
      in if xiocb_status x <s 0 then (lo32 (xiocb_status x), None, s)
         else (0, Some (answer mi_addr x, answer mi_size x, answer mi_type x), s))"

definition cfe_exit :: "'f firmware \<Rightarrow> cfe_xiocb_t \<Rightarrow> u32 \<Rightarrow> u32 \<Rightarrow> 'f cfe_client \<Rightarrow> u32 \<times> 'f cfe_client" where
  "cfe_exit fw g warm st s =
     (let x = request CFE_CMD_FW_RESTART 0 (if warm \<noteq> 0 then CFE_FLG_WARMSTART else 0) sizeof_xiocb_exitstat g;
          x = param exitstat_status (s64 st) x;
          (x, s) = cfe_call fw x s
      in (lo32 (xiocb_status x), s))"

definition cfe_flushcache :: "'f firmware \<Rightarrow> cfe_xiocb_t \<Rightarrow> u32 \<Rightarrow> 'f cfe_client \<Rightarrow> u32 \<times> 'f cfe_client" where
  "cfe_flushcache fw g flg s =
     (let x = request CFE_CMD_FW_FLUSHCACHE 0 (s64 flg) 0 g;
          (x, s) = cfe_call fw x s
      in (lo32 (xiocb_status x), s))"

text \<open>The length of a string, \<open>None\<close> if memory holds no zero byte.\<close>

partial_function (option) strlen_loop :: "cmemory \<Rightarrow> addr \<Rightarrow> u32 \<Rightarrow> u32 option" where
  "strlen_loop m name count = (if m name = 0 then Some count else strlen_loop m (name + 1) (count + 1))"

definition cfe_strlen :: "addr \<Rightarrow> 'f cfe_client \<Rightarrow> u32 option" where
  "cfe_strlen name s = strlen_loop (cfe_mem s) name 0"

definition cfe_getdevinfo :: "'f firmware \<Rightarrow> cfe_xiocb_t \<Rightarrow> addr \<Rightarrow> 'f cfe_client \<Rightarrow> (u32 \<times> 'f cfe_client) option" where
  "cfe_getdevinfo fw g name s =
     (case cfe_strlen name s of None \<Rightarrow> None
      | Some n \<Rightarrow>
          let x = request CFE_CMD_DEV_GETINFO 0 0 sizeof_xiocb_buffer g;
              x = param buf_offset 0 x;
              x = param buf_ptr (XPTR_FROM_NATIVE name) x;
              x = param buf_length (s64 n) x;
              (x, s) = cfe_call fw x s
          in Some (status_or x (answer buf_devflags x), s))"

definition cfe_getenv ::
  "'f firmware \<Rightarrow> cfe_xiocb_t \<Rightarrow> addr \<Rightarrow> addr \<Rightarrow> u32 \<Rightarrow> 'f cfe_client \<Rightarrow> (u32 \<times> 'f cfe_client) option" where
  "cfe_getenv fw g name dest destlen s =
     (let s = s\<lparr>cfe_mem := (cfe_mem s)(dest := 0)\<rparr>
      in case cfe_strlen name s of None \<Rightarrow> None
         | Some n \<Rightarrow>
             let x = request CFE_CMD_ENV_GET 0 0 sizeof_xiocb_envbuf g;
                 x = param enum_idx 0 x;
                 x = param name_ptr (XPTR_FROM_NATIVE name) x;
                 x = param name_length (s64 n) x;
                 x = param val_ptr (XPTR_FROM_NATIVE dest) x;
                 x = param val_length (s64 destlen) x;
                 (x, s) = cfe_call fw x s
             in Some (lo32 (xiocb_status x), s))"

text \<open>The seven fields stored in \<^verbatim>\<open>info\<close>, in order, when the status is not negative.\<close>

definition cfe_getfwinfo ::
  "'f firmware \<Rightarrow> cfe_xiocb_t \<Rightarrow> 'f cfe_client \<Rightarrow> u32 \<times> u64 list option \<times> 'f cfe_client" where
  "cfe_getfwinfo fw g s =
     (let x = request CFE_CMD_FW_GETINFO 0 0 sizeof_xiocb_fwinfo g;
          (x, s) = cfe_call fw x s
      in if xiocb_status x <s 0 then (lo32 (xiocb_status x), None, s)
         else (0, Some (take 7 (xiocb_plist x)), s))"

definition cfe_getstdhandle :: "'f firmware \<Rightarrow> cfe_xiocb_t \<Rightarrow> u32 \<Rightarrow> 'f cfe_client \<Rightarrow> u32 \<times> 'f cfe_client" where
  "cfe_getstdhandle fw g flg s =
     (let x = request CFE_CMD_DEV_GETHANDLE 0 (s64 flg) 0 g;
          (x, s) = cfe_call fw x s
      in (status_or x (xiocb_handle x), s))"

definition cfe_getticks :: "'f firmware \<Rightarrow> cfe_xiocb_t \<Rightarrow> 'f cfe_client \<Rightarrow> u64 \<times> 'f cfe_client" where
  "cfe_getticks fw g s =
     (let x = request CFE_CMD_FW_GETTIME 0 0 sizeof_xiocb_time g;
          x = param ticks_word 0 x;
          (x, s) = cfe_call fw x s
      in (answer ticks_word x, s))"

definition cfe_inpstat :: "'f firmware \<Rightarrow> cfe_xiocb_t \<Rightarrow> u32 \<Rightarrow> 'f cfe_client \<Rightarrow> u32 \<times> 'f cfe_client" where
  "cfe_inpstat fw g handle s =
     (let x = request CFE_CMD_DEV_INPSTAT (s64 handle) 0 sizeof_xiocb_inpstat g;
          x = param inp_status 0 x;
          (x, s) = cfe_call fw x s
      in (status_or x (answer inp_status x), s))"

text \<open>With the length stored at \<^verbatim>\<open>retlen\<close> when that is not NULL.\<close>

definition cfe_ioctl ::
  "'f firmware \<Rightarrow> cfe_xiocb_t \<Rightarrow> u32 \<Rightarrow> u32 \<Rightarrow> addr \<Rightarrow> u32 \<Rightarrow> bool \<Rightarrow> u64 \<Rightarrow> 'f cfe_client
     \<Rightarrow> u32 \<times> u32 option \<times> 'f cfe_client" where
  "cfe_ioctl fw g handle ioctlnum buffer len retlen offset s =
     (let x = request CFE_CMD_DEV_IOCTL (s64 handle) 0 sizeof_xiocb_buffer g;
          x = param buf_offset offset x;
          x = param buf_ioctlcmd (z64 ioctlnum) x;
          x = param buf_ptr (XPTR_FROM_NATIVE buffer) x;
          x = param buf_length (s64 len) x;
          (x, s) = cfe_call fw x s
      in (lo32 (xiocb_status x), if retlen then Some (lo32 (answer buf_retlen x)) else None, s))"

definition cfe_open :: "'f firmware \<Rightarrow> cfe_xiocb_t \<Rightarrow> addr \<Rightarrow> 'f cfe_client \<Rightarrow> (u32 \<times> 'f cfe_client) option" where
  "cfe_open fw g name s =
     (case cfe_strlen name s of None \<Rightarrow> None
      | Some n \<Rightarrow>
          let x = request CFE_CMD_DEV_OPEN 0 0 sizeof_xiocb_buffer g;
              x = param buf_offset 0 x;
              x = param buf_ptr (XPTR_FROM_NATIVE name) x;
              x = param buf_length (s64 n) x;
              (x, s) = cfe_call fw x s
          in Some (status_or x (xiocb_handle x), s))"

text \<open>The body \<^verbatim>\<open>cfe_readblk\<close> and \<^verbatim>\<open>cfe_writeblk\<close> have in common.\<close>

definition block_io ::
  "u64 \<Rightarrow> 'f firmware \<Rightarrow> cfe_xiocb_t \<Rightarrow> u32 \<Rightarrow> u64 \<Rightarrow> addr \<Rightarrow> u32 \<Rightarrow> 'f cfe_client \<Rightarrow> u32 \<times> 'f cfe_client" where
  "block_io fcode fw g handle offset buffer len s =
     (let x = request fcode (s64 handle) 0 sizeof_xiocb_buffer g;
          x = param buf_offset offset x;
          x = param buf_ptr (XPTR_FROM_NATIVE buffer) x;
          x = param buf_length (s64 len) x;
          (x, s) = cfe_call fw x s
      in (status_or x (answer buf_retlen x), s))"

definition cfe_readblk ::
  "'f firmware \<Rightarrow> cfe_xiocb_t \<Rightarrow> u32 \<Rightarrow> u64 \<Rightarrow> addr \<Rightarrow> u32 \<Rightarrow> 'f cfe_client \<Rightarrow> u32 \<times> 'f cfe_client" where
  "cfe_readblk = block_io CFE_CMD_DEV_READ"

definition cfe_writeblk ::
  "'f firmware \<Rightarrow> cfe_xiocb_t \<Rightarrow> u32 \<Rightarrow> u64 \<Rightarrow> addr \<Rightarrow> u32 \<Rightarrow> 'f cfe_client \<Rightarrow> u32 \<times> 'f cfe_client" where
  "cfe_writeblk = block_io CFE_CMD_DEV_WRITE"

definition cfe_read ::
  "'f firmware \<Rightarrow> cfe_xiocb_t \<Rightarrow> u32 \<Rightarrow> addr \<Rightarrow> u32 \<Rightarrow> 'f cfe_client \<Rightarrow> u32 \<times> 'f cfe_client" where
  "cfe_read fw g handle buffer len s = cfe_readblk fw g handle 0 buffer len s"

definition cfe_write ::
  "'f firmware \<Rightarrow> cfe_xiocb_t \<Rightarrow> u32 \<Rightarrow> addr \<Rightarrow> u32 \<Rightarrow> 'f cfe_client \<Rightarrow> u32 \<times> 'f cfe_client" where
  "cfe_write fw g handle buffer len s = cfe_writeblk fw g handle 0 buffer len s"

definition cfe_setenv ::
  "'f firmware \<Rightarrow> cfe_xiocb_t \<Rightarrow> addr \<Rightarrow> addr \<Rightarrow> 'f cfe_client \<Rightarrow> (u32 \<times> 'f cfe_client) option" where
  "cfe_setenv fw g name val s =
     (case cfe_strlen name s of None \<Rightarrow> None
      | Some n \<Rightarrow>
      case cfe_strlen val s of None \<Rightarrow> None
      | Some l \<Rightarrow>
          let x = request CFE_CMD_ENV_SET 0 0 sizeof_xiocb_envbuf g;
              x = param enum_idx 0 x;
              x = param name_ptr (XPTR_FROM_NATIVE name) x;
              x = param name_length (s64 n) x;
              x = param val_ptr (XPTR_FROM_NATIVE val) x;
              x = param val_length (s64 l) x;
              (x, s) = cfe_call fw x s
          in Some (lo32 (xiocb_status x), s))"

section \<open>What the firmware receives and what the caller gets\<close>

lemma cut_extended [simp]: "lo32 (s64 n) = n" "lo32 (z64 n) = n" "NATIVE_FROM_XPTR (XPTR_FROM_NATIVE n) = n" "lo32 0 = 0"
  by (simp_all add: lo32_def s64_def z64_def NATIVE_FROM_XPTR_def XPTR_FROM_NATIVE_def)
    (rule bit_word_eqI; simp add: bit_simps)+

lemma param_answer [simp]:
  "i < length (xiocb_plist x) \<Longrightarrow> answer j (param i v x) = (if i = j then v else answer j x)"
  "length (xiocb_plist (param i v x)) = length (xiocb_plist x)"
  "xiocb_fcode (param i v x) = xiocb_fcode x"
  by (simp_all add: answer_def param_def nth_list_update)

lemma request_sel [simp]:
  "xiocb_fcode (request c h fl p g) = c" "xiocb_plist (request c h fl p g) = xiocb_plist g"
  "xiocb_status (request c h fl p g) = 0"
  by (simp_all add: request_def)

text \<open>Bytes and strings in memory.\<close>

definition mem_at :: "cmemory \<Rightarrow> addr \<Rightarrow> nat \<Rightarrow> u8 list" where
  "mem_at m a n = map (\<lambda>i. m (a + of_nat i)) [0..<n]"

fun put_mem :: "addr \<Rightarrow> u8 list \<Rightarrow> cmemory \<Rightarrow> cmemory" where
  "put_mem a [] m = m"
| "put_mem a (b # bs) m = put_mem (a + 1) bs (m(a := b))"

definition cstring :: "cmemory \<Rightarrow> addr \<Rightarrow> u8 list \<Rightarrow> bool" where
  "cstring m a bs \<longleftrightarrow> 0 \<notin> set bs \<and> mem_at m a (length bs + 1) = bs @ [0]"

lemma mem_at_Suc: "mem_at m a (Suc n) = m a # mem_at m (a + 1) n"
  by (simp add: mem_at_def upt_conv_Cons algebra_simps del: upt_Suc flip: map_Suc_upt)

lemma strlen_cstring: "cstring m a bs \<Longrightarrow> strlen_loop m a c = Some (c + of_nat (length bs))"
proof (induction bs arbitrary: a c)
  case Nil
  then show ?case by (subst strlen_loop.simps) (simp add: cstring_def mem_at_def)
next
  case (Cons b bs)
  then have "m a = b" "b \<noteq> 0" "cstring m (a + 1) bs" by (auto simp: cstring_def mem_at_Suc)
  then show ?case using Cons.IH by (subst strlen_loop.simps) (simp add: algebra_simps)
qed

lemma put_mem_outside: "(\<And>i. i < length bs \<Longrightarrow> x \<noteq> a + of_nat i) \<Longrightarrow> put_mem a bs m x = m x"
proof (induction bs arbitrary: a m)
  case (Cons b bs)
  have "put_mem (a + 1) bs (m(a := b)) x = (m(a := b)) x"
    using Cons.prems [of "Suc i" for i] by (intro Cons.IH) (auto simp: algebra_simps)
  then show ?case using Cons.prems [of 0] by simp
qed simp

lemma mem_at_put_mem: "length bs \<le> 2 ^ 32 \<Longrightarrow> mem_at (put_mem a bs m) a (length bs) = bs"
proof (induction bs arbitrary: a m)
  case (Cons b bs)
  have "put_mem (a + 1) bs (m(a := b)) a = (m(a := b)) a"
  proof (rule put_mem_outside)
    fix i assume "i < length bs"
    then have "Suc i < 2 ^ 32" using Cons.prems by simp
    then have "unat (of_nat (Suc i) :: u32) = Suc i"
      by (simp add: unat_of_nat take_bit_nat_eq_self del: of_nat_Suc)
    then have "of_nat (Suc i) \<noteq> (0 :: u32)" by (metis nat.distinct(1) unat_0)
    then show "a \<noteq> a + 1 + of_nat i" by (simp add: algebra_simps)
  qed
  then show ?case using Cons by (simp add: mem_at_Suc)
qed (simp add: mem_at_def)

text \<open>What the firmware promises of its environment, \<open>env_of\<close>: set binds the bytes of the name to the
  bytes of the value; get puts the value, cut to the room, and a zero byte, or fails with
  \<^verbatim>\<open>CFE_ERR_ENVNOTFOUND\<close> and leaves memory alone.\<close>

definition req_name :: "cmemory \<Rightarrow> cfe_xiocb_t \<Rightarrow> u8 list" where
  "req_name m x = mem_at m (NATIVE_FROM_XPTR (answer name_ptr x)) (unat (answer name_length x))"

definition req_val :: "cmemory \<Rightarrow> cfe_xiocb_t \<Rightarrow> u8 list" where
  "req_val m x = mem_at m (NATIVE_FROM_XPTR (answer val_ptr x)) (unat (answer val_length x))"

definition env_firmware :: "'f firmware \<Rightarrow> ('f \<Rightarrow> u8 list \<Rightarrow> u8 list option) \<Rightarrow> bool" where
  "env_firmware fw env_of \<longleftrightarrow>
     (\<forall>ept h x m f. case fw ept h x m f of (r, x', m', f') \<Rightarrow>
        (xiocb_fcode x = CFE_CMD_ENV_SET \<longrightarrow>
           xiocb_status x' = 0 \<and> m' = m \<and> env_of f' = (env_of f)(req_name m x \<mapsto> req_val m x)) \<and>
        (xiocb_fcode x = CFE_CMD_ENV_GET \<longrightarrow> env_of f' = env_of f \<and>
           (case env_of f (req_name m x) of
              None \<Rightarrow> xiocb_status x' = - 9 \<and> m' = m
            | Some v \<Rightarrow> xiocb_status x' = 0 \<and>
                m' = put_mem (NATIVE_FROM_XPTR (answer val_ptr x)) (take (unat (answer val_length x) - 1) v @ [0]) m)))"

text \<open>The block the two environment calls hand over, in terms of the strings.\<close>

lemma unat_s64:
  assumes "unat n < 0x80000000"
  shows "unat (s64 n) = unat n"
proof -
  have "int (unat n) = uint n" by simp
  with assms have "0 \<le> uint n \<and> uint n < 0x80000000" by linarith
  then have u: "0 \<le> uint n" "uint n < 2 ^ 31" by simp_all
  have "- (2 ^ 31) \<le> uint n" by (rule order.trans [OF _ u(1)]) simp
  then have "signed_take_bit 31 (uint n) = uint n" by (rule signed_take_bit_int_eq_self [OF _ u(2)])
  moreover have "LENGTH(32) - Suc 0 = 31" by simp
  ultimately have "sint n = uint n" by (simp only: sint_uint)
  then have e: "s64 n = word_of_int (uint n)" by (simp only: s64_def scast_eq)
  have "uint (word_of_int (uint n) :: u64) = uint n"
    by (subst uint_word_of_int) (use u in simp)
  then show ?thesis by (simp only: e unat_eq_nat_uint)
qed

text \<open>The two environment calls, in terms of the strings.\<close>

lemma cfe_call_ready:
  "cfe_dispfunc s \<noteq> NULL \<Longrightarrow> fw (cfe_dispfunc s) (lo32 (cfe_handle s)) x (cfe_mem s) (cfe_state s) = (r, x', m', f')
     \<Longrightarrow> cfe_call fw x s = (x', s\<lparr>cfe_mem := m', cfe_state := f'\<rparr>)"
  by (simp add: cfe_call_def cfe_iocb_dispatch_def)

lemma cstring_req:
  assumes "cstring m a bs" "length bs < 0x80000000"
  shows "mem_at m a (unat (s64 (of_nat (length bs)))) = bs"
proof -
  have "unat (of_nat (length bs) :: u32) = length bs"
    using assms(2) by (simp add: unat_of_nat take_bit_nat_eq_self)
  then have "unat (s64 (of_nat (length bs))) = length bs"
    using unat_s64 [of "of_nat (length bs)"] assms(2) by simp
  moreover have "take (length bs) (mem_at m a (length bs + 1)) = bs" using assms(1) by (simp add: cstring_def)
  ultimately show ?thesis by (simp add: mem_at_def take_map del: upt_Suc)
qed

lemma env_firmwareD:
  assumes "env_firmware fw env_of" "fw ept h x m f = (r, x', m', f')"
  shows "xiocb_fcode x = CFE_CMD_ENV_SET \<Longrightarrow>
      xiocb_status x' = 0 \<and> m' = m \<and> env_of f' = (env_of f)(req_name m x \<mapsto> req_val m x)"
    and "xiocb_fcode x = CFE_CMD_ENV_GET \<Longrightarrow> env_of f' = env_of f \<and>
      (case env_of f (req_name m x) of
         None \<Rightarrow> xiocb_status x' = - 9 \<and> m' = m
       | Some v \<Rightarrow> xiocb_status x' = 0 \<and>
           m' = put_mem (NATIVE_FROM_XPTR (answer val_ptr x)) (take (unat (answer val_length x) - 1) v @ [0]) m)"
  using assms(1) [unfolded env_firmware_def, THEN spec, of ept, THEN spec, of h, THEN spec, of x, THEN spec, of m,
      THEN spec, of f] assms(2) by simp_all

lemma setenv_binds:
  assumes "env_firmware fw env_of" "cfe_dispfunc s \<noteq> NULL" "length (xiocb_plist g) = 10"
    "cstring (cfe_mem s) name nm" "cstring (cfe_mem s) val v" "length nm < 0x80000000" "length v < 0x80000000"
  shows "\<exists>f. cfe_setenv fw g name val s = Some (0, s\<lparr>cfe_state := f\<rparr>) \<and> env_of f = (env_of (cfe_state s))(nm \<mapsto> v)"
proof -
  define x where "x = param val_length (s64 (of_nat (length v))) (param val_ptr (XPTR_FROM_NATIVE val)
    (param name_length (s64 (of_nat (length nm))) (param name_ptr (XPTR_FROM_NATIVE name) (param enum_idx 0
      (request CFE_CMD_ENV_SET 0 0 sizeof_xiocb_envbuf g)))))"
  have x: "xiocb_fcode x = CFE_CMD_ENV_SET" "req_name (cfe_mem s) x = nm" "req_val (cfe_mem s) x = v"
    using assms(3) cstring_req [OF assms(4,6)] cstring_req [OF assms(5,7)]
    by (simp_all add: x_def req_name_def req_val_def name_ptr_def name_length_def val_ptr_def val_length_def enum_idx_def)
  obtain r x' m' f' where c: "fw (cfe_dispfunc s) (lo32 (cfe_handle s)) x (cfe_mem s) (cfe_state s) = (r, x', m', f')"
    by (metis prod_cases4)
  have f: "xiocb_status x' = 0" "m' = cfe_mem s" "env_of f' = (env_of (cfe_state s))(nm \<mapsto> v)"
    using env_firmwareD [OF assms(1) c] x by simp_all
  have "cfe_setenv fw g name val s = Some (0, s\<lparr>cfe_state := f'\<rparr>)"
    using strlen_cstring [OF assms(4), of 0] strlen_cstring [OF assms(5), of 0] cfe_call_ready [where fw = fw, OF assms(2) c] f(1,2)
    by (simp add: cfe_setenv_def cfe_strlen_def Let_def flip: x_def)
  then show ?thesis using f(3) by blast
qed

lemma cstring_put: "0 \<notin> set v \<Longrightarrow> length v < 0x80000000 \<Longrightarrow> cstring (put_mem a (v @ [0]) m) a v"
  using mem_at_put_mem [of "v @ [0]" a m] by (simp add: cstring_def)

text \<open>From \<open>s\<close> to \<open>u\<close> nothing of the client is written but the \<open>n\<close> bytes at \<open>a\<close>; the firmware's state is
  not looked at.\<close>

definition only_written :: "'f cfe_client \<Rightarrow> 'f cfe_client \<Rightarrow> addr \<Rightarrow> nat \<Rightarrow> bool" where
  "only_written s u a n \<longleftrightarrow> cfe_dispfunc u = cfe_dispfunc s \<and> cfe_handle u = cfe_handle s \<and>
     (\<forall>b. (\<forall>i<n. b \<noteq> a + of_nat i) \<longrightarrow> cfe_mem u b = cfe_mem s b)"

lemma getenv_reads:
  assumes "env_firmware fw env_of" "cfe_dispfunc s \<noteq> NULL" "length (xiocb_plist g) = 10"
    "cstring (cfe_mem s) name nm" "length nm < 0x80000000" "\<forall>i \<le> length nm. dest \<noteq> name + of_nat i"
    "length v < unat destlen" "unat destlen < 0x80000000"
  shows "\<exists>u. env_of (cfe_state u) = env_of (cfe_state s) \<and>
     (env_of (cfe_state s) nm = Some v \<longrightarrow> 0 \<notin> set v \<longrightarrow>
        cfe_getenv fw g name dest destlen s = Some (0, u) \<and> cstring (cfe_mem u) dest v \<and>
        only_written s u dest (length v + 1)) \<and>
     (env_of (cfe_state s) nm = None \<longrightarrow>
        cfe_getenv fw g name dest destlen s = Some (- 9, u) \<and> cstring (cfe_mem u) dest [] \<and>
        only_written s u dest 1)"
proof -
  let ?s = "s\<lparr>cfe_mem := (cfe_mem s)(dest := 0)\<rparr>"
  have "mem_at ((cfe_mem s)(dest := 0)) name (length nm + 1) = mem_at (cfe_mem s) name (length nm + 1)"
    unfolding mem_at_def
  proof (rule map_cong)
    fix i assume "i \<in> set [0..<length nm + 1]"
    then have "i \<le> length nm" by auto
    then have "dest \<noteq> name + of_nat i" using assms(6) by blast
    then show "((cfe_mem s)(dest := 0)) (name + of_nat i) = cfe_mem s (name + of_nat i)" by (simp add: eq_commute)
  qed simp
  then have cs: "cstring (cfe_mem ?s) name nm" using assms(4) by (simp add: cstring_def)
  define x where "x = param val_length (s64 destlen) (param val_ptr (XPTR_FROM_NATIVE dest)
    (param name_length (s64 (of_nat (length nm))) (param name_ptr (XPTR_FROM_NATIVE name) (param enum_idx 0
      (request CFE_CMD_ENV_GET 0 0 sizeof_xiocb_envbuf g)))))"
  have x: "xiocb_fcode x = CFE_CMD_ENV_GET" "req_name (cfe_mem ?s) x = nm"
    "answer val_ptr x = XPTR_FROM_NATIVE dest" "unat (answer val_length x) = unat destlen"
    using assms(3) cstring_req [OF cs assms(5)] unat_s64 [OF assms(8)]
    by (simp_all add: x_def req_name_def name_ptr_def name_length_def val_ptr_def val_length_def enum_idx_def)
  define m where "m = cfe_mem ?s"
  define f0 where "f0 = cfe_state s"
  obtain r x' m' f' where c: "fw (cfe_dispfunc s) (lo32 (cfe_handle s)) x m f0 = (r, x', m', f')"
    by (metis prod_cases4)
  have f: "env_of f' = env_of (cfe_state s) \<and> (case env_of (cfe_state s) nm of
       None \<Rightarrow> xiocb_status x' = - 9 \<and> m' = m
     | Some v \<Rightarrow> xiocb_status x' = 0 \<and> m' = put_mem dest (take (unat destlen - 1) v @ [0]) m)"
    using env_firmwareD(2) [OF assms(1) c x(1)] x(3,4) x(2) [folded m_def] by (simp add: f0_def cong: option.case_cong)
  have m: "m dest = 0" by (simp add: m_def)
  define u where "u = ?s\<lparr>cfe_mem := m', cfe_state := f'\<rparr>"
  have m_eq: "(cfe_mem s)(dest := 0) = m" by (simp add: m_def)
  have call: "cfe_call fw x ?s = (x', u)"
    using c assms(2) by (simp add: cfe_call_def cfe_iocb_dispatch_def u_def m_eq f0_def)
  have g: "cfe_getenv fw g name dest destlen s = Some (lo32 (xiocb_status x'), u)"
    using strlen_cstring [OF cs, of 0] call by (simp add: cfe_getenv_def cfe_strlen_def Let_def flip: x_def)
  have "cstring (cfe_mem u) dest v \<and> only_written s u dest (length v + 1)"
    if "env_of (cfe_state s) nm = Some v" "0 \<notin> set v"
  proof -
    have m': "m' = put_mem dest (v @ [0]) m" using f that(1) assms(7) by simp
    have "put_mem dest (v @ [0]) m a = cfe_mem s a" if "\<And>i. i < length v + 1 \<Longrightarrow> a \<noteq> dest + of_nat i" for a
      using that that [of 0] put_mem_outside [of "v @ [0]" a dest m] by (simp add: m_def)
    then show ?thesis
      using m' assms(7,8) that(2) cstring_put [of v dest] by (auto simp: u_def only_written_def)
  qed
  moreover have "cstring (cfe_mem u) dest [] \<and> only_written s u dest 1" if "env_of (cfe_state s) nm = None"
    using f m that by (simp add: u_def cstring_def mem_at_def only_written_def m_def)
  ultimately show ?thesis
    using f g by (intro exI [of _ u]) (auto simp: u_def lo32_def)
qed

text \<open>C22: Over firmware that keeps an environment as documented, \<^verbatim>\<open>cfe_getenv\<close> after \<^verbatim>\<open>cfe_setenv\<close>
  returns the value set, as a terminated string in the caller's buffer, for all strings of any length
  that fit; a name not bound gives the error of the firmware and an empty string. Nothing else
  changes: setting changes the environment in the name set only and no memory; reading a bound name
  writes the bytes of the string and its terminator, an unbound one the first byte of the buffer, and
  both leave all other memory and the environment as they were. This rests on every pointer and length
  crossing the interface intact, those above 2 GB (all of kernel space) included.\<close>

theorem env_round_trip:
  assumes "env_firmware fw env_of" "cfe_dispfunc s \<noteq> NULL" "length (xiocb_plist g) = 10" "length (xiocb_plist g') = 10"
    "cstring (cfe_mem s) name nm" "cstring (cfe_mem s) val v" "length nm < 0x80000000"
    "cstring (cfe_mem s) other no" "length no < 0x80000000" "no \<noteq> nm" "env_of (cfe_state s) no = None"
    "length v < unat destlen" "unat destlen < 0x80000000"
    "\<forall>i \<le> length nm. dest \<noteq> name + of_nat i" "\<forall>i \<le> length no. dest \<noteq> other + of_nat i"
  shows "\<exists>t u w. cfe_setenv fw g name val s = Some (0, t) \<and> env_of (cfe_state t) = (env_of (cfe_state s))(nm \<mapsto> v)
      \<and> cfe_mem t = cfe_mem s \<and> cfe_dispfunc t = cfe_dispfunc s \<and> cfe_handle t = cfe_handle s
    \<and> cfe_getenv fw g' name dest destlen t = Some (0, u) \<and> cstring (cfe_mem u) dest v
      \<and> only_written t u dest (length v + 1) \<and> env_of (cfe_state u) = env_of (cfe_state t)
    \<and> cfe_getenv fw g' other dest destlen t = Some (- 9, w) \<and> cstring (cfe_mem w) dest []
      \<and> only_written t w dest 1 \<and> env_of (cfe_state w) = env_of (cfe_state t)"
proof -
  have lv: "length v < 0x80000000" using assms(12,13) by linarith
  obtain f where f: "cfe_setenv fw g name val s = Some (0, s\<lparr>cfe_state := f\<rparr>)"
    "env_of f = (env_of (cfe_state s))(nm \<mapsto> v)"
    using setenv_binds [OF assms(1-3,5,6,7) lv] by blast
  let ?t = "s\<lparr>cfe_state := f\<rparr>"
  have t: "cfe_dispfunc ?t \<noteq> NULL" "cstring (cfe_mem ?t) name nm" "cstring (cfe_mem ?t) other no" using assms by simp_all
  have v: "0 \<notin> set v" using assms(6) by (simp add: cstring_def)
  obtain u where u: "cfe_getenv fw g' name dest destlen ?t = Some (0, u)" "cstring (cfe_mem u) dest v"
      "only_written ?t u dest (length v + 1)" "env_of (cfe_state u) = env_of (cfe_state ?t)"
    using getenv_reads [OF assms(1) t(1) assms(4) t(2) assms(7,14,12,13)] f(2) v by auto
  obtain w where w: "cfe_getenv fw g' other dest destlen ?t = Some (- 9, w)" "cstring (cfe_mem w) dest []"
      "only_written ?t w dest 1" "env_of (cfe_state w) = env_of (cfe_state ?t)"
    using getenv_reads [OF assms(1) t(1) assms(4) t(3) assms(9,15,12,13)] f(2) assms(10,11) by auto
  show ?thesis by (rule exI [of _ ?t], rule exI [of _ u], rule exI [of _ w]) (use f u w in simp)
qed

text \<open>A firmware with an environment, and the strings "A", "B", "C" in memory.\<close>

definition env_fw :: "(u8 list \<Rightarrow> u8 list option) firmware" where
  "env_fw ept h x m f =
     (if xiocb_fcode x = CFE_CMD_ENV_SET
      then (0, x\<lparr>xiocb_status := 0\<rparr>, m, f(req_name m x \<mapsto> req_val m x))
      else if xiocb_fcode x = CFE_CMD_ENV_GET
      then (case f (req_name m x) of
              None \<Rightarrow> (0, x\<lparr>xiocb_status := - 9\<rparr>, m, f)
            | Some v \<Rightarrow> (0, x\<lparr>xiocb_status := 0\<rparr>,
                put_mem (NATIVE_FROM_XPTR (answer val_ptr x)) (take (unat (answer val_length x) - 1) v @ [0]) m, f))
      else (0, x, m, f))"

lemma env_fw_env: "env_firmware env_fw id"
  by (auto simp: env_firmware_def env_fw_def CFE_CMD_ENV_SET_def CFE_CMD_ENV_GET_def split: option.splits)

definition client0 :: "(u8 list \<Rightarrow> u8 list option) cfe_client" where
  "client0 = \<lparr>cfe_dispfunc = 0xbfc00500, cfe_handle = 0x80008000,
     cfe_mem = (\<lambda>a. if a = 0x80001000 then 0x41 else if a = 0x80002000 then 0x42
       else if a = 0x80003000 then 0x43 else 0), cfe_state = Map.empty\<rparr>"

definition iocb0 :: cfe_xiocb_t where
  "iocb0 = \<lparr>xiocb_fcode = 7, xiocb_status = 7, xiocb_handle = 7, xiocb_flags = 7, xiocb_psize = 7,
     xiocb_plist = replicate 10 7\<rparr>"

theorem env_round_trip_witness:
  "\<exists>t u w. cfe_setenv env_fw iocb0 0x80001000 0x80002000 client0 = Some (0, t)
     \<and> cfe_getenv env_fw iocb0 0x80001000 0x80700000 100 t = Some (0, u) \<and> cstring (cfe_mem u) 0x80700000 [0x42]
     \<and> cfe_mem u 0x80700002 = 0
     \<and> cfe_getenv env_fw iocb0 0x80003000 0x80700000 100 t = Some (- 9, w) \<and> cfe_state w = cfe_state t"
proof -
  have c: "cstring (cfe_mem client0) 0x80001000 [0x41]" "cstring (cfe_mem client0) 0x80002000 [0x42]"
    "cstring (cfe_mem client0) 0x80003000 [0x43]"
    by (simp_all add: cstring_def mem_at_def client0_def upt_rec_numeral)
  have d: "cfe_dispfunc client0 \<noteq> NULL" "length (xiocb_plist iocb0) = 10" "length [0x41 :: u8] < 0x80000000"
    "[0x43 :: u8] \<noteq> [0x41]" "id (cfe_state client0) [0x43] = None" "length [0x42 :: u8] < unat (100 :: u32)"
    "unat (100 :: u32) < 0x80000000" "\<forall>i \<le> length [0x41 :: u8]. 0x80700000 \<noteq> 0x80001000 + (of_nat i :: u32)"
    "\<forall>i \<le> length [0x43 :: u8]. 0x80700000 \<noteq> 0x80003000 + (of_nat i :: u32)"
    by (auto simp: client0_def iocb0_def le_Suc_eq)
  have d3: "length [0x43 :: u8] < 0x80000000" by simp
  obtain t u w where r: "cfe_setenv env_fw iocb0 0x80001000 0x80002000 client0 = Some (0, t)"
      "cfe_mem t = cfe_mem client0"
      "cfe_getenv env_fw iocb0 0x80001000 0x80700000 100 t = Some (0, u)" "cstring (cfe_mem u) 0x80700000 [0x42]"
      "only_written t u 0x80700000 2"
      "cfe_getenv env_fw iocb0 0x80003000 0x80700000 100 t = Some (- 9, w)" "cfe_state w = cfe_state t"
    using env_round_trip [where fw = env_fw and env_of = id and s = client0 and dest = "0x80700000",
      OF env_fw_env d(1,2,2) c(1,2) d(3) c(3) d3 d(4,5,6,7,8,9)] by (auto simp: numeral_2_eq_2)
  have "cfe_mem u 0x80700002 = cfe_mem t 0x80700002"
    using r(5) by (simp add: only_written_def less_Suc_eq numeral_2_eq_2)
  also have "\<dots> = 0" using r(2) by (simp add: client0_def)
  finally show ?thesis using r by blast
qed

text \<open>Before \<^verbatim>\<open>cfe_init\<close> no call reaches any firmware, yet the calls report success: the status was set
  to 0 beforehand, and a block read or written reports as many bytes as the stack happened to hold.\<close>

lemma calls_before_init:
  assumes "cfe_dispfunc s = NULL" "length (xiocb_plist g) = 10"
  shows "cfe_close fw g h s = (0, s)" "cfe_flushcache fw g fl s = (0, s)"
    "cfe_writeblk fw g h offset buffer n s = (lo32 (answer buf_retlen g), s)"
  using assms by (simp_all add: cfe_close_def cfe_flushcache_def cfe_writeblk_def block_io_def Let_def cfe_call_def
      cfe_iocb_dispatch_def status_or_def buf_offset_def buf_ptr_def buf_length_def buf_retlen_def)
    (simp_all add: request_def param_def answer_def)

end
