(* ===== verification/ApiEntry.thy ===== *)
theory ApiEntry
  imports SavedRegs CfeApi
begin

text \<open>
  \<^verbatim>\<open>cfe/apientry.S\<close>: the cache call, the entry point of firmware calls and the warm start behind it (both
  compiled only under \<^verbatim>\<open>NOTUSE\<close>), and the small routines for system registers. A firmware call runs with
  interrupts off and comes back with the caller's registers and interrupt state; a warm start leaves the
  caller's stack for that of the firmware.
\<close>

section \<open>The cache call of the firmware interface\<close>

definition flush_saved :: "(reg \<times> int) list" where
  "flush_saved = [(RA, 0), (A0, 8), (S0, 16), (V1, 24), (S1, 32), (S2, 40), (S3, 48), (S4, 56)]"

definition cfe_flushcache_S :: "addr \<Rightarrow> stmt list" where
  "cfe_flushcache_S cacheops =
     [I (Addi SP SP (- 56))] @ SREGS SP flush_saved @ JAL cacheops @ LREGS SP (rev flush_saved) @
     [I (Addi SP SP 56), I (Jr RA)]"

text \<open>\<^verbatim>\<open>bcmcore_cacheops\<close> where the file has it.\<close>

definition cacheops_routine :: "addr \<Rightarrow> addr \<Rightarrow> addr \<Rightarrow> externals" where
  "cacheops_routine b f i a s =
     (if a = b + 4 * of_nat at_cacheops then
        (case run (cache_routines f i) False (assemble (cpuinit_text b f i)) b at_cacheops s of
           Some (ret, t) \<Rightarrow> if ret = rd s RA then Some t else None | None \<Rightarrow> None)
      else None)"

lemma flush_saved_facts:
  "SP \<notin> fst ` set (rev flush_saved)" "ZERO \<notin> fst ` set (rev flush_saved)" "distinct (map fst (rev flush_saved))"
  "distinct (map snd flush_saved)" "\<forall>(r, off) \<in> set flush_saved. off mod 4 = 0 \<and> 0 \<le> off \<and> off < 60"
  "length flush_saved = 8" "fst ` set flush_saved = {RA, A0, S0, V1, S1, S2, S3, S4}"
  by (simp_all add: flush_saved_def insert_commute)

lemma flushcache_assembled:
  "assemble (cfe_flushcache_S a) = [Addi SP SP (- 56)] @ map (\<lambda>(r, off). Sw r off SP) flush_saved @
     [La_hi T9 a, La_lo T9 a] @ [Jalr T9] @ map (\<lambda>(r, off). Lw r off SP) (rev flush_saved) @ [Addi SP SP 56, Jr RA]"
  by (simp add: assemble_def cfe_flushcache_S_def asm_defs flush_saved_def)

text \<open>Into the routine: a frame of 56 bytes, with the eight registers at their offsets from its start.\<close>

lemma flush_enter:
  fixes s :: mips and c f :: addr
  defines "a \<equiv> rd s SP - 56" and "code \<equiv> assemble (cfe_flushcache_S f)"
  assumes sp: "rd s SP AND 3 = 0" "- (2 ^ 31) + 56 \<le> sint (rd s SP)"
  obtains u where "run ext True code c 0 s = run ext True code c 11 u" "rd u T9 = f"
    "\<forall>(r, off) \<in> set flush_saved. ram u (a + of_int off) = rd s r" "rd u SP = a"
    "\<forall>r. r \<notin> {SP, T9} \<longrightarrow> rd u r = rd s r" "cp0 u = cp0 s" "cache_ops u = cache_ops s"
proof -
  have len: "length code = 22" by (simp add: code_def flushcache_assembled flush_saved_facts(6))
  have fa: "a AND 3 = 0" using aligned_off [OF sp(1), of "- 56"] by (simp add: a_def)
  have al: "\<forall>(r, off) \<in> set flush_saved. (a + of_int off) AND 3 = 0"
    using flush_saved_facts(5) by (auto intro!: aligned_off [OF fa])
  define s1 where "s1 = wr SP a s"
  have 1: "run ext True code c 0 s = run ext True code c 1 s1"
    using sp(2) sint_lt [of "rd s SP"]
    by (subst run_exec) (simp_all add: len code_def flushcache_assembled trapping_ok s1_def a_def)
  define m where "m = fold (\<lambda>(r, off) m. m(a + of_int off := rd s1 r)) flush_saved (ram s)"
  define s2 where "s2 = s1\<lparr>ram := m\<rparr>"
  have e2: "execs (map (\<lambda>(r, off). Sw r off SP :: nat instr) flush_saved) s1 = Some s2"
    using al by (subst execs_saves) (simp_all add: s2_def m_def s1_def)
  have 2: "run ext True code c 1 s1 = run ext True code c (1 + 8) s2"
    by (rule run_take [OF _ _ _ e2]) (auto simp: code_def flushcache_assembled flush_saved_facts(6) list_all_iff)
  define u where "u = wr T9 f (wr T9 (f - lo16 f) s2)"
  have 3: "run ext True code c 9 s2 = run ext True code c (9 + 2) u"
    by (rule run_take [of _ _ _ "[La_hi T9 f, La_lo T9 f]"])
       (simp_all add: code_def flushcache_assembled flush_saved_facts(6) u_def)
  have "m (a + of_int off) = rd s r" if "(r, off) \<in> set flush_saved" for r off
  proof -
    have "distinct (map (\<lambda>x. a + of_int x) (map snd flush_saved))"
      using flush_saved_facts(4,5) by (intro frame_distinct) auto
    then have "m (a + of_int off) = rd s1 r" unfolding m_def using that by (intro saves_at) (simp_all add: comp_def split_def)
    moreover have "r \<noteq> SP" using that flush_saved_facts(7) by (auto simp: flush_saved_def)
    ultimately show ?thesis by (simp add: s1_def)
  qed
  then show thesis using 1 2 3 by (intro that [of u]) (auto simp: u_def s2_def s1_def)
qed

text \<open>Out of it: the registers come back from the frame.\<close>

lemma flush_leave:
  fixes t :: mips and c f :: addr
  defines "code \<equiv> assemble (cfe_flushcache_S f)"
  assumes t: "rd t SP = sp - 56" "\<forall>(r, off) \<in> set flush_saved. ram t (sp - 56 + of_int off) = v r"
    and sp: "sp AND 3 = 0" "- (2 ^ 31) + 56 \<le> sint sp" and out: "position c code (v RA) = None"
  obtains w where "run ext True code c 12 t = Some (v RA, w)" "rd w SP = sp" "\<forall>r \<in> fst ` set flush_saved. rd w r = v r"
    "\<forall>r. r \<noteq> SP \<and> r \<notin> fst ` set flush_saved \<longrightarrow> rd w r = rd t r" "ram w = ram t" "cache_ops w = cache_ops t"
proof -
  have len: "length code = 22" by (simp add: code_def flushcache_assembled flush_saved_facts(6))
  have fa: "rd t SP AND 3 = 0" using aligned_off [OF sp(1), of "- 56"] t(1) by simp
  have "\<forall>(r, off) \<in> set (rev flush_saved). (rd t SP + of_int off) AND 3 = 0"
    using flush_saved_facts(5) by (auto intro!: aligned_off [OF fa])
  from execs_loads [OF flush_saved_facts(1-3) this] obtain x where
    x: "execs (map (\<lambda>(r, off). Lw r off SP :: nat instr) (rev flush_saved)) t = Some x"
      "\<forall>(r, off) \<in> set (rev flush_saved). rd x r = ram t (rd t SP + of_int off)"
      "\<forall>r. r \<notin> fst ` set (rev flush_saved) \<longrightarrow> rd x r = rd t r" "ram x = ram t" "cache_ops x = cache_ops t" by blast
  have 1: "run ext True code c 12 t = run ext True code c (12 + 8) x"
    by (rule run_take [OF _ _ _ x(1)]) (auto simp: code_def flushcache_assembled flush_saved_facts(6) list_all_iff rev_map)
  have xr: "\<forall>r \<in> fst ` set flush_saved. rd x r = v r" using x(2) t by fastforce
  have xSP: "rd x SP = sp - 56" using x(3) flush_saved_facts(1) t(1) by simp
  have xRA: "rd x RA = v RA" using xr by (simp add: flush_saved_facts(7))
  define w where "w = wr SP sp x"
  have "sint (sp - 56) = sint sp - 56"
  proof -
    have "sp - 56 = of_int (sint sp - 56)" by simp
    then have "sint (sp - 56) = signed_take_bit 31 (sint sp - 56)" by (simp only: signed_of_int) simp
    then show ?thesis using sp(2) sint_lt [of sp] by (simp add: signed_take_bit_int_eq_self)
  qed
  then have 2: "run ext True code c 20 x = run ext True code c 21 w"
    using xSP sint_lt [of sp] sint_ge [of sp]
    by (subst run_exec) (simp_all add: len code_def flushcache_assembled flush_saved_facts(6) nth_append trapping_ok w_def)
  have 3: "run ext True code c 21 w = Some (v RA, w)"
    using out xRA
    by (subst run_Jr_out [where r = RA]) (simp_all add: len code_def flushcache_assembled flush_saved_facts(6) nth_append w_def)
  show thesis
  proof (rule that)
    show "run ext True code c 12 t = Some (v RA, w)" using 1 2 3 by simp
    show "\<forall>r \<in> fst ` set flush_saved. rd w r = v r" using xr by (simp add: w_def flush_saved_facts(7))
  qed (use x in \<open>simp_all add: w_def\<close>)
qed

text \<open>C9: The cache call of the firmware interface, down to the cache operations. Whatever it is asked for, it returns
  having written back and invalidated every line of the data cache and then invalidated every line of the instruction
  cache, as the flags and the range are ignored, and it keeps its caller's registers but the temporaries; but its frame is
  one word short: the word at the caller's stack pointer is overwritten with \<^verbatim>\<open>s4\<close>.\<close>

lemma flushcache_sweeps:
  fixes s :: mips and b :: addr
  defines "cacheops \<equiv> b + 4 * of_nat at_cacheops" and "code \<equiv> assemble (cfe_flushcache_S (b + 4 * of_nat at_cacheops))"
  assumes sp: "rd s SP AND 3 = 0" "- (2 ^ 31) + 56 \<le> sint (rd s SP)"
    and lay: "cache_layout b f i" and apart: "position c code cacheops = None" "position c code (rd s RA) = None"
      "position b (assemble (cpuinit_text b f i)) (c + 48) = None"
  shows "\<exists>w. run (cacheops_routine b f i) True code c 0 s = Some (rd s RA, w) \<and>
      cache_ops w = cache_ops s @ write_back_all_d (cp0 s C0_CONFIG1) @ invalidate_all_i (cp0 s C0_CONFIG1) \<and>
      (\<forall>r. r \<notin> {T0, T1, T2, T9, K0} \<longrightarrow> rd w r = rd s r) \<and> ram w (rd s SP) = rd s S4"
proof -
  let ?e = "cacheops_routine b f i" and ?a = "rd s SP - 56"
  have len: "length code = 22" by (simp add: code_def flushcache_assembled flush_saved_facts(6))
  obtain u where u: "run ?e True code c 0 s = run ?e True code c 11 u" "rd u T9 = cacheops"
    "\<forall>(r, off) \<in> set flush_saved. ram u (?a + of_int off) = rd s r" "rd u SP = ?a"
    "\<forall>r. r \<notin> {SP, T9} \<longrightarrow> rd u r = rd s r" "cp0 u = cp0 s" "cache_ops u = cache_ops s"
    unfolding code_def cacheops_def by (rule flush_enter [OF sp])
  define u1 where "u1 = wr RA (c + 48) u"
  have "position b (assemble (cpuinit_text b f i)) (rd u1 RA) = None" using apart(3) by (simp add: u1_def)
  from cacheops_ignores_arguments [OF lay this] obtain t where
    t: "run (cache_routines f i) False (assemble (cpuinit_text b f i)) b at_cacheops u1 = Some (rd u1 RA, t)"
      "cache_ops t = cache_ops u1 @ write_back_all_d (cp0 u1 C0_CONFIG1) @ invalidate_all_i (cp0 u1 C0_CONFIG1)"
      "ram t = ram u1" "\<forall>r. r \<notin> {V1, A0, T0, T1, T2, T9, S0, K0} \<longrightarrow> rd t r = rd u1 r" by blast
  have call: "run ?e True code c 11 u = run ?e True code c 12 t"
    using apart(1) t(1) u(2)
    by (subst run_Jalr [where r = T9 and t = u1 and u = t])
       (simp_all add: len code_def flushcache_assembled flush_saved_facts(6) nth_append slot_def after_def u1_def
         cacheops_routine_def cacheops_def)
  have tSP: "rd t SP = ?a" using t(4) u(4) by (simp add: u1_def)
  have "\<forall>(r, off) \<in> set flush_saved. ram t (?a + of_int off) = rd s r" using t(3) u(3) by (simp add: u1_def)
  from flush_leave [OF tSP this sp apart(2) [unfolded code_def], of ?e] obtain w where
    w: "run ?e True code c 12 t = Some (rd s RA, w)" "rd w SP = rd s SP" "\<forall>r \<in> fst ` set flush_saved. rd w r = rd s r"
      "\<forall>r. r \<noteq> SP \<and> r \<notin> fst ` set flush_saved \<longrightarrow> rd w r = rd t r" "ram w = ram t" "cache_ops w = cache_ops t"
    unfolding code_def by metis
  have "rd w r = rd s r" if "r \<notin> {T0, T1, T2, T9, K0}" for r
    using that w(2-4) t(4) u(5) by (cases "r = SP \<or> r \<in> fst ` set flush_saved") (auto simp: u1_def flush_saved_facts(7))
  moreover have "ram w (rd s SP) = rd s S4" using u(3) t(3) w(5) by (simp add: u1_def flush_saved_def)
  ultimately show ?thesis using w(1,6) u(1,6,7) t(2) call by (intro exI [of _ w]) (simp add: u1_def)
qed

lemma flushcache_sweeps_witness:
  "\<exists>w. run (cacheops_routine 0x80700000 0x80708000 0x80709000) True (assemble (cfe_flushcache_S 0x80700074)) 0x80701000 0
        \<lparr>rf = (\<lambda>_. 5)(A0 := 64, SP := 0x80300000, RA := 0x80001000), m_lo = 0, m_hi = 0, cp0 = (\<lambda>_. 0)(C0_CONFIG1 := 0x994c80), ram = \<lambda>_. 7,
          cache_ops = []\<rparr> = Some (0x80001000, w) \<and>
     length (cache_ops w) = 1024 \<and> cache_ops w ! 511 = (1, 0x80001ff0, 0) \<and> rd w S0 = 5 \<and> ram w 0x80300000 = 5"
proof -
  define s where "s = \<lparr>rf = (\<lambda>_. 5)(A0 := 64, SP := 0x80300000, RA := 0x80001000), m_lo = 0, m_hi = 0, cp0 = (\<lambda>_. 0)(C0_CONFIG1 := 0x994c80),
    ram = \<lambda>_. 7, cache_ops = []\<rparr>"
  have r: "rd s SP = 0x80300000" "rd s RA = 0x80001000" "rd s S4 = 5" "rd s S0 = 5" "cp0 s C0_CONFIG1 = 0x994c80" "cache_ops s = []"
    by (simp_all add: s_def rd_def)
  have b: "0x80700000 + 4 * of_nat at_cacheops = (0x80700074 :: addr)" by (simp add: at_cacheops_def)
  have l: "length (assemble (cfe_flushcache_S 0x80700074)) = 22" by (simp add: flushcache_assembled flush_saved_facts(6))
  have lay: "cache_layout 0x80700000 0x80708000 0x80709000"
    by (simp add: cache_layout_def position_def Let_def cpuinit_at(1) l1_assembled)
  have p: "position 0x80701000 (assemble (cfe_flushcache_S 0x80700074)) 0x80700074 = None"
    "position 0x80701000 (assemble (cfe_flushcache_S 0x80700074)) (rd s RA) = None"
    "position 0x80700000 (assemble (cpuinit_text 0x80700000 0x80708000 0x80709000)) (0x80701000 + 48) = None"
    by (simp_all add: position_def Let_def cpuinit_at(1) l r)
  from flushcache_sweeps [of s "0x80700000" "0x80708000" "0x80709000" "0x80701000", unfolded b, OF _ _ lay p]
  have "\<exists>w. run (cacheops_routine 0x80700000 0x80708000 0x80709000) True (assemble (cfe_flushcache_S 0x80700074)) 0x80701000 0 s =
       Some (rd s RA, w) \<and>
     cache_ops w = cache_ops s @ write_back_all_d (cp0 s C0_CONFIG1) @ invalidate_all_i (cp0 s C0_CONFIG1) \<and>
     (\<forall>r. r \<notin> {T0, T1, T2, T9, K0} \<longrightarrow> rd w r = rd s r) \<and> ram w (rd s SP) = rd s S4"
    by (simp add: r)
  moreover have "GETVALUE 0x994c80 S_CFG_DS (MAKEMASK 3 S_CFG_DS) = 2" "GETVALUE 0x994c80 S_CFG_DA (MAKEMASK 3 S_CFG_DA) = 1"
    "GETVALUE 0x994c80 S_CFG_DL (MAKEMASK 3 S_CFG_DL) = 3" "GETVALUE 0x994c80 S_CFG_IS (MAKEMASK 3 S_CFG_IS) = 2"
    "GETVALUE 0x994c80 S_CFG_IA (MAKEMASK 3 S_CFG_IA) = 1" by code_simp+
  then have "length (write_back_all_d 0x994c80) = 512" "length (invalidate_all_i 0x994c80) = 512"
    "write_back_all_d 0x994c80 ! 511 = (1, 0x80001ff0, 0)"
    by (simp_all add: write_back_all_d_def invalidate_all_i_def cfg_lines_def cfg_line_size_def Index_Writeback_Inv_D_def)
  ultimately show ?thesis unfolding s_def [symmetric] by (auto simp: r nth_append)
qed

section \<open>The entry point of firmware calls\<close>

text \<open>Offsets in the request block and in the frame; the machine is little endian.\<close>

definition ENDIANOFFSET :: int where "ENDIANOFFSET = 0"
definition R_XIOCB_FCODE :: int where "R_XIOCB_FCODE = 8 * 0 + ENDIANOFFSET"
definition R_XIOCB_FLAGS :: int where "R_XIOCB_FLAGS = 8 * 3 + ENDIANOFFSET"
definition R_XIOCB_XSTAT :: int where "R_XIOCB_XSTAT = 8 * 5 + ENDIANOFFSET"
definition CAE :: "int \<Rightarrow> int" where "CAE x = x * 8"
definition CAE_STKSIZE :: int where "CAE_STKSIZE = CAE 14"
definition CFG_HEAP_SIZE :: int where "CFG_HEAP_SIZE = 256"
definition STACK_SIZE :: int where "STACK_SIZE = and (8192 + 1023) (not 1023)"
definition HAZARD :: "stmt list" where "HAZARD = replicate 7 (I Nop)"

definition cae_saved :: "(reg \<times> int) list" where
  "cae_saved = [(GP, CAE 1), (RA, CAE 2), (S0, CAE 3), (S1, CAE 4), (S2, CAE 5), (S3, CAE 6), (S4, CAE 7), (S5, CAE 8),
     (S6, CAE 9), (S7, CAE 10), (K0, CAE 11), (K1, CAE 12)]"

text \<open>The order of loading.\<close>

definition cae_loaded :: "(reg \<times> int) list" where
  "cae_loaded = [(K1, CAE 12), (K0, CAE 11), (S7, CAE 10), (S6, CAE 9), (S5, CAE 8), (S4, CAE 7), (S3, CAE 6), (S2, CAE 5),
     (S1, CAE 4), (S0, CAE 3), (RA, CAE 2), (GP, CAE 1), (T0, CAE 0)]"

text \<open>Constants of more than sixteen bits are loaded in two halves. The label \<^verbatim>\<open>notwarm\<close> is 1, \<^verbatim>\<open>_cfe_warmstart\<close> is
  2; the addresses of \<^verbatim>\<open>cfe_doxreq\<close>, of \<^verbatim>\<open>mem_heapstart\<close>, of the processor's restart routine and of
  \<^verbatim>\<open>cfe_command_restart\<close> are arguments.\<close>

definition LI32 :: "reg \<Rightarrow> u32 \<Rightarrow> stmt list" where
  "LI32 r v = [I (Lui r (drop_bit 16 v)), I (Ori r r (v AND 0xffff))]"

definition cfe_warmstart_S :: "addr \<Rightarrow> addr \<Rightarrow> addr \<Rightarrow> stmt list" where
  "cfe_warmstart_S mem_heapstart cpurestart command_restart =
     [L 2, I (La_hi SP mem_heapstart), I (Lw SP (sint (lo16 mem_heapstart)) SP)] @
     LI32 AT (of_int (CFG_HEAP_SIZE * 1024 + STACK_SIZE - 8)) @ [I (Add SP SP AT), I (Sw A0 0 SP)] @
     JAL cpurestart @ [I (Lw A0 0 SP), I (Mfc0 T0 C0_SR)] @ LI32 AT (NOT M_SR_BEV) @
     [I (And T0 T0 AT), I (Mtc0 T0 C0_SR)] @ HAZARD @ JAL command_restart"

definition cpu_apientry_S :: "addr \<Rightarrow> stmt list" where
  "cpu_apientry_S doxreq =
     [I (Lw T0 R_XIOCB_FCODE A1), I (Li AT (ucast CFE_CMD_FW_RESTART)), I (Bne T0 AT (F 1)),
      I (Lw T0 R_XIOCB_FLAGS A1), I (Andi T0 T0 (ucast CFE_FLG_WARMSTART)), I (Li AT (ucast CFE_FLG_WARMSTART)), I (Bne T0 AT (F 1)),
      I (Mfc0 T0 C0_SR)] @ AND_CONST T0 (NOT M_SR_IE) @ [I (Mtc0 T0 C0_SR)] @ HAZARD @
     [I (Move GP A0), I (Lw A0 R_XIOCB_XSTAT A1), I (Beq ZERO ZERO (F 2)),
      L 1, I (Addi SP SP (- CAE_STKSIZE)),
      I (Mfc0 V0 C0_SR), I (Sw V0 (CAE 0) SP), I (Li T0 M_SR_IE), I (Nor T0 T0 ZERO), I (And V0 V0 T0), I (Mtc0 V0 C0_SR)] @
     HAZARD @ SREGS SP cae_saved @ [I (Move GP A0), I (Move A0 A1)] @ JAL doxreq @ LREGS SP cae_loaded @
     [I (Addi SP SP CAE_STKSIZE), I (Mtc0 T0 C0_SR)] @ HAZARD @ [I (Jr RA), I Nop]"

definition apientry_code :: "addr \<Rightarrow> addr \<Rightarrow> addr \<Rightarrow> addr \<Rightarrow> nat instr list" where
  "apientry_code d m c e = assemble (cpu_apientry_S d @ cfe_warmstart_S m c e)"

lemmas cae_defs = CAE_def CAE_STKSIZE_def ENDIANOFFSET_def R_XIOCB_FCODE_def R_XIOCB_FLAGS_def R_XIOCB_XSTAT_def
  CFE_CMD_FW_RESTART_def CFE_FLG_WARMSTART_def

lemma cae_facts:
  "length cae_saved = 12" "length cae_loaded = 13" "set cae_loaded = insert (T0, 0) (set cae_saved)"
  "distinct (map snd cae_saved)" "distinct (map fst cae_loaded)" "SP \<notin> fst ` set cae_loaded" "ZERO \<notin> fst ` set cae_loaded"
  "\<forall>(r, off) \<in> set cae_saved. off mod 4 = 0 \<and> 8 \<le> off \<and> off < 112"
  "fst ` set cae_saved = {GP, RA, S0, S1, S2, S3, S4, S5, S6, S7, K0, K1}"
  by (auto simp: cae_saved_def cae_loaded_def CAE_def)

lemma apientry_assembled:
  "apientry_code d m c e =
     [Lw T0 0 A1, Li AT 1, Bne T0 AT 21, Lw T0 24 A1, Andi T0 T0 1, Li AT 1, Bne T0 AT 21, Mfc0 T0 C0_SR, Li AT (NOT M_SR_IE),
      And T0 T0 AT, Mtc0 T0 C0_SR] @ replicate 7 Nop @ [Move GP A0, Lw A0 40 A1, Beq ZERO ZERO 76] @
     [Addi SP SP (- 112), Mfc0 V0 C0_SR, Sw V0 0 SP, Li T0 M_SR_IE, Nor T0 T0 ZERO, And V0 V0 T0, Mtc0 V0 C0_SR] @
     replicate 7 Nop @ map (\<lambda>(r, off). Sw r off SP) cae_saved @ [Move GP A0, Move A0 A1, La_hi T9 d, La_lo T9 d] @ [Jalr T9] @
     map (\<lambda>(r, off). Lw r off SP) cae_loaded @ [Addi SP SP 112, Mtc0 T0 C0_SR] @ replicate 7 Nop @ [Jr RA, Nop] @
     [La_hi SP m, Lw SP (sint (lo16 m)) SP, Lui AT 4, Ori AT AT 0x1ff8, Add SP SP AT, Sw A0 0 SP, La_hi T9 c, La_lo T9 c, Jalr T9] @
     [Lw A0 0 SP, Mfc0 T0 C0_SR, Lui AT 0xffbf, Ori AT AT 0xffff, And T0 T0 AT, Mtc0 T0 C0_SR] @ replicate 7 Nop @
     [La_hi T9 e, La_lo T9 e, Jalr T9]"
proof -
  have k: "LI32 AT (of_int (CFG_HEAP_SIZE * 1024 + STACK_SIZE - 8)) = [I (Lui AT 4), I (Ori AT AT 0x1ff8)]"
    "LI32 AT (NOT M_SR_BEV) = [I (Lui AT 0xffbf), I (Ori AT AT 0xffff)]" by code_simp+
  have h: "replicate 7 x = [x, x, x, x, x, x, x]" for x :: 'a by (simp add: eval_nat_numeral)
  show ?thesis
    unfolding apientry_code_def cfe_warmstart_S_def k
    by (simp add: assemble_def cpu_apientry_S_def asm_defs cae_saved_def cae_loaded_def cae_defs HAZARD_def h)
qed

lemma apientry_parts:
  "length (apientry_code d m c e) = 101"
  "take 2 (drop 0 (apientry_code d m c e)) = [Lw T0 0 A1, Li AT 1]" "apientry_code d m c e ! 2 = Bne T0 AT 21"
  "take 3 (drop 3 (apientry_code d m c e)) = [Lw T0 24 A1, Andi T0 T0 1, Li AT 1]" "apientry_code d m c e ! 6 = Bne T0 AT 21"
  "take 13 (drop 7 (apientry_code d m c e)) = [Mfc0 T0 C0_SR, Li AT (NOT M_SR_IE), And T0 T0 AT, Mtc0 T0 C0_SR] @
     replicate 7 Nop @ [Move GP A0, Lw A0 40 A1]" "apientry_code d m c e ! 20 = Beq ZERO ZERO 76"
  "take 14 (drop 21 (apientry_code d m c e)) = [Addi SP SP (- 112), Mfc0 V0 C0_SR, Sw V0 0 SP, Li T0 M_SR_IE, Nor T0 T0 ZERO,
     And V0 V0 T0, Mtc0 V0 C0_SR] @ replicate 7 Nop"
  "take 12 (drop 35 (apientry_code d m c e)) = map (\<lambda>(r, off). Sw r off SP) cae_saved"
  "take 4 (drop 47 (apientry_code d m c e)) = [Move GP A0, Move A0 A1, La_hi T9 d, La_lo T9 d]"
  "apientry_code d m c e ! 51 = Jalr T9"
  "take 13 (drop 52 (apientry_code d m c e)) = map (\<lambda>(r, off). Lw r off SP) cae_loaded"
  "take 9 (drop 65 (apientry_code d m c e)) = [Addi SP SP 112, Mtc0 T0 C0_SR] @ replicate 7 Nop"
  "apientry_code d m c e ! 74 = Jr RA"
  "take 8 (drop 76 (apientry_code d m c e)) = [La_hi SP m, Lw SP (sint (lo16 m)) SP, Lui AT 4, Ori AT AT 0x1ff8, Add SP SP AT,
     Sw A0 0 SP, La_hi T9 c, La_lo T9 c]"
  "apientry_code d m c e ! 84 = Jalr T9"
  "take 15 (drop 85 (apientry_code d m c e)) = [Lw A0 0 SP, Mfc0 T0 C0_SR, Lui AT 0xffbf, Ori AT AT 0xffff, And T0 T0 AT,
     Mtc0 T0 C0_SR] @ replicate 7 Nop @ [La_hi T9 e, La_lo T9 e]"
  "apientry_code d m c e ! 100 = Jalr T9"
  by (simp_all add: apientry_assembled cae_facts(1,2) nth_append)

lemma execs_nops: "execs (replicate n Nop) s = Some s"
  by (induction n) simp_all

text \<open>The call is no warm start.\<close>

definition warm_call :: "mips \<Rightarrow> bool" where
  "warm_call s \<longleftrightarrow> ram s (rd s A1) = ucast CFE_CMD_FW_RESTART \<and>
     ram s (rd s A1 + 24) AND ucast CFE_FLG_WARMSTART = ucast CFE_FLG_WARMSTART"

lemma apientry_cold:
  assumes "rd s A1 AND 3 = 0" "\<not> warm_call s"
  obtains u where "run ext True (apientry_code d m c e) b 0 s = run ext True (apientry_code d m c e) b 21 u"
    "\<forall>r. r \<notin> {T0, AT} \<longrightarrow> rd u r = rd s r" "ram u = ram s" "cp0 u = cp0 s"
proof -
  let ?c = "apientry_code d m c e"
  have al: "(rd s A1 + 24) AND 3 = 0" using aligned_off [OF assms(1), of 24] by simp
  define s1 where "s1 = wr AT 1 (wr T0 (ram s (rd s A1)) s)"
  have 1: "run ext True ?c b 0 s = run ext True ?c b (0 + 2) s1"
    by (rule run_take [OF apientry_parts(2)]) (simp_all add: s1_def assms(1) Let_def)
  show thesis
  proof (cases "ram s (rd s A1) = 1")
    case False
    have "run ext True ?c b 2 s1 = run ext True ?c b 21 s1"
      using run_Bne(1) [where ext = ext and b = b and s = s1 and t = s1 and ro = True, OF _ apientry_parts(3)] False by (simp add: apientry_parts slot_def s1_def)
    then show thesis using 1 by (intro that [of s1]) (simp_all add: s1_def numeral_2_eq_2)
  next
    case True
    define s2 where "s2 = wr AT 1 (wr T0 (ram s (rd s A1 + 24) AND 1) (wr T0 (ram s (rd s A1 + 24)) s1))"
    have "run ext True ?c b 2 s1 = run ext True ?c b 3 s1"
      using run_Bne(2) [where ext = ext and b = b and s = s1 and t = s1 and ro = True, OF _ apientry_parts(3)] True by (simp add: apientry_parts slot_def s1_def after_def)
    also have "\<dots> = run ext True ?c b (3 + 3) s2"
      by (rule run_take [OF apientry_parts(4)]) (simp_all add: s2_def s1_def al Let_def)
    also have "\<dots> = run ext True ?c b 21 s2"
      using run_Bne(1) [where ext = ext and b = b and s = s2 and t = s2 and ro = True, OF _ apientry_parts(5)] True assms(2)
      by (simp add: apientry_parts slot_def s2_def s1_def warm_call_def CFE_CMD_FW_RESTART_def CFE_FLG_WARMSTART_def)
    finally show thesis using 1 by (intro that [of s2]) (simp_all add: s2_def s1_def numeral_2_eq_2)
  qed
qed

text \<open>Saving registers and switching interrupts off.\<close>

lemma apientry_enter:
  fixes s :: mips and d m c e b :: addr
  defines "a \<equiv> rd s SP - 112" and "code \<equiv> apientry_code d m c e"
  assumes sp: "rd s SP AND 3 = 0" "- (2 ^ 31) + 112 \<le> sint (rd s SP)"
  obtains u where "run ext True code b 21 s = run ext True code b 51 u" "rd u T9 = d"
    "rd u SP = a" "rd u GP = rd s A0" "rd u A0 = rd s A1" "ram u (a + 0) = cp0 s C0_SR"
    "\<forall>(r, off) \<in> set cae_saved. ram u (a + of_int off) = rd s r"
    "\<forall>x. (\<forall>i. 0 \<le> i \<and> i < 112 \<longrightarrow> x \<noteq> a + of_int i) \<longrightarrow> ram u x = ram s x"
    "\<forall>r. r \<notin> {SP, V0, T0, T9, A0, GP} \<longrightarrow> rd u r = rd s r" "cp0 u = (cp0 s)(C0_SR := cp0 s C0_SR AND NOT M_SR_IE)"
proof -
  have fa: "a AND 3 = 0" using aligned_off [OF sp(1), of "- 112"] by (simp add: a_def)
  have al: "\<forall>(r, off) \<in> set cae_saved. (a + of_int off) AND 3 = 0"
    using cae_facts(8) by (auto intro!: aligned_off [OF fa])
  define s1 where "s1 = (wr V0 (cp0 s C0_SR AND NOT M_SR_IE) (wr T0 (NOT M_SR_IE) (wr T0 M_SR_IE ((wr V0 (cp0 s C0_SR) (wr SP a s))
    \<lparr>ram := (ram s)(a := cp0 s C0_SR)\<rparr>))))\<lparr>cp0 := (cp0 s)(C0_SR := cp0 s C0_SR AND NOT M_SR_IE)\<rparr>"
  have "execs ([Addi SP SP (- 112), Mfc0 V0 C0_SR, Sw V0 0 SP, Li T0 M_SR_IE, Nor T0 T0 ZERO, And V0 V0 T0, Mtc0 V0 C0_SR] @
      replicate 7 Nop) s = Some s1"
    using sp(2) sint_lt [of "rd s SP"] by (simp add: execs_append execs_nops trapping_ok fa Let_def s1_def a_def [symmetric])
  then have 1: "run ext True code b 21 s = run ext True code b (21 + 14) s1"
    unfolding code_def by (intro run_take [OF apientry_parts(8)]) (simp_all add: list_all_iff)
  define mm where "mm = fold (\<lambda>(r, off) m. m(a + of_int off := rd s1 r)) cae_saved (ram s1)"
  define s2 where "s2 = s1\<lparr>ram := mm\<rparr>"
  have e2: "execs (map (\<lambda>(r, off). Sw r off SP :: nat instr) cae_saved) s1 = Some s2"
    using al by (subst execs_saves) (simp_all add: s2_def mm_def s1_def)
  have 2: "run ext True code b 35 s1 = run ext True code b (35 + 12) s2"
    unfolding code_def by (rule run_take [OF apientry_parts(9) _ _ e2]) (auto simp: cae_facts(1) list_all_iff)
  define u where "u = wr T9 d (wr T9 (d - lo16 d) (wr A0 (rd s A1) (wr GP (rd s A0) s2)))"
  have 3: "run ext True code b 47 s2 = run ext True code b (47 + 4) u"
    unfolding code_def by (rule run_take [OF apientry_parts(10)]) (simp_all add: u_def s2_def s1_def)
  have saved: "mm (a + of_int off) = rd s r" if "(r, off) \<in> set cae_saved" for r off
  proof -
    have "distinct (map (\<lambda>x. a + of_int x) (map snd cae_saved))"
      using cae_facts(4,8) by (intro frame_distinct) auto
    then have "mm (a + of_int off) = rd s1 r" unfolding mm_def using that by (intro saves_at) (simp_all add: comp_def split_def)
    moreover have "r \<in> fst ` set cae_saved" using that by force
    ultimately show ?thesis unfolding cae_facts(9) by (auto simp: s1_def)
  qed
  have outside: "mm x = ram s1 x" if "\<forall>(r, off) \<in> set cae_saved. a + of_int off \<noteq> x" for x
    unfolding mm_def by (rule saves_outside) (rule that)
  have sr: "mm a = cp0 s C0_SR"
  proof -
    have "a + of_int off \<noteq> a" if "(r, off) \<in> set cae_saved" for r off
      using bspec [OF cae_facts(8) that] frame_neq [of off 0 a] by simp
    then have "\<forall>(r, off) \<in> set cae_saved. a + of_int off \<noteq> a" by auto
    from outside [OF this] show ?thesis by (simp add: s1_def)
  qed
  show thesis
  proof (rule that [of u])
    show "\<forall>x. (\<forall>i. 0 \<le> i \<and> i < 112 \<longrightarrow> x \<noteq> a + of_int i) \<longrightarrow> ram u x = ram s x"
    proof (intro allI impI)
      fix x assume x: "\<forall>i. 0 \<le> i \<and> i < 112 \<longrightarrow> x \<noteq> a + of_int i"
      have "a + of_int off \<noteq> x" if "(r, off) \<in> set cae_saved" for r off
        using bspec [OF cae_facts(8) that] spec [OF x, of off] by auto
      then have "\<forall>(r, off) \<in> set cae_saved. a + of_int off \<noteq> x" by auto
      moreover have "x \<noteq> a" using spec [OF x, of 0] by simp
      ultimately show "ram u x = ram s x" using outside [of x] by (simp add: u_def s2_def s1_def)
    qed
  qed (use 1 2 3 saved sr in \<open>auto simp: u_def s2_def s1_def\<close>)
qed

text \<open>Loading them again, and the interrupt state.\<close>

lemma apientry_leave:
  fixes t :: mips and d m c e b sp sr :: u32
  defines "code \<equiv> apientry_code d m c e"
  assumes t: "rd t SP = sp - 112" "ram t (sp - 112 + 0) = sr" "\<forall>(r, off) \<in> set cae_saved. ram t (sp - 112 + of_int off) = v r"
    and sp: "sp AND 3 = 0" "- (2 ^ 31) + 112 \<le> sint sp" and out: "position b code (v RA) = None"
  obtains w where "run ext True code b 52 t = Some (v RA, w)" "rd w SP = sp" "\<forall>r \<in> fst ` set cae_saved. rd w r = v r"
    "\<forall>r. r \<noteq> SP \<and> r \<noteq> T0 \<and> r \<notin> fst ` set cae_saved \<longrightarrow> rd w r = rd t r" "ram w = ram t" "cp0 w = (cp0 t)(C0_SR := sr)"
    "cache_ops w = cache_ops t"
proof -
  have fa: "rd t SP AND 3 = 0" using aligned_off [OF sp(1), of "- 112"] t(1) by simp
  have "(rd t SP + of_int off) AND 3 = 0" if "(r, off) \<in> set cae_loaded" for r off
  proof (cases "(r, off) \<in> set cae_saved")
    case True
    then show ?thesis using bspec [OF cae_facts(8) True] aligned_off [OF fa, of off] by simp
  next
    case False
    then show ?thesis using that fa by (simp add: cae_facts(3))
  qed
  then have al: "\<forall>(r, off) \<in> set cae_loaded. (rd t SP + of_int off) AND 3 = 0" by auto
  from execs_loads [OF cae_facts(6,7,5) this] obtain x where
    x: "execs (map (\<lambda>(r, off). Lw r off SP :: nat instr) cae_loaded) t = Some x"
      "\<forall>(r, off) \<in> set cae_loaded. rd x r = ram t (rd t SP + of_int off)"
      "\<forall>r. r \<notin> fst ` set cae_loaded \<longrightarrow> rd x r = rd t r" "ram x = ram t" "cp0 x = cp0 t" "cache_ops x = cache_ops t" by blast
  have 1: "run ext True code b 52 t = run ext True code b (52 + 13) x"
    unfolding code_def by (rule run_take [OF apientry_parts(12) _ _ x(1)]) (auto simp: cae_facts(2) list_all_iff)
  have xl: "rd x r = ram t (sp - 112 + of_int off)" if "(r, off) \<in> set cae_loaded" for r off
    using bspec [OF x(2) that] t(1) by simp
  have xT0: "rd x T0 = sr" using xl [of T0 0] t(2) by (simp add: cae_facts(3))
  have xr: "rd x r = v r" if "(r, off) \<in> set cae_saved" for r off
    using xl [of r off] bspec [OF t(3) that] that by (simp add: cae_facts(3))
  have xSP: "rd x SP = sp - 112" using x(3) cae_facts(6) t(1) by simp
  have "(RA, 16) \<in> set cae_saved" by (simp add: cae_saved_def CAE_def)
  from xr [OF this] have xRA: "rd x RA = v RA" .
  define w where "w = (wr SP sp x)\<lparr>cp0 := (cp0 x)(C0_SR := sr)\<rparr>"
  have "sint (sp - 112) = sint sp - 112"
  proof -
    have "sp - 112 = of_int (sint sp - 112)" by simp
    then have "sint (sp - 112) = signed_take_bit 31 (sint sp - 112)" by (simp only: signed_of_int) simp
    then show ?thesis using sp(2) sint_lt [of sp] by (simp add: signed_take_bit_int_eq_self)
  qed
  then have "execs ([Addi SP SP 112, Mtc0 T0 C0_SR] @ replicate 7 (Nop :: nat instr)) x = Some w"
    using xSP xT0 sint_lt [of sp] sint_ge [of sp] by (simp add: execs_append execs_nops trapping_ok w_def)
  then have 2: "run ext True code b 65 x = run ext True code b (65 + 9) w"
    unfolding code_def by (intro run_take [OF apientry_parts(13)]) (simp_all add: list_all_iff)
  have 3: "run ext True code b 74 w = Some (v RA, w)"
    using out xRA unfolding code_def by (subst run_Jr_out [OF _ apientry_parts(14)]) (simp_all add: apientry_parts(1) w_def)
  show thesis
  proof (rule that)
    show "run ext True code b 52 t = Some (v RA, w)" using 1 2 3 by simp
    show "\<forall>r \<in> fst ` set cae_saved. rd w r = v r"
    proof clarify
      fix r off assume i: "(r, off) \<in> set cae_saved"
      have "r \<noteq> SP" using i cae_facts(9) by force
      then show "rd w (fst (r, off)) = v (fst (r, off))" using xr [OF i] by (simp add: w_def)
    qed
    show "\<forall>r. r \<noteq> SP \<and> r \<noteq> T0 \<and> r \<notin> fst ` set cae_saved \<longrightarrow> rd w r = rd t r"
      using x(3) by (simp add: w_def cae_facts(3))
  qed (use x in \<open>simp_all add: w_def\<close>)
qed

text \<open>A firmware call leaves no trace in its caller. Unless it asks for a warm start, \<^verbatim>\<open>cpu_apientry\<close> hands the
  request block to \<^verbatim>\<open>cfe_doxreq\<close> with the firmware's global pointer and with interrupts off, having written nothing
  outside the 112 bytes below the stack; if that comes back with its stack and without touching the frame, the caller goes
  on with its saved registers, its kernel registers, stack, global pointer and status register as they were, whatever
  \<^verbatim>\<open>cfe_doxreq\<close> did to them, and with its result.\<close>

lemma apientry_transparent:
  fixes s :: mips and d m c e b :: addr
  defines "a \<equiv> rd s SP - 112" and "code \<equiv> apientry_code d m c e"
  assumes cold: "\<not> warm_call s" "rd s A1 AND 3 = 0"
    and sp: "rd s SP AND 3 = 0" "- (2 ^ 31) + 112 \<le> sint (rd s SP)"
    and apart: "position b code d = None" "position b code (rd s RA) = None"
    and doxreq: "\<And>u. rd u SP = a \<Longrightarrow> \<exists>t. ext d u = Some t \<and> rd t SP = a \<and>
      (\<forall>x. 0 \<le> x \<and> x < 112 \<longrightarrow> ram t (a + of_int x) = ram u (a + of_int x))"
  shows "\<exists>u t w. ext d u = Some t \<and> rd u A0 = rd s A1 \<and> rd u GP = rd s A0 \<and> rd u SP = a \<and> \<not> bit (cp0 u C0_SR) 0 \<and>
      (\<forall>x. (\<forall>i. 0 \<le> i \<and> i < 112 \<longrightarrow> x \<noteq> a + of_int i) \<longrightarrow> ram u x = ram s x) \<and>
      run ext True code b 0 s = Some (rd s RA, w) \<and> rd w V0 = rd t V0 \<and>
      (\<forall>r \<in> {S0, S1, S2, S3, S4, S5, S6, S7, K0, K1, GP, SP, RA}. rd w r = rd s r) \<and>
      ram w = ram t \<and> cp0 w = (cp0 t)(C0_SR := cp0 s C0_SR)"
proof -
  obtain s0 where s0: "run ext True code b 0 s = run ext True code b 21 s0" "\<forall>r. r \<notin> {T0, AT} \<longrightarrow> rd s0 r = rd s r"
    "ram s0 = ram s" "cp0 s0 = cp0 s"
    using apientry_cold [OF cold(2,1)] unfolding code_def by blast
  have SP: "rd s0 SP = rd s SP" using s0(2) by simp
  obtain u where u: "run ext True code b 21 s0 = run ext True code b 51 u" "rd u T9 = d"
    "rd u SP = a" "rd u GP = rd s0 A0" "rd u A0 = rd s0 A1" "ram u (a + 0) = cp0 s0 C0_SR"
    "\<forall>(r, off) \<in> set cae_saved. ram u (a + of_int off) = rd s0 r"
    "\<forall>x. (\<forall>i. 0 \<le> i \<and> i < 112 \<longrightarrow> x \<noteq> a + of_int i) \<longrightarrow> ram u x = ram s0 x"
    "cp0 u = (cp0 s0)(C0_SR := cp0 s0 C0_SR AND NOT M_SR_IE)"
    unfolding code_def a_def SP [symmetric] by (rule apientry_enter [of s0]) (use sp SP in simp_all)
  define v where "v = wr RA (b + 4 * of_nat 52) u"
  obtain t where t: "ext d v = Some t" "rd t SP = a" "\<forall>x. 0 \<le> x \<and> x < 112 \<longrightarrow> ram t (a + of_int x) = ram u (a + of_int x)"
    using doxreq [of v] u(3) by (auto simp: v_def)
  have call: "run ext True code b 51 u = run ext True code b 52 t"
    using apart(1) t(1) u(2) unfolding code_def
    by (subst run_Jalr [OF _ apientry_parts(11), where t = v and u = t]) (simp_all add: apientry_parts(1) slot_def after_def v_def)
  have m1: "ram t (rd s SP - 112 + 0) = cp0 s C0_SR" using spec [OF t(3), of 0] u(6) s0(4) by (simp add: a_def)
  have "ram t (a + of_int off) = rd s r" if "(r, off) \<in> set cae_saved" for r off
  proof -
    have "r \<in> fst ` set cae_saved" using that by force
    then have "rd s0 r = rd s r" using s0(2) unfolding cae_facts(9) by auto
    then show ?thesis using bspec [OF u(7) that] bspec [OF cae_facts(8) that] spec [OF t(3), of off] by simp
  qed
  then have m2: "\<forall>(r, off) \<in> set cae_saved. ram t (rd s SP - 112 + of_int off) = rd s r" unfolding a_def by auto
  obtain w where w: "run ext True code b 52 t = Some (rd s RA, w)" "rd w SP = rd s SP"
      "\<forall>r \<in> fst ` set cae_saved. rd w r = rd s r"
      "\<forall>r. r \<noteq> SP \<and> r \<noteq> T0 \<and> r \<notin> fst ` set cae_saved \<longrightarrow> rd w r = rd t r" "ram w = ram t"
      "cp0 w = (cp0 t)(C0_SR := cp0 s C0_SR)"
    unfolding code_def
    by (rule apientry_leave [where v = "rd s" and ext = ext, OF t(2) [unfolded a_def] m1 m2 sp apart(2) [unfolded code_def]])
  have "\<not> bit (cp0 v C0_SR) 0" using u(9) by (simp add: v_def M_SR_IE_def MAKEMASK1_def bit_simps)
  then show ?thesis using s0 u(1,3-5,8) t(1) w call
    by (intro exI [of _ v] exI [of _ t] exI [of _ w]) (simp add: v_def cae_facts(9))
qed

lemma apientry_transparent_witness:
  "\<exists>w. run (\<lambda>_ u. Some (u\<lparr>rf := (\<lambda>_. 9)(SP := rf u SP, V0 := 3), cp0 := \<lambda>_. 8\<rparr>)) True
        (apientry_code 0x80708000 0x8070a000 0x80709000 0) 0x80700000 0
        \<lparr>rf = (\<lambda>_. 5)(A0 := 0x80800000, A1 := 0x80002000, SP := 0x80300000, RA := 0x80001000), m_lo = 0, m_hi = 0,
          cp0 = (\<lambda>_. 0)(C0_SR := 0x401), ram = (\<lambda>_. 7), cache_ops = []\<rparr> = Some (0x80001000, w) \<and>
     rd w V0 = 3 \<and> rd w S3 = 5 \<and> rd w GP = 5 \<and> rd w SP = 0x80300000 \<and> cp0 w C0_SR = 0x401"
proof -
  define ext :: externals where "ext = (\<lambda>_ u. Some (u\<lparr>rf := (\<lambda>_. 9)(SP := rf u SP, V0 := 3), cp0 := \<lambda>_. 8\<rparr>))"
  define s where "s = \<lparr>rf = (\<lambda>_. 5)(A0 := 0x80800000, A1 := 0x80002000, SP := 0x80300000, RA := 0x80001000), m_lo = 0, m_hi = 0,
      cp0 = (\<lambda>_. 0)(C0_SR := 0x401), ram = (\<lambda>_. 7), cache_ops = []\<rparr>"
  let ?c = "apientry_code 0x80708000 0x8070a000 0x80709000 0"
  have r: "rd s SP = 0x80300000" "rd s RA = 0x80001000" "rd s A1 = 0x80002000" "rd s S3 = 5" "rd s GP = 5" "cp0 s C0_SR = 0x401"
    "ram s = (\<lambda>_. 7)" by (simp_all add: s_def rd_def)
  have w: "\<not> warm_call s" by (simp add: warm_call_def r CFE_CMD_FW_RESTART_def)
  have p: "position 0x80700000 ?c 0x80708000 = None" "position 0x80700000 ?c (rd s RA) = None"
    by (simp_all add: position_def Let_def apientry_parts(1) r)
  have e: "\<exists>t. ext 0x80708000 u = Some t \<and> rd t SP = rd s SP - 112 \<and>
      (\<forall>x. 0 \<le> x \<and> x < 112 \<longrightarrow> ram t (rd s SP - 112 + of_int x) = ram u (rd s SP - 112 + of_int x))" if "rd u SP = rd s SP - 112" for u
    using that by (simp add: ext_def rd_def)
  have a: "rd s A1 AND 3 = 0" "rd s SP AND 3 = 0" "- (2 ^ 31) + 112 \<le> sint (rd s SP)" by (simp_all add: r)
  from apientry_transparent [where ext = ext and s = s and d = "0x80708000", OF w a p e] obtain u t x where
    "ext 0x80708000 u = Some t" "run ext True ?c 0x80700000 0 s = Some (rd s RA, x)" "rd x V0 = rd t V0"
    "\<forall>r \<in> {S0, S1, S2, S3, S4, S5, S6, S7, K0, K1, GP, SP, RA}. rd x r = rd s r" "cp0 x = (cp0 t)(C0_SR := cp0 s C0_SR)"
    by blast
  then have "run ext True ?c 0x80700000 0 s = Some (0x80001000, x)" "rd x V0 = 3" "rd x S3 = 5" "rd x GP = 5" "rd x SP = 0x80300000"
    "cp0 x C0_SR = 0x401" by (auto simp: r ext_def rd_def [of "rf_update _ _"] rd_def [of "_\<lparr>rf := _, cp0 := _\<rparr>"])
  then show ?thesis unfolding s_def [symmetric] ext_def [symmetric] by blast
qed

text \<open>A warm start does not come back: the firmware's restart is entered on the firmware's own stack, with its global
  pointer, the caller's exit status, interrupts off and the vectors in memory.\<close>

lemma apientry_warm:
  fixes s :: mips and d m c e b :: addr
  defines "code \<equiv> apientry_code d m c e" and "sp \<equiv> ram s m + 0x41ff8"
  assumes warm: "warm_call s" "rd s A1 AND 3 = 0"
    and heap: "m AND 3 = 0" "sp AND 3 = 0" "sint (ram s m) + 0x41ff8 < 2 ^ 31"
    and apart: "position b code c = None"
    and restart: "\<And>u. \<exists>t. ext c u = Some t \<and> rd t SP = rd u SP \<and> rd t GP = rd u GP \<and> ram t = ram u \<and> cp0 t = cp0 u"
  shows "\<exists>u. run ext True code b 0 s = run ext True code b 100 u \<and> code ! 100 = Jalr T9 \<and> rd u T9 = e \<and> rd u SP = sp \<and>
      rd u GP = rd s A0 \<and> rd u A0 = ram s (rd s A1 + 40) \<and> cp0 u C0_SR = cp0 s C0_SR AND NOT M_SR_IE AND NOT M_SR_BEV"
proof -
  have al: "(rd s A1 + 24) AND 3 = 0" "(rd s A1 + 40) AND 3 = 0"
    using aligned_off [OF warm(2), of 24] aligned_off [OF warm(2), of 40] by simp_all
  have wm: "ram s (rd s A1) = 1" "ram s (rd s A1 + 24) AND 1 = 1"
    using warm(1) by (simp_all add: warm_call_def CFE_CMD_FW_RESTART_def CFE_FLG_WARMSTART_def)
  define s1 where "s1 = wr AT 1 (wr T0 1 s)"
  have "run ext True code b 0 s = run ext True code b (0 + 2) s1"
    unfolding code_def by (rule run_take [OF apientry_parts(2)]) (simp_all add: s1_def warm(2) Let_def wm)
  also have "\<dots> = run ext True code b 3 s1"
    using run_Bne(2) [where ext = ext and b = b and s = s1 and t = s1 and ro = True, OF _ apientry_parts(3)]
    by (simp add: code_def apientry_parts slot_def s1_def after_def numeral_2_eq_2 numeral_3_eq_3)
  also have "\<dots> = run ext True code b (3 + 3) (wr AT 1 (wr T0 1 (wr T0 (ram s (rd s A1 + 24)) s1)))"
    unfolding code_def by (rule run_take [OF apientry_parts(4)]) (simp_all add: s1_def al Let_def wm)
  also have "\<dots> = run ext True code b 7 (wr AT 1 (wr T0 1 (wr T0 (ram s (rd s A1 + 24)) s1)))" (is "_ = run _ _ _ _ _ ?s2")
    using run_Bne(2) [where ext = ext and b = b and s = ?s2 and t = ?s2 and ro = True, OF _ apientry_parts(5)]
    by (simp add: code_def apientry_parts slot_def after_def)
  finally have 1: "run ext True code b 0 s = run ext True code b 7 ?s2" .
  define s3 where "s3 = wr A0 (ram s (rd s A1 + 40)) (wr GP (rd s A0) ((wr T0 (cp0 s C0_SR AND NOT M_SR_IE) (wr AT (NOT M_SR_IE)
      (wr T0 (cp0 s C0_SR) ?s2)))\<lparr>cp0 := (cp0 s)(C0_SR := cp0 s C0_SR AND NOT M_SR_IE)\<rparr>))"
  have "execs ([Mfc0 T0 C0_SR, Li AT (NOT M_SR_IE), And T0 T0 AT, Mtc0 T0 C0_SR] @ replicate 7 Nop @
      [Move GP A0, Lw A0 40 A1 :: nat instr]) ?s2 = Some s3"
    by (simp add: execs_append execs_nops s3_def s1_def al Let_def)
  then have "run ext True code b 7 ?s2 = run ext True code b (7 + 13) s3"
    unfolding code_def by (intro run_take [OF apientry_parts(6)]) (simp_all add: list_all_iff)
  also have "\<dots> = run ext True code b 76 s3"
    using run_Beq(1) [where ext = ext and b = b and s = s3 and t = s3 and ro = True, OF _ apientry_parts(7)]
    by (simp add: code_def apientry_parts slot_def)
  finally have 2: "run ext True code b 7 ?s2 = run ext True code b 76 s3" .
  define s4 where "s4 = wr T9 c (wr T9 (c - lo16 c) ((wr SP sp (wr AT 0x41ff8 (wr AT 0x40000 (wr SP (ram s m) (wr SP (m - lo16 m) s3)))))
      \<lparr>ram := (ram s)(sp := ram s (rd s A1 + 40))\<rparr>))"
  have lo: "(m - lo16 m) + of_int (sint (lo16 m)) = m" by simp
  have "ram s3 = ram s" by (simp add: s3_def s1_def)
  then have "run ext True code b 76 s3 = run ext True code b (76 + 8) s4"
    unfolding code_def using heap(3) sint_ge [of "ram s m"]
    by (intro run_take [OF apientry_parts(15)])
       (simp_all add: s4_def heap(1,2) [unfolded sp_def] Let_def trapping_ok sp_def s3_def)
  then have 3: "run ext True code b 76 s3 = run ext True code b 84 s4" by simp
  define u4 where "u4 = wr RA (b + 4 * of_nat 85) s4"
  obtain t where t: "ext c u4 = Some t" "rd t SP = sp" "rd t GP = rd s A0" "ram t = ram s4" "cp0 t = cp0 s3"
    using restart [of u4] by (auto simp: u4_def s4_def s3_def)
  have 4: "run ext True code b 84 s4 = run ext True code b 85 t"
    using apart t(1) unfolding code_def
    by (subst run_Jalr [OF _ apientry_parts(16), where t = u4 and u = t])
       (simp_all add: apientry_parts(1) slot_def after_def u4_def s4_def)
  define u where "u = wr T9 e (wr T9 (e - lo16 e) ((wr T0 (cp0 t C0_SR AND NOT M_SR_BEV) (wr AT (NOT M_SR_BEV) (wr AT 0xffbf0000
      (wr T0 (cp0 t C0_SR) (wr A0 (ram s (rd s A1 + 40)) t)))))\<lparr>cp0 := (cp0 t)(C0_SR := cp0 t C0_SR AND NOT M_SR_BEV)\<rparr>))"
  have bev: "NOT M_SR_BEV = (0xffbfffff :: u32)" by code_simp
  have "execs ([Lw A0 0 SP, Mfc0 T0 C0_SR, Lui AT 0xffbf, Ori AT AT 0xffff, And T0 T0 AT, Mtc0 T0 C0_SR] @ replicate 7 Nop @
      [La_hi T9 e, La_lo T9 e :: nat instr]) t = Some u"
    using t(2,4) heap(2) by (simp add: execs_append execs_nops u_def bev s4_def Let_def)
  then have "run ext True code b 85 t = run ext True code b (85 + 15) u"
    unfolding code_def by (intro run_take [OF apientry_parts(17)]) (simp_all add: list_all_iff)
  then have "run ext True code b 0 s = run ext True code b 100 u" using 1 2 3 4 by simp
  moreover have "rd u T9 = e" "rd u SP = sp" "rd u GP = rd s A0" "rd u A0 = ram s (rd s A1 + 40)"
    "cp0 u C0_SR = cp0 s C0_SR AND NOT M_SR_IE AND NOT M_SR_BEV"
    using t by (simp_all add: u_def s3_def and.assoc)
  ultimately show ?thesis using apientry_parts(18) unfolding code_def by blast
qed

section \<open>System registers\<close>

definition getstatus_S :: "stmt list" where "getstatus_S = [I (Mfc0 V0 C0_SR), I (Jr RA)]"
definition setstatus_S :: "stmt list" where "setstatus_S = [I (Mtc0 A0 C0_SR), I (Jr RA)]"
definition getcause_S :: "stmt list" where "getcause_S = [I (Mfc0 V0 C0_CAUSE), I (Jr RA)]"

lemma status_routines:
  assumes "\<And>code. length code = 2 \<Longrightarrow> position b code (rd s RA) = None"
  shows "run ext True (assemble getstatus_S) b 0 s = Some (rd s RA, wr V0 (cp0 s C0_SR) s)"
    and "run ext True (assemble setstatus_S) b 0 s = Some (rd s RA, s\<lparr>cp0 := (cp0 s)(C0_SR := rd s A0)\<rparr>)"
    and "run ext True (assemble getcause_S) b 0 s = Some (rd s RA, wr V0 (cp0 s C0_CAUSE) s)"
  using assms
  by ((subst run.simps, simp add: getstatus_S_def setstatus_S_def getcause_S_def assemble_def step_def slot_def,
       (subst run.simps, simp add: step_def slot_def)?)+)

end
