(* ===== verification/MacRings.thy ===== *)
theory MacRings
  imports CpuIrq LibQueue "HOL-Library.Multiset"
begin

text \<open>
  The Ethernet driver \<^verbatim>\<open>cfe/dev_sb_mac.c\<close>, first part: its state, the packet pool and the two
  descriptor rings. A packet is the address of its \<^verbatim>\<open>eth_pkt_t\<close>; the free list is a queue of
  \<^verbatim>\<open>LibQueue\<close> through the first field of the packets; a pointer into a ring is the index of its
  descriptor. The bytes a packet holds are the device's business: the driver reads the header
  word the DMA engine wrote in front of a received frame with a load. The configuration is the
  one of \<^verbatim>\<open>cfe/Makefile\<close>: little endian, no PCI, interrupts on, IPOLL and XPOLL on.
\<close>

section \<open>State\<close>

datatype eth_state_t = Eth_state_uninit | Eth_state_off | Eth_state_on | Eth_state_broken

text \<open>
  \<^verbatim>\<open>bcm4401_softc\<close>. The link fields of packets and queue headers are \<open>qlinks\<close>, the \<^verbatim>\<open>length\<close>
  fields of packets \<open>pkt_length\<close>; \<open>delivered\<close> records the calls of \<^verbatim>\<open>net_rcv\<close>, \<open>copied\<close> the
  block copies (destination, source, length) between packets and the caller's buffers.
\<close>

record mac = machine +
  membase :: u32
  mac_irq :: u32
  mac_device :: u16
  mac_revision :: u8
  hwaddr :: "u8 list"
  eth_state :: eth_state_t
  intmask :: u32
  linkspeed :: int
  loopback :: int
  qlinks :: qheap
  freelist :: addr
  rxqueue :: addr
  pktpool :: addr
  pkt_length :: "addr \<Rightarrow> int"
  rxdscrmem :: addr
  txdscrmem :: addr
  rxd_cmdsts :: "u32 list"
  rxd_bufptr :: "u32 list"
  txd_cmdsts :: "u32 list"
  txd_bufptr :: "u32 list"
  rxdscr_remove :: nat
  rxdscr_add :: nat
  rxdscr_onring :: int
  txdscr_remove :: nat
  txdscr_add :: nat
  phy_addr :: int
  phy_vendor :: u32
  phy_device :: u16
  phy_interrupt :: int
  slow_poll :: int
  inpkts :: u32
  outpkts :: u32
  interrupts :: u32
  rx_interrupts :: u32
  tx_interrupts :: u32
  delivered :: "(addr \<times> int) list"
  copied :: "(addr \<times> addr \<times> int) list"

definition ENET_CRC_SIZE :: int where "ENET_CRC_SIZE = 4"
definition PKTBUF_RX_OFFSET :: nat where "PKTBUF_RX_OFFSET = 32"
definition ETH_PKTBUF_LEN :: int where "ETH_PKTBUF_LEN = 1568"
definition ETH_PKTPOOL_SIZE :: nat where "ETH_PKTPOOL_SIZE = 32"
definition ETH_PKTBUF_SIZE :: nat where "ETH_PKTBUF_SIZE = 2048"
definition ETH_PKTBUF_OFFSET :: addr where "ETH_PKTBUF_OFFSET = 32"
definition MAXRXDSCR :: nat where "MAXRXDSCR = 32"
definition MAXTXDSCR :: nat where "MAXTXDSCR = 32"
definition MINRXRING :: int where "MINRXRING = 8"

definition SB_ENET0_BASE :: u32 where "SB_ENET0_BASE = 0x18001000"
definition SB_ENET1_BASE :: u32 where "SB_ENET1_BASE = 0x18002000"
definition R_XMT_PTR :: u32 where "R_XMT_PTR = 0x208"
definition R_XMT_STATUS :: u32 where "R_XMT_STATUS = 0x20C"
definition R_RCV_PTR :: u32 where "R_RCV_PTR = 0x218"
definition R_RCV_STATUS :: u32 where "R_RCV_STATUS = 0x21C"

definition M_DSCR0_ET :: u32 where "M_DSCR0_ET = MAKEMASK1 28"
definition M_DSCR0_IC :: u32 where "M_DSCR0_IC = MAKEMASK1 29"
definition M_DSCR0_EF :: u32 where "M_DSCR0_EF = MAKEMASK1 30"
definition M_DSCR0_SF :: u32 where "M_DSCR0_SF = MAKEMASK1 31"
definition V_DSCR0_BC :: "u32 \<Rightarrow> u32" where "V_DSCR0_BC x = MAKEVALUE x 0"
definition G_STAT_CD :: "u32 \<Rightarrow> u32" where "G_STAT_CD x = GETVALUE x 0 (MAKEMASK 12 0)"
definition G_RCVHDR0_CD :: "u32 \<Rightarrow> u32" where "G_RCVHDR0_CD x = GETVALUE x 0 (MAKEMASK 16 0)"
definition M_RCVHDR0_ERRORS :: u32 where
  "M_RCVHDR0_ERRORS = MAKEMASK1 19 OR MAKEMASK1 18 OR MAKEMASK1 17 OR MAKEMASK1 16"

text \<open>\<^verbatim>\<open>READCSR\<close>, \<^verbatim>\<open>WRITECSR\<close>, the critical section, and the address macros: bus addresses are
  physical addresses (\<^verbatim>\<open>phys_to_sb\<close>, \<^verbatim>\<open>sb_to_phys\<close> are identities on little endian).\<close>

definition READCSR :: "device \<Rightarrow> u32 \<Rightarrow> 'a mac_scheme \<Rightarrow> u32 \<times> 'a mac_scheme" where
  "READCSR dev csr s = phys_read32 dev (membase s + csr) s"

definition WRITECSR :: "u32 \<Rightarrow> u32 \<Rightarrow> 'a mac_scheme \<Rightarrow> 'a mac_scheme" where
  "WRITECSR csr v s = phys_write32 (membase s + csr) v s"

definition CS_ENTER :: "device \<Rightarrow> 'a mac_scheme \<Rightarrow> 'a mac_scheme" where
  "CS_ENTER dev s = cfe_disable_irq dev (mac_irq s) s"

definition CS_EXIT :: "device \<Rightarrow> 'a mac_scheme \<Rightarrow> 'a mac_scheme" where
  "CS_EXIT dev s = cfe_enable_irq dev (mac_irq s) s"

definition PTR_TO_PCI :: "addr \<Rightarrow> u32" where
  "PTR_TO_PCI p = K0_TO_PHYS p"

definition PCI_TO_PTR :: "u32 \<Rightarrow> addr" where
  "PCI_TO_PTR a = PHYS_TO_K0 a"

definition pkt_buffer :: "addr \<Rightarrow> addr" where
  "pkt_buffer pkt = pkt + ETH_PKTBUF_OFFSET"

definition ETH_PKT_BASE :: "addr \<Rightarrow> addr" where
  "ETH_PKT_BASE d = d - ETH_PKTBUF_OFFSET"

section \<open>Packet pool\<close>

definition eth_alloc_pkt :: "device \<Rightarrow> 'a mac_scheme \<Rightarrow> addr option \<times> 'a mac_scheme" where
  "eth_alloc_pkt dev s =
     (let s = CS_ENTER dev s;
          (pkt, h) = q_deqnext (qlinks s) (freelist s);
          s = s\<lparr>qlinks := h\<rparr>;
          s = CS_EXIT dev s
      in case pkt of None \<Rightarrow> (None, s)
         | Some p \<Rightarrow> (Some p, s\<lparr>pkt_length := (pkt_length s)(p := ETH_PKTBUF_LEN)\<rparr>))"

definition eth_free_pkt :: "device \<Rightarrow> addr \<Rightarrow> 'a mac_scheme \<Rightarrow> 'a mac_scheme" where
  "eth_free_pkt dev pkt s =
     (let s = CS_ENTER dev s;
          s = s\<lparr>qlinks := q_enqueue (qlinks s) (freelist s) pkt\<rparr>
      in CS_EXIT dev s)"

text \<open>The packets of the pool, in the order \<^verbatim>\<open>eth_initfreelist\<close> visits them.\<close>

definition pool_pkts :: "addr \<Rightarrow> addr list" where
  "pool_pkts base = map (\<lambda>idx. base + of_nat (idx * ETH_PKTBUF_SIZE)) [0..<ETH_PKTPOOL_SIZE]"

definition eth_initfreelist :: "device \<Rightarrow> 'a mac_scheme \<Rightarrow> 'a mac_scheme" where
  "eth_initfreelist dev s =
     (let s = s\<lparr>qlinks := q_init (qlinks s) (freelist s)\<rparr>
      in foldl (\<lambda>s pkt. eth_free_pkt dev pkt s) s (pool_pkts (pktpool s)))"

section \<open>Receive ring\<close>

text \<open>The successor of a descriptor in a ring of \<open>n\<close>.\<close>

definition next_dscr :: "nat \<Rightarrow> nat \<Rightarrow> nat" where
  "next_dscr n d = (if d + 1 = n then 0 else d + 1)"

definition bcm4401_add_rcvbuf :: "addr \<Rightarrow> 'a mac_scheme \<Rightarrow> int \<times> 'a mac_scheme" where
  "bcm4401_add_rcvbuf pkt s =
     (let rxd = rxdscr_add s; nextrxd = next_dscr MAXRXDSCR rxd
      in if nextrxd = rxdscr_remove s then (-1, s)
         else let s = s\<lparr>rxd_bufptr := (rxd_bufptr s)[rxd := PTR_TO_PCI (pkt_buffer pkt)]\<rparr>;
                  s = s\<lparr>rxdscr_add := nextrxd\<rparr>;
                  s = WRITECSR R_RCV_PTR
                        (MAKEVALUE (PTR_TO_PCI (rxdscrmem s + of_nat (8 * nextrxd)) AND 0xFFF) 0) s
              in (0, s))"

text \<open>The critical section and a register access leave the driver state alone.\<close>

lemma cs_enter_frame [simp]:
  "membase (CS_ENTER dev s) = membase s"
  "mac_irq (CS_ENTER dev s) = mac_irq s"
  "eth_state (CS_ENTER dev s) = eth_state s"
  "intmask (CS_ENTER dev s) = intmask s"
  "qlinks (CS_ENTER dev s) = qlinks s"
  "freelist (CS_ENTER dev s) = freelist s"
  "rxqueue (CS_ENTER dev s) = rxqueue s"
  "pktpool (CS_ENTER dev s) = pktpool s"
  "pkt_length (CS_ENTER dev s) = pkt_length s"
  "rxdscrmem (CS_ENTER dev s) = rxdscrmem s"
  "txdscrmem (CS_ENTER dev s) = txdscrmem s"
  "rxd_bufptr (CS_ENTER dev s) = rxd_bufptr s"
  "txd_bufptr (CS_ENTER dev s) = txd_bufptr s"
  "rxd_cmdsts (CS_ENTER dev s) = rxd_cmdsts s"
  "txd_cmdsts (CS_ENTER dev s) = txd_cmdsts s"
  "rxdscr_remove (CS_ENTER dev s) = rxdscr_remove s"
  "rxdscr_add (CS_ENTER dev s) = rxdscr_add s"
  "rxdscr_onring (CS_ENTER dev s) = rxdscr_onring s"
  "txdscr_remove (CS_ENTER dev s) = txdscr_remove s"
  "txdscr_add (CS_ENTER dev s) = txdscr_add s"
  "inpkts (CS_ENTER dev s) = inpkts s"
  "outpkts (CS_ENTER dev s) = outpkts s"
  "delivered (CS_ENTER dev s) = delivered s"
  by (simp_all add: CS_ENTER_def cfe_disable_irq_eq Let_def)

lemma cs_exit_frame [simp]:
  "membase (CS_EXIT dev s) = membase s"
  "mac_irq (CS_EXIT dev s) = mac_irq s"
  "eth_state (CS_EXIT dev s) = eth_state s"
  "intmask (CS_EXIT dev s) = intmask s"
  "qlinks (CS_EXIT dev s) = qlinks s"
  "freelist (CS_EXIT dev s) = freelist s"
  "rxqueue (CS_EXIT dev s) = rxqueue s"
  "pktpool (CS_EXIT dev s) = pktpool s"
  "pkt_length (CS_EXIT dev s) = pkt_length s"
  "rxdscrmem (CS_EXIT dev s) = rxdscrmem s"
  "txdscrmem (CS_EXIT dev s) = txdscrmem s"
  "rxd_bufptr (CS_EXIT dev s) = rxd_bufptr s"
  "txd_bufptr (CS_EXIT dev s) = txd_bufptr s"
  "rxd_cmdsts (CS_EXIT dev s) = rxd_cmdsts s"
  "txd_cmdsts (CS_EXIT dev s) = txd_cmdsts s"
  "rxdscr_remove (CS_EXIT dev s) = rxdscr_remove s"
  "rxdscr_add (CS_EXIT dev s) = rxdscr_add s"
  "rxdscr_onring (CS_EXIT dev s) = rxdscr_onring s"
  "txdscr_remove (CS_EXIT dev s) = txdscr_remove s"
  "txdscr_add (CS_EXIT dev s) = txdscr_add s"
  "inpkts (CS_EXIT dev s) = inpkts s"
  "outpkts (CS_EXIT dev s) = outpkts s"
  "delivered (CS_EXIT dev s) = delivered s"
  by (simp_all add: CS_EXIT_def cfe_enable_irq_eq Let_def)

lemma store_frame [simp]:
  "membase (store a v s) = membase s"
  "mac_irq (store a v s) = mac_irq s"
  "eth_state (store a v s) = eth_state s"
  "intmask (store a v s) = intmask s"
  "qlinks (store a v s) = qlinks s"
  "freelist (store a v s) = freelist s"
  "rxqueue (store a v s) = rxqueue s"
  "pktpool (store a v s) = pktpool s"
  "pkt_length (store a v s) = pkt_length s"
  "rxdscrmem (store a v s) = rxdscrmem s"
  "txdscrmem (store a v s) = txdscrmem s"
  "rxd_bufptr (store a v s) = rxd_bufptr s"
  "txd_bufptr (store a v s) = txd_bufptr s"
  "rxd_cmdsts (store a v s) = rxd_cmdsts s"
  "txd_cmdsts (store a v s) = txd_cmdsts s"
  "rxdscr_remove (store a v s) = rxdscr_remove s"
  "rxdscr_add (store a v s) = rxdscr_add s"
  "rxdscr_onring (store a v s) = rxdscr_onring s"
  "txdscr_remove (store a v s) = txdscr_remove s"
  "txdscr_add (store a v s) = txdscr_add s"
  "inpkts (store a v s) = inpkts s"
  "outpkts (store a v s) = outpkts s"
  "delivered (store a v s) = delivered s"
  by (simp_all add: store_def)

lemma load_frame [simp]:
  "membase (snd (load dev a s)) = membase s"
  "mac_irq (snd (load dev a s)) = mac_irq s"
  "eth_state (snd (load dev a s)) = eth_state s"
  "intmask (snd (load dev a s)) = intmask s"
  "qlinks (snd (load dev a s)) = qlinks s"
  "freelist (snd (load dev a s)) = freelist s"
  "rxqueue (snd (load dev a s)) = rxqueue s"
  "pktpool (snd (load dev a s)) = pktpool s"
  "pkt_length (snd (load dev a s)) = pkt_length s"
  "rxdscrmem (snd (load dev a s)) = rxdscrmem s"
  "txdscrmem (snd (load dev a s)) = txdscrmem s"
  "rxd_bufptr (snd (load dev a s)) = rxd_bufptr s"
  "txd_bufptr (snd (load dev a s)) = txd_bufptr s"
  "rxd_cmdsts (snd (load dev a s)) = rxd_cmdsts s"
  "txd_cmdsts (snd (load dev a s)) = txd_cmdsts s"
  "rxdscr_remove (snd (load dev a s)) = rxdscr_remove s"
  "rxdscr_add (snd (load dev a s)) = rxdscr_add s"
  "rxdscr_onring (snd (load dev a s)) = rxdscr_onring s"
  "txdscr_remove (snd (load dev a s)) = txdscr_remove s"
  "txdscr_add (snd (load dev a s)) = txdscr_add s"
  "inpkts (snd (load dev a s)) = inpkts s"
  "outpkts (snd (load dev a s)) = outpkts s"
  "delivered (snd (load dev a s)) = delivered s"
  by (simp_all add: load_simps)

lemma eth_alloc_onring [simp]: "rxdscr_onring (snd (eth_alloc_pkt dev s)) = rxdscr_onring s"
  by (simp add: eth_alloc_pkt_def Let_def split_beta split: option.split)

lemma add_rcvbuf_onring [simp]: "rxdscr_onring (snd (bcm4401_add_rcvbuf pkt s)) = rxdscr_onring s"
  by (simp add: bcm4401_add_rcvbuf_def Let_def WRITECSR_def phys_write32_def store_def)

text \<open>The loop of \<^verbatim>\<open>bcm4401_fillrxring\<close>, entered inside the critical section.\<close>

function fillrx_loop :: "device \<Rightarrow> 'a mac_scheme \<Rightarrow> 'a mac_scheme" where
  "fillrx_loop dev s =
     (if rxdscr_onring s \<ge> MINRXRING then CS_EXIT dev s
      else
        let s1 = CS_EXIT dev s;
            r = eth_alloc_pkt dev s1
        in case fst r of
             None \<Rightarrow> snd r
           | Some pkt \<Rightarrow>
               let a = bcm4401_add_rcvbuf pkt (snd r)
               in if fst a \<noteq> 0 then eth_free_pkt dev pkt (snd a)
                  else let s = CS_ENTER dev (snd a)
                       in fillrx_loop dev (s\<lparr>rxdscr_onring := rxdscr_onring s + 1\<rparr>))"
  by pat_completeness auto
termination
  by (relation "measure (\<lambda>(dev, s). nat (MINRXRING - rxdscr_onring s))") (auto simp: Let_def)

declare fillrx_loop.simps [simp del]

definition bcm4401_fillrxring :: "device \<Rightarrow> 'a mac_scheme \<Rightarrow> 'a mac_scheme" where
  "bcm4401_fillrxring dev s = fillrx_loop dev (CS_ENTER dev s)"

definition net_rcv_call :: "addr \<Rightarrow> int \<Rightarrow> 'a mac_scheme \<Rightarrow> 'a mac_scheme" where
  "net_rcv_call d len s = s\<lparr>delivered := delivered s @ [(d, len)]\<rparr>"

definition bcm4401_rx_callback :: "device \<Rightarrow> addr \<Rightarrow> 'a mac_scheme \<Rightarrow> 'a mac_scheme" where
  "bcm4401_rx_callback dev pkt s =
     (let s = CS_ENTER dev s;
          s = net_rcv_call (pkt_buffer pkt) (pkt_length s pkt) s;
          s = CS_EXIT dev s;
          s = eth_free_pkt dev pkt s
      in s\<lparr>inpkts := inpkts s + 1\<rparr>)"

text \<open>One pass of the loop of \<^verbatim>\<open>bcm4401_procrxring\<close>, and the loop.\<close>

definition procrx_step :: "device \<Rightarrow> 'a mac_scheme \<Rightarrow> 'a mac_scheme" where
  "procrx_step dev s =
     (let rxd = rxdscr_remove s;
          pkt = ETH_PKT_BASE (PCI_TO_PTR (rxd_bufptr s ! rxd));
          (hdr0, s) = load dev (pkt_buffer pkt) s;
          (newpkt, s) =
            (if hdr0 AND M_RCVHDR0_ERRORS \<noteq> 0 then (Some pkt, s)
             else
               let s = s\<lparr>pkt_length := (pkt_length s)(pkt := int (unat (G_RCVHDR0_CD hdr0)) - ENET_CRC_SIZE)\<rparr>;
                   s = bcm4401_rx_callback dev pkt s
               in eth_alloc_pkt dev s);
          s = s\<lparr>rxdscr_remove := next_dscr MAXRXDSCR rxd\<rparr>
      in case newpkt of
           Some p \<Rightarrow> snd (bcm4401_add_rcvbuf p s)
         | None \<Rightarrow> let s = CS_ENTER dev s;
                       s = s\<lparr>rxdscr_onring := rxdscr_onring s - 1\<rparr>
                   in CS_EXIT dev s)"

partial_function (option) procrx_loop :: "device \<Rightarrow> u32 \<Rightarrow> 'a mac_scheme \<Rightarrow> 'a mac_scheme option" where
  "procrx_loop dev cd s =
     (if of_nat (8 * rxdscr_remove s) = cd then Some s else procrx_loop dev cd (procrx_step dev s))"

definition bcm4401_procrxring :: "device \<Rightarrow> 'a mac_scheme \<Rightarrow> 'a mac_scheme option" where
  "bcm4401_procrxring dev s =
     (let (rxstat, s) = READCSR dev R_RCV_STATUS s in procrx_loop dev (G_STAT_CD rxstat) s)"

section \<open>Transmit ring\<close>

definition bcm4401_add_txbuf :: "addr \<Rightarrow> 'a mac_scheme \<Rightarrow> int \<times> 'a mac_scheme" where
  "bcm4401_add_txbuf pkt s =
     (let txd = txdscr_add s;
          cmdsts = M_DSCR0_SF OR M_DSCR0_EF OR M_DSCR0_IC;
          (cmdsts, nexttxd) = (if txd + 1 = MAXTXDSCR then (cmdsts OR M_DSCR0_ET, 0) else (cmdsts, txd + 1))
      in if nexttxd = txdscr_remove s then (-1, s)
         else let s = s\<lparr>txd_bufptr := (txd_bufptr s)[txd := PTR_TO_PCI (pkt_buffer pkt)]\<rparr>;
                  cmdsts = cmdsts OR V_DSCR0_BC (of_int (pkt_length s pkt));
                  s = s\<lparr>txd_cmdsts := (txd_cmdsts s)[txd := cmdsts]\<rparr>;
                  s = s\<lparr>txdscr_add := nexttxd\<rparr>
              in (0, s))"

definition bcm4401_transmit :: "addr \<Rightarrow> 'a mac_scheme \<Rightarrow> int \<times> 'a mac_scheme" where
  "bcm4401_transmit pkt s =
     (let (rv, s) = bcm4401_add_txbuf pkt s;
          s = (if rv = 0 then
                 WRITECSR R_XMT_PTR
                   (MAKEVALUE (PTR_TO_PCI (txdscrmem s + of_nat (8 * txdscr_add s)) AND 0xFFF) 0) s
               else s)
      in (rv, s\<lparr>outpkts := outpkts s + 1\<rparr>))"

definition proctx_step :: "device \<Rightarrow> 'a mac_scheme \<Rightarrow> 'a mac_scheme" where
  "proctx_step dev s =
     (let txd = txdscr_remove s;
          pkt = ETH_PKT_BASE (PCI_TO_PTR (txd_bufptr s ! txd));
          s = eth_free_pkt dev pkt s
      in s\<lparr>txdscr_remove := next_dscr MAXTXDSCR txd\<rparr>)"

partial_function (option) proctx_loop :: "device \<Rightarrow> u32 \<Rightarrow> 'a mac_scheme \<Rightarrow> 'a mac_scheme option" where
  "proctx_loop dev cd s =
     (if of_nat (8 * txdscr_remove s) = cd then Some s else proctx_loop dev cd (proctx_step dev s))"

definition bcm4401_proctxring :: "device \<Rightarrow> 'a mac_scheme \<Rightarrow> 'a mac_scheme option" where
  "bcm4401_proctxring dev s =
     (let (txstat, s) = READCSR dev R_XMT_STATUS s in proctx_loop dev (G_STAT_CD txstat) s)"


section \<open>Setting up and resetting the rings\<close>

definition bcm4401_initrings :: "device \<Rightarrow> 'a mac_scheme \<Rightarrow> 'a mac_scheme" where
  "bcm4401_initrings dev s =
     (let tx = M_DSCR0_SF OR M_DSCR0_EF OR M_DSCR0_IC;
          rx = M_DSCR0_SF OR M_DSCR0_EF OR V_DSCR0_BC (of_int ETH_PKTBUF_LEN);
          s = s\<lparr>txd_cmdsts := (replicate MAXTXDSCR tx)[MAXTXDSCR - 1 := tx OR M_DSCR0_ET],
                txd_bufptr := replicate MAXTXDSCR 0,
                rxd_cmdsts := (replicate MAXRXDSCR rx)[MAXRXDSCR - 1 := rx OR M_DSCR0_ET],
                rxd_bufptr := replicate MAXRXDSCR 0\<rparr>;
          s = s\<lparr>txdscr_remove := 0, txdscr_add := 0\<rparr>;
          s = s\<lparr>rxdscr_remove := 0, rxdscr_add := 0, rxdscr_onring := 0\<rparr>
      in bcm4401_fillrxring dev s)"

text \<open>
  \<^verbatim>\<open>bcm4401_init\<close>: the three addresses are what \<^verbatim>\<open>dma_alloc\<close> returned, 0 for no memory. Only
  the pool is checked; the ring memory is moved to the uncached window unchecked.
\<close>

definition bcm4401_init :: "device \<Rightarrow> addr \<Rightarrow> addr \<Rightarrow> addr \<Rightarrow> 'a mac_scheme \<Rightarrow> int \<times> 'a mac_scheme" where
  "bcm4401_init dev rxmem txmem pool s =
     (let s = s\<lparr>rxdscrmem := PHYS_TO_K1 (K0_TO_PHYS rxmem), txdscrmem := PHYS_TO_K1 (K0_TO_PHYS txmem)\<rparr>;
          s = s\<lparr>pktpool := pool\<rparr>
      in if pool = NULL then (-1, s)
         else
           let s = eth_initfreelist dev s;
               s = s\<lparr>qlinks := q_init (qlinks s) (rxqueue s)\<rparr>
           in (0, bcm4401_initrings dev s))"

partial_function (option) reset_tx_loop :: "device \<Rightarrow> nat \<Rightarrow> 'a mac_scheme \<Rightarrow> (nat \<times> 'a mac_scheme) option" where
  "reset_tx_loop dev txd s =
     (if txd = txdscr_add s then Some (txd, s)
      else
        let pkt = ETH_PKT_BASE (PCI_TO_PTR (txd_bufptr s ! txd))
        in reset_tx_loop dev (next_dscr MAXTXDSCR txd) (eth_free_pkt dev pkt s))"

partial_function (option) reset_rx_loop :: "device \<Rightarrow> nat \<Rightarrow> 'a mac_scheme \<Rightarrow> (nat \<times> 'a mac_scheme) option" where
  "reset_rx_loop dev rxd s =
     (if rxd = rxdscr_add s then Some (rxd, s)
      else
        let pkt = ETH_PKT_BASE (PCI_TO_PTR (rxd_bufptr s ! rxd));
            s = eth_free_pkt dev pkt s;
            s = CS_ENTER dev s;
            s = s\<lparr>rxdscr_onring := rxdscr_onring s - 1\<rparr>
        in reset_rx_loop dev (next_dscr MAXRXDSCR rxd) (CS_EXIT dev s))"

definition bcm4401_resetrings :: "device \<Rightarrow> 'a mac_scheme \<Rightarrow> 'a mac_scheme option" where
  "bcm4401_resetrings dev s =
     (case reset_tx_loop dev (txdscr_remove s) s of None \<Rightarrow> None
      | Some (txd, s) \<Rightarrow>
          (let s = s\<lparr>txdscr_remove := txd\<rparr>
           in case reset_rx_loop dev (rxdscr_remove s) s of None \<Rightarrow> None
              | Some (rxd, s) \<Rightarrow> Some (bcm4401_initrings dev (s\<lparr>rxdscr_remove := rxd\<rparr>))))"

section \<open>Filled segments of a ring\<close>

text \<open>The indices from \<open>r\<close> up to, not including, \<open>a\<close> in a ring of \<open>n\<close>.\<close>

definition ring_idx :: "nat \<Rightarrow> nat \<Rightarrow> nat \<Rightarrow> nat list" where
  "ring_idx n r a = (if r \<le> a then [r..<a] else [r..<n] @ [0..<a])"

lemma next_dscr_less [ring_simps]: "d < n \<Longrightarrow> next_dscr n d < n"
  by (auto simp: next_dscr_def)

lemma ring_idx_same [ring_simps]: "ring_idx n r r = []"
  by (simp add: ring_idx_def)

lemma ring_idx_snoc:
  "r < n \<Longrightarrow> a < n \<Longrightarrow> next_dscr n a \<noteq> r \<Longrightarrow> ring_idx n r (next_dscr n a) = ring_idx n r a @ [a]"
  by (auto simp: ring_idx_def next_dscr_def upt_Suc_append split: if_splits)

lemma ring_idx_Cons:
  "r < n \<Longrightarrow> a < n \<Longrightarrow> r \<noteq> a \<Longrightarrow> ring_idx n r a = r # ring_idx n (next_dscr n r) a"
  by (auto simp: ring_idx_def next_dscr_def upt_conv_Cons split: if_splits)

lemma ring_idx_less: "r < n \<Longrightarrow> a < n \<Longrightarrow> k \<in> set (ring_idx n r a) \<Longrightarrow> k < n \<and> k \<noteq> a"
  by (auto simp: ring_idx_def split: if_splits)

lemma ring_idx_length: "r < n \<Longrightarrow> a < n \<Longrightarrow> length (ring_idx n r a) < n"
  by (auto simp: ring_idx_def)

lemma ring_full_iff:
  "r < n \<Longrightarrow> a < n \<Longrightarrow> next_dscr n a = r \<longleftrightarrow> length (ring_idx n r a) = n - 1"
  by (auto simp: ring_idx_def next_dscr_def split: if_splits)

text \<open>Packets and bus addresses of a pool in the cached kernel window.\<close>

definition kseg0 :: "addr \<Rightarrow> bool" where
  "kseg0 p \<longleftrightarrow> 0x80000000 \<le> p \<and> p < 0xa0000000"

lemma kseg0_mask:
  assumes "kseg0 p"
  shows "p AND 0xe0000000 = 0x80000000"
proof -
  have "unat p div 2 ^ 29 = 4"
    using assms by (intro div_nat_eqI) (simp_all add: kseg0_def word_le_nat_alt word_less_nat_alt)
  then have "drop_bit 29 p = 4"
    by (simp add: word_unat_eq_iff unat_drop_bit_eq drop_bit_eq_div unat_div_distrib)
  moreover have "push_bit 29 (drop_bit 29 p) = p AND NOT (mask 29)"
    by (rule bit_word_eqI) (auto simp: bit_simps)
  moreover have "NOT (mask 29) = (0xe0000000 :: u32)" by (simp add: mask_eq_exp_minus_1)
  ultimately show ?thesis by (simp add: push_bit_eq_mult)
qed

lemma kseg0_round_trip:
  assumes "kseg0 p"
  shows "PCI_TO_PTR (PTR_TO_PCI p) = p"
proof -
  have "0x80000000 OR (p AND 0x1fffffff) = (p AND 0xe0000000) OR (p AND 0x1fffffff)"
    using kseg0_mask [OF assms] by simp
  also have "\<dots> = p AND (0xe0000000 OR 0x1fffffff)"
    by (simp only: and.commute bit.conj_disj_distrib)
  also have "(0xe0000000 OR 0x1fffffff :: u32) = - 1" by simp
  finally show ?thesis
    by (simp add: PCI_TO_PTR_def PTR_TO_PCI_def PHYS_TO_K0_def K0_TO_PHYS_def)
qed

lemma pkt_of_buffer [ring_simps]:
  "kseg0 (pkt_buffer pkt) \<Longrightarrow> ETH_PKT_BASE (PCI_TO_PTR (PTR_TO_PCI (pkt_buffer pkt))) = pkt"
  by (simp add: kseg0_round_trip) (simp add: ETH_PKT_BASE_def pkt_buffer_def)

text \<open>A pool whose 64 KiB lie in the window: its packets are distinct and so are their buffers.\<close>

definition pool_ok :: "addr \<Rightarrow> bool" where
  "pool_ok base \<longleftrightarrow> 0x80000000 \<le> base \<and> base \<le> 0x9fff0000"

lemma unat_pool_pkt:
  assumes "pool_ok base" "i < 32"
  shows "unat (base + of_nat (i * ETH_PKTBUF_SIZE)) = unat base + i * 2048"
proof -
  have "unat base + i * 2048 < 2 ^ 32"
    using assms by (simp add: pool_ok_def word_le_nat_alt)
  then show ?thesis
    by (simp add: ETH_PKTBUF_SIZE_def unat_word_ariths unat_of_nat take_bit_eq_mod)
qed

lemma pool_pkts_kseg0:
  assumes "pool_ok base" "p \<in> set (pool_pkts base)"
  shows "kseg0 (pkt_buffer p)"
proof -
  obtain i where i: "i < 32" "p = base + of_nat (i * ETH_PKTBUF_SIZE)"
    using assms(2) by (auto simp: pool_pkts_def ETH_PKTPOOL_SIZE_def)
  have u: "unat p = unat base + i * 2048" using unat_pool_pkt [OF assms(1) i(1)] i(2) by simp
  then have "unat (p + 32) = unat base + i * 2048 + 32"
    using assms(1) i(1) by (simp add: pool_ok_def word_le_nat_alt unat_word_ariths)
  then show ?thesis
    using assms(1) i(1)
    by (simp add: pool_ok_def kseg0_def pkt_buffer_def ETH_PKTBUF_OFFSET_def word_le_nat_alt
        word_less_nat_alt)
qed

lemma pool_pkts_distinct:
  assumes "pool_ok base"
  shows "distinct (pool_pkts base)"
proof -
  have "inj_on (\<lambda>i. base + of_nat (i * ETH_PKTBUF_SIZE)) {0..<32}"
  proof (rule inj_onI)
    fix i j
    assume "i \<in> {0..<32}" "j \<in> {0..<32}"
      and "base + of_nat (i * ETH_PKTBUF_SIZE) = base + of_nat (j * ETH_PKTBUF_SIZE)"
    then show "i = j"
      using unat_pool_pkt [OF assms, of i] unat_pool_pkt [OF assms, of j] by simp
  qed
  then show ?thesis by (simp add: pool_pkts_def distinct_map ETH_PKTPOOL_SIZE_def)
qed


section \<open>Ownership of packets\<close>

text \<open>
  Every packet of the pool is in exactly one place: the free list, the filled part of the
  receive ring, the filled part of the transmit ring, or held by the code that runs (\<open>held\<close>).
\<close>

definition rx_pkts :: "'a mac_scheme \<Rightarrow> addr list" where
  "rx_pkts s = map (\<lambda>k. ETH_PKT_BASE (PCI_TO_PTR (rxd_bufptr s ! k)))
                 (ring_idx MAXRXDSCR (rxdscr_remove s) (rxdscr_add s))"

definition tx_pkts :: "'a mac_scheme \<Rightarrow> addr list" where
  "tx_pkts s = map (\<lambda>k. ETH_PKT_BASE (PCI_TO_PTR (txd_bufptr s ! k)))
                 (ring_idx MAXTXDSCR (txdscr_remove s) (txdscr_add s))"

definition rings_wf :: "'a mac_scheme \<Rightarrow> bool" where
  "rings_wf s \<longleftrightarrow> length (rxd_bufptr s) = MAXRXDSCR \<and> length (txd_bufptr s) = MAXTXDSCR \<and>
     rxdscr_remove s < MAXRXDSCR \<and> rxdscr_add s < MAXRXDSCR \<and>
     txdscr_remove s < MAXTXDSCR \<and> txdscr_add s < MAXTXDSCR \<and>
     pool_ok (pktpool s) \<and> freelist s \<notin> set (pool_pkts (pktpool s))"

definition owns_fl :: "'a mac_scheme \<Rightarrow> addr list \<Rightarrow> addr multiset \<Rightarrow> bool" where
  "owns_fl s fl held \<longleftrightarrow> rings_wf s \<and> q_list (qlinks s) (freelist s) fl \<and>
     mset fl + mset (rx_pkts s) + mset (tx_pkts s) + held = mset (pool_pkts (pktpool s))"

lemma owns_cs [simp]:
  "owns_fl (CS_ENTER dev s) fl held = owns_fl s fl held"
  "owns_fl (CS_EXIT dev s) fl held = owns_fl s fl held"
  "rx_pkts (CS_ENTER dev s) = rx_pkts s" "rx_pkts (CS_EXIT dev s) = rx_pkts s"
  "tx_pkts (CS_ENTER dev s) = tx_pkts s" "tx_pkts (CS_EXIT dev s) = tx_pkts s"
  by (simp_all add: owns_fl_def rx_pkts_def tx_pkts_def rings_wf_def)

lemma pkts_frame [simp]:
  "rx_pkts (s\<lparr>qlinks := h\<rparr>) = rx_pkts s" "tx_pkts (s\<lparr>qlinks := h\<rparr>) = tx_pkts s"
  "rx_pkts (s\<lparr>pkt_length := pl\<rparr>) = rx_pkts s" "tx_pkts (s\<lparr>pkt_length := pl\<rparr>) = tx_pkts s"
  "rx_pkts (s\<lparr>rxdscr_onring := k\<rparr>) = rx_pkts s" "tx_pkts (s\<lparr>rxdscr_onring := k\<rparr>) = tx_pkts s"
  "rx_pkts (s\<lparr>inpkts := w\<rparr>) = rx_pkts s" "tx_pkts (s\<lparr>inpkts := w\<rparr>) = tx_pkts s"
  "rx_pkts (s\<lparr>delivered := dl\<rparr>) = rx_pkts s" "tx_pkts (s\<lparr>delivered := dl\<rparr>) = tx_pkts s"
  "rx_pkts (s\<lparr>txdscr_remove := i\<rparr>) = rx_pkts s" "tx_pkts (s\<lparr>rxdscr_remove := i\<rparr>) = tx_pkts s"
  "rx_pkts (store a v s) = rx_pkts s" "tx_pkts (store a v s) = tx_pkts s"
  "rx_pkts (snd (load dev a s)) = rx_pkts s" "tx_pkts (snd (load dev a s)) = tx_pkts s"
  by (simp_all add: rx_pkts_def tx_pkts_def)

lemma owns_frame [simp]:
  "owns_fl (s\<lparr>pkt_length := pl\<rparr>) fl held = owns_fl s fl held"
  "owns_fl (s\<lparr>rxdscr_onring := k\<rparr>) fl held = owns_fl s fl held"
  "owns_fl (s\<lparr>inpkts := w\<rparr>) fl held = owns_fl s fl held"
  "owns_fl (s\<lparr>delivered := dl\<rparr>) fl held = owns_fl s fl held"
  "owns_fl (store a v s) fl held = owns_fl s fl held"
  "owns_fl (snd (load dev a s)) fl held = owns_fl s fl held"
  by (simp_all add: owns_fl_def rings_wf_def)

lemma owns_held:
  assumes "owns_fl s fl held" "p \<in># held"
  shows "p \<in> set (pool_pkts (pktpool s))" "p \<notin> set fl" "p \<noteq> freelist s" "kseg0 (pkt_buffer p)"
proof -
  have e: "mset fl + mset (rx_pkts s) + mset (tx_pkts s) + held = mset (pool_pkts (pktpool s))"
    and ok: "pool_ok (pktpool s)" and f: "freelist s \<notin> set (pool_pkts (pktpool s))"
    using assms(1) by (auto simp: owns_fl_def rings_wf_def)
  have "p \<in># mset (pool_pkts (pktpool s))" unfolding e [symmetric] using assms(2) by simp
  then show m: "p \<in> set (pool_pkts (pktpool s))" by simp
  then show "kseg0 (pkt_buffer p)" using ok pool_pkts_kseg0 by blast
  show "p \<noteq> freelist s" using m f by auto
  have "count (mset (pool_pkts (pktpool s))) p \<le> 1"
    using pool_pkts_distinct [OF ok] by (simp add: distinct_count_atmost_1)
  then have "count (mset fl + mset (rx_pkts s) + mset (tx_pkts s) + held) p \<le> 1" by (simp only: e)
  then have "count (mset fl) p + count held p \<le> 1" by (simp only: count_union)
  moreover have "count held p \<ge> 1" using assms(2) by simp
  ultimately have "\<not> 0 < count (mset fl) p" by linarith
  then show "p \<notin> set fl" by simp
qed

text \<open>Taking the first free packet, or none; putting one back at the end.\<close>

lemma owns_alloc:
  assumes "owns_fl s fl held"
  shows "case fl of
      [] \<Rightarrow> fst (eth_alloc_pkt dev s) = None \<and> owns_fl (snd (eth_alloc_pkt dev s)) [] held
    | p # fl' \<Rightarrow> fst (eth_alloc_pkt dev s) = Some p \<and>
        owns_fl (snd (eth_alloc_pkt dev s)) fl' (add_mset p held)"
proof -
  have q: "q_list (qlinks s) (freelist s) fl" using assms by (simp add: owns_fl_def)
  show ?thesis
  proof (cases fl)
    case Nil
    with q have "q_deqnext (qlinks s) (freelist s) = (None, qlinks s)" by (simp add: cq.get_nil)
    then show ?thesis
      using assms Nil by (simp add: eth_alloc_pkt_def Let_def owns_fl_def rings_wf_def)
  next
    case (Cons p fl')
    with q obtain h where "q_deqnext (qlinks s) (freelist s) = (Some p, h)" "q_list h (freelist s) fl'"
      using cq.get_cons by blast
    then show ?thesis
      using assms Cons by (simp add: eth_alloc_pkt_def Let_def owns_fl_def rings_wf_def)
  qed
qed

lemma alloc_frame [simp]:
  "rxdscr_remove (snd (eth_alloc_pkt dev s)) = rxdscr_remove s"
  "rxdscr_add (snd (eth_alloc_pkt dev s)) = rxdscr_add s"
  "txdscr_remove (snd (eth_alloc_pkt dev s)) = txdscr_remove s"
  "txdscr_add (snd (eth_alloc_pkt dev s)) = txdscr_add s"
  "rx_pkts (snd (eth_alloc_pkt dev s)) = rx_pkts s"
  "tx_pkts (snd (eth_alloc_pkt dev s)) = tx_pkts s"
  "delivered (snd (eth_alloc_pkt dev s)) = delivered s"
  "pktpool (snd (eth_alloc_pkt dev s)) = pktpool s"
  "membase (snd (eth_alloc_pkt dev s)) = membase s"
  by (simp_all add: eth_alloc_pkt_def Let_def split_beta split: option.split)

lemma free_frame [simp]:
  "rxdscr_remove (eth_free_pkt dev p s) = rxdscr_remove s"
  "rxdscr_add (eth_free_pkt dev p s) = rxdscr_add s"
  "txdscr_remove (eth_free_pkt dev p s) = txdscr_remove s"
  "txdscr_add (eth_free_pkt dev p s) = txdscr_add s"
  "rxdscr_onring (eth_free_pkt dev p s) = rxdscr_onring s"
  "rx_pkts (eth_free_pkt dev p s) = rx_pkts s"
  "tx_pkts (eth_free_pkt dev p s) = tx_pkts s"
  "delivered (eth_free_pkt dev p s) = delivered s"
  "pktpool (eth_free_pkt dev p s) = pktpool s"
  "membase (eth_free_pkt dev p s) = membase s"
  by (simp_all add: eth_free_pkt_def Let_def)

lemma owns_free:
  assumes "owns_fl s fl (add_mset p held)"
  shows "owns_fl (eth_free_pkt dev p s) (fl @ [p]) held"
proof -
  have "q_list (q_enqueue (qlinks s) (freelist s) p) (freelist s) (fl @ [p])"
    using owns_held [OF assms, of p] assms by (intro cq.put_holds) (auto simp: owns_fl_def)
  then show ?thesis
    using assms by (simp add: eth_free_pkt_def Let_def owns_fl_def rings_wf_def ac_simps)
qed


text \<open>Filling the next receive descriptor, and taking the oldest one back.\<close>

lemma rx_pkts_snoc:
  assumes "rings_wf s" "next_dscr MAXRXDSCR (rxdscr_add s) \<noteq> rxdscr_remove s"
  shows "rx_pkts (s\<lparr>rxd_bufptr := (rxd_bufptr s)[rxdscr_add s := b],
                    rxdscr_add := next_dscr MAXRXDSCR (rxdscr_add s)\<rparr>)
       = rx_pkts s @ [ETH_PKT_BASE (PCI_TO_PTR b)]"
proof -
  have "ring_idx MAXRXDSCR (rxdscr_remove s) (next_dscr MAXRXDSCR (rxdscr_add s))
      = ring_idx MAXRXDSCR (rxdscr_remove s) (rxdscr_add s) @ [rxdscr_add s]"
    using assms by (intro ring_idx_snoc) (auto simp: rings_wf_def)
  moreover have "map (\<lambda>k. ETH_PKT_BASE (PCI_TO_PTR ((rxd_bufptr s)[rxdscr_add s := b] ! k)))
      (ring_idx MAXRXDSCR (rxdscr_remove s) (rxdscr_add s)) = rx_pkts s"
    unfolding rx_pkts_def
  proof (rule map_cong [OF refl])
    fix k
    assume "k \<in> set (ring_idx MAXRXDSCR (rxdscr_remove s) (rxdscr_add s))"
    then have "k \<noteq> rxdscr_add s" using ring_idx_less assms(1) unfolding rings_wf_def by blast
    then show "ETH_PKT_BASE (PCI_TO_PTR ((rxd_bufptr s)[rxdscr_add s := b] ! k))
        = ETH_PKT_BASE (PCI_TO_PTR (rxd_bufptr s ! k))" by simp
  qed
  moreover have "rxdscr_add s < length (rxd_bufptr s)" using assms(1) by (simp add: rings_wf_def)
  ultimately show ?thesis by (subst rx_pkts_def) simp
qed

lemma rx_pkts_hd:
  assumes "rings_wf s" "rxdscr_remove s \<noteq> rxdscr_add s"
  shows "rx_pkts s = ETH_PKT_BASE (PCI_TO_PTR (rxd_bufptr s ! rxdscr_remove s))
                     # rx_pkts (s\<lparr>rxdscr_remove := next_dscr MAXRXDSCR (rxdscr_remove s)\<rparr>)"
  using assms ring_idx_Cons [of "rxdscr_remove s" MAXRXDSCR "rxdscr_add s"]
  by (simp add: rx_pkts_def rings_wf_def)

lemma tx_pkts_snoc:
  assumes "rings_wf s" "next_dscr MAXTXDSCR (txdscr_add s) \<noteq> txdscr_remove s"
  shows "tx_pkts (s\<lparr>txd_bufptr := (txd_bufptr s)[txdscr_add s := b], txd_cmdsts := c,
                    txdscr_add := next_dscr MAXTXDSCR (txdscr_add s)\<rparr>)
       = tx_pkts s @ [ETH_PKT_BASE (PCI_TO_PTR b)]"
proof -
  have "ring_idx MAXTXDSCR (txdscr_remove s) (next_dscr MAXTXDSCR (txdscr_add s))
      = ring_idx MAXTXDSCR (txdscr_remove s) (txdscr_add s) @ [txdscr_add s]"
    using assms by (intro ring_idx_snoc) (auto simp: rings_wf_def)
  moreover have "map (\<lambda>k. ETH_PKT_BASE (PCI_TO_PTR ((txd_bufptr s)[txdscr_add s := b] ! k)))
      (ring_idx MAXTXDSCR (txdscr_remove s) (txdscr_add s)) = tx_pkts s"
    unfolding tx_pkts_def
  proof (rule map_cong [OF refl])
    fix k
    assume "k \<in> set (ring_idx MAXTXDSCR (txdscr_remove s) (txdscr_add s))"
    then have "k \<noteq> txdscr_add s" using ring_idx_less assms(1) unfolding rings_wf_def by blast
    then show "ETH_PKT_BASE (PCI_TO_PTR ((txd_bufptr s)[txdscr_add s := b] ! k))
        = ETH_PKT_BASE (PCI_TO_PTR (txd_bufptr s ! k))" by simp
  qed
  moreover have "txdscr_add s < length (txd_bufptr s)" using assms(1) by (simp add: rings_wf_def)
  ultimately show ?thesis by (subst tx_pkts_def) simp
qed

lemma tx_pkts_hd:
  assumes "rings_wf s" "txdscr_remove s \<noteq> txdscr_add s"
  shows "tx_pkts s = ETH_PKT_BASE (PCI_TO_PTR (txd_bufptr s ! txdscr_remove s))
                     # tx_pkts (s\<lparr>txdscr_remove := next_dscr MAXTXDSCR (txdscr_remove s)\<rparr>)"
  using assms ring_idx_Cons [of "txdscr_remove s" MAXTXDSCR "txdscr_add s"]
  by (simp add: tx_pkts_def rings_wf_def)

lemma csr_frame [simp]:
  "owns_fl (WRITECSR c v s) fl held = owns_fl s fl held"
  "rx_pkts (WRITECSR c v s) = rx_pkts s" "tx_pkts (WRITECSR c v s) = tx_pkts s"
  "owns_fl (snd (READCSR dev c s)) fl held = owns_fl s fl held"
  "rx_pkts (snd (READCSR dev c s)) = rx_pkts s" "tx_pkts (snd (READCSR dev c s)) = tx_pkts s"
  by (simp_all add: WRITECSR_def phys_write32_def READCSR_def phys_read32_def)

lemma owns_add_rcvbuf:
  assumes "owns_fl s fl (add_mset p held)" "next_dscr MAXRXDSCR (rxdscr_add s) \<noteq> rxdscr_remove s"
  shows "fst (bcm4401_add_rcvbuf p s) = 0 \<and> owns_fl (snd (bcm4401_add_rcvbuf p s)) fl held \<and>
    rx_pkts (snd (bcm4401_add_rcvbuf p s)) = rx_pkts s @ [p]"
proof -
  have wf: "rings_wf s" using assms(1) by (simp add: owns_fl_def)
  let ?b = "PTR_TO_PCI (pkt_buffer p)"
  let ?t = "s\<lparr>rxd_bufptr := (rxd_bufptr s)[rxdscr_add s := ?b], rxdscr_add := next_dscr MAXRXDSCR (rxdscr_add s)\<rparr>"
  have "ETH_PKT_BASE (PCI_TO_PTR ?b) = p"
    using owns_held [OF assms(1), of p] by (simp add: pkt_of_buffer)
  then have r: "rx_pkts ?t = rx_pkts s @ [p]" using rx_pkts_snoc [OF wf assms(2), of ?b] by simp
  moreover have "tx_pkts ?t = tx_pkts s" by (simp add: tx_pkts_def)
  moreover have "rings_wf ?t" using wf by (simp add: rings_wf_def ring_simps MAXRXDSCR_def)
  ultimately have "owns_fl ?t fl held"
    using assms(1) by (simp add: owns_fl_def ac_simps)
  then show ?thesis using assms(2) r by (simp add: bcm4401_add_rcvbuf_def Let_def)
qed

lemma owns_remove_rx:
  assumes "owns_fl s fl held" "rx_pkts s = p # ps"
  defines "t \<equiv> s\<lparr>rxdscr_remove := next_dscr MAXRXDSCR (rxdscr_remove s)\<rparr>"
  shows "owns_fl t fl (add_mset p held) \<and> rx_pkts t = ps \<and>
    p = ETH_PKT_BASE (PCI_TO_PTR (rxd_bufptr s ! rxdscr_remove s))"
proof -
  have wf: "rings_wf s" using assms(1) by (simp add: owns_fl_def)
  have "rxdscr_remove s \<noteq> rxdscr_add s" using assms(2) by (auto simp: rx_pkts_def ring_simps)
  from rx_pkts_hd [OF wf this] assms(2)
  have "rx_pkts t = ps" "p = ETH_PKT_BASE (PCI_TO_PTR (rxd_bufptr s ! rxdscr_remove s))"
    by (auto simp: t_def)
  moreover have "rings_wf t" using wf by (simp add: rings_wf_def ring_simps MAXRXDSCR_def t_def)
  moreover have "tx_pkts t = tx_pkts s" by (simp add: t_def)
  ultimately show ?thesis
    using assms(1,2) by (simp add: owns_fl_def t_def ac_simps)
qed

lemma owns_remove_tx:
  assumes "owns_fl s fl held" "tx_pkts s = p # ps"
  defines "t \<equiv> s\<lparr>txdscr_remove := next_dscr MAXTXDSCR (txdscr_remove s)\<rparr>"
  shows "owns_fl t fl (add_mset p held) \<and> tx_pkts t = ps \<and>
    p = ETH_PKT_BASE (PCI_TO_PTR (txd_bufptr s ! txdscr_remove s))"
proof -
  have wf: "rings_wf s" using assms(1) by (simp add: owns_fl_def)
  have "txdscr_remove s \<noteq> txdscr_add s" using assms(2) by (auto simp: tx_pkts_def ring_simps)
  from tx_pkts_hd [OF wf this] assms(2)
  have "tx_pkts t = ps" "p = ETH_PKT_BASE (PCI_TO_PTR (txd_bufptr s ! txdscr_remove s))"
    by (auto simp: t_def)
  moreover have "rings_wf t" using wf by (simp add: rings_wf_def ring_simps MAXTXDSCR_def t_def)
  moreover have "rx_pkts t = rx_pkts s" by (simp add: t_def)
  ultimately show ?thesis
    using assms(1,2) by (simp add: owns_fl_def t_def ac_simps)
qed


section \<open>The rings preserve ownership\<close>

text \<open>The count the driver keeps is the number of filled receive descriptors.\<close>

definition rings_own :: "'a mac_scheme \<Rightarrow> addr list \<Rightarrow> addr multiset \<Rightarrow> bool" where
  "rings_own s fl held \<longleftrightarrow> owns_fl s fl held \<and> rxdscr_onring s = int (length (rx_pkts s))"

lemma rx_room:
  assumes "rings_wf s" "length (rx_pkts s) < 31"
  shows "next_dscr MAXRXDSCR (rxdscr_add s) \<noteq> rxdscr_remove s"
  using assms ring_full_iff [of "rxdscr_remove s" MAXRXDSCR "rxdscr_add s"]
  by (auto simp: rings_wf_def rx_pkts_def MAXRXDSCR_def)

lemma tx_room:
  assumes "rings_wf s"
  shows "next_dscr MAXTXDSCR (txdscr_add s) \<noteq> txdscr_remove s \<longleftrightarrow> length (tx_pkts s) < 31"
proof -
  have "length (tx_pkts s) < 32"
    using assms ring_idx_length [of "txdscr_remove s" 32 "txdscr_add s"]
    by (auto simp: rings_wf_def tx_pkts_def MAXTXDSCR_def)
  then show ?thesis
    using assms ring_full_iff [of "txdscr_remove s" MAXTXDSCR "txdscr_add s"]
    by (auto simp: rings_wf_def tx_pkts_def MAXTXDSCR_def)
qed

lemma add_rcvbuf_frame [simp]:
  "tx_pkts (snd (bcm4401_add_rcvbuf p s)) = tx_pkts s"
  "delivered (snd (bcm4401_add_rcvbuf p s)) = delivered s"
  "rxdscr_remove (snd (bcm4401_add_rcvbuf p s)) = rxdscr_remove s"
  "txdscr_remove (snd (bcm4401_add_rcvbuf p s)) = txdscr_remove s"
  "txdscr_add (snd (bcm4401_add_rcvbuf p s)) = txdscr_add s"
  "pktpool (snd (bcm4401_add_rcvbuf p s)) = pktpool s"
  "membase (snd (bcm4401_add_rcvbuf p s)) = membase s"
  by (simp_all add: bcm4401_add_rcvbuf_def Let_def WRITECSR_def phys_write32_def tx_pkts_def)

lemma rings_own_fill:
  assumes "rings_own s fl held" "k = nat (MINRXRING - rxdscr_onring s)"
  shows "rings_own (fillrx_loop dev s) (drop k fl) held \<and>
    rx_pkts (fillrx_loop dev s) = rx_pkts s @ take k fl \<and>
    tx_pkts (fillrx_loop dev s) = tx_pkts s \<and> delivered (fillrx_loop dev s) = delivered s \<and>
    pktpool (fillrx_loop dev s) = pktpool s \<and>
    rxdscr_remove (fillrx_loop dev s) = rxdscr_remove s \<and>
    txdscr_remove (fillrx_loop dev s) = txdscr_remove s \<and> membase (fillrx_loop dev s) = membase s"
  using assms
proof (induction fl arbitrary: s k)
  case Nil
  then show ?case
    using owns_alloc [of "CS_EXIT dev s" "[]" held dev]
    by (subst fillrx_loop.simps) (auto simp: rings_own_def Let_def fillrx_loop.simps)
next
  case (Cons p fl)
  let ?r = "eth_alloc_pkt dev (CS_EXIT dev s)"
  let ?a = "bcm4401_add_rcvbuf p (snd ?r)"
  let ?t = "(CS_ENTER dev (snd ?a))\<lparr>rxdscr_onring := rxdscr_onring s + 1\<rparr>"
  show ?case
  proof (cases "rxdscr_onring s \<ge> MINRXRING")
    case True
    then have "k = 0" unfolding Cons.prems(2) by simp
    with True Cons.prems(1) show ?thesis by (simp add: fillrx_loop.simps rings_own_def)
  next
    case False
    have o: "owns_fl s (p # fl) held" and l: "length (rx_pkts s) < 31"
      using Cons.prems(1) False by (auto simp: rings_own_def MINRXRING_def)
    have r: "fst ?r = Some p" "owns_fl (snd ?r) fl (add_mset p held)"
      using owns_alloc [of "CS_EXIT dev s" "p # fl" held dev] o by simp_all
    then have "next_dscr MAXRXDSCR (rxdscr_add (snd ?r)) \<noteq> rxdscr_remove (snd ?r)"
      by (intro rx_room) (use l in \<open>auto simp: owns_fl_def\<close>)
    from owns_add_rcvbuf [OF r(2) this]
    have a: "fst ?a = 0" "owns_fl (snd ?a) fl held" "rx_pkts (snd ?a) = rx_pkts s @ [p]" by simp_all
    have "rings_own ?t fl held"
      using a Cons.prems(1) by (simp add: rings_own_def)
    note IH = Cons.IH [OF this refl]
    have e: "fillrx_loop dev s = fillrx_loop dev ?t"
      using False r a by (subst fillrx_loop.simps) (simp add: Let_def)
    have k: "k = Suc (nat (MINRXRING - (rxdscr_onring s + 1)))"
      using False Cons.prems(2) by (simp add: MINRXRING_def)
    show ?thesis unfolding e k using IH a by simp
  qed
qed

text \<open>The step of the receive loop: the oldest descriptor is taken, its packet delivered or
  dropped, and a packet put back on the ring.\<close>

definition delivered_by :: "u32 \<Rightarrow> addr \<Rightarrow> (addr \<times> int) list" where
  "delivered_by hdr0 p =
     (if hdr0 AND M_RCVHDR0_ERRORS \<noteq> 0 then []
      else [(pkt_buffer p, int (unat (G_RCVHDR0_CD hdr0)) - ENET_CRC_SIZE)])"

lemma owns_fl_remove:
  "owns_fl s fl held \<Longrightarrow> rx_pkts s = p # ps \<Longrightarrow>
   owns_fl (s\<lparr>rxdscr_remove := next_dscr MAXRXDSCR (rxdscr_remove s)\<rparr>) fl (add_mset p held) \<and>
   rx_pkts (s\<lparr>rxdscr_remove := next_dscr MAXRXDSCR (rxdscr_remove s)\<rparr>) = ps"
  using owns_remove_rx by blast

lemma rx_callback_frame [simp]:
  "rxdscr_remove (bcm4401_rx_callback dev p s) = rxdscr_remove s"
  "rxdscr_add (bcm4401_rx_callback dev p s) = rxdscr_add s"
  "rxdscr_onring (bcm4401_rx_callback dev p s) = rxdscr_onring s"
  "rx_pkts (bcm4401_rx_callback dev p s) = rx_pkts s"
  "tx_pkts (bcm4401_rx_callback dev p s) = tx_pkts s"
  "delivered (bcm4401_rx_callback dev p s) = delivered s @ [(pkt_buffer p, pkt_length s p)]"
  by (simp_all add: bcm4401_rx_callback_def Let_def net_rcv_call_def)

lemma owns_rx_callback:
  "owns_fl s fl (add_mset p held) \<Longrightarrow> owns_fl (bcm4401_rx_callback dev p s) (fl @ [p]) held"
  by (simp add: bcm4401_rx_callback_def Let_def net_rcv_call_def owns_free)


text \<open>
  The driver advances \<open>rxdscr_remove\<close> after the packet went through the free list; none of the
  operations in between looks at the pointer, so it may as well be advanced first.
\<close>

lemma irq_level_remove [simp]:
  "irq_level dev irq (s\<lparr>rxdscr_remove := r\<rparr>) = irq_level dev irq s"
  "map_log dev irq (s\<lparr>rxdscr_remove := r\<rparr>) = map_log dev irq s"
  by (simp_all add: irq_level_def map_log_def bcmcore_map_irq_def sb_map_irq_def split_beta Let_def
      io_simps store_def)

lemma cs_remove:
  "CS_ENTER dev (s\<lparr>rxdscr_remove := r\<rparr>) = (CS_ENTER dev s)\<lparr>rxdscr_remove := r\<rparr>"
  "CS_EXIT dev (s\<lparr>rxdscr_remove := r\<rparr>) = (CS_EXIT dev s)\<lparr>rxdscr_remove := r\<rparr>"
  by (simp_all add: CS_ENTER_def CS_EXIT_def cfe_disable_irq_eq cfe_enable_irq_eq Let_def)


lemma remove_upd_commute:
  "s\<lparr>rxdscr_remove := r, qlinks := h\<rparr> = s\<lparr>qlinks := h, rxdscr_remove := r\<rparr>"
  "s\<lparr>rxdscr_remove := r, delivered := dl\<rparr> = s\<lparr>delivered := dl, rxdscr_remove := r\<rparr>"
  "s\<lparr>rxdscr_remove := r, inpkts := k\<rparr> = s\<lparr>inpkts := k, rxdscr_remove := r\<rparr>"
  "s\<lparr>rxdscr_remove := r, pkt_length := pl\<rparr> = s\<lparr>pkt_length := pl, rxdscr_remove := r\<rparr>"
  by simp_all

lemma pool_ops_remove:
  "eth_free_pkt dev p (s\<lparr>rxdscr_remove := r\<rparr>) = (eth_free_pkt dev p s)\<lparr>rxdscr_remove := r\<rparr>"
  "bcm4401_rx_callback dev p (s\<lparr>rxdscr_remove := r\<rparr>) = (bcm4401_rx_callback dev p s)\<lparr>rxdscr_remove := r\<rparr>"
  "eth_alloc_pkt dev (s\<lparr>rxdscr_remove := r\<rparr>)
     = (fst (eth_alloc_pkt dev s), (snd (eth_alloc_pkt dev s))\<lparr>rxdscr_remove := r\<rparr>)"
  by (simp_all add: eth_free_pkt_def bcm4401_rx_callback_def net_rcv_call_def eth_alloc_pkt_def
      Let_def split_beta cs_remove remove_upd_commute split: option.split)

lemma rx_length_less:
  assumes "rings_wf s"
  shows "length (rx_pkts s) < 32"
  using assms ring_idx_length [of "rxdscr_remove s" 32 "rxdscr_add s"]
  by (auto simp: rings_wf_def rx_pkts_def MAXRXDSCR_def)

lemma procrx_step_owns:
  fixes dev :: device
  assumes own: "rings_own s fl {#}" and rx: "rx_pkts s = p # ps"
  defines "hdr0 \<equiv> dev (io_log s) (pkt_buffer p)"
  defines "bad \<equiv> hdr0 AND M_RCVHDR0_ERRORS \<noteq> 0"
  defines "q \<equiv> (if bad then p else hd (fl @ [p]))"
  defines "fl' \<equiv> (if bad then fl else tl (fl @ [p]))"
  defines "s' \<equiv> procrx_step dev s"
  shows "rings_own s' fl' {#} \<and> rx_pkts s' = ps @ [q] \<and> tx_pkts s' = tx_pkts s \<and>
    delivered s' = delivered s @ delivered_by hdr0 p \<and>
    rxdscr_remove s' = next_dscr MAXRXDSCR (rxdscr_remove s)"
proof -
  let ?r = "next_dscr MAXRXDSCR (rxdscr_remove s)"
  have o: "owns_fl s fl {#}" using own by (simp add: rings_own_def)
  have p: "ETH_PKT_BASE (PCI_TO_PTR (rxd_bufptr s ! rxdscr_remove s)) = p"
    using owns_remove_rx [OF o rx] by simp
  define l where "l = snd (load dev (pkt_buffer p) s)"
  define u where "u = (if bad then l else l\<lparr>pkt_length := (pkt_length l)(p := int (unat (G_RCVHDR0_CD hdr0)) - ENET_CRC_SIZE)\<rparr>)"
  have u: "owns_fl u fl {#}" "rx_pkts u = p # ps" "tx_pkts u = tx_pkts s"
      "rxdscr_onring u = rxdscr_onring s" "rxdscr_remove u = rxdscr_remove s" "delivered u = delivered s"
    using o rx by (auto simp: u_def l_def)
  have v: "owns_fl (u\<lparr>rxdscr_remove := ?r\<rparr>) fl {#p#}" "rx_pkts (u\<lparr>rxdscr_remove := ?r\<rparr>) = ps"
    using owns_fl_remove [OF u(1,2)] u(5) by simp_all
  define w where "w = (if bad then (Some p, u\<lparr>rxdscr_remove := ?r\<rparr>)
                       else eth_alloc_pkt dev (bcm4401_rx_callback dev p (u\<lparr>rxdscr_remove := ?r\<rparr>)))"
  have w: "fst w = Some q \<and> owns_fl (snd w) fl' {#q#} \<and> rx_pkts (snd w) = ps \<and> tx_pkts (snd w) = tx_pkts s \<and>
      delivered (snd w) = delivered s @ delivered_by hdr0 p \<and> rxdscr_onring (snd w) = rxdscr_onring s \<and>
      rxdscr_remove (snd w) = ?r"
  proof (cases bad)
    case True
    then show ?thesis
      using v u by (simp add: w_def q_def fl'_def delivered_by_def bad_def)
  next
    case False
    have "owns_fl (bcm4401_rx_callback dev p (u\<lparr>rxdscr_remove := ?r\<rparr>)) (fl @ [p]) {#}"
      using v(1) by (intro owns_rx_callback) simp
    from owns_alloc [OF this, of dev]
    have "fst w = Some q" "owns_fl (snd w) fl' {#q#}"
      using False by (cases fl; simp add: w_def q_def fl'_def)+
    moreover have "pkt_length u p = int (unat (G_RCVHDR0_CD hdr0)) - ENET_CRC_SIZE"
      using False by (simp add: u_def)
    ultimately show ?thesis
      using False v u by (simp add: w_def delivered_by_def bad_def)
  qed
  then have "rings_wf (snd w)" by (simp add: owns_fl_def)
  moreover have "length (rx_pkts s) < 32" using rx_length_less [of s] o by (simp add: owns_fl_def)
  ultimately have room: "next_dscr MAXRXDSCR (rxdscr_add (snd w)) \<noteq> rxdscr_remove (snd w)"
    using w rx by (intro rx_room) auto
  have "s' = snd (bcm4401_add_rcvbuf q (snd w))"
    using w unfolding s'_def procrx_step_def w_def
    by (auto simp: Let_def split_beta p load_simps(1) pool_ops_remove u_def l_def
        simp flip: hdr0_def bad_def split: if_splits)
  moreover have "owns_fl (snd w) fl' (add_mset q {#})" using w by simp
  ultimately show ?thesis
    using owns_add_rcvbuf [OF \<open>owns_fl (snd w) fl' (add_mset q {#})\<close> room] w own rx
    by (simp add: rings_own_def)
qed


lemma irq_level_tx_remove [simp]:
  "irq_level dev irq (s\<lparr>txdscr_remove := r\<rparr>) = irq_level dev irq s"
  "map_log dev irq (s\<lparr>txdscr_remove := r\<rparr>) = map_log dev irq s"
  by (simp_all add: irq_level_def map_log_def bcmcore_map_irq_def sb_map_irq_def split_beta Let_def
      io_simps store_def)

lemma pool_ops_tx_remove:
  "eth_free_pkt dev p (s\<lparr>txdscr_remove := r\<rparr>) = (eth_free_pkt dev p s)\<lparr>txdscr_remove := r\<rparr>"
proof -
  have cs: "CS_ENTER dev (t\<lparr>txdscr_remove := r\<rparr>) = (CS_ENTER dev t)\<lparr>txdscr_remove := r\<rparr>"
    "CS_EXIT dev (t\<lparr>txdscr_remove := r\<rparr>) = (CS_EXIT dev t)\<lparr>txdscr_remove := r\<rparr>"
    for t :: "'a mac_scheme"
    by (simp_all add: CS_ENTER_def CS_EXIT_def cfe_disable_irq_eq cfe_enable_irq_eq Let_def)
  have upd: "t\<lparr>txdscr_remove := r, qlinks := h\<rparr> = t\<lparr>qlinks := h, txdscr_remove := r\<rparr>"
    for t :: "'a mac_scheme" and h by simp
  show ?thesis by (simp add: eth_free_pkt_def Let_def cs upd)
qed

text \<open>A descriptor offset determines its index.\<close>

lemma dscr_offset_inj:
  assumes "a < 32" "b < 32"
  shows "(of_nat (8 * a) :: u32) = of_nat (8 * b) \<longleftrightarrow> a = b"
proof -
  have "unat (of_nat (8 * a) :: u32) = 8 * a" "unat (of_nat (8 * b) :: u32) = 8 * b"
    using assms by (simp_all only: unat_of_nat take_bit_eq_mod) simp_all
  then show ?thesis by (metis mult_cancel1 zero_neq_numeral)
qed

lemma next_dscr_add: "r < 32 \<Longrightarrow> (next_dscr 32 r + n) mod 32 = (r + Suc n) mod 32"
  by (auto simp: next_dscr_def)

lemma mod_32_add_neq: "r < 32 \<Longrightarrow> Suc n < 32 \<Longrightarrow> (r + Suc n) mod 32 \<noteq> (r :: nat)"
  by (metis add_0_right add_diff_cancel_left' mod_add_right_eq mod_eq_dvd_iff_nat le_add1 mod_less
      nat_dvd_not_less zero_less_Suc)

lemma procrx_loop_owns:
  assumes "rings_own s fl {#}" "n \<le> length (rx_pkts s)"
  shows "\<exists>s' fl' hs. procrx_loop dev (of_nat (8 * ((rxdscr_remove s + n) mod 32))) s = Some s' \<and>
    rings_own s' fl' {#} \<and> length (rx_pkts s') = length (rx_pkts s) \<and> tx_pkts s' = tx_pkts s \<and>
    rxdscr_remove s' = (rxdscr_remove s + n) mod 32 \<and>
    list_all2 (\<lambda>h p. \<exists>l. h = dev l (pkt_buffer p)) hs (take n (rx_pkts s)) \<and>
    delivered s' = delivered s @ concat (map2 delivered_by hs (take n (rx_pkts s)))"
  using assms
proof (induction n arbitrary: s fl)
  case 0
  then have "rxdscr_remove s < 32"
    by (auto simp: rings_own_def owns_fl_def rings_wf_def MAXRXDSCR_def)
  with 0 show ?case by (auto simp: procrx_loop.simps)
next
  case (Suc n)
  have wf: "rings_wf s" using Suc.prems(1) by (simp add: rings_own_def owns_fl_def)
  then have r: "rxdscr_remove s < 32" by (simp add: rings_wf_def MAXRXDSCR_def)
  have n: "Suc n < 32" using Suc.prems(2) rx_length_less [OF wf] by simp
  obtain p ps where rx: "rx_pkts s = p # ps" using Suc.prems(2) by (cases "rx_pkts s") auto
  let ?t = "procrx_step dev s"
  obtain q fl1 h where t: "rings_own ?t fl1 {#}" "rx_pkts ?t = ps @ [q]" "tx_pkts ?t = tx_pkts s"
      "delivered ?t = delivered s @ delivered_by h p"
      "rxdscr_remove ?t = next_dscr 32 (rxdscr_remove s)" "h = dev (io_log s) (pkt_buffer p)"
    using procrx_step_owns [OF Suc.prems(1) rx, of dev] by (auto simp: MAXRXDSCR_def)
  have "n \<le> length (rx_pkts ?t)" using t(2) rx Suc.prems(2) by simp
  from Suc.IH [OF t(1) this] obtain s' fl' hs where IH:
      "procrx_loop dev (of_nat (8 * ((rxdscr_remove ?t + n) mod 32))) ?t = Some s'"
      "rings_own s' fl' {#}" "length (rx_pkts s') = length (rx_pkts ?t)" "tx_pkts s' = tx_pkts ?t"
      "rxdscr_remove s' = (rxdscr_remove ?t + n) mod 32"
      "list_all2 (\<lambda>h p. \<exists>l. h = dev l (pkt_buffer p)) hs (take n (rx_pkts ?t))"
      "delivered s' = delivered ?t @ concat (map2 delivered_by hs (take n (rx_pkts ?t)))"
    by blast
  have idx: "(rxdscr_remove ?t + n) mod 32 = (rxdscr_remove s + Suc n) mod 32"
    using next_dscr_add [OF r] t(5) by simp
  have "procrx_loop dev (of_nat (8 * ((rxdscr_remove s + Suc n) mod 32))) s
      = procrx_loop dev (of_nat (8 * ((rxdscr_remove s + Suc n) mod 32))) ?t"
    using dscr_offset_inj [OF r, of "(rxdscr_remove s + Suc n) mod 32"] mod_32_add_neq [OF r n]
    by (subst procrx_loop.simps) auto
  moreover have "n \<le> length ps" using rx Suc.prems(2) by simp
  ultimately show ?case
    using IH t rx idx
    by (intro exI [of _ s'] exI [of _ fl'] exI [of _ "h # hs"]) auto
qed

text \<open>The transmit loop frees the first \<open>n\<close> packets of the ring.\<close>

lemma proctx_step_owns:
  fixes dev :: device
  assumes own: "rings_own s fl {#}" and tx: "tx_pkts s = p # ps"
  defines "s' \<equiv> proctx_step dev s"
  shows "rings_own s' (fl @ [p]) {#} \<and> tx_pkts s' = ps \<and> rx_pkts s' = rx_pkts s \<and>
    delivered s' = delivered s \<and> txdscr_remove s' = next_dscr MAXTXDSCR (txdscr_remove s)"
proof -
  let ?r = "next_dscr MAXTXDSCR (txdscr_remove s)"
  have o: "owns_fl s fl {#}" using own by (simp add: rings_own_def)
  note r = owns_remove_tx [OF o tx]
  from r have "owns_fl (eth_free_pkt dev p (s\<lparr>txdscr_remove := ?r\<rparr>)) (fl @ [p]) {#}"
    by (intro owns_free) blast
  moreover have "eth_free_pkt dev p (s\<lparr>txdscr_remove := ?r\<rparr>) = s'"
    using r unfolding s'_def proctx_step_def by (simp add: Let_def pool_ops_tx_remove)
  moreover have "tx_pkts (eth_free_pkt dev p (s\<lparr>txdscr_remove := ?r\<rparr>)) = ps" using r by simp
  ultimately show ?thesis using own by (auto simp: rings_own_def s'_def proctx_step_def Let_def)
qed


lemma proctx_loop_owns:
  assumes "rings_own s fl {#}" "n \<le> length (tx_pkts s)"
  shows "\<exists>s'. proctx_loop dev (of_nat (8 * ((txdscr_remove s + n) mod 32))) s = Some s' \<and>
    rings_own s' (fl @ take n (tx_pkts s)) {#} \<and> tx_pkts s' = drop n (tx_pkts s) \<and>
    rx_pkts s' = rx_pkts s \<and> delivered s' = delivered s"
  using assms
proof (induction n arbitrary: s fl)
  case 0
  then have "txdscr_remove s < 32"
    by (auto simp: rings_own_def owns_fl_def rings_wf_def MAXTXDSCR_def)
  with 0 show ?case by (auto simp: proctx_loop.simps)
next
  case (Suc n)
  have wf: "rings_wf s" using Suc.prems(1) by (simp add: rings_own_def owns_fl_def)
  then have r: "txdscr_remove s < 32" by (simp add: rings_wf_def MAXTXDSCR_def)
  have n: "Suc n < 32"
    using Suc.prems(2) ring_idx_length [of "txdscr_remove s" 32 "txdscr_add s"] wf
    by (auto simp: rings_wf_def tx_pkts_def MAXTXDSCR_def)
  obtain p ps where tx: "tx_pkts s = p # ps" using Suc.prems(2) by (cases "tx_pkts s") auto
  let ?t = "proctx_step dev s"
  have t: "rings_own ?t (fl @ [p]) {#}" "tx_pkts ?t = ps" "rx_pkts ?t = rx_pkts s"
      "delivered ?t = delivered s" "txdscr_remove ?t = next_dscr 32 (txdscr_remove s)"
    using proctx_step_owns [OF Suc.prems(1) tx, of dev] by (auto simp: MAXTXDSCR_def)
  have "n \<le> length (tx_pkts ?t)" using t(2) tx Suc.prems(2) by simp
  note IH = Suc.IH [OF t(1) this]
  have idx: "(txdscr_remove ?t + n) mod 32 = (txdscr_remove s + Suc n) mod 32"
    using next_dscr_add [OF r] t(5) by simp
  have "proctx_loop dev (of_nat (8 * ((txdscr_remove s + Suc n) mod 32))) s
      = proctx_loop dev (of_nat (8 * ((txdscr_remove s + Suc n) mod 32))) ?t"
    using dscr_offset_inj [OF r, of "(txdscr_remove s + Suc n) mod 32"] mod_32_add_neq [OF r n]
    by (subst proctx_loop.simps) auto
  then show ?case using IH t tx idx by simp
qed

text \<open>Setting the driver up: the pool becomes the free list, and eight packets go on the ring.\<close>

lemma initfreelist_frame:
  defines "f dev \<equiv> (\<lambda>s pkt. eth_free_pkt dev pkt s)"
  shows "qlinks (foldl (f dev) s ps) = foldl (\<lambda>h e. q_enqueue h (freelist s) e) (qlinks s) ps \<and>
    freelist (foldl (f dev) s ps) = freelist s \<and> pktpool (foldl (f dev) s ps) = pktpool s \<and>
    rxqueue (foldl (f dev) s ps) = rxqueue s \<and> membase (foldl (f dev) s ps) = membase s \<and> delivered (foldl (f dev) s ps) = delivered s"
  by (induction ps arbitrary: s) (simp_all add: f_def eth_free_pkt_def Let_def)

lemma initrings_owns:
  fixes dev :: device
  assumes "q_list (qlinks s) (freelist s) fl" "mset fl = mset (pool_pkts (pktpool s))"
    "pool_ok (pktpool s)" "freelist s \<notin> set (pool_pkts (pktpool s))"
  defines "t \<equiv> bcm4401_initrings dev s"
  shows "rings_own t (drop 8 fl) {#} \<and> rx_pkts t = take 8 fl \<and> tx_pkts t = [] \<and> delivered t = delivered s \<and>
    pktpool t = pktpool s \<and> rxdscr_remove t = 0 \<and> txdscr_remove t = 0 \<and> membase t = membase s"
proof -
  define u where "u = CS_ENTER dev (s\<lparr>
      txd_cmdsts := (replicate MAXTXDSCR (M_DSCR0_SF OR M_DSCR0_EF OR M_DSCR0_IC))
        [MAXTXDSCR - 1 := (M_DSCR0_SF OR M_DSCR0_EF OR M_DSCR0_IC) OR M_DSCR0_ET],
      txd_bufptr := replicate MAXTXDSCR 0,
      rxd_cmdsts := (replicate MAXRXDSCR (M_DSCR0_SF OR M_DSCR0_EF OR V_DSCR0_BC (of_int ETH_PKTBUF_LEN)))
        [MAXRXDSCR - 1 := (M_DSCR0_SF OR M_DSCR0_EF OR V_DSCR0_BC (of_int ETH_PKTBUF_LEN)) OR M_DSCR0_ET],
      rxd_bufptr := replicate MAXRXDSCR 0,
      txdscr_remove := 0, txdscr_add := 0, rxdscr_remove := 0, rxdscr_add := 0, rxdscr_onring := 0\<rparr>)"
  have "rx_pkts u = []" "tx_pkts u = []" "delivered u = delivered s" "pktpool u = pktpool s"
    "rxdscr_remove u = 0" "txdscr_remove u = 0" "membase u = membase s"
    by (simp_all add: u_def rx_pkts_def tx_pkts_def ring_simps)
  moreover from this have "rings_own u fl {#}"
    using assms(1-4) by (simp add: rings_own_def owns_fl_def)
      (simp add: rings_wf_def u_def MAXRXDSCR_def MAXTXDSCR_def)
  moreover have "t = fillrx_loop dev u"
    by (simp add: t_def bcm4401_initrings_def bcm4401_fillrxring_def u_def Let_def)
  moreover have "rxdscr_onring u = 0" by (simp add: u_def)
  ultimately show ?thesis
    using rings_own_fill [of u fl "{#}" 8 dev] by (simp add: MINRXRING_def)
qed

lemma bcm4401_init_owns:
  assumes "pool_ok pool" "freelist s \<notin> set (pool_pkts pool)"
    "rxqueue s \<noteq> freelist s" "rxqueue s \<notin> set (pool_pkts pool)"
  shows "\<exists>t. bcm4401_init dev rxmem txmem pool s = (0, t) \<and> pktpool t = pool \<and>
    rings_own t (drop 8 (pool_pkts pool)) {#} \<and>
    rx_pkts t = take 8 (pool_pkts pool) \<and> tx_pkts t = [] \<and> delivered t = delivered s \<and>
    rxdscr_remove t = 0 \<and> txdscr_remove t = 0 \<and> membase t = membase s"
proof -
  define s0 where "s0 = s\<lparr>rxdscrmem := PHYS_TO_K1 (K0_TO_PHYS rxmem),
      txdscrmem := PHYS_TO_K1 (K0_TO_PHYS txmem), pktpool := pool\<rparr>"
  define s1 where "s1 = eth_initfreelist dev s0"
  define s2 where "s2 = s1\<lparr>qlinks := q_init (qlinks s1) (rxqueue s1)\<rparr>"
  have "freelist s0 = freelist s" "rxqueue s0 = rxqueue s" "pktpool s0 = pool" "delivered s0 = delivered s"
    "membase s0 = membase s"
    by (simp_all add: s0_def)
  then have s1: "qlinks s1 = foldl (\<lambda>h e. q_enqueue h (freelist s) e) (q_init (qlinks s0) (freelist s)) (pool_pkts pool)"
    "freelist s1 = freelist s" "pktpool s1 = pool" "rxqueue s1 = rxqueue s" "delivered s1 = delivered s"
    "membase s1 = membase s"
    using initfreelist_frame [of dev "s0\<lparr>qlinks := q_init (qlinks s0) (freelist s0)\<rparr>" "pool_pkts pool"]
    by (simp_all add: s1_def eth_initfreelist_def Let_def)
  have "q_list (qlinks s1) (freelist s) ([] @ pool_pkts pool)"
    unfolding s1(1) by (rule cq.puts_holds) (use assms(1,2) q_list_init pool_pkts_distinct in auto)
  then have "q_list (qlinks s2) (freelist s) (pool_pkts pool)"
    using assms(3,4) s1
    by (subst q_list_cong [of _ _ _ "qlinks s1"]) (auto simp: s2_def q_init_def set_next_def set_prev_def)
  then have "q_list (qlinks s2) (freelist s2) (pool_pkts (pktpool s2))" by (simp add: s2_def s1)
  from initrings_owns [OF this _ _ _, of dev] assms(1,2)
  have i: "rings_own (bcm4401_initrings dev s2) (drop 8 (pool_pkts pool)) {#} \<and>
    rx_pkts (bcm4401_initrings dev s2) = take 8 (pool_pkts pool) \<and>
    tx_pkts (bcm4401_initrings dev s2) = [] \<and> delivered (bcm4401_initrings dev s2) = delivered s \<and>
    pktpool (bcm4401_initrings dev s2) = pool \<and> rxdscr_remove (bcm4401_initrings dev s2) = 0 \<and>
    txdscr_remove (bcm4401_initrings dev s2) = 0 \<and> membase (bcm4401_initrings dev s2) = membase s"
    by (simp add: s2_def s1)
  have "bcm4401_init dev rxmem txmem pool s = (0, bcm4401_initrings dev s2)"
    using assms(1) by (auto simp: bcm4401_init_def Let_def s2_def s1_def s0_def pool_ok_def)
  then show ?thesis using i by blast
qed


text \<open>
  Resetting the rings: the loops walk with a pointer of their own, so ownership is stated for
  the state in which the remove pointer already stands where the loop stands.
\<close>

lemma reset_tx_loop_owns:
  assumes "rings_own (s\<lparr>txdscr_remove := txd\<rparr>) fl {#}" "tx_pkts (s\<lparr>txdscr_remove := txd\<rparr>) = ps"
  shows "\<exists>s'. reset_tx_loop dev txd s = Some (txdscr_add s, s') \<and>
    rings_own (s'\<lparr>txdscr_remove := txdscr_add s\<rparr>) (fl @ ps) {#} \<and>
    rx_pkts s' = rx_pkts s \<and> rxdscr_remove s' = rxdscr_remove s \<and> rxdscr_add s' = rxdscr_add s \<and>
    delivered s' = delivered s \<and> pktpool s' = pktpool s"
  using assms
proof (induction ps arbitrary: s txd fl)
  case Nil
  let ?u = "s\<lparr>txdscr_remove := txd\<rparr>"
  have "rings_wf ?u" using Nil.prems(1) by (simp add: rings_own_def owns_fl_def)
  from tx_pkts_hd [OF this] Nil.prems(2) have "txd = txdscr_add s" by fastforce
  with Nil.prems show ?case by (auto simp: reset_tx_loop.simps)
next
  case (Cons p ps)
  let ?u = "s\<lparr>txdscr_remove := txd\<rparr>"
  let ?s = "eth_free_pkt dev p s" and ?n = "next_dscr MAXTXDSCR txd"
  have own: "owns_fl ?u fl {#}" using Cons.prems(1) by (simp add: rings_own_def)
  note r0 = owns_remove_tx [OF own Cons.prems(2)]
  have r: "owns_fl (s\<lparr>txdscr_remove := ?n\<rparr>) fl {#p#}" "tx_pkts (s\<lparr>txdscr_remove := ?n\<rparr>) = ps"
      "p = ETH_PKT_BASE (PCI_TO_PTR (txd_bufptr s ! txd))"
    using r0 [THEN conjunct1] r0 [THEN conjunct2, THEN conjunct1]
      r0 [THEN conjunct2, THEN conjunct2] by simp_all
  have "txd \<noteq> txdscr_add s" using Cons.prems(2) by (auto simp: tx_pkts_def ring_simps)
  then have e: "reset_tx_loop dev txd s = reset_tx_loop dev ?n ?s"
    using r by (subst reset_tx_loop.simps) (simp add: Let_def)
  have "owns_fl (eth_free_pkt dev p (s\<lparr>txdscr_remove := ?n\<rparr>)) (fl @ [p]) {#}"
    using r by (intro owns_free)
  then have "rings_own (?s\<lparr>txdscr_remove := ?n\<rparr>) (fl @ [p]) {#}"
    using Cons.prems(1) by (simp add: rings_own_def pool_ops_tx_remove)
  moreover have "tx_pkts (?s\<lparr>txdscr_remove := ?n\<rparr>) = ps"
    using r free_frame(7) [of dev p "s\<lparr>txdscr_remove := ?n\<rparr>"] by (simp add: pool_ops_tx_remove)
  ultimately show ?case using Cons.IH [where s = ?s and txd = ?n and fl = "fl @ [p]"] e by simp
qed

lemma onring_remove_commute:
  "s\<lparr>rxdscr_remove := r, rxdscr_onring := k\<rparr> = s\<lparr>rxdscr_onring := k, rxdscr_remove := r\<rparr>"
  by simp

lemma reset_rx_loop_owns:
  assumes "rings_own (s\<lparr>rxdscr_remove := rxd\<rparr>) fl {#}" "rx_pkts (s\<lparr>rxdscr_remove := rxd\<rparr>) = ps"
  shows "\<exists>s'. reset_rx_loop dev rxd s = Some (rxdscr_add s, s') \<and>
    rings_own (s'\<lparr>rxdscr_remove := rxdscr_add s\<rparr>) (fl @ ps) {#} \<and>
    rx_pkts (s'\<lparr>rxdscr_remove := rxdscr_add s\<rparr>) = [] \<and> tx_pkts s' = tx_pkts s \<and>
    delivered s' = delivered s \<and> pktpool s' = pktpool s"
  using assms
proof (induction ps arbitrary: s rxd fl)
  case Nil
  let ?u = "s\<lparr>rxdscr_remove := rxd\<rparr>"
  have "rings_wf ?u" using Nil.prems(1) by (simp add: rings_own_def owns_fl_def)
  from rx_pkts_hd [OF this] Nil.prems(2) have "rxd = rxdscr_add s" by fastforce
  with Nil.prems show ?case by (auto simp: reset_rx_loop.simps)
next
  case (Cons p ps)
  let ?u = "s\<lparr>rxdscr_remove := rxd\<rparr>"
  let ?f = "\<lambda>s. CS_EXIT dev ((CS_ENTER dev (eth_free_pkt dev p s))\<lparr>rxdscr_onring := rxdscr_onring s - 1\<rparr>)"
  let ?n = "next_dscr MAXRXDSCR rxd"
  have own: "owns_fl ?u fl {#}" using Cons.prems(1) by (simp add: rings_own_def)
  note r0 = owns_remove_rx [OF own Cons.prems(2)]
  have r: "owns_fl (s\<lparr>rxdscr_remove := ?n\<rparr>) fl {#p#}" "rx_pkts (s\<lparr>rxdscr_remove := ?n\<rparr>) = ps"
      "p = ETH_PKT_BASE (PCI_TO_PTR (rxd_bufptr s ! rxd))"
    using r0 [THEN conjunct1] r0 [THEN conjunct2, THEN conjunct1]
      r0 [THEN conjunct2, THEN conjunct2] by simp_all
  have "rxd \<noteq> rxdscr_add s" using Cons.prems(2) by (auto simp: rx_pkts_def ring_simps)
  then have e: "reset_rx_loop dev rxd s = reset_rx_loop dev ?n (?f s)"
    using r by (subst reset_rx_loop.simps) (simp add: Let_def)
  have c: "?f (s\<lparr>rxdscr_remove := ?n\<rparr>) = (?f s)\<lparr>rxdscr_remove := ?n\<rparr>"
    by (simp add: pool_ops_remove cs_remove onring_remove_commute)
  have "owns_fl (eth_free_pkt dev p (s\<lparr>rxdscr_remove := ?n\<rparr>)) (fl @ [p]) {#}"
    using r by (intro owns_free)
  then have "rings_own (?f (s\<lparr>rxdscr_remove := ?n\<rparr>)) (fl @ [p]) {#}"
    using Cons.prems r by (simp add: rings_own_def)
  then have "rings_own ((?f s)\<lparr>rxdscr_remove := ?n\<rparr>) (fl @ [p]) {#}" unfolding c .
  moreover have "rx_pkts (?f (s\<lparr>rxdscr_remove := ?n\<rparr>)) = ps" using r by simp
  then have "rx_pkts ((?f s)\<lparr>rxdscr_remove := ?n\<rparr>) = ps" unfolding c .
  ultimately show ?case using Cons.IH [where s = "?f s" and rxd = ?n and fl = "fl @ [p]"] e by simp
qed

lemma pool_pkts_length [simp]: "length (pool_pkts base) = 32"
  by (simp add: pool_pkts_def ETH_PKTPOOL_SIZE_def)

lemma resetrings_owns:
  assumes "rings_own s fl {#}"
  shows "\<exists>t. bcm4401_resetrings dev s = Some t \<and>
    rings_own t (drop 8 (fl @ tx_pkts s @ rx_pkts s)) {#} \<and>
    rx_pkts t = take 8 (fl @ tx_pkts s @ rx_pkts s) \<and> length (rx_pkts t) = 8 \<and>
    tx_pkts t = [] \<and> delivered t = delivered s \<and> pktpool t = pktpool s"
proof -
  obtain s1 where s1: "reset_tx_loop dev (txdscr_remove s) s = Some (txdscr_add s, s1)"
    "rings_own (s1\<lparr>txdscr_remove := txdscr_add s\<rparr>) (fl @ tx_pkts s) {#}"
    "rx_pkts s1 = rx_pkts s" "delivered s1 = delivered s" "pktpool s1 = pktpool s"
    using reset_tx_loop_owns [where s = s and txd = "txdscr_remove s" and fl = fl and ps = "tx_pkts s" and dev = dev] assms by auto
  let ?s1 = "s1\<lparr>txdscr_remove := txdscr_add s\<rparr>"
  obtain s2 where s2: "reset_rx_loop dev (rxdscr_remove ?s1) ?s1 = Some (rxdscr_add ?s1, s2)"
    "rings_own (s2\<lparr>rxdscr_remove := rxdscr_add ?s1\<rparr>) ((fl @ tx_pkts s) @ rx_pkts s) {#}"
    "rx_pkts (s2\<lparr>rxdscr_remove := rxdscr_add ?s1\<rparr>) = []"
    "delivered s2 = delivered s" "pktpool s2 = pktpool s"
    using reset_rx_loop_owns [where s = ?s1 and rxd = "rxdscr_remove ?s1" and fl = "fl @ tx_pkts s"
        and ps = "rx_pkts s" and dev = dev] s1 by auto
  let ?s2 = "s2\<lparr>rxdscr_remove := rxdscr_add ?s1\<rparr>"
  let ?all = "fl @ tx_pkts s @ rx_pkts s"
  have all: "mset ?all = mset (pool_pkts (pktpool s))"
    using assms by (simp add: rings_own_def owns_fl_def ac_simps)
  have "q_list (qlinks ?s2) (freelist ?s2) ?all" "rings_wf ?s2"
    using s2(2) by (simp_all add: rings_own_def owns_fl_def)
  then have t: "rings_own (bcm4401_initrings dev ?s2) (drop 8 ?all) {#} \<and>
      rx_pkts (bcm4401_initrings dev ?s2) = take 8 ?all \<and> tx_pkts (bcm4401_initrings dev ?s2) = [] \<and>
      delivered (bcm4401_initrings dev ?s2) = delivered ?s2 \<and>
      pktpool (bcm4401_initrings dev ?s2) = pktpool ?s2"
    using initrings_owns [of ?s2 ?all dev] all s2(5) by (simp add: rings_wf_def)
  have "length ?all = 32" using arg_cong [OF all, of size] by simp
  then have "length (take 8 ?all) = 8" by simp
  with t s1(1) s2(1,4,5) show ?thesis
    by (simp add: bcm4401_resetrings_def Let_def)
qed


text \<open>The statistics and the other fields no ring operation looks at.\<close>

lemma rings_own_frame [simp]:
  "rings_own (s\<lparr>rx_interrupts := k\<rparr>) fl held = rings_own s fl held"
  "rings_own (s\<lparr>tx_interrupts := k\<rparr>) fl held = rings_own s fl held"
  "rings_own (s\<lparr>interrupts := k\<rparr>) fl held = rings_own s fl held"
  "rings_own (s\<lparr>slow_poll := n\<rparr>) fl held = rings_own s fl held"
  "rings_own (s\<lparr>outpkts := k\<rparr>) fl held = rings_own s fl held"
  "rings_own (s\<lparr>copied := cp\<rparr>) fl held = rings_own s fl held"
  "rings_own (s\<lparr>pkt_length := pl\<rparr>) fl held = rings_own s fl held"
  "rings_own (WRITECSR c v s) fl held = rings_own s fl held"
  "rings_own (snd (READCSR dev c s)) fl held = rings_own s fl held"
  by (simp_all add: rings_own_def owns_fl_def rings_wf_def rx_pkts_def tx_pkts_def WRITECSR_def
      phys_write32_def READCSR_def phys_read32_def)

lemma pkts_frame2 [simp]:
  "rx_pkts (s\<lparr>rx_interrupts := k\<rparr>) = rx_pkts s" "tx_pkts (s\<lparr>rx_interrupts := k\<rparr>) = tx_pkts s"
  "rx_pkts (s\<lparr>tx_interrupts := k\<rparr>) = rx_pkts s" "tx_pkts (s\<lparr>tx_interrupts := k\<rparr>) = tx_pkts s"
  "rx_pkts (s\<lparr>interrupts := k\<rparr>) = rx_pkts s" "tx_pkts (s\<lparr>interrupts := k\<rparr>) = tx_pkts s"
  "rx_pkts (s\<lparr>slow_poll := n\<rparr>) = rx_pkts s" "tx_pkts (s\<lparr>slow_poll := n\<rparr>) = tx_pkts s"
  "rx_pkts (s\<lparr>outpkts := k\<rparr>) = rx_pkts s" "tx_pkts (s\<lparr>outpkts := k\<rparr>) = tx_pkts s"
  "rx_pkts (s\<lparr>copied := cp\<rparr>) = rx_pkts s" "tx_pkts (s\<lparr>copied := cp\<rparr>) = tx_pkts s"
  by (simp_all add: rx_pkts_def tx_pkts_def)

text \<open>
  What the DMA engine reports: the descriptor it works on, as a byte offset, is one of the filled
  ones or the first free one.
\<close>

definition rx_status_ok :: "device \<Rightarrow> 'a mac_scheme \<Rightarrow> bool" where
  "rx_status_ok dev s \<longleftrightarrow> (\<exists>n \<le> length (rx_pkts s).
     G_STAT_CD (fst (READCSR dev R_RCV_STATUS s)) = of_nat (8 * ((rxdscr_remove s + n) mod 32)))"

definition tx_status_ok :: "device \<Rightarrow> 'a mac_scheme \<Rightarrow> bool" where
  "tx_status_ok dev s \<longleftrightarrow> (\<exists>n \<le> length (tx_pkts s).
     G_STAT_CD (fst (READCSR dev R_XMT_STATUS s)) = of_nat (8 * ((txdscr_remove s + n) mod 32)))"

lemma csr_remove [simp]:
  "rxdscr_remove (snd (READCSR dev c s)) = rxdscr_remove s"
  "txdscr_remove (snd (READCSR dev c s)) = txdscr_remove s"
  "delivered (snd (READCSR dev c s)) = delivered s"
  "rxdscr_remove (WRITECSR c v s) = rxdscr_remove s"
  "txdscr_remove (WRITECSR c v s) = txdscr_remove s"
  "delivered (WRITECSR c v s) = delivered s"
  by (simp_all add: READCSR_def phys_read32_def WRITECSR_def phys_write32_def)

lemma procrxring_owns:
  assumes "rings_own s fl {#}" "rx_status_ok dev s"
  shows "\<exists>s' fl'. bcm4401_procrxring dev s = Some s' \<and> rings_own s' fl' {#} \<and>
    length (rx_pkts s') = length (rx_pkts s) \<and> tx_pkts s' = tx_pkts s"
proof -
  obtain n where n: "n \<le> length (rx_pkts s)"
    "G_STAT_CD (fst (READCSR dev R_RCV_STATUS s)) = of_nat (8 * ((rxdscr_remove s + n) mod 32))"
    using assms(2) by (auto simp: rx_status_ok_def)
  have "rings_own (snd (READCSR dev R_RCV_STATUS s)) fl {#}" using assms(1) by simp
  from procrx_loop_owns [OF this, of n dev] n show ?thesis
    by (auto simp: bcm4401_procrxring_def split_beta Let_def)
qed

lemma proctxring_owns:
  assumes "rings_own s fl {#}" "tx_status_ok dev s"
  shows "\<exists>s' fl'. bcm4401_proctxring dev s = Some s' \<and> rings_own s' fl' {#} \<and>
    length (rx_pkts s') = length (rx_pkts s)"
proof -
  obtain n where n: "n \<le> length (tx_pkts s)"
    "G_STAT_CD (fst (READCSR dev R_XMT_STATUS s)) = of_nat (8 * ((txdscr_remove s + n) mod 32))"
    using assms(2) by (auto simp: tx_status_ok_def)
  have "rings_own (snd (READCSR dev R_XMT_STATUS s)) fl {#}" using assms(1) by simp
  from proctx_loop_owns [OF this, of n dev] n show ?thesis
    by (auto simp: bcm4401_proctxring_def split_beta Let_def)
qed

lemma owns_add_txbuf:
  assumes "owns_fl s fl (add_mset p held)" "next_dscr MAXTXDSCR (txdscr_add s) \<noteq> txdscr_remove s"
  shows "fst (bcm4401_add_txbuf p s) = 0 \<and> owns_fl (snd (bcm4401_add_txbuf p s)) fl held \<and>
    tx_pkts (snd (bcm4401_add_txbuf p s)) = tx_pkts s @ [p] \<and> rx_pkts (snd (bcm4401_add_txbuf p s)) = rx_pkts s"
proof -
  have wf: "rings_wf s" using assms(1) by (simp add: owns_fl_def)
  let ?b = "PTR_TO_PCI (pkt_buffer p)"
  have n: "(if txdscr_add s + 1 = MAXTXDSCR then (c1, 0) else (c2, txdscr_add s + 1))
      = (if txdscr_add s + 1 = MAXTXDSCR then c1 else c2, next_dscr MAXTXDSCR (txdscr_add s))" for c1 c2 :: u32
    by (simp add: next_dscr_def)
  obtain c where e: "bcm4401_add_txbuf p s = (0, s\<lparr>txd_bufptr := (txd_bufptr s)[txdscr_add s := ?b],
      txd_cmdsts := c, txdscr_add := next_dscr MAXTXDSCR (txdscr_add s)\<rparr>)"
    using assms(2) unfolding bcm4401_add_txbuf_def Let_def n by simp
  have "ETH_PKT_BASE (PCI_TO_PTR ?b) = p"
    using owns_held [OF assms(1), of p] by (simp add: pkt_of_buffer)
  then have r: "tx_pkts (snd (bcm4401_add_txbuf p s)) = tx_pkts s @ [p]"
    using tx_pkts_snoc [OF wf assms(2), where b = ?b and c = c] e by simp
  moreover have x: "rx_pkts (snd (bcm4401_add_txbuf p s)) = rx_pkts s" by (simp add: e rx_pkts_def)
  moreover have "rings_wf (snd (bcm4401_add_txbuf p s))"
    using wf by (simp add: e rings_wf_def ring_simps MAXTXDSCR_def)
  ultimately show ?thesis
    using assms(1) by (simp add: owns_fl_def ac_simps) (simp add: e)
qed

lemma add_txbuf_full:
  assumes "next_dscr MAXTXDSCR (txdscr_add s) = txdscr_remove s"
  shows "bcm4401_add_txbuf p s = (-1, s)"
proof -
  have n: "(if txdscr_add s + 1 = MAXTXDSCR then (c1, 0) else (c2, txdscr_add s + 1))
      = (if txdscr_add s + 1 = MAXTXDSCR then c1 else c2, next_dscr MAXTXDSCR (txdscr_add s))" for c1 c2 :: u32
    by (simp add: next_dscr_def)
  show ?thesis using assms unfolding bcm4401_add_txbuf_def Let_def n by simp
qed

end
