(* ===== verification/Busy.thy ===== *)
theory Busy
  imports Prelude
begin

text \<open>
  Busy waits: the loops of the drivers that look at something until it changes. What they share is stated
  once, for a loop that does \<open>again\<close> while the state is \<open>busy\<close> and ends with \<open>fin\<close>; the theories of the
  components interpret the locale on their loops.
\<close>

lemma busy_wait_unroll: "(busy s \<Longrightarrow> \<exists>n. \<not> busy ((again ^^ n) (again s))) \<Longrightarrow> \<exists>n. \<not> busy ((again ^^ n) s)"
  by (metis comp_apply funpow_0 funpow_Suc_right)

locale busy_wait =
  fixes wait :: "'s \<Rightarrow> 'r option" and busy :: "'s \<Rightarrow> bool" and again :: "'s \<Rightarrow> 's" and fin :: "'s \<Rightarrow> 'r"
  assumes turn: "wait s = (if busy s then wait (again s) else Some (fin s))"
    and ends: "wait s = Some r \<Longrightarrow> \<exists>n. \<not> busy ((again ^^ n) s)"
begin

text \<open>The wait returns at the first look that finds the state not busy.\<close>

lemma returns:
  assumes "\<not> busy ((again ^^ n) s)"
  shows "\<exists>i \<le> n. wait s = Some (fin ((again ^^ i) s)) \<and> \<not> busy ((again ^^ i) s) \<and> (\<forall>j < i. busy ((again ^^ j) s))"
  using assms
proof (induction n arbitrary: s)
  case 0
  then show ?case using turn [of s] by simp
next
  case (Suc n)
  show ?case
  proof (cases "busy s")
    case True
    obtain i where i: "i \<le> n" "wait (again s) = Some (fin ((again ^^ i) (again s)))" "\<not> busy ((again ^^ i) (again s))"
      "\<forall>j < i. busy ((again ^^ j) (again s))"
      using Suc.IH [of "again s"] Suc.prems by (auto simp: funpow_Suc_right simp del: funpow.simps)
    have "\<forall>j < Suc i. busy ((again ^^ j) s)"
      using i(4) True by (auto simp: less_Suc_eq_0_disj funpow_Suc_right simp del: funpow.simps)
    then show ?thesis
      using i turn [of s] True by (intro exI [of _ "Suc i"]) (simp add: funpow_Suc_right del: funpow.simps)
  next
    case False
    then show ?thesis using turn [of s] by (intro exI [of _ 0]) simp
  qed
qed

lemma returns_iff: "wait s \<noteq> None \<longleftrightarrow> (\<exists>n. \<not> busy ((again ^^ n) s))"
  using returns [of _ s] ends [of s] by (metis not_None_eq)

text \<open>What every turn keeps holds at the end; and if it keeps the state busy the wait never ends.\<close>

lemma keeps:
  assumes "wait s = Some r" "I s" "\<And>t. I t \<Longrightarrow> busy t \<Longrightarrow> I (again t)"
  shows "\<exists>t. I t \<and> \<not> busy t \<and> r = fin t"
proof -
  obtain n where "\<not> busy ((again ^^ n) s)" using ends [OF assms(1)] by blast
  from returns [OF this] obtain i where i: "wait s = Some (fin ((again ^^ i) s))" "\<not> busy ((again ^^ i) s)"
    "\<forall>j < i. busy ((again ^^ j) s)" by blast
  have "I ((again ^^ j) s)" if "j \<le> i" for j
    using that by (induction j) (use assms(2,3) i(3) in auto)
  with i assms(1) show ?thesis by auto
qed

lemma forever:
  assumes "I s" "\<And>t. I t \<Longrightarrow> busy t \<and> I (again t)"
  shows "wait s = None"
proof (cases "wait s")
  case (Some r)
  then show ?thesis using keeps [OF Some, of I] assms by blast
qed

end

end
