(* ===== verification/MacHw.thy ===== *)
theory MacHw
  imports MacRings Busy
begin

text \<open>
  The Ethernet driver \<^verbatim>\<open>cfe/dev_sb_mac.c\<close>, second part: the MII management interface and the
  register access of the Robo switch behind it. A polling loop with a counter is a recursion on
  the number of polls left; a loop that polls until the switch is ready has no bound in the code
  and is a partial function.
\<close>

section \<open>Registers\<close>

definition R_DEV_CONTROL :: u32 where "R_DEV_CONTROL = 0x000"
definition R_MII_STATUS_CONTROL :: u32 where "R_MII_STATUS_CONTROL = 0x410"
definition R_MII_DATA :: u32 where "R_MII_DATA = 0x414"
definition R_ENET_INT_STATUS :: u32 where "R_ENET_INT_STATUS = 0x41C"
definition R_ENET_CONTROL :: u32 where "R_ENET_CONTROL = 0x42C"
definition M_DVCTL_IP :: u32 where "M_DVCTL_IP = MAKEMASK1 10"
definition M_DVCTL_ER :: u32 where "M_DVCTL_ER = MAKEMASK1 15"
definition M_MIICTL_PR :: u32 where "M_MIICTL_PR = MAKEMASK1 7"
definition M_EINT_MI :: u32 where "M_EINT_MI = MAKEMASK1 0"
definition M_ECTL_EP :: u32 where "M_ECTL_EP = MAKEMASK1 3"
definition R_PHYIDR1 :: u32 where "R_PHYIDR1 = 2"
definition R_PHYIDR2 :: u32 where "R_PHYIDR2 = 3"
definition R_INTERRUPT :: u32 where "R_INTERRUPT = 0x1A"

section \<open>MII\<close>

definition mii_enable :: "device \<Rightarrow> 'a mac_scheme \<Rightarrow> 'a mac_scheme" where
  "mii_enable dev s =
     (let (devctl, s) = READCSR dev R_DEV_CONTROL s
      in if devctl AND M_DVCTL_IP \<noteq> 0 then
           let s = WRITECSR R_MII_STATUS_CONTROL (M_MIICTL_PR OR MAKEVALUE 0xD 0) s;
               (devctl, s) = READCSR dev R_DEV_CONTROL s
           in if devctl AND M_DVCTL_ER \<noteq> 0 then
                let s = WRITECSR R_DEV_CONTROL (devctl AND NOT M_DVCTL_ER) s
                in usleep 100 s
              else s
         else
           let s = WRITECSR R_MII_STATUS_CONTROL (M_MIICTL_PR OR MAKEVALUE 0x9 0) s;
               (enetctl, s) = READCSR dev R_ENET_CONTROL s
           in WRITECSR R_ENET_CONTROL (enetctl OR M_ECTL_EP) s)"

text \<open>
  The wait of \<^verbatim>\<open>mii_read\<close> and \<^verbatim>\<open>mii_write\<close>: \<^verbatim>\<open>timeout\<close> runs from 1000 down in steps of 100, so there are
  ten polls. The result says whether the MII interrupt was seen before the count ran out.
\<close>

fun mii_wait :: "device \<Rightarrow> nat \<Rightarrow> 'a mac_scheme \<Rightarrow> bool \<times> 'a mac_scheme" where
  "mii_wait dev 0 s = (False, s)"
| "mii_wait dev (Suc n) s =
     (let (status, s) = READCSR dev R_ENET_INT_STATUS s
      in if status AND M_EINT_MI \<noteq> 0 then (True, s) else mii_wait dev n (usleep 100 s))"

text \<open>The command words: \<^verbatim>\<open>V_MIIDATA_OP\<close> at 28, \<^verbatim>\<open>TA\<close> at 16, \<^verbatim>\<open>RA\<close> at 18, \<^verbatim>\<open>PM\<close> at 23, \<^verbatim>\<open>SB\<close> at 30.\<close>

definition mii_cmd :: "u32 \<Rightarrow> u32 \<Rightarrow> u32 \<Rightarrow> u32 \<Rightarrow> u32" where
  "mii_cmd opcode reg phy d =
     MAKEVALUE opcode 28 OR MAKEVALUE 0x2 16 OR MAKEVALUE reg 18 OR MAKEVALUE phy 23 OR MAKEVALUE d 0"

definition mii_read :: "device \<Rightarrow> u32 \<Rightarrow> 'a mac_scheme \<Rightarrow> u16 \<times> 'a mac_scheme" where
  "mii_read dev reg s =
     (let s = WRITECSR R_ENET_INT_STATUS M_EINT_MI s;
          s = snd (READCSR dev R_ENET_INT_STATUS s);
          cmd = mii_cmd 0x2 reg (of_int (phy_addr s)) 0;
          s = WRITECSR R_MII_DATA (cmd OR MAKEVALUE 0x1 30) s;
          (ok, s) = mii_wait dev 10 s
      in if \<not> ok then (0xFFFF, s)
         else let (d, s) = READCSR dev R_MII_DATA s
              in (ucast (GETVALUE d 0 (MAKEMASK 16 0)), s))"

definition mii_write :: "device \<Rightarrow> u32 \<Rightarrow> u16 \<Rightarrow> 'a mac_scheme \<Rightarrow> 'a mac_scheme" where
  "mii_write dev reg v s =
     (let s = WRITECSR R_ENET_INT_STATUS M_EINT_MI s;
          s = snd (READCSR dev R_ENET_INT_STATUS s);
          cmd = mii_cmd 0x1 reg (of_int (phy_addr s)) (ucast v);
          s = WRITECSR R_MII_DATA (cmd OR MAKEVALUE 0x1 30) s
      in snd (mii_wait dev 10 s))"

text \<open>One address of \<^verbatim>\<open>mii_probe\<close>: two reads, and the identity is kept when it looks valid.\<close>

definition mii_probe_one :: "device \<Rightarrow> int \<Rightarrow> 'a mac_scheme \<Rightarrow> 'a mac_scheme" where
  "mii_probe_one dev i s =
     (let s = s\<lparr>phy_addr := i\<rparr>;
          (id1, s) = mii_read dev R_PHYIDR1 s;
          (id2, s) = mii_read dev R_PHYIDR2 s
      in if id2 \<noteq> 0 \<and> id2 \<noteq> 0xFFFF then
           s\<lparr>phy_vendor := push_bit 6 (ucast id1) OR (ucast (drop_bit 10 id2) AND 0x3F),
             phy_device := drop_bit 4 id2 AND 0x3F\<rparr>
         else s)"

definition mii_probe :: "device \<Rightarrow> 'a mac_scheme \<Rightarrow> int \<times> 'a mac_scheme" where
  "mii_probe dev s =
     (let prev = phy_addr s;
          s = foldl (\<lambda>s i. mii_probe_one dev (int i) s) s [0..<32]
      in (-1, s\<lparr>phy_addr := prev\<rparr>))"

definition mii_interrupt :: "device \<Rightarrow> 'a mac_scheme \<Rightarrow> u16 \<times> 'a mac_scheme" where
  "mii_interrupt dev s = mii_read dev R_INTERRUPT s"

section \<open>Robo switch registers through MII\<close>

definition ROBOSW_ACCESS_CONTROL_REG :: u32 where "ROBOSW_ACCESS_CONTROL_REG = 0x10"
definition ROBOSW_RW_CONTROL_REG :: u32 where "ROBOSW_RW_CONTROL_REG = 0x11"
definition ROBOSW_DATA_REG_BASE :: u32 where "ROBOSW_DATA_REG_BASE = 0x18"
definition ACCESS_CONTROL_RW :: u16 where "ACCESS_CONTROL_RW = 1"
definition RW_CONTROL_WRITE :: u16 where "RW_CONTROL_WRITE = 1"
definition RW_CONTROL_READ :: u16 where "RW_CONTROL_READ = 2"

text \<open>\<^verbatim>\<open>while(mii_read(sc, ROBOSW_RW_CONTROL_REG) & 0x0003) ;\<close>\<close>

partial_function (option) robosw_ready :: "device \<Rightarrow> 'a mac_scheme \<Rightarrow> 'a mac_scheme option" where
  "robosw_ready dev s =
     (let r = mii_read dev ROBOSW_RW_CONTROL_REG s
      in if fst r AND 3 \<noteq> 0 then robosw_ready dev (snd r) else Some (snd r))"

definition robosw_r :: "device \<Rightarrow> u8 \<Rightarrow> u8 \<Rightarrow> nat \<Rightarrow> 'a mac_scheme \<Rightarrow> (u32 \<times> 'a mac_scheme) option" where
  "robosw_r dev page a len s =
     (let s = mii_write dev ROBOSW_ACCESS_CONTROL_REG (push_bit 8 (ucast page) OR ACCESS_CONTROL_RW) s;
          s = mii_write dev ROBOSW_RW_CONTROL_REG (push_bit 8 (ucast a) OR RW_CONTROL_READ) s
      in case robosw_ready dev s of None \<Rightarrow> None
         | Some s \<Rightarrow>
             let (res, s) = mii_read dev ROBOSW_DATA_REG_BASE s
             in if len = 4 then
                  let (hi, s) = mii_read dev (ROBOSW_DATA_REG_BASE + 1) s
                  in Some (ucast res OR push_bit 16 (ucast hi), s)
                else Some (ucast res, s))"

text \<open>The bytes of the value are given in memory order, lowest first.\<close>

definition pair16 :: "u8 \<Rightarrow> u8 \<Rightarrow> u16" where
  "pair16 hi lo = push_bit 8 (ucast hi) OR ucast lo"

definition robosw_w_data :: "device \<Rightarrow> u8 list \<Rightarrow> 'a mac_scheme \<Rightarrow> 'a mac_scheme" where
  "robosw_w_data dev ptr s =
     (let base = ROBOSW_DATA_REG_BASE;
          low = (\<lambda>s. mii_write dev (base + 0) (pair16 (ptr ! 1) (ptr ! 0))
                  (mii_write dev (base + 1) (pair16 (ptr ! 3) (ptr ! 2))
                    (mii_write dev (base + 2) (pair16 (ptr ! 5) (ptr ! 4)) s)))
      in if length ptr = 1 then mii_write dev base (ucast (ptr ! 0)) s
         else if length ptr = 2 then mii_write dev base (pair16 (ptr ! 1) (ptr ! 0)) s
         else if length ptr = 4 then
           mii_write dev (base + 1) (pair16 (ptr ! 3) (ptr ! 2))
             (mii_write dev base (pair16 (ptr ! 1) (ptr ! 0)) s)
         else if length ptr = 8 then
           low (mii_write dev (base + 3) (pair16 (ptr ! 7) (ptr ! 6)) s)
         else if length ptr = 6 then low s
         else s)"

definition robosw_w :: "device \<Rightarrow> u8 \<Rightarrow> u8 \<Rightarrow> u8 list \<Rightarrow> 'a mac_scheme \<Rightarrow> 'a mac_scheme option" where
  "robosw_w dev page a ptr s =
     (let s = mii_write dev ROBOSW_ACCESS_CONTROL_REG (push_bit 8 (ucast page) OR ACCESS_CONTROL_RW) s;
          s = robosw_w_data dev ptr s;
          s = mii_write dev ROBOSW_RW_CONTROL_REG (push_bit 8 (ucast a) OR RW_CONTROL_WRITE) s
      in robosw_ready dev s)"


section \<open>What the MII operations write\<close>

text \<open>The poll and the transactions change nothing but the access history.\<close>

lemma csr_io [io_simps]:
  "WRITECSR c v s = s\<lparr>io_log := io_log s @ [Wr (PHYS_TO_K1 (membase s + c)) v]\<rparr>"
  "snd (READCSR dev c s) = s\<lparr>io_log := io_log s @ [Rd (PHYS_TO_K1 (membase s + c)) (dev (io_log s) (PHYS_TO_K1 (membase s + c)))]\<rparr>"
  "fst (READCSR dev c s) = dev (io_log s) (PHYS_TO_K1 (membase s + c))"
  by (simp_all add: WRITECSR_def READCSR_def phys_write32_def phys_read32_def store_def load_simps)

lemma mii_wait_io:
  "\<exists>l. snd (mii_wait dev n s) = s\<lparr>io_log := l\<rparr> \<and> writes l = writes (io_log s)"
proof (induction n arbitrary: s)
  case 0
  show ?case by (rule exI [of _ "io_log s"]) simp
next
  case (Suc n)
  let ?t = "usleep 100 (snd (READCSR dev R_ENET_INT_STATUS s))"
  obtain l where l: "snd (mii_wait dev n ?t) = ?t\<lparr>io_log := l\<rparr>" "writes l = writes (io_log ?t)"
    using Suc.IH [of ?t] by blast
  then have "snd (mii_wait dev n ?t) = s\<lparr>io_log := l\<rparr>" "writes l = writes (io_log s)"
    by (simp_all add: io_simps usleep_def)
  then show ?case by (auto simp: split_beta Let_def io_simps)
qed

text \<open>The two register writes of a transaction.\<close>

definition mii_txn :: "u32 \<Rightarrow> u32 \<Rightarrow> (addr \<times> u32) list" where
  "mii_txn base frame =
     [(PHYS_TO_K1 (base + R_ENET_INT_STATUS), M_EINT_MI), (PHYS_TO_K1 (base + R_MII_DATA), frame)]"

definition write_frame :: "u32 \<Rightarrow> u32 \<Rightarrow> u16 \<Rightarrow> u32" where
  "write_frame phy reg v = mii_cmd 0x1 reg phy (ucast v) OR MAKEVALUE 0x1 30"

definition read_frame :: "u32 \<Rightarrow> u32 \<Rightarrow> u32" where
  "read_frame phy reg = mii_cmd 0x2 reg phy 0 OR MAKEVALUE 0x1 30"

lemma mii_write_io:
  "\<exists>l. mii_write dev reg v s = s\<lparr>io_log := l\<rparr> \<and>
       writes l = writes (io_log s) @ mii_txn (membase s) (write_frame (of_int (phy_addr s)) reg v)"
proof -
  let ?t = "WRITECSR R_MII_DATA (write_frame (of_int (phy_addr s)) reg v)
              (snd (READCSR dev R_ENET_INT_STATUS (WRITECSR R_ENET_INT_STATUS M_EINT_MI s)))"
  obtain l where "snd (mii_wait dev 10 ?t) = ?t\<lparr>io_log := l\<rparr>" "writes l = writes (io_log ?t)"
    using mii_wait_io by blast
  moreover have "mii_write dev reg v s = snd (mii_wait dev 10 ?t)"
    by (simp add: mii_write_def Let_def write_frame_def io_simps)
  ultimately show ?thesis by (intro exI [of _ l]) (simp add: io_simps mii_txn_def)
qed

lemma mii_read_io:
  "\<exists>l. snd (mii_read dev reg s) = s\<lparr>io_log := l\<rparr> \<and>
       writes l = writes (io_log s) @ mii_txn (membase s) (read_frame (of_int (phy_addr s)) reg)"
proof -
  let ?t = "WRITECSR R_MII_DATA (read_frame (of_int (phy_addr s)) reg)
              (snd (READCSR dev R_ENET_INT_STATUS (WRITECSR R_ENET_INT_STATUS M_EINT_MI s)))"
  obtain l where "snd (mii_wait dev 10 ?t) = ?t\<lparr>io_log := l\<rparr>" "writes l = writes (io_log ?t)"
    using mii_wait_io by blast
  moreover have "(s\<lparr>io_log := io_log s @ x, io_log := y\<rparr>) = s\<lparr>io_log := y\<rparr>" for x y by simp
  moreover have "snd (mii_read dev reg s) = snd (mii_wait dev 10 ?t) \<or>
      snd (mii_read dev reg s) = snd (READCSR dev R_MII_DATA (snd (mii_wait dev 10 ?t)))"
    by (simp add: mii_read_def Let_def read_frame_def io_simps split_beta)
  ultimately show ?thesis by (auto simp: io_simps mii_txn_def)
qed

text \<open>A transaction on a bus that never signals completion reads as all ones.\<close>

lemma mii_wait_silent:
  assumes "\<And>l. dev l (PHYS_TO_K1 (membase s + R_ENET_INT_STATUS)) AND M_EINT_MI = 0"
  shows "fst (mii_wait dev n s) = False"
  using assms
proof (induction n arbitrary: s)
  case (Suc n)
  then show ?case by (simp add: split_beta Let_def io_simps usleep_def)
qed simp

lemma mii_read_silent:
  assumes "\<And>l. dev l (PHYS_TO_K1 (membase s + R_ENET_INT_STATUS)) AND M_EINT_MI = 0"
  shows "fst (mii_read dev reg s) = 0xFFFF"
proof -
  let ?t = "WRITECSR R_MII_DATA (read_frame (of_int (phy_addr s)) reg)
              (snd (READCSR dev R_ENET_INT_STATUS (WRITECSR R_ENET_INT_STATUS M_EINT_MI s)))"
  have "fst (mii_wait dev 10 ?t) = False"
    by (rule mii_wait_silent) (simp add: io_simps assms)
  then show ?thesis
    by (simp add: mii_read_def Let_def read_frame_def io_simps split_beta)
qed

definition mii_silent :: "device \<Rightarrow> u32 \<Rightarrow> bool" where
  "mii_silent dev base \<longleftrightarrow> (\<forall>l. dev l (PHYS_TO_K1 (base + R_ENET_INT_STATUS)) AND M_EINT_MI = 0)"

text \<open>A bus without a PHY at the address reads as all ones in one of two ways: its transactions never
  complete, and \<^verbatim>\<open>mii_read\<close> gives up with 0xFFFF; or they do, and the data lines were left high.\<close>

definition mii_all_ones :: "device \<Rightarrow> u32 \<Rightarrow> bool" where
  "mii_all_ones dev base \<longleftrightarrow>
     mii_silent dev base \<or> (\<forall>l. dev l (PHYS_TO_K1 (base + R_MII_DATA)) AND 0xFFFF = 0xFFFF)"

lemma low16_ones:
  fixes d :: u32
  assumes "d AND 0xFFFF = 0xFFFF"
  shows "ucast (GETVALUE d 0 (MAKEMASK 16 0)) = (0xFFFF :: u16)"
proof -
  have "MAKEMASK 16 0 = 0xFFFF" by (simp add: MAKEMASK_def)
  with assms show ?thesis by (simp add: GETVALUE_def)
qed

lemma mii_read_all_ones:
  assumes "mii_all_ones dev (membase s)"
  shows "fst (mii_read dev reg s) = 0xFFFF"
proof (cases "mii_silent dev (membase s)")
  case True
  then show ?thesis by (intro mii_read_silent) (simp add: mii_silent_def)
next
  case False
  let ?t = "WRITECSR R_MII_DATA (read_frame (of_int (phy_addr s)) reg)
              (snd (READCSR dev R_ENET_INT_STATUS (WRITECSR R_ENET_INT_STATUS M_EINT_MI s)))"
  obtain l where "snd (mii_wait dev 10 ?t) = ?t\<lparr>io_log := l\<rparr>" using mii_wait_io by blast
  then have "membase (snd (mii_wait dev 10 ?t)) = membase s" by (simp add: io_simps)
  with False assms show ?thesis
    by (simp add: mii_read_def Let_def split_beta io_simps mii_all_ones_def low16_ones flip: read_frame_def)
qed

lemma robosw_ready_ends:
  "robosw_ready dev s = Some t \<Longrightarrow> \<exists>n. \<not> fst (mii_read dev ROBOSW_RW_CONTROL_REG (((\<lambda>s. snd (mii_read dev ROBOSW_RW_CONTROL_REG s)) ^^ n) s)) AND 3 \<noteq> 0"
proof (rule robosw_ready.raw_induct [where P = "\<lambda>dev s t.
    \<exists>n. \<not> fst (mii_read dev ROBOSW_RW_CONTROL_REG (((\<lambda>s. snd (mii_read dev ROBOSW_RW_CONTROL_REG s)) ^^ n) s)) AND 3 \<noteq> 0"])
  fix ready dev t and s :: "'a mac_scheme"
  assume IH: "\<And>dev s t. ready dev s = Some t \<Longrightarrow> \<exists>n. \<not> fst (mii_read dev ROBOSW_RW_CONTROL_REG (((\<lambda>s. snd (mii_read dev ROBOSW_RW_CONTROL_REG s)) ^^ n) s)) AND 3 \<noteq> 0"
    and eq: "(let r = mii_read dev ROBOSW_RW_CONTROL_REG s in if fst r AND 3 \<noteq> 0 then ready dev (snd r) else Some (snd r)) = Some t"
  show "\<exists>n. \<not> fst (mii_read dev ROBOSW_RW_CONTROL_REG (((\<lambda>s. snd (mii_read dev ROBOSW_RW_CONTROL_REG s)) ^^ n) s)) AND 3 \<noteq> 0"
    by (rule busy_wait_unroll [where busy = "\<lambda>s. fst (mii_read dev ROBOSW_RW_CONTROL_REG s) AND 3 \<noteq> 0"], rule IH)
      (use eq in \<open>simp add: Let_def\<close>)
qed

interpretation sw_busy: busy_wait "robosw_ready dev" "\<lambda>s. fst (mii_read dev ROBOSW_RW_CONTROL_REG s) AND 3 \<noteq> 0"
  "\<lambda>s. snd (mii_read dev ROBOSW_RW_CONTROL_REG s)" "\<lambda>s. snd (mii_read dev ROBOSW_RW_CONTROL_REG s)"
  by unfold_locales (subst robosw_ready.simps, simp add: Let_def, erule robosw_ready_ends)

lemma robosw_ready_all_ones: "mii_all_ones dev (membase s) \<Longrightarrow> robosw_ready dev s = None"
proof (rule sw_busy.forever [where I = "\<lambda>s. mii_all_ones dev (membase s)"])
  fix t :: "'a mac_scheme"
  assume ones: "mii_all_ones dev (membase t)"
  obtain l where "snd (mii_read dev ROBOSW_RW_CONTROL_REG t) = t\<lparr>io_log := l\<rparr>"
    using mii_read_io by blast
  with ones show "fst (mii_read dev ROBOSW_RW_CONTROL_REG t) AND 3 \<noteq> 0
      \<and> mii_all_ones dev (membase (snd (mii_read dev ROBOSW_RW_CONTROL_REG t)))"
    by (simp add: mii_read_all_ones)
qed

section \<open>A switch that answers\<close>

text \<open>
  Completion is signalled at every poll, and a read of the RW control register finds it ready.
  What a read means is told by the last transaction of the history.
\<close>

definition switch_answers :: "device \<Rightarrow> u32 \<Rightarrow> bool" where
  "switch_answers dev base \<longleftrightarrow>
     (\<forall>l. dev l (PHYS_TO_K1 (base + R_ENET_INT_STATUS)) AND M_EINT_MI \<noteq> 0) \<and>
     (\<forall>l w phy. writes l = w @ mii_txn base (read_frame phy ROBOSW_RW_CONTROL_REG) \<longrightarrow>
        dev l (PHYS_TO_K1 (base + R_MII_DATA)) AND 3 = 0)"

lemma mii_wait_answers:
  "switch_answers dev (membase s) \<Longrightarrow> 0 < n \<Longrightarrow> fst (mii_wait dev n s) = True"
  by (cases n) (simp_all add: split_beta Let_def io_simps switch_answers_def)

lemma low16_word: "ucast (GETVALUE d 0 (MAKEMASK 16 0)) = (ucast d :: u16)"
proof -
  have "MAKEMASK 16 0 = mask 16" by (simp add: MAKEMASK_def mask_eq_exp_minus_1 push_bit_eq_mult)
  then show ?thesis
    unfolding GETVALUE_def
    by (intro bit_word_eqI) (auto simp: bit_ucast_iff bit_and_iff bit_mask_iff simp del: mask_numeral)
qed

lemma mii_read_ready:
  assumes "switch_answers dev (membase s)"
  shows "fst (mii_read dev ROBOSW_RW_CONTROL_REG s) AND 3 = 0"
proof -
  let ?t = "WRITECSR R_MII_DATA (read_frame (of_int (phy_addr s)) ROBOSW_RW_CONTROL_REG)
              (snd (READCSR dev R_ENET_INT_STATUS (WRITECSR R_ENET_INT_STATUS M_EINT_MI s)))"
  obtain l where l: "snd (mii_wait dev 10 ?t) = ?t\<lparr>io_log := l\<rparr>" "writes l = writes (io_log ?t)"
    using mii_wait_io by blast
  have ok: "fst (mii_wait dev 10 ?t) = True"
    by (rule mii_wait_answers) (simp_all add: assms io_simps)
  have w: "writes l = writes (io_log s) @ mii_txn (membase s) (read_frame (of_int (phy_addr s)) ROBOSW_RW_CONTROL_REG)"
    using l(2) by (simp add: io_simps mii_txn_def)
  let ?d = "dev l (PHYS_TO_K1 (membase s + R_MII_DATA))"
  have "?d AND 3 = 0" using assms w by (auto simp: switch_answers_def)
  moreover have "ucast (?d AND 3) = (ucast ?d AND 3 :: u16)" by (simp add: unsigned_and_eq)
  ultimately have "ucast ?d AND 3 = (0 :: u16)" by simp
  moreover have "fst (mii_read dev ROBOSW_RW_CONTROL_REG s) = ucast (GETVALUE ?d 0 (MAKEMASK 16 0))"
    using ok l by (simp add: mii_read_def Let_def read_frame_def io_simps split_beta)
  ultimately show ?thesis by (simp add: low16_word)
qed


text \<open>Sequences of transactions; a switch write ends after one look at the control register.\<close>

definition mii_txns :: "u32 \<Rightarrow> u32 list \<Rightarrow> (addr \<times> u32) list" where
  "mii_txns base frames = concat (map (mii_txn base) frames)"

lemma mii_txns_simps [simp]:
  "mii_txns base [] = []" "mii_txns base (f # fs) = mii_txn base f @ mii_txns base fs"
  "mii_txns base (fs @ gs) = mii_txns base fs @ mii_txns base gs"
  by (simp_all add: mii_txns_def)

text \<open>\<open>s'\<close> is \<open>s\<close> after the transactions \<open>fs\<close>.\<close>

definition sends :: "'a mac_scheme \<Rightarrow> u32 list \<Rightarrow> 'a mac_scheme \<Rightarrow> bool" where
  "sends s fs s' \<longleftrightarrow> (\<exists>l. s' = s\<lparr>io_log := l\<rparr> \<and> writes l = writes (io_log s) @ mii_txns (membase s) fs)"

lemma sends_trans: "sends s fs t \<Longrightarrow> sends t gs u \<Longrightarrow> sends s (fs @ gs) u"
  by (auto simp: sends_def)

lemma sends_frame: "sends s fs t \<Longrightarrow> membase t = membase s \<and> phy_addr t = phy_addr s"
  by (auto simp: sends_def)

lemma sends_nil [simp]: "sends s [] s"
  unfolding sends_def by (rule exI [of _ "io_log s"]) simp

lemma sends_mii_write: "sends s [write_frame (of_int (phy_addr s)) reg v] (mii_write dev reg v s)"
  using mii_write_io [of dev reg v s] by (simp add: sends_def)

lemma sends_mii_read: "sends s [read_frame (of_int (phy_addr s)) reg] (snd (mii_read dev reg s))"
  using mii_read_io [of dev reg s] by (simp add: sends_def)

lemma robosw_ready_answers:
  assumes "switch_answers dev (membase s)"
  shows "\<exists>s'. robosw_ready dev s = Some s' \<and>
    sends s [read_frame (of_int (phy_addr s)) ROBOSW_RW_CONTROL_REG] s'"
  using mii_read_ready [OF assms] sends_mii_read [where s = s and dev = dev and reg = ROBOSW_RW_CONTROL_REG]
  by (subst robosw_ready.simps) (simp add: Let_def)

text \<open>The data words of a value, in the order and to the registers the code writes them.\<close>

definition data_words :: "u8 list \<Rightarrow> (u32 \<times> u16) list" where
  "data_words p =
     (let w = (\<lambda>i. (0x18 + of_nat i, pair16 (p ! (2 * i + 1)) (p ! (2 * i))))
      in if length p = 1 then [(0x18, ucast (p ! 0))]
         else if length p = 2 then [w 0]
         else if length p = 4 then [w 0, w 1]
         else if length p = 6 then [w 2, w 1, w 0]
         else if length p = 8 then [w 3, w 2, w 1, w 0]
         else [])"

definition robosw_w_frames :: "u32 \<Rightarrow> u8 \<Rightarrow> u8 \<Rightarrow> u8 list \<Rightarrow> u32 list" where
  "robosw_w_frames phy page a p =
     write_frame phy 0x10 (push_bit 8 (ucast page) OR 1)
     # map (\<lambda>(r, v). write_frame phy r v) (data_words p)
     @ [write_frame phy 0x11 (push_bit 8 (ucast a) OR 1), read_frame phy 0x11]"

lemma sends_write2:
  "sends s fs t \<Longrightarrow> phy = of_int (phy_addr s) \<Longrightarrow> sends s (fs @ [write_frame phy reg v]) (mii_write dev reg v t)"
  using sends_trans [of s fs t _ "mii_write dev reg v t"] sends_mii_write [where s = t and dev = dev and reg = reg and v = v]
    sends_frame [of s fs t] by metis

lemma sends_data:
  assumes "sends s fs t" "phy = of_int (phy_addr s)"
  shows "sends s (fs @ map (\<lambda>(r, v). write_frame phy r v) (data_words p)) (robosw_w_data dev p t)"
proof -
  note w = sends_write2 [OF _ assms(2)]
  show ?thesis
    using assms(1) w [OF assms(1)] w [OF w [OF assms(1)]] w [OF w [OF w [OF assms(1)]]]
      w [OF w [OF w [OF w [OF assms(1)]]]]
    by (simp add: robosw_w_data_def data_words_def Let_def ROBOSW_DATA_REG_BASE_def)
qed

lemma robosw_w_answers:
  assumes "switch_answers dev (membase s)"
  shows "\<exists>s'. robosw_w dev page a p s = Some s' \<and> sends s (robosw_w_frames (of_int (phy_addr s)) page a p) s'"
proof -
  let ?phy = "of_int (phy_addr s) :: u32"
  let ?s1 = "mii_write dev ROBOSW_ACCESS_CONTROL_REG (push_bit 8 (ucast page) OR ACCESS_CONTROL_RW) s"
  let ?s2 = "mii_write dev ROBOSW_RW_CONTROL_REG (push_bit 8 (ucast a) OR RW_CONTROL_WRITE) (robosw_w_data dev p ?s1)"
  have "sends s [write_frame ?phy 0x10 (push_bit 8 (ucast page) OR 1)] ?s1"
    using sends_mii_write [where s = s and dev = dev and reg = ROBOSW_ACCESS_CONTROL_REG]
    by (simp add: ROBOSW_ACCESS_CONTROL_REG_def ACCESS_CONTROL_RW_def)
  from sends_write2 [OF sends_data [OF this refl] refl]
  have 2: "sends s (([write_frame ?phy 0x10 (push_bit 8 (ucast page) OR 1)]
      @ map (\<lambda>(r, v). write_frame ?phy r v) (data_words p))
      @ [write_frame ?phy 0x11 (push_bit 8 (ucast a) OR 1)]) ?s2"
    by (simp add: ROBOSW_RW_CONTROL_REG_def RW_CONTROL_WRITE_def)
  from robosw_ready_answers [of dev ?s2] sends_frame [OF 2] assms
  obtain s' where "robosw_ready dev ?s2 = Some s'" "sends ?s2 [read_frame ?phy 0x11] s'"
    by (auto simp: ROBOSW_RW_CONTROL_REG_def)
  with sends_trans [OF 2] show ?thesis
    by (auto simp: robosw_w_def Let_def robosw_w_frames_def)
qed


section \<open>Properties\<close>

text \<open>The command word of an MII write carries its operands: for a register and a PHY address
  below 32 every field reads back as what was put in, with the start bits, the write opcode and a
  valid turnaround.\<close>
theorem mii_frame_fields:
  fixes v :: u16
  assumes "reg < 32" "phy < 32"
  defines "f \<equiv> write_frame phy reg v"
  shows "GETVALUE f 0 (MAKEMASK 16 0) = ucast v \<and> GETVALUE f 16 (MAKEMASK 2 16) = 2 \<and>
    GETVALUE f 18 (MAKEMASK 5 18) = reg \<and> GETVALUE f 23 (MAKEMASK 5 23) = phy \<and>
    GETVALUE f 28 (MAKEMASK 2 28) = 1 \<and> GETVALUE f 30 (MAKEMASK 2 30) = 1"
proof -
  note small [simp] = small_bit [OF assms(1)] small_bit [OF assms(2)]
  have [simp]: "16 \<le> n \<Longrightarrow> \<not> bit v n" for n using bit_imp_le_length [of v n] by auto
  have f: "bit f n \<longleftrightarrow> n < 32 \<and> (n = 30 \<or> n = 28 \<or> n = 17 \<or> (18 \<le> n \<and> bit reg (n - 18)) \<or> (23 \<le> n \<and> bit phy (n - 23)) \<or> bit v n)" for n
    unfolding f_def write_frame_def mii_cmd_def MAKEVALUE_def bit_or_iff bit_push_bit_iff bit12 bit_ucast_iff
    by auto
  have "GETVALUE f 0 (MAKEMASK 16 0) = ucast v"
    by (rule bit_word_eqI) (auto simp: field_bit f bit_ucast_iff intro: ccontr)
  moreover have "GETVALUE f 16 (MAKEMASK 2 16) = 2"
    by (rule bit_word_eqI) (auto simp: field_bit f bit12)
  moreover have "GETVALUE f 18 (MAKEMASK 5 18) = reg"
    by (rule bit_word_eqI) (auto simp: field_bit f bit12 intro: ccontr)
  moreover have "GETVALUE f 23 (MAKEMASK 5 23) = phy"
    by (rule bit_word_eqI) (auto simp: field_bit f bit12 intro: ccontr)
  moreover have "GETVALUE f 28 (MAKEMASK 2 28) = 1"
    by (rule bit_word_eqI) (auto simp: field_bit f bit12)
  moreover have "GETVALUE f 30 (MAKEMASK 2 30) = 1"
    by (rule bit_word_eqI) (auto simp: field_bit f bit12)
  ultimately show ?thesis by blast
qed

lemma mii_frame_fields_witness:
  "GETVALUE (write_frame 0x1e 0x11 0x1234) 18 (MAKEMASK 5 18) = 0x11"
  using mii_frame_fields [of "0x11" "0x1e" "0x1234"] by simp

text \<open>C17: On a switch that answers, a register write returns after exactly these MII transactions:
  the page is selected, the value goes to the data registers word by word (the highest word first
  for six and eight bytes), the write is started, and one read of the control register finds it
  done. Nothing but the access history changes.\<close>
theorem robosw_w_transactions:
  assumes "switch_answers dev (membase s)"
  shows "\<exists>l. robosw_w dev page a p s = Some (s\<lparr>io_log := l\<rparr>) \<and>
    writes l = writes (io_log s) @ mii_txns (membase s) (robosw_w_frames (of_int (phy_addr s)) page a p)"
  using robosw_w_answers [OF assms, of page a p] by (auto simp: sends_def)

text \<open>C19: On a bus that reads as all ones, be it that no transaction is ever completed (\<^verbatim>\<open>mii_read\<close>
  gives up after ten polls) or that all are and the data register holds ones, both register
  operations of the switch poll without end: they never return.\<close>
theorem robosw_hangs_on_silent_bus:
  assumes "mii_silent dev (membase s) \<or>
    (\<forall>l. dev l (PHYS_TO_K1 (membase s + R_MII_DATA)) AND 0xFFFF = 0xFFFF)"
  shows "fst (mii_read dev reg s) = 0xFFFF \<and>
    robosw_r dev page a len s = None \<and> robosw_w dev page a p s = None"
proof -
  have ones: "mii_all_ones dev (membase s)" using assms by (simp add: mii_all_ones_def)
  have m: "membase (mii_write dev r v t) = membase t" for r v and t :: "'a mac_scheme"
    using mii_write_io [of dev r v t] by auto
  have d: "membase (robosw_w_data dev p t) = membase t" for t :: "'a mac_scheme"
    by (simp add: robosw_w_data_def Let_def m)
  show ?thesis
    using ones by (simp add: mii_read_all_ones robosw_r_def robosw_w_def Let_def robosw_ready_all_ones m d)
qed


text \<open>The devices and the machine of the concrete instances.\<close>

definition dev_done :: device where
  "dev_done l a = (if a = PHYS_TO_K1 (SB_ENET0_BASE + R_ENET_INT_STATUS) then 1 else 0)"

definition dev_dead :: device where "dev_dead l a = 0"

definition mac0 :: mac where
  "mac0 = machine.extend machine0
     \<lparr>membase = SB_ENET0_BASE, mac_irq = 2, mac_device = 0, mac_revision = 0, hwaddr = replicate 6 0,
      eth_state = Eth_state_uninit, intmask = 0, linkspeed = 0, loopback = 0,
      qlinks = heap0, freelist = 0x80001000, rxqueue = 0x80001010, pktpool = 0, pkt_length = \<lambda>_. 0,
      rxdscrmem = 0, txdscrmem = 0, rxd_cmdsts = [], rxd_bufptr = [], txd_cmdsts = [], txd_bufptr = [],
      rxdscr_remove = 0, rxdscr_add = 0, rxdscr_onring = 0, txdscr_remove = 0, txdscr_add = 0,
      phy_addr = 0x1e, phy_vendor = 0, phy_device = 0, phy_interrupt = 0, slow_poll = 0,
      inpkts = 0, outpkts = 0, interrupts = 0, rx_interrupts = 0, tx_interrupts = 0, delivered = [], copied = []\<rparr>"

lemma membase_mac0 [simp]: "membase mac0 = SB_ENET0_BASE"
  by (simp add: mac0_def machine.extend_def mac.defs)

lemma robosw_w_transactions_witness:
  "\<exists>l. robosw_w dev_done 0x34 0x08 [1, 2, 3, 4] mac0 = Some (mac0\<lparr>io_log := l\<rparr>)"
proof -
  have "switch_answers dev_done (membase mac0)"
    by (auto simp: switch_answers_def dev_done_def M_EINT_MI_def MAKEMASK1_def SB_ENET0_BASE_def
        PHYS_TO_K1_def R_ENET_INT_STATUS_def R_MII_DATA_def)
  from robosw_w_transactions [OF this, of "0x34" "0x08" "[1, 2, 3, 4]"] show ?thesis by blast
qed

definition dev_ones :: device where "dev_ones l a = 0xFFFFFFFF"

lemma robosw_hangs_on_silent_bus_witness:
  "robosw_r dev_dead 0 0x0e 1 mac0 = None \<and> robosw_w dev_ones 0x34 0x08 [1, 2, 3, 4] mac0 = None"
  using robosw_hangs_on_silent_bus [of dev_dead mac0 0 0 "0x0e" 1 "[]"]
    robosw_hangs_on_silent_bus [of dev_ones mac0 0 "0x34" "0x08" 4 "[1, 2, 3, 4]"]
  by (simp add: mii_silent_def dev_dead_def dev_ones_def)

end
