(* ===== verification/Robo.thy ===== *)
theory Robo
  imports MacHw "HOL-Library.Monad_Syntax"
begin

text \<open>
  The Robo switch setup of \<^verbatim>\<open>cfe/etc_robo.c\<close> (the code that is compiled; the SPI access under
  \<^verbatim>\<open>#if 0\<close> is not). Every operation returns \<open>None\<close> when the code would not return: a poll of the
  switch that never sees it ready, or the diagnostic for a port number out of range, which passes
  the VLAN number where a string pointer is expected. The port lists come from the non-volatile
  variables through the parameter \<open>nv\<close>.
\<close>

section \<open>Registers\<close>

definition BCM5836_REG_ROBOSW :: u32 where "BCM5836_REG_ROBOSW = 0x18006000"
definition R_SBTMSTATELOW :: u32 where "R_SBTMSTATELOW = 0xF98"
definition R_SBIDHIGH :: u32 where "R_SBIDHIGH = 0xFFC"
definition M_SBTS_RS :: u32 where "M_SBTS_RS = MAKEMASK1 0"
definition M_SBTS_CE :: u32 where "M_SBTS_CE = MAKEMASK1 16"
definition M_SBTS_FC :: u32 where "M_SBTS_FC = MAKEMASK1 17"
definition G_SBID_CR :: "u32 \<Rightarrow> u32" where "G_SBID_CR x = GETVALUE x 4 (MAKEMASK 12 4)"

definition PAGE_CTRL :: u8 where "PAGE_CTRL = 0x00"
definition PAGE_VTBL :: u8 where "PAGE_VTBL = 0x05"
definition PAGE_VLAN :: u8 where "PAGE_VLAN = 0x34"
definition REG_CTRL_MODE :: u8 where "REG_CTRL_MODE = 0x0B"
definition REG_CTRL_MIIPO :: u8 where "REG_CTRL_MIIPO = 0x0E"
definition REG_VLAN_CTRL0 :: u8 where "REG_VLAN_CTRL0 = 0x00"
definition REG_VLAN_CTRL1 :: u8 where "REG_VLAN_CTRL1 = 0x01"
definition REG_VLAN_CTRL4 :: u8 where "REG_VLAN_CTRL4 = 0x04"
definition REG_VLAN_CTRL5 :: u8 where "REG_VLAN_CTRL5 = 0x05"
definition REG_VLAN_ACCESS :: u8 where "REG_VLAN_ACCESS = 0x06"
definition REG_VLAN_WRITE :: u8 where "REG_VLAN_WRITE = 0x08"
definition REG_VLAN_PTAG0 :: u8 where "REG_VLAN_PTAG0 = 0x10"
definition REG_VLAN_PMAP :: u8 where "REG_VLAN_PMAP = 0x20"
definition REG_VTBL_CTRL :: u8 where "REG_VTBL_CTRL = 0x00"
definition REG_VTBL_MINDX :: u8 where "REG_VTBL_MINDX = 0x02"
definition REG_VTBL_VINDX :: u8 where "REG_VTBL_VINDX = 0x08"
definition REG_VTBL_ARL_E0 :: u8 where "REG_VTBL_ARL_E0 = 0x10"
definition REG_VTBL_ARL_E1 :: u8 where "REG_VTBL_ARL_E1 = 0x18"
definition REG_VTBL_VID_E0 :: u8 where "REG_VTBL_VID_E0 = 0x30"
definition REG_VTBL_VID_E1 :: u8 where "REG_VTBL_VID_E1 = 0x32"

definition REG_VTBL_DAT_E0 :: u8 where "REG_VTBL_DAT_E0 = 0x18"
definition K_ROBO :: u32 where "K_ROBO = 0x81c"
definition DEVID5325 :: u32 where "DEVID5325 = 1"
definition VLAN_MAXVID :: nat where "VLAN_MAXVID = 16"
definition VLAN_NUMVLANS :: nat where "VLAN_NUMVLANS = 16"

record robo_info_t =
  devid :: u32

section \<open>Switch registers\<close>

text \<open>\<^verbatim>\<open>mii_rreg\<close> stores 16 bits whatever the length; the callers look at the low byte.\<close>

definition mii_rreg :: "device \<Rightarrow> u8 \<Rightarrow> u8 \<Rightarrow> nat \<Rightarrow> 'a mac_scheme \<Rightarrow> (u16 \<times> 'a mac_scheme) option" where
  "mii_rreg dev page a len s =
     do { (v, s) \<leftarrow> robosw_r dev page a len s; Some (ucast v, s) }"

definition mii_rreg8 :: "device \<Rightarrow> u8 \<Rightarrow> u8 \<Rightarrow> 'a mac_scheme \<Rightarrow> (u8 \<times> 'a mac_scheme) option" where
  "mii_rreg8 dev page a s =
     do { (v, s) \<leftarrow> mii_rreg dev page a 1 s; Some (ucast v, s) }"

definition mii_wreg :: "device \<Rightarrow> u8 \<Rightarrow> u8 \<Rightarrow> u8 list \<Rightarrow> 'a mac_scheme \<Rightarrow> 'a mac_scheme option" where
  "mii_wreg dev page reg val s = robosw_w dev page reg val s"

definition robo_attach :: "bool \<Rightarrow> robo_info_t option" where
  "robo_attach alloc = (if alloc then Some \<lparr>devid = DEVID5325\<rparr> else None)"

text \<open>One write, read back and delay of the core reset sequence.\<close>

definition robo_core_write :: "device \<Rightarrow> u32 \<Rightarrow> 'a mac_scheme \<Rightarrow> 'a mac_scheme" where
  "robo_core_write dev v s =
     (let s = phys_write32 (BCM5836_REG_ROBOSW + R_SBTMSTATELOW) v s;
          s = snd (phys_read32 dev (BCM5836_REG_ROBOSW + R_SBTMSTATELOW) s)
      in usleep 100 s)"

definition robo_enable_device :: "device \<Rightarrow> 'a mac_scheme \<Rightarrow> (int \<times> 'a mac_scheme) option" where
  "robo_enable_device dev s =
     (let s = robo_core_write dev (M_SBTS_RS OR M_SBTS_CE OR M_SBTS_FC) s;
          s = robo_core_write dev (M_SBTS_CE OR M_SBTS_FC) s;
          s = robo_core_write dev M_SBTS_CE s
      in do {
        (mii8, s) \<leftarrow> mii_rreg8 dev PAGE_CTRL REG_CTRL_MIIPO s;
        if \<not> bit mii8 4 then do {
          s \<leftarrow> mii_wreg dev PAGE_CTRL REG_CTRL_MIIPO [mii8 OR push_bit 4 1] s;
          (mii8, s) \<leftarrow> mii_rreg8 dev PAGE_CTRL REG_CTRL_MIIPO s;
          Some (if \<not> bit mii8 4 then (-1, s) else (0, s)) }
        else Some (0, s) })"

definition robo_enable_switch :: "device \<Rightarrow> 'a mac_scheme \<Rightarrow> (int \<times> 'a mac_scheme) option" where
  "robo_enable_switch dev s =
     do {
       (mode8, s) \<leftarrow> mii_rreg8 dev PAGE_CTRL REG_CTRL_MODE s;
       if \<not> bit mode8 1 then do {
         s \<leftarrow> mii_wreg dev PAGE_CTRL REG_CTRL_MODE [mode8 OR push_bit 1 1] s;
         (mode8, s) \<leftarrow> mii_rreg8 dev PAGE_CTRL REG_CTRL_MODE s;
         Some (if \<not> bit mode8 1 then (-1, s) else (0, s)) }
       else Some (0, s) }"

section \<open>VLAN configuration\<close>

text \<open>The port tokens of a port list, at most four characters of each.\<close>

lemma length_dropWhile_takeWhile:
  "takeWhile P (dropWhile Q x) \<noteq> [] \<Longrightarrow> length (dropWhile P (dropWhile Q x)) < length x"
proof (cases "dropWhile Q x")
  case (Cons a y)
  moreover assume "takeWhile P (dropWhile Q x) \<noteq> []"
  ultimately have "length (dropWhile P (dropWhile Q x)) < length (dropWhile Q x)"
    by (auto split: if_splits simp: length_dropWhile_le less_Suc_eq_le)
  then show ?thesis using length_dropWhile_le [of Q x] by simp
qed simp

function vlan_tokens :: "string \<Rightarrow> string list" where
  "vlan_tokens cur =
     (let cur = dropWhile (\<lambda>c. c = CHR '' '') cur;
          tok = takeWhile (\<lambda>c. c \<noteq> CHR '' '') cur;
          next = dropWhile (\<lambda>c. c \<noteq> CHR '' '') cur
      in if tok = [] then []
         else take 4 tok # (if next = [] then [] else vlan_tokens next))"
  by pat_completeness auto
termination
  by (relation "measure length") (simp, simp add: length_dropWhile_takeWhile)

declare vlan_tokens.simps [simp del]

text \<open>The port number is the first character minus \<^verbatim>\<open>'0'\<close>, compared as an unsigned number.\<close>

definition port_id :: "string \<Rightarrow> nat option" where
  "port_id port =
     (let pid = int (of_char (hd port) :: nat) - 48
      in if 0 \<le> pid \<and> pid < 6 then Some (nat pid) else None)"

text \<open>The loop over the ports of one VLAN collects the untag and member bits and writes the
  default tag of every port but a CPU port without the flag \<^verbatim>\<open>'*'\<close>.\<close>

fun vlan_ports ::
  "device \<Rightarrow> nat \<Rightarrow> string list \<Rightarrow> u16 \<Rightarrow> u16 \<Rightarrow> 'a mac_scheme \<Rightarrow> (u16 \<times> u16 \<times> 'a mac_scheme) option" where
  "vlan_ports dev vid [] untag member s = Some (untag, member, s)"
| "vlan_ports dev vid (port # ports) untag member s =
     (case port_id port of None \<Rightarrow> None
      | Some pid \<Rightarrow>
          (let untag = untag OR push_bit (6 + pid) 1; member = member OR push_bit pid 1
           in if pid \<noteq> 5 \<or> CHR ''*'' \<in> set port then do {
                s \<leftarrow> mii_wreg dev PAGE_VLAN (REG_VLAN_PTAG0 + of_nat (2 * pid)) (bytes16 (of_nat vid)) s;
                vlan_ports dev vid ports untag member s }
              else vlan_ports dev vid ports untag member s))"

partial_function (option) arl_wait :: "device \<Rightarrow> 'a mac_scheme \<Rightarrow> 'a mac_scheme option" where
  "arl_wait dev s =
     Option.bind (mii_rreg8 dev PAGE_VTBL REG_VTBL_CTRL s)
       (\<lambda>r. if fst r AND 0x80 = 0 then Some (snd r) else arl_wait dev (usleep 100 (snd r)))"

text \<open>The static ARL entry of a VLAN, for either kind of switch.\<close>

definition vlan_arl :: "device \<Rightarrow> robo_info_t \<Rightarrow> u8 list \<Rightarrow> nat \<Rightarrow> 'a mac_scheme \<Rightarrow> 'a mac_scheme option" where
  "vlan_arl dev robo arl_entry vid s =
     (if devid robo = DEVID5325 then do {
        s \<leftarrow> mii_wreg dev PAGE_VTBL REG_VTBL_VID_E0 [of_nat vid] s;
        s \<leftarrow> mii_wreg dev PAGE_VTBL REG_VTBL_VINDX [of_nat vid] s;
        s \<leftarrow> mii_wreg dev PAGE_VTBL REG_VTBL_CTRL [0x80] s;
        arl_wait dev s }
      else do {
        s \<leftarrow> mii_wreg dev PAGE_VTBL REG_VTBL_VINDX [of_nat vid] s;
        s \<leftarrow> mii_wreg dev PAGE_VTBL REG_VTBL_ARL_E0 (take 6 arl_entry @ [of_nat vid, 0]) s;
        s \<leftarrow> mii_wreg dev PAGE_VTBL REG_VTBL_DAT_E0 (bytes16 0xc008) s;
        s \<leftarrow> mii_wreg dev PAGE_VTBL REG_VTBL_CTRL [0x80] s;
        arl_wait dev s })"

definition vlan_word :: "nat \<Rightarrow> u16 \<Rightarrow> u16 \<Rightarrow> u32" where
  "vlan_word vid untag member =
     push_bit 20 1 OR push_bit 12 (drop_bit 4 (of_nat vid)) OR ucast untag OR ucast member"

definition vlan_setup :: "device \<Rightarrow> nat \<Rightarrow> u16 \<Rightarrow> u16 \<Rightarrow> 'a mac_scheme \<Rightarrow> 'a mac_scheme option" where
  "vlan_setup dev vid untag member s =
     do {
       s \<leftarrow> mii_wreg dev PAGE_VLAN REG_VLAN_WRITE (bytes32 (vlan_word vid untag member)) s;
       mii_wreg dev PAGE_VLAN REG_VLAN_ACCESS
         (bytes16 (push_bit 13 1 OR push_bit 12 1 OR of_nat vid)) s }"

definition vlan_ports_var :: "(string \<Rightarrow> string option) \<Rightarrow> nat \<Rightarrow> string option" where
  "vlan_ports_var nv vid =
     (if vid = 0 then nv ''vlan0ports'' else if vid = 1 then nv ''vlan1ports'' else None)"

definition vlan_one ::
  "device \<Rightarrow> (string \<Rightarrow> string option) \<Rightarrow> robo_info_t \<Rightarrow> u8 list \<Rightarrow> nat \<Rightarrow> 'a mac_scheme \<Rightarrow> 'a mac_scheme option" where
  "vlan_one dev nv robo arl_entry vid s =
     (if vid > VLAN_MAXVID then vlan_setup dev vid 0 0 s
      else case vlan_ports_var nv vid of
        None \<Rightarrow> vlan_setup dev vid 0 0 s
      | Some ports \<Rightarrow> do {
          (untag, member, s) \<leftarrow> vlan_ports dev vid (vlan_tokens ports) 0 0 s;
          s \<leftarrow> vlan_arl dev robo arl_entry vid s;
          vlan_setup dev vid untag member s })"

fun vlan_all ::
  "device \<Rightarrow> (string \<Rightarrow> string option) \<Rightarrow> robo_info_t \<Rightarrow> u8 list \<Rightarrow> nat list \<Rightarrow> 'a mac_scheme \<Rightarrow> 'a mac_scheme option" where
  "vlan_all dev nv robo arl_entry [] s = Some s"
| "vlan_all dev nv robo arl_entry (vid # vids) s =
     do { s \<leftarrow> vlan_one dev nv robo arl_entry vid s; vlan_all dev nv robo arl_entry vids s }"

definition robo_config_vlan ::
  "device \<Rightarrow> (string \<Rightarrow> string option) \<Rightarrow> robo_info_t \<Rightarrow> u8 list \<Rightarrow> 'a mac_scheme \<Rightarrow> (int \<times> 'a mac_scheme) option" where
  "robo_config_vlan dev nv robo mac_addr s =
     do {
       (_, s) \<leftarrow> mii_rreg8 dev PAGE_VLAN REG_VLAN_CTRL0 s;
       (val8, s) \<leftarrow> mii_rreg8 dev PAGE_VLAN REG_VLAN_CTRL1 s;
       let val8 = val8 OR push_bit 2 1 OR push_bit 3 1;
       let val8 = (if devid robo = DEVID5325 then val8 OR push_bit 1 1 else val8);
       s \<leftarrow> mii_wreg dev PAGE_VLAN REG_VLAN_CTRL1 [val8] s;
       let arl_entry = [mac_addr ! 5, mac_addr ! 4, mac_addr ! 3, mac_addr ! 2, mac_addr ! 1, mac_addr ! 0, 0, 0];
       let arl_entry = (if devid robo = DEVID5325 then arl_entry[6 := 0x8, 7 := 0xc0] else arl_entry);
       s \<leftarrow> (if devid robo = DEVID5325 then do {
           s \<leftarrow> mii_wreg dev PAGE_VTBL REG_VTBL_ARL_E1 (replicate 8 0) s;
           s \<leftarrow> mii_wreg dev PAGE_VTBL REG_VTBL_VID_E1 [0] s;
           s \<leftarrow> mii_wreg dev PAGE_VTBL REG_VTBL_ARL_E0 arl_entry s;
           s \<leftarrow> mii_wreg dev PAGE_VTBL REG_VTBL_MINDX (take 6 arl_entry) s;
           s \<leftarrow> mii_wreg dev PAGE_VLAN REG_VLAN_CTRL4 [push_bit 6 1] s;
           mii_wreg dev PAGE_VLAN REG_VLAN_CTRL5 [push_bit 3 1] s }
         else mii_wreg dev PAGE_VTBL REG_VTBL_MINDX (take 6 arl_entry) s);
       s \<leftarrow> vlan_all dev nv robo arl_entry [0..<VLAN_NUMVLANS] s;
       let val32 = push_bit 3 1 OR push_bit 6 2 OR push_bit 9 3 OR push_bit 12 4 OR push_bit 15 5
                   OR push_bit 18 6 OR push_bit 21 7;
       s \<leftarrow> mii_wreg dev PAGE_VLAN REG_VLAN_PMAP (bytes32 val32) s;
       Some (0, s) }"

definition robosw_init ::
  "device \<Rightarrow> (string \<Rightarrow> string option) \<Rightarrow> bool \<Rightarrow> u8 list \<Rightarrow> 'a mac_scheme \<Rightarrow> 'a mac_scheme option" where
  "robosw_init dev nv alloc mac_addr s =
     (let (id, s) = phys_read32 dev (BCM5836_REG_ROBOSW + R_SBIDHIGH) s
      in if G_SBID_CR id = K_ROBO then do {
           rsw \<leftarrow> robo_attach alloc;
           (_, s) \<leftarrow> robo_enable_device dev s;
           (_, s) \<leftarrow> robo_config_vlan dev nv rsw mac_addr s;
           (_, s) \<leftarrow> robo_enable_switch dev s;
           Some s }
         else Some s)"


section \<open>What the port list becomes\<close>

lemma port_id_less: "port_id port = Some pid \<Longrightarrow> pid < 6"
  by (auto simp: port_id_def Let_def split: if_splits)

lemma mii_wreg_answers:
  "switch_answers dev (membase s) \<Longrightarrow>
   \<exists>l. mii_wreg dev page reg val s = Some (s\<lparr>io_log := l\<rparr>)"
  using robosw_w_answers [of dev s page reg val] by (auto simp: mii_wreg_def sends_def)

lemma bit_set_u16: "n < 16 \<Longrightarrow> bit ((w :: u16) OR push_bit n 1) k \<longleftrightarrow> bit w k \<or> k = n"
  by (auto simp only: bit_or_iff bit_push_bit_iff bit_1_iff possible_bit_word) auto

lemma vlan_ports_bits:
  assumes "switch_answers dev (membase s)"
  shows "case those (map port_id toks) of
      None \<Rightarrow> vlan_ports dev vid toks untag member s = None
    | Some pids \<Rightarrow> \<exists>u m l. vlan_ports dev vid toks untag member s = Some (u, m, s\<lparr>io_log := l\<rparr>) \<and>
        (\<forall>n. bit m n \<longleftrightarrow> bit member n \<or> n \<in> set pids) \<and>
        (\<forall>n. bit u n \<longleftrightarrow> bit untag n \<or> (\<exists>p \<in> set pids. n = 6 + p))"
  using assms
proof (induction toks arbitrary: untag member s)
  case Nil
  show ?case by (auto intro: exI [of _ "io_log s"])
next
  case (Cons port toks)
  show ?case
  proof (cases "port_id port")
    case None
    then show ?thesis by simp
  next
    case (Some pid)
    have "pid < 6" using Some by (rule port_id_less)
    let ?u = "untag OR push_bit (6 + pid) 1" and ?m = "member OR push_bit pid 1"
    obtain l where l: "(if pid \<noteq> 5 \<or> CHR ''*'' \<in> set port
        then mii_wreg dev PAGE_VLAN (REG_VLAN_PTAG0 + of_nat (2 * pid)) (bytes16 (of_nat vid)) s
        else Some s) = Some (s\<lparr>io_log := l\<rparr>)"
    proof (cases "pid \<noteq> 5 \<or> CHR ''*'' \<in> set port")
      case True
      with mii_wreg_answers [OF Cons.prems, of PAGE_VLAN "REG_VLAN_PTAG0 + of_nat (2 * pid)" "bytes16 (of_nat vid)"] that
      show ?thesis by auto
    next
      case False
      then show ?thesis using that [of "io_log s"] by simp
    qed
    have e: "vlan_ports dev vid (port # toks) untag member s = vlan_ports dev vid toks ?u ?m (s\<lparr>io_log := l\<rparr>)"
      using Some l by (cases "pid \<noteq> 5 \<or> CHR ''*'' \<in> set port") (simp_all add: Let_def)
    have IH: "case those (map port_id toks) of
        None \<Rightarrow> vlan_ports dev vid toks ?u ?m (s\<lparr>io_log := l\<rparr>) = None
      | Some pids \<Rightarrow> \<exists>u m l'. vlan_ports dev vid toks ?u ?m (s\<lparr>io_log := l\<rparr>) = Some (u, m, s\<lparr>io_log := l'\<rparr>) \<and>
        (\<forall>n. bit m n \<longleftrightarrow> bit ?m n \<or> n \<in> set pids) \<and>
        (\<forall>n. bit u n \<longleftrightarrow> bit ?u n \<or> (\<exists>p \<in> set pids. n = 6 + p))"
      using Cons.IH [where s = "s\<lparr>io_log := l\<rparr>" and untag = ?u and member = ?m] Cons.prems
      by (auto simp del: vlan_ports.simps split: option.splits)
    have b: "bit ?m n \<longleftrightarrow> bit member n \<or> n = pid" "bit ?u n \<longleftrightarrow> bit untag n \<or> n = 6 + pid" for n
      using \<open>pid < 6\<close> by (simp_all only: bit_set_u16)
    show ?thesis
    proof (cases "those (map port_id toks)")
      case None
      with IH e Some show ?thesis by simp
    next
      case (Some pids)
      with IH [unfolded b] e \<open>port_id port = Some pid\<close> show ?thesis
        unfolding e by (auto simp del: vlan_ports.simps)
    qed
  qed
qed

section \<open>Properties\<close>

text \<open>On a switch that answers, configuring a VLAN from a port list collects exactly the ports
  named by the first digit of each token: the member bits are the ports, the untag bits the ports
  shifted by six. A token that names no port 0 to 5 makes the configuration fail to return.\<close>
theorem vlan_ports_members:
  assumes "switch_answers dev (membase s)"
  shows "case those (map port_id (vlan_tokens ports)) of
      None \<Rightarrow> vlan_ports dev vid (vlan_tokens ports) 0 0 s = None
    | Some pids \<Rightarrow> \<exists>u m l. vlan_ports dev vid (vlan_tokens ports) 0 0 s = Some (u, m, s\<lparr>io_log := l\<rparr>) \<and>
        (\<forall>n. bit m n \<longleftrightarrow> n \<in> set pids) \<and> (\<forall>n. bit u n \<longleftrightarrow> (\<exists>p \<in> set pids. n = 6 + p))"
  using vlan_ports_bits [OF assms, where toks = "vlan_tokens ports" and vid = vid and untag = 0 and member = 0]
  by (auto split: option.splits)

lemma switch_answers_dev_done: "switch_answers dev_done (membase mac0)"
  by (auto simp: switch_answers_def dev_done_def M_EINT_MI_def MAKEMASK1_def SB_ENET0_BASE_def
      PHYS_TO_K1_def R_ENET_INT_STATUS_def R_MII_DATA_def)

lemma vlan_ports_members_witness:
  "\<exists>u m l. vlan_ports dev_done 0 (vlan_tokens ''1 2 5*'') 0 0 mac0 = Some (u, m, mac0\<lparr>io_log := l\<rparr>) \<and>
     (\<forall>n. bit m n \<longleftrightarrow> n \<in> {1, 2, 5})"
proof -
  have "vlan_tokens ''1 2 5*'' = [''1'', ''2'', ''5*'']" by (simp add: vlan_tokens.simps Let_def)
  moreover have "those (map port_id [''1'', ''2'', ''5*'']) = Some [1, 2, 5]"
    by (simp add: port_id_def)
  ultimately show ?thesis
    using vlan_ports_members [OF switch_answers_dev_done, where ports = "''1 2 5*''" and vid = 0]
    by (simp del: vlan_ports.simps) blast
qed

end
