(* ===== verification/RoboSpi.thy ===== *)
theory RoboSpi
  imports Robo
begin

text \<open>
  The parts of \<^verbatim>\<open>cfe/etc_robo.c\<close> under \<^verbatim>\<open>#if 0\<close>: the switch reached over a serial interface (SPI) made of pins, or
  over the management bus by way of the Ethernet driver's operations, and the attachment that chooses between
  them. The functions of the backplane library and the driver's operations are parameters: what they do is the
  history of calls, what they answer a function of it. A slave that listens to the pins gets exactly the
  bytes written; what it answers is what is read, once it has acknowledged.
\<close>

section \<open>State\<close>

datatype pin_ev = Gpioout u32 u32 | Gpioouten u32 u32 | Gpioin u32 | Osl_delay nat
  | Phywr u32 u32 u16 | Phyrd u32 u32 u16 | Robo_error string

datatype dev_ops = Bcm5325 | Bcm5325e

record spi_info = robo_info_t +
  dev_op :: dev_ops
  cur_page :: u8
  ss :: u32
  sck :: u32
  mosi :: u32
  miso :: u32
  pin_log :: "pin_ev list"

text \<open>Answers: of \<^verbatim>\<open>sb_gpioin\<close>, and of \<^verbatim>\<open>phyrd\<close> to an address and a register.\<close>

type_synonym gpio_in = "pin_ev list \<Rightarrow> u32"
type_synonym phy_in = "pin_ev list \<Rightarrow> u32 \<Rightarrow> u32 \<Rightarrow> u16"

definition pin_call :: "pin_ev \<Rightarrow> spi_info \<Rightarrow> spi_info" where
  "pin_call e s = s\<lparr>pin_log := pin_log s @ [e]\<rparr>"

definition sb_gpioin :: "gpio_in \<Rightarrow> spi_info \<Rightarrow> u32 \<times> spi_info" where
  "sb_gpioin inp s = (let v = inp (pin_log s) in (v, pin_call (Gpioin v) s))"

definition phyrd :: "phy_in \<Rightarrow> u32 \<Rightarrow> u32 \<Rightarrow> spi_info \<Rightarrow> u16 \<times> spi_info" where
  "phyrd phy a r s = (let v = phy (pin_log s) a r in (v, pin_call (Phyrd a r v) s))"

section \<open>The serial interface\<close>

definition SCK_EDGE_TIME :: nat where "SCK_EDGE_TIME = 2"
definition MOSI_SETUP_TIME :: nat where "MOSI_SETUP_TIME = 1"
definition SS_SETUP_TIME :: nat where "SS_SETUP_TIME = 1"
definition SPI_MAX_RETRY :: nat where "SPI_MAX_RETRY = 100"
definition REG_SPI_PAGE :: u8 where "REG_SPI_PAGE = 0xff"

definition gpio_enable :: "spi_info \<Rightarrow> spi_info" where
  "gpio_enable s =
     (let s = pin_call (Gpioout (ss s OR sck s OR mosi s) (ss s)) s
      in pin_call (Gpioouten (ss s OR sck s OR mosi s) (ss s OR sck s OR mosi s)) s)"

definition gpio_disable :: "spi_info \<Rightarrow> spi_info" where
  "gpio_disable s = pin_call (Gpioouten (ss s OR sck s OR mosi s) 0) s"

text \<open>One bit, \<open>i\<close> counting from the highest; the bits of a byte; the bytes.\<close>

definition spi_write_bit :: "u8 \<Rightarrow> nat \<Rightarrow> spi_info \<Rightarrow> spi_info" where
  "spi_write_bit b i s =
     (let s = pin_call (Gpioout (sck s) 0) s;
          s = pin_call (Osl_delay SCK_EDGE_TIME) s;
          s = pin_call (Gpioout (mosi s) (if drop_bit i 0x80 AND b \<noteq> 0 then mosi s else 0)) s;
          s = pin_call (Osl_delay MOSI_SETUP_TIME) s;
          s = pin_call (Gpioout (sck s) (sck s)) s
      in pin_call (Osl_delay SCK_EDGE_TIME) s)"

definition spi_write :: "u8 list \<Rightarrow> spi_info \<Rightarrow> spi_info" where
  "spi_write buf s = fold (\<lambda>b. fold (spi_write_bit b) [0..<8]) buf s"

definition spi_read_bit :: "gpio_in \<Rightarrow> nat \<Rightarrow> u8 \<times> spi_info \<Rightarrow> u8 \<times> spi_info" where
  "spi_read_bit inp i = (\<lambda>(byt, s).
     let s = pin_call (Gpioout (sck s) 0) s;
         s = pin_call (Osl_delay SCK_EDGE_TIME) s;
         (v, s) = sb_gpioin inp s;
         byt = (if v AND miso s \<noteq> 0 then byt OR drop_bit i 0x80 else byt);
         s = pin_call (Gpioout (sck s) (sck s)) s
     in (byt, pin_call (Osl_delay SCK_EDGE_TIME) s))"

definition spi_read_byte :: "gpio_in \<Rightarrow> spi_info \<Rightarrow> u8 \<times> spi_info" where
  "spi_read_byte inp s = fold (spi_read_bit inp) [0..<8] (0, s)"

text \<open>The loop: bytes read so far, acknowledgement, tries left.\<close>

function spi_read_loop ::
  "gpio_in \<Rightarrow> nat \<Rightarrow> u8 list \<Rightarrow> u8 \<Rightarrow> nat \<Rightarrow> spi_info \<Rightarrow> u8 list \<times> nat \<times> spi_info" where
  "spi_read_loop inp n got rack timeout s =
     (if length got < n \<and> timeout \<noteq> 0
      then (let (byt, s) = spi_read_byte inp s
            in if rack = 0 then spi_read_loop inp n got (byt AND 1) (timeout - 1) s
               else spi_read_loop inp n (got @ [byt]) rack timeout s)
      else (got, timeout, s))"
  by pat_completeness auto
termination
  by (relation "measure (\<lambda>(inp, n, got, rack, timeout, s). (n - length got) + timeout)") auto

declare spi_read_loop.simps [simp del]

text \<open>The buffer keeps what was in it behind the bytes read.\<close>

definition spi_read :: "gpio_in \<Rightarrow> u8 list \<Rightarrow> spi_info \<Rightarrow> int \<times> u8 list \<times> spi_info" where
  "spi_read inp buf s =
     (let (got, timeout, s) = spi_read_loop inp (length buf) [] 0 SPI_MAX_RETRY s;
          buf = got @ drop (length got) buf
      in if timeout = 0 then (- 1, buf, pin_call (Robo_error ''spi_read: timeout'') s) else (0, buf, s))"

definition spi_select :: "u8 \<Rightarrow> spi_info \<Rightarrow> spi_info" where
  "spi_select spi s =
     (let s = pin_call (Gpioout (ss s) (if spi \<noteq> 0 then 0 else ss s)) s
      in pin_call (Osl_delay SS_SETUP_TIME) s)"

definition spi_goto :: "u8 \<Rightarrow> spi_info \<Rightarrow> spi_info" where
  "spi_goto page s =
     (if cur_page s = page then s
      else (let s = s\<lparr>cur_page := page\<rparr>;
                s = spi_select 1 s;
                s = spi_write [push_bit 4 6 OR 1] s;
                s = spi_write [REG_SPI_PAGE] s;
                s = spi_write [page] s
            in spi_select 0 s))"

text \<open>A value is its bytes in memory. The union on the stack has four bytes, \<open>stk\<close>, that keep what was there
  for a length other than 1, 2 and 4; it is read and written there for up to four bytes.\<close>

definition spi_wreg :: "u8 list \<Rightarrow> u8 \<Rightarrow> u8 \<Rightarrow> u8 list \<Rightarrow> spi_info \<Rightarrow> int \<times> spi_info" where
  "spi_wreg stk page a val s =
     (let s = spi_goto page s;
          s = spi_select 1 s;
          s = spi_write [push_bit 4 6 OR 1] s;
          s = spi_write [a] s;
          bytes = (if length val \<in> {1, 2, 4} then val else take (length val) stk);
          s = spi_write bytes s;
          s = spi_select 0 s
      in (0, s))"

definition spi_rreg :: "gpio_in \<Rightarrow> u8 list \<Rightarrow> u8 \<Rightarrow> u8 \<Rightarrow> u8 list \<Rightarrow> spi_info \<Rightarrow> int \<times> u8 list \<times> spi_info" where
  "spi_rreg inp stk page a val s =
     (let s = spi_goto page s;
          s = spi_select 1 s;
          s = spi_write [push_bit 4 1] s;
          s = spi_write [a] s;
          (st, bytes, s) = spi_read inp (take (length val) stk) s;
          val = (if length val \<in> {1, 2, 4} then bytes else val);
          s = spi_select 0 s
      in (st, val, s))"

section \<open>A listening slave\<close>

text \<open>Levels of the pins, bits since it was selected, and what it has heard from one deselection to the next.
  It takes a bit when the clock rises while it is selected.\<close>

record listener =
  lv :: u32
  cur :: "bool list"
  heard :: "bool list list"

definition drive :: "u32 \<Rightarrow> u32 \<Rightarrow> u32 \<Rightarrow> u32" where
  "drive x m v = (x AND NOT m) OR (v AND m)"

definition listen :: "u32 \<Rightarrow> u32 \<Rightarrow> u32 \<Rightarrow> pin_ev \<Rightarrow> listener \<Rightarrow> listener" where
  "listen ssp sckp mosip e l =
     (case e of
        Gpioout m v \<Rightarrow>
          (let new = drive (lv l) m v
           in if lv l AND ssp = 0 \<and> new AND ssp \<noteq> 0 then l\<lparr>lv := new, cur := [], heard := heard l @ [cur l]\<rparr>
              else if lv l AND ssp \<noteq> 0 \<and> new AND ssp = 0 then l\<lparr>lv := new, cur := []\<rparr>
              else if new AND ssp = 0 \<and> lv l AND sckp = 0 \<and> new AND sckp \<noteq> 0
                then l\<lparr>lv := new, cur := cur l @ [new AND mosip \<noteq> 0]\<rparr>
              else l\<lparr>lv := new\<rparr>)
      | _ \<Rightarrow> l)"

definition ear :: "listener \<Rightarrow> spi_info \<Rightarrow> listener" where
  "ear l s = fold (listen (ss s) (sck s) (mosi s)) (pin_log s) l"

definition pins_apart :: "spi_info \<Rightarrow> bool" where
  "pins_apart s \<longleftrightarrow> ss s \<noteq> 0 \<and> sck s \<noteq> 0 \<and> mosi s \<noteq> 0 \<and>
     sck s AND ss s = 0 \<and> mosi s AND ss s = 0 \<and> mosi s AND sck s = 0"

lemma pin_call_sel [simp]:
  "ss (pin_call e s) = ss s" "sck (pin_call e s) = sck s" "mosi (pin_call e s) = mosi s" "miso (pin_call e s) = miso s"
  "cur_page (pin_call e s) = cur_page s" "pin_log (pin_call e s) = pin_log s @ [e]" "pins_apart (pin_call e s) = pins_apart s"
  by (simp_all add: pin_call_def pins_apart_def)

lemma ear_call [simp]: "ear l (pin_call e s) = listen (ss s) (sck s) (mosi s) e (ear l s)"
  by (simp add: ear_def)

lemma listen_quiet [simp]:
  "listen a b c (Osl_delay n) l = l" "listen a b c (Gpioin v) l = l" "listen a b c (Robo_error t) l = l"
  by (simp_all add: listen_def)

lemma not_and_apart: "m AND p = 0 \<Longrightarrow> NOT m AND p = (p :: u32)" "m AND p = 0 \<Longrightarrow> p AND m = (0 :: u32)"
  by (auto simp: bit_eq_iff bit_simps)

lemma drive_other: "m AND p = 0 \<Longrightarrow> drive x m v AND p = x AND p"
  by (auto simp: drive_def bit_eq_iff bit_simps)

lemma drive_same [simp]: "drive x m v AND m = v AND m"
  by (auto simp: drive_def bit_eq_iff bit_simps)

lemma mask_at: "i < 8 \<Longrightarrow> drop_bit i (0x80 :: u8) = push_bit (7 - i) 1"
proof -
  have "\<forall>i \<in> set [0..<8]. drop_bit i (0x80 :: u8) = push_bit (7 - i) 1" by code_simp
  then show "i < 8 \<Longrightarrow> drop_bit i (0x80 :: u8) = push_bit (7 - i) 1" by simp
qed

lemma mask_bit: "i < 8 \<Longrightarrow> drop_bit i (0x80 :: u8) AND b \<noteq> 0 \<longleftrightarrow> bit b (7 - i)"
  by (simp add: mask_at bit_iff_and_push_bit_not_eq_0 and.commute)

text \<open>While it is selected: the data pin moves, the clock falls, the clock rises.\<close>

lemma listen_data:
  "p AND a = 0 \<Longrightarrow> p AND c = 0 \<Longrightarrow> lv l AND a = 0 \<Longrightarrow> listen a c m (Gpioout p v) l = l\<lparr>lv := drive (lv l) p v\<rparr>"
  by (simp add: listen_def Let_def drive_other)

lemma listen_fall:
  "c AND a = 0 \<Longrightarrow> lv l AND a = 0 \<Longrightarrow> listen a c m (Gpioout c 0) l = l\<lparr>lv := drive (lv l) c 0\<rparr>"
  by (simp add: listen_def Let_def drive_other)

lemma listen_rise:
  "c AND a = 0 \<Longrightarrow> c AND m = 0 \<Longrightarrow> c \<noteq> 0 \<Longrightarrow> lv l AND a = 0 \<Longrightarrow> lv l AND c = 0 \<Longrightarrow>
     listen a c m (Gpioout c c) l = l\<lparr>lv := drive (lv l) c c, cur := cur l @ [lv l AND m \<noteq> 0]\<rparr>"
  by (simp add: listen_def Let_def drive_other)

text \<open>One bit, one byte, many.\<close>

definition same_pins :: "spi_info \<Rightarrow> spi_info \<Rightarrow> bool" where
  "same_pins s t \<longleftrightarrow> ss t = ss s \<and> sck t = sck s \<and> mosi t = mosi s \<and> miso t = miso s"

definition hears :: "listener \<Rightarrow> bool list \<Rightarrow> spi_info \<Rightarrow> spi_info \<Rightarrow> bool" where
  "hears l bs s t \<longleftrightarrow> same_pins s t \<and> cur_page t = cur_page s \<and> lv (ear l t) AND ss t = 0 \<and>
     cur (ear l t) = cur (ear l s) @ bs \<and> heard (ear l t) = heard (ear l s)"

lemma hears_trans: "hears l bs s t \<Longrightarrow> hears l cs t u \<Longrightarrow> hears l (bs @ cs) s u"
  by (auto simp: hears_def same_pins_def)

lemma hears_bit:
  assumes "pins_apart s" "lv (ear l s) AND ss s = 0" "i < 8"
  shows "hears l [bit b (7 - i)] s (spi_write_bit b i s)"
proof -
  note ap = assms(1) [unfolded pins_apart_def]
  have s1: "sck s AND mosi s = 0" "mosi s AND sck s = 0" using ap by (simp_all add: not_and_apart)
  define v where "v = (if drop_bit i 0x80 AND b \<noteq> 0 then mosi s else 0)"
  define x1 where "x1 = drive (lv (ear l s)) (sck s) 0"
  define x2 where "x2 = drive x1 (mosi s) v"
  define x3 where "x3 = drive x2 (sck s) (sck s)"
  have a: "x1 AND ss s = 0" "x2 AND ss s = 0" "x2 AND sck s = 0" "x3 AND ss s = 0" "x3 AND sck s = sck s" "x3 AND mosi s = v AND mosi s"
    using ap assms(2) s1 by (simp_all add: x3_def x2_def x1_def drive_other)
  have x2m: "x2 AND mosi s = v AND mosi s" by (simp add: x2_def)
  have v: "v AND mosi s \<noteq> 0 \<longleftrightarrow> bit b (7 - i)" using ap mask_bit [OF assms(3), of b] by (simp add: v_def)
  have "ear l (spi_write_bit b i s) = (ear l s)\<lparr>lv := x3, cur := cur (ear l s) @ [bit b (7 - i)]\<rparr>"
    using a ap s1 assms(2) v x2m unfolding spi_write_bit_def Let_def
    by (simp add: listen_data listen_fall listen_rise v_def [symmetric] x1_def [symmetric] x2_def [symmetric] x3_def [symmetric]
        split del: if_split cong: if_cong)
  then show ?thesis using a by (simp add: hears_def same_pins_def spi_write_bit_def Let_def)
qed

lemma hears_apart: "hears l bs s t \<Longrightarrow> pins_apart s \<Longrightarrow> pins_apart t"
  by (simp add: hears_def same_pins_def pins_apart_def)

lemma hears_fold:
  assumes "\<And>x s. x \<in> set xs \<Longrightarrow> pins_apart s \<Longrightarrow> lv (ear l s) AND ss s = 0 \<Longrightarrow> hears l (f x) s (g x s)"
    and "pins_apart s" "lv (ear l s) AND ss s = 0"
  shows "hears l (concat (map f xs)) s (fold g xs s)"
  using assms
proof (induction xs arbitrary: s)
  case (Cons x xs)
  have 1: "hears l (f x) s (g x s)" using Cons.prems by simp
  then have "pins_apart (g x s)" "lv (ear l (g x s)) AND ss (g x s) = 0"
    using Cons.prems(2) hears_apart by (auto simp: hears_def)
  then have "hears l (concat (map f xs)) (g x s) (fold g xs (g x s))" using Cons.prems(1) by (intro Cons.IH) simp_all
  from hears_trans [OF 1 this] show ?case by simp
qed (simp add: hears_def same_pins_def)

definition byte_bits :: "u8 \<Rightarrow> bool list" where
  "byte_bits b = map (\<lambda>i. bit b (7 - i)) [0..<8]"

definition bits_of :: "u8 list \<Rightarrow> bool list" where "bits_of bs = concat (map byte_bits bs)"

lemma hears_write:
  assumes "pins_apart s" "lv (ear l s) AND ss s = 0"
  shows "hears l (bits_of bs) s (spi_write bs s)"
  unfolding spi_write_def bits_of_def
proof (rule hears_fold [OF _ assms])
  fix b and s :: spi_info assume s: "pins_apart s" "lv (ear l s) AND ss s = 0"
  have "hears l (concat (map (\<lambda>i. [bit b (7 - i)]) [0..<8])) s (fold (spi_write_bit b) [0..<8] s)"
    by (rule hears_fold [OF _ s]) (simp add: hears_bit)
  then show "hears l (byte_bits b) s (fold (spi_write_bit b) [0..<8] s)" by (simp add: byte_bits_def concat_map_singleton)
qed

lemma bits_of_append: "bits_of (xs @ ys) = bits_of xs @ bits_of ys"
  by (simp add: bits_of_def)

text \<open>Between transactions the slave is not selected. A transaction: select, write, deselect.\<close>

definition says :: "listener \<Rightarrow> bool list list \<Rightarrow> spi_info \<Rightarrow> spi_info \<Rightarrow> bool" where
  "says l frames s t \<longleftrightarrow> same_pins s t \<and> lv (ear l t) AND ss t \<noteq> 0 \<and> heard (ear l t) = heard (ear l s) @ frames"

lemma select_on:
  assumes "pins_apart s" "lv (ear l s) AND ss s \<noteq> 0"
  shows "lv (ear l (spi_select 1 s)) AND ss s = 0" "cur (ear l (spi_select 1 s)) = []"
    "heard (ear l (spi_select 1 s)) = heard (ear l s)" "same_pins s (spi_select 1 s)" "cur_page (spi_select 1 s) = cur_page s"
  using assms by (simp_all add: spi_select_def listen_def Let_def same_pins_def pins_apart_def)

lemma select_off:
  assumes "pins_apart s" "lv (ear l s) AND ss s = 0"
  shows "lv (ear l (spi_select 0 s)) AND ss s \<noteq> 0" "heard (ear l (spi_select 0 s)) = heard (ear l s) @ [cur (ear l s)]"
    "same_pins s (spi_select 0 s)" "cur_page (spi_select 0 s) = cur_page s"
  using assms by (simp_all add: spi_select_def listen_def Let_def same_pins_def pins_apart_def)

lemma says_transaction:
  assumes s: "pins_apart s" "lv (ear l s) AND ss s \<noteq> 0"
    and body: "\<And>s. pins_apart s \<Longrightarrow> lv (ear l s) AND ss s = 0 \<Longrightarrow> hears l bs s (f s)"
  shows "says l [bs] s (spi_select 0 (f (spi_select 1 s)))" "cur_page (spi_select 0 (f (spi_select 1 s))) = cur_page s"
    "pins_apart (spi_select 0 (f (spi_select 1 s)))"
proof -
  note on = select_on [OF s]
  have ss: "ss (spi_select 1 s) = ss s" using on(4) by (simp add: same_pins_def)
  have ap: "pins_apart (spi_select 1 s)" using on(4) s(1) by (simp add: same_pins_def pins_apart_def)
  have h: "hears l bs (spi_select 1 s) (f (spi_select 1 s))" by (rule body [OF ap]) (simp add: ss on)
  have ap2: "pins_apart (f (spi_select 1 s))" using hears_apart [OF h ap] .
  have low: "lv (ear l (f (spi_select 1 s))) AND ss (f (spi_select 1 s)) = 0" using h by (simp add: hears_def)
  note off = select_off [OF ap2 low]
  show "says l [bs] s (spi_select 0 (f (spi_select 1 s)))" "cur_page (spi_select 0 (f (spi_select 1 s))) = cur_page s"
    "pins_apart (spi_select 0 (f (spi_select 1 s)))"
    using on off h ap2 by (simp_all add: says_def hears_def same_pins_def pins_apart_def)
qed

lemma spi_write_append: "spi_write ys (spi_write xs s) = spi_write (xs @ ys) s"
  by (simp add: spi_write_def)

lemma spi_commands: "(push_bit 4 6 OR 1 :: u8) = 0x61" "(push_bit 4 1 :: u8) = 0x10"
  by code_simp+

lemma says_goto:
  assumes "pins_apart s" "lv (ear l s) AND ss s \<noteq> 0"
  shows "says l (if cur_page s = page then [] else [bits_of [0x61, 0xff, page]]) s (spi_goto page s)"
    "cur_page (spi_goto page s) = page" "pins_apart (spi_goto page s)"
proof -
  let ?s = "s\<lparr>cur_page := page\<rparr>"
  have e: "ear l ?s = ear l s" "pins_apart ?s" "lv (ear l ?s) AND ss ?s \<noteq> 0"
    using assms by (simp_all add: ear_def pins_apart_def)
  note t = says_transaction [OF e(2,3), of "bits_of [0x61, 0xff, page]" "spi_write [0x61, 0xff, page]", OF hears_write]
  have g: "spi_goto page s = (if cur_page s = page then s else spi_select 0 (spi_write [0x61, 0xff, page] (spi_select 1 ?s)))"
    by (simp add: spi_goto_def Let_def spi_commands spi_write_append REG_SPI_PAGE_def)
  show "says l (if cur_page s = page then [] else [bits_of [0x61, 0xff, page]]) s (spi_goto page s)"
    "cur_page (spi_goto page s) = page" "pins_apart (spi_goto page s)"
    using t e assms unfolding g by (auto simp: says_def same_pins_def)
qed

lemma says_trans: "says l xs s t \<Longrightarrow> says l ys t u \<Longrightarrow> says l (xs @ ys) s u"
  by (auto simp: says_def same_pins_def)

text \<open>What the slave hears of a register write: the page, unless it is the current one, then command, register and
  value, each as one message of whole bytes. The page is remembered, and the slave is not selected again.\<close>

lemma spi_wreg_heard:
  assumes "pins_apart s" "lv (ear l s) AND ss s \<noteq> 0" "length val \<in> {1, 2, 4}"
  shows "heard (ear l (snd (spi_wreg stk page a val s))) = heard (ear l s) @
      (if cur_page s = page then [] else [bits_of [0x61, 0xff, page]]) @ [bits_of ([0x61, a] @ val)]"
    "cur_page (snd (spi_wreg stk page a val s)) = page" "pins_apart (snd (spi_wreg stk page a val s))"
    "lv (ear l (snd (spi_wreg stk page a val s))) AND ss (snd (spi_wreg stk page a val s)) \<noteq> 0"
proof -
  let ?g = "spi_goto page s" and ?w = "spi_write ([0x61, a] @ val)"
  note g = says_goto [OF assms(1,2), of page]
  have low: "lv (ear l ?g) AND ss ?g \<noteq> 0" using g(1) by (simp add: says_def)
  note t = says_transaction [OF g(3) low, of "bits_of ([0x61, a] @ val)" ?w, OF hears_write]
  have w: "snd (spi_wreg stk page a val s) = spi_select 0 (?w (spi_select 1 ?g))"
    using assms(3) by (simp add: spi_wreg_def Let_def spi_commands spi_write_append)
  show "heard (ear l (snd (spi_wreg stk page a val s))) = heard (ear l s) @
      (if cur_page s = page then [] else [bits_of [0x61, 0xff, page]]) @ [bits_of ([0x61, a] @ val)]"
    "cur_page (snd (spi_wreg stk page a val s)) = page" "pins_apart (snd (spi_wreg stk page a val s))"
    "lv (ear l (snd (spi_wreg stk page a val s))) AND ss (snd (spi_wreg stk page a val s)) \<noteq> 0"
    using says_trans [OF g(1) t(1)] t(2,3) g(2) unfolding w by (simp_all add: says_def)
qed

section \<open>Reading\<close>

text \<open>The slave answers with bytes, highest bits first, from the sample after \<open>n\<close> samples on.\<close>

definition samples :: "pin_ev list \<Rightarrow> nat" where
  "samples h = length (filter (\<lambda>e. case e of Gpioin _ \<Rightarrow> True | _ \<Rightarrow> False) h)"

definition slave_sends :: "gpio_in \<Rightarrow> u32 \<Rightarrow> nat \<Rightarrow> u8 list \<Rightarrow> bool" where
  "slave_sends inp m n bs \<longleftrightarrow>
     (\<forall>h. n \<le> samples h \<and> samples h < n + 8 * length bs \<longrightarrow>
        (inp h AND m \<noteq> 0 \<longleftrightarrow> bit (bs ! ((samples h - n) div 8)) (7 - (samples h - n) mod 8)))"

lemma samples_simps [simp]:
  "samples [] = 0" "samples (h @ g) = samples h + samples g" "samples [Gpioin v] = 1" "samples [Gpioout p q] = 0"
  "samples [Osl_delay d] = 0" "samples [Robo_error e] = 0"
  by (simp_all add: samples_def)

lemma slave_sends_tl: "slave_sends inp m n (b # bs) \<Longrightarrow> slave_sends inp m (n + 8) bs"
  unfolding slave_sends_def
proof (intro allI impI)
  fix h assume all: "\<forall>h. n \<le> samples h \<and> samples h < n + 8 * length (b # bs) \<longrightarrow>
      (inp h AND m \<noteq> 0 \<longleftrightarrow> bit ((b # bs) ! ((samples h - n) div 8)) (7 - (samples h - n) mod 8))"
    and h: "n + 8 \<le> samples h \<and> samples h < n + 8 + 8 * length bs"
  define k where "k = samples h - (n + 8)"
  have k: "samples h - n = k + 8" using h by (simp add: k_def)
  have d: "(k + 8) div 8 = Suc (k div 8)" by simp
  show "inp h AND m \<noteq> 0 \<longleftrightarrow> bit (bs ! ((samples h - (n + 8)) div 8)) (7 - (samples h - (n + 8)) mod 8)"
    using all [rule_format, of h] h k d unfolding k_def [symmetric] by simp
qed

lemma read_bits:
  assumes "slave_sends inp (miso s) (samples (pin_log s)) (b # bs)" "j \<le> 8"
  shows "\<exists>c t. fold (spi_read_bit inp) [0..<j] (0, s) = (c, t) \<and> (\<forall>i < 8. bit c (7 - i) \<longleftrightarrow> i < j \<and> bit b (7 - i)) \<and>
      samples (pin_log t) = samples (pin_log s) + j \<and> miso t = miso s"
  using assms(2)
proof (induction j)
  case (Suc j)
  then obtain c t where t: "fold (spi_read_bit inp) [0..<j] (0, s) = (c, t)" "\<forall>i < 8. bit c (7 - i) \<longleftrightarrow> i < j \<and> bit b (7 - i)"
      "samples (pin_log t) = samples (pin_log s) + j" "miso t = miso s" by auto
  define h where "h = pin_log t @ [Gpioout (sck t) 0, Osl_delay SCK_EDGE_TIME]"
  have sh: "samples h = samples (pin_log s) + j" using t(3) by (simp add: h_def samples_def)
  have bit: "inp h AND miso s \<noteq> 0 \<longleftrightarrow> bit b (7 - j)"
    using assms(1) [unfolded slave_sends_def, rule_format, of h] sh Suc.prems by simp
  define c' where "c' = (if inp h AND miso s \<noteq> 0 then c OR drop_bit j 0x80 else c)"
  define t' where "t' = pin_call (Osl_delay SCK_EDGE_TIME) (pin_call (Gpioout (sck t) (sck t)) (pin_call (Gpioin (inp h))
      (pin_call (Osl_delay SCK_EDGE_TIME) (pin_call (Gpioout (sck t) 0) t))))"
  have "fold (spi_read_bit inp) [0..<Suc j] (0, s) = (c', t')"
    using t(1,4) by (simp add: spi_read_bit_def Let_def sb_gpioin_def h_def c'_def t'_def)
  moreover have "bit c' (7 - i) \<longleftrightarrow> i < Suc j \<and> bit b (7 - i)" if i: "i < 8" for i
  proof -
    have "bit (push_bit (7 - j) (1 :: u8)) (7 - i) \<longleftrightarrow> i = j" using i Suc.prems by (auto simp: bit_simps)
    then show ?thesis using t(2) [rule_format, OF i] bit Suc.prems by (auto simp: c'_def mask_at bit_or_iff less_Suc_eq)
  qed
  moreover have "samples (pin_log t') = samples (pin_log s) + Suc j" "miso t' = miso s"
    using t(3,4) by (simp_all add: t'_def samples_def)
  ultimately show ?case by blast
qed simp

lemma read_byte:
  assumes "slave_sends inp (miso s) (samples (pin_log s)) (b # bs)"
  obtains t where "spi_read_byte inp s = (b, t)" "samples (pin_log t) = samples (pin_log s) + 8" "miso t = miso s"
    "slave_sends inp (miso t) (samples (pin_log t)) bs"
proof -
  obtain c t where t: "fold (spi_read_bit inp) [0..<8] (0, s) = (c, t)" "\<forall>i < 8. bit c (7 - i) \<longleftrightarrow> i < 8 \<and> bit b (7 - i)"
      "samples (pin_log t) = samples (pin_log s) + 8" "miso t = miso s" using read_bits [OF assms, of 8] by auto
  have "c = b"
  proof (rule bit_word_eqI)
    fix n assume "n < LENGTH(8)"
    then show "bit c n \<longleftrightarrow> bit b n" using t(2) [rule_format, of "7 - n"] by simp
  qed
  then show thesis using t slave_sends_tl [OF assms] by (intro that [of t]) (simp_all add: spi_read_byte_def)
qed

lemma read_acked:
  assumes "slave_sends inp (miso s) (samples (pin_log s)) bs" "rack \<noteq> 0" "timeout \<noteq> 0"
  shows "\<exists>t. spi_read_loop inp (length got + length bs) got rack timeout s = (got @ bs, timeout, t)"
  using assms
proof (induction bs arbitrary: got s)
  case (Cons b bs)
  obtain t where t: "spi_read_byte inp s = (b, t)" "slave_sends inp (miso t) (samples (pin_log t)) bs"
    by (rule read_byte [OF Cons.prems(1)])
  then show ?case using Cons.IH [OF t(2) Cons.prems(2,3), of "got @ [b]"] Cons.prems(2,3)
    by (subst spi_read_loop.simps) simp
qed (subst spi_read_loop.simps, simp)

lemma read_waiting:
  assumes "slave_sends inp (miso s) (samples (pin_log s)) (pre @ bs)" "\<forall>w \<in> set pre. w AND 1 = 0" "length pre < timeout" "0 < n"
  shows "\<exists>t. spi_read_loop inp n [] 0 timeout s = spi_read_loop inp n [] 0 (timeout - length pre) t \<and>
    slave_sends inp (miso t) (samples (pin_log t)) bs"
  using assms
proof (induction pre arbitrary: s timeout)
  case Nil
  then show ?case by (intro exI [of _ s]) simp
next
  case (Cons w pre)
  have "slave_sends inp (miso s) (samples (pin_log s)) (w # pre @ bs)" using Cons.prems(1) by simp
  then obtain u where u: "spi_read_byte inp s = (w, u)" "slave_sends inp (miso u) (samples (pin_log u)) (pre @ bs)"
    by (rule read_byte)
  have "\<forall>w \<in> set pre. w AND 1 = 0" "length pre < timeout - 1" using Cons.prems(2,3) by auto
  from Cons.IH [OF u(2) this Cons.prems(4)] obtain t where
    t: "spi_read_loop inp n [] 0 (timeout - 1) u = spi_read_loop inp n [] 0 (timeout - 1 - length pre) t"
    "slave_sends inp (miso t) (samples (pin_log t)) bs" by blast
  have "w AND 1 = 0" "timeout \<noteq> 0" using Cons.prems(2,3) by auto
  then have "spi_read_loop inp n [] 0 timeout s = spi_read_loop inp n [] 0 (timeout - 1) u"
    using u(1) Cons.prems(4) by (subst spi_read_loop.simps) simp
  then show ?case using t by (intro exI [of _ t]) simp
qed

text \<open>A slave that acknowledges within the first 99 bytes is read right; one that has not is given up, even if the
  hundredth byte is the acknowledgement.\<close>

lemma spi_read_answered:
  assumes "slave_sends inp (miso s) (samples (pin_log s)) (pre @ [ack] @ bs)" "\<forall>w \<in> set pre. w AND 1 = 0"
    "ack AND 1 \<noteq> 0" "length pre < 99" "length buf = length bs"
  shows "\<exists>t. spi_read inp buf s = (0, bs, t)"
proof (cases "bs = []")
  case True
  then show ?thesis using assms(5) by (simp add: spi_read_def spi_read_loop.simps [of inp 0] SPI_MAX_RETRY_def)
next
  case False
  then obtain t where t: "spi_read_loop inp (length bs) [] 0 100 s = spi_read_loop inp (length bs) [] 0 (100 - length pre) t"
    "slave_sends inp (miso t) (samples (pin_log t)) (ack # bs)"
    using read_waiting [of inp s pre "ack # bs" 100 "length bs"] assms by auto
  obtain u where u: "spi_read_byte inp t = (ack, u)" "slave_sends inp (miso u) (samples (pin_log u)) bs"
    by (rule read_byte [OF t(2)])
  obtain v where "spi_read_loop inp (length bs) [] (ack AND 1) (99 - length pre) u = (bs, 99 - length pre, v)"
    using read_acked [OF u(2) assms(3), of "99 - length pre" "[]"] assms(4) by auto
  moreover have "spi_read_loop inp (length bs) [] 0 (100 - length pre) t = spi_read_loop inp (length bs) [] (ack AND 1) (99 - length pre) u"
    using u(1) assms(4) False by (subst spi_read_loop.simps) simp
  ultimately show ?thesis using t(1) assms(4,5) by (simp add: spi_read_def SPI_MAX_RETRY_def Let_def)
qed

lemma spi_read_given_up:
  assumes "slave_sends inp (miso s) (samples (pin_log s)) (pre @ [late])" "\<forall>w \<in> set pre. w AND 1 = 0"
    "length pre = 99" "buf \<noteq> []"
  shows "\<exists>t. spi_read inp buf s = (- 1, buf, t)"
proof -
  obtain t where t: "spi_read_loop inp (length buf) [] 0 100 s = spi_read_loop inp (length buf) [] 0 1 t"
    "slave_sends inp (miso t) (samples (pin_log t)) [late]"
    using read_waiting [of inp s pre "[late]" 100 "length buf"] assms by auto
  obtain u where u: "spi_read_byte inp t = (late, u)" by (rule read_byte [OF t(2)])
  have "spi_read_loop inp (length buf) [] 0 1 t = ([], 0, u)"
    using u(1) assms(4) by (subst spi_read_loop.simps) (simp add: spi_read_loop.simps)
  then show ?thesis using t(1) by (simp add: spi_read_def SPI_MAX_RETRY_def Let_def)
qed

lemma spi_write_quiet [simp]:
  "samples (pin_log (spi_write bs s)) = samples (pin_log s)" "miso (spi_write bs s) = miso s"
proof -
  have b: "samples (pin_log (fold (spi_write_bit b) xs s)) = samples (pin_log s) \<and> miso (fold (spi_write_bit b) xs s) = miso s" for b xs s
    by (induction xs arbitrary: s) (simp_all add: spi_write_bit_def Let_def samples_def)
  show "samples (pin_log (spi_write bs s)) = samples (pin_log s)" "miso (spi_write bs s) = miso s"
    unfolding spi_write_def by (induction bs arbitrary: s) (simp_all add: b)
qed

lemma spi_select_quiet [simp]:
  "samples (pin_log (spi_select v s)) = samples (pin_log s)" "miso (spi_select v s) = miso s"
  by (simp_all add: spi_select_def samples_def)

lemma spi_goto_quiet [simp]:
  "samples (pin_log (spi_goto p s)) = samples (pin_log s)" "miso (spi_goto p s) = miso s"
  by (simp_all add: spi_goto_def Let_def)

text \<open>A register is read as the slave sends it; without an acknowledgement the value is what the stack held.\<close>

lemma spi_rreg_reads:
  assumes "slave_sends inp (miso s) (samples (pin_log s)) (pre @ [ack] @ bs)" "\<forall>w \<in> set pre. w AND 1 = 0"
    "ack AND 1 \<noteq> 0" "length pre < 99" "length val = length bs" "length bs \<in> {1, 2, 4}" "length stk = 4"
  shows "fst (spi_rreg inp stk page a val s) = 0 \<and> fst (snd (spi_rreg inp stk page a val s)) = bs"
proof -
  define u where "u = spi_write [a] (spi_write [0x10] (spi_select 1 (spi_goto page s)))"
  have "slave_sends inp (miso u) (samples (pin_log u)) (pre @ [ack] @ bs)" using assms(1) by (simp add: u_def)
  moreover have "length (take (length val) stk) = length bs" using assms(5-7) by auto
  ultimately obtain t where "spi_read inp (take (length val) stk) u = (0, bs, t)"
    using spi_read_answered assms(2-4) by blast
  then show ?thesis using assms(5,6) by (simp add: spi_rreg_def Let_def spi_commands u_def [symmetric])
qed

lemma spi_rreg_junk:
  assumes "slave_sends inp (miso s) (samples (pin_log s)) (pre @ [late])" "\<forall>w \<in> set pre. w AND 1 = 0"
    "length pre = 99" "length val \<in> {1, 2, 4}" "length stk = 4"
  shows "fst (spi_rreg inp stk page a val s) = - 1 \<and> fst (snd (spi_rreg inp stk page a val s)) = take (length val) stk"
proof -
  define u where "u = spi_write [a] (spi_write [0x10] (spi_select 1 (spi_goto page s)))"
  have "slave_sends inp (miso u) (samples (pin_log u)) (pre @ [late])" using assms(1) by (simp add: u_def)
  moreover have "take (length val) stk \<noteq> []" using assms(4,5) by auto
  ultimately obtain t where "spi_read inp (take (length val) stk) u = (- 1, take (length val) stk, t)"
    using spi_read_given_up assms(2,3) by blast
  then show ?thesis using assms(4) by (simp add: spi_rreg_def Let_def spi_commands u_def [symmetric])
qed

section \<open>The management bus\<close>

definition PSEUDO_PHYAD :: u32 where "PSEUDO_PHYAD = 0x1e"
definition REG_MII_PAGE :: u32 where "REG_MII_PAGE = 0x10"
definition REG_MII_ADDR :: u32 where "REG_MII_ADDR = 0x11"
definition REG_MII_DATA0 :: u32 where "REG_MII_DATA0 = 0x18"
definition REG_MII_DATA1 :: u32 where "REG_MII_DATA1 = 0x19"
definition MII_MAX_RETRY :: nat where "MII_MAX_RETRY = 100"
definition INVAL_DEVID :: u32 where "INVAL_DEVID = - 1"

definition phywr :: "u32 \<Rightarrow> u16 \<Rightarrow> spi_info \<Rightarrow> spi_info" where
  "phywr r v s = pin_call (Phywr PSEUDO_PHYAD r v) s"

definition mii_page :: "u8 \<Rightarrow> spi_info \<Rightarrow> spi_info" where
  "mii_page page s =
     (if cur_page s \<noteq> page
      then (let s = phywr REG_MII_PAGE (push_bit 8 (ucast page) OR 1) s in s\<lparr>cur_page := page\<rparr>) else s)"

text \<open>Whether the command has been carried out within so many readings.\<close>

fun mii_poll :: "phy_in \<Rightarrow> nat \<Rightarrow> spi_info \<Rightarrow> bool \<times> spi_info" where
  "mii_poll phy 0 s = (False, s)"
| "mii_poll phy (Suc i) s =
     (let (v, s) = phyrd phy PSEUDO_PHYAD REG_MII_ADDR s in if v AND 3 = 0 then (True, s) else mii_poll phy i s)"

definition mii_wreg_chop :: "phy_in \<Rightarrow> u8 \<Rightarrow> u8 \<Rightarrow> u8 list \<Rightarrow> spi_info \<Rightarrow> int \<times> spi_info" where
  "mii_wreg_chop phy page reg val s =
     (let s = mii_page page s;
          s = (if length val = 1 then phywr REG_MII_DATA0 (ucast (val ! 0)) s
               else if length val = 2 then phywr REG_MII_DATA0 (ucast (val ! 0) OR push_bit 8 (ucast (val ! 1))) s
               else if length val = 4
                 then phywr REG_MII_DATA1 (ucast (val ! 2) OR push_bit 8 (ucast (val ! 3)))
                   (phywr REG_MII_DATA0 (ucast (val ! 0) OR push_bit 8 (ucast (val ! 1))) s)
               else s);
          s = phywr REG_MII_ADDR (push_bit 8 (ucast reg) OR 1) s;
          (done, s) = mii_poll phy MII_MAX_RETRY s
      in if done then (0, s) else (- 1, pin_call (Robo_error ''mii_wreg: timeout'') s))"

definition mii_rreg_chop :: "phy_in \<Rightarrow> u8 \<Rightarrow> u8 \<Rightarrow> u8 list \<Rightarrow> spi_info \<Rightarrow> int \<times> u8 list \<times> spi_info" where
  "mii_rreg_chop phy page reg val s =
     (let s = mii_page page s;
          s = phywr REG_MII_ADDR (push_bit 8 (ucast reg) OR 2) s;
          (done, s) = mii_poll phy MII_MAX_RETRY s
      in if \<not> done then (- 1, val, pin_call (Robo_error ''mii_rreg: timeout'') s)
         else if length val \<in> {1, 2}
           then (let (v, s) = phyrd phy PSEUDO_PHYAD REG_MII_DATA0 s
                 in (0, if length val = 1 then [ucast v] else [ucast v, ucast (drop_bit 8 v)], s))
         else if length val = 4
           then (let (v, s) = phyrd phy PSEUDO_PHYAD REG_MII_DATA0 s;
                     (w, s) = phyrd phy PSEUDO_PHYAD REG_MII_DATA1 s
                 in (0, bytes32 (ucast v + push_bit 16 (ucast w)), s))
         else (0, val, s))"

section \<open>Attachment\<close>

text \<open>The operations a switch is reached by. Memory may be refused (\<open>alloc\<close>), and a pin may be taken: \<open>getgpiopin\<close>
  answers a variable's name and default pin.\<close>

definition write_reg :: "phy_in \<Rightarrow> u8 list \<Rightarrow> u8 \<Rightarrow> u8 \<Rightarrow> u8 list \<Rightarrow> spi_info \<Rightarrow> int \<times> spi_info" where
  "write_reg phy stk page reg val s =
     (case dev_op s of Bcm5325 \<Rightarrow> spi_wreg stk page reg val s | Bcm5325e \<Rightarrow> mii_wreg_chop phy page reg val s)"

definition read_reg ::
  "gpio_in \<Rightarrow> phy_in \<Rightarrow> u8 list \<Rightarrow> u8 \<Rightarrow> u8 \<Rightarrow> u8 list \<Rightarrow> spi_info \<Rightarrow> int \<times> u8 list \<times> spi_info" where
  "read_reg inp phy stk page reg val s =
     (case dev_op s of Bcm5325 \<Rightarrow> spi_rreg inp stk page reg val s | Bcm5325e \<Rightarrow> mii_rreg_chop phy page reg val s)"

definition robo_attach_sb :: "bool \<Rightarrow> (string \<Rightarrow> nat \<Rightarrow> nat option) \<Rightarrow> phy_in \<Rightarrow> spi_info option" where
  "robo_attach_sb alloc getgpiopin phy =
     (if \<not> alloc then None
      else
        let s = \<lparr>devid = 0, dev_op = Bcm5325e, cur_page = - 1, ss = 0, sck = 0, mosi = 0, miso = 0, pin_log = []\<rparr>;
            (lo, s) = phyrd phy PSEUDO_PHYAD 2 s;
            (hi, s) = phyrd phy PSEUDO_PHYAD 3 s;
            s = s\<lparr>devid := ucast lo OR push_bit 16 (ucast hi)\<rparr>
        in if devid s = INVAL_DEVID
           then (case getgpiopin ''robo_ss'' 2 of None \<Rightarrow> None | Some p \<Rightarrow>
                 case getgpiopin ''robo_sck'' 3 of None \<Rightarrow> None | Some q \<Rightarrow>
                 case getgpiopin ''robo_mosi'' 4 of None \<Rightarrow> None | Some r \<Rightarrow>
                 case getgpiopin ''robo_miso'' 5 of None \<Rightarrow> None | Some t \<Rightarrow>
                   Some (s\<lparr>ss := push_bit p 1, sck := push_bit q 1, mosi := push_bit r 1, miso := push_bit t 1,
                     dev_op := Bcm5325\<rparr>))
           else Some (s\<lparr>dev_op := Bcm5325e\<rparr>))"

text \<open>A switch that does not answer on the management bus is reached over the pins: what is set up is ready for the
  transfers above.\<close>

lemma attach_ready:
  assumes "robo_attach_sb alloc getgpiopin phy = Some s" "dev_op s = Bcm5325"
    and pins: "getgpiopin ''robo_ss'' 2 = Some p" "getgpiopin ''robo_sck'' 3 = Some q" "getgpiopin ''robo_mosi'' 4 = Some r"
      "distinct [p, q, r]" "p < 32" "q < 32" "r < 32"
  shows "pins_apart s \<and> lv (ear l (gpio_enable s)) AND ss s \<noteq> 0 \<and> pins_apart (gpio_enable s)"
proof -
  have "ss s = push_bit p 1 \<and> sck s = push_bit q 1 \<and> mosi s = push_bit r 1"
    using assms(1-5) by (auto simp: robo_attach_sb_def Let_def split_def simp del: push_bit_of_1 split: if_splits option.splits)
  moreover have "push_bit a (1 :: u32) \<noteq> 0" if "a < 32" for a
  proof -
    have "bit (push_bit a (1 :: u32)) a" using that by (simp add: bit_simps)
    then show ?thesis by (metis bit_0_eq bot_apply bot_bool_def)
  qed
  moreover have "push_bit a (1 :: u32) AND push_bit b 1 = 0" if "a \<noteq> b" for a b
    using that by (auto simp: bit_eq_iff bit_simps)
  ultimately have ap: "pins_apart s" using pins(4-7) by (simp add: pins_apart_def)
  have "lv (ear l (gpio_enable s)) AND ss s = ss s"
    by (auto simp: gpio_enable_def listen_def Let_def drive_def bit_eq_iff bit_simps)
  then show ?thesis using ap by (simp add: gpio_enable_def pins_apart_def)
qed

text \<open>The value written over the bus arrives in its data registers before the command.\<close>

lemma mii_poll_log: "\<exists>vs. pin_log (snd (mii_poll phy n s)) = pin_log s @ map (Phyrd PSEUDO_PHYAD REG_MII_ADDR) vs \<and> length vs \<le> n"
proof (induction n arbitrary: s)
  case 0
  then show ?case by (intro exI [of _ "[]"]) simp
next
  case (Suc n)
  define v where "v = phy (pin_log s) PSEUDO_PHYAD REG_MII_ADDR"
  define t where "t = pin_call (Phyrd PSEUDO_PHYAD REG_MII_ADDR v) s"
  obtain vs where vs: "pin_log (snd (mii_poll phy n t)) = pin_log t @ map (Phyrd PSEUDO_PHYAD REG_MII_ADDR) vs" "length vs \<le> n"
    using Suc.IH [of t] by blast
  then show ?case
    by (cases "v AND 3 = 0")
       (rule exI [of _ "[v]"], simp add: phyrd_def Let_def v_def [symmetric] t_def [symmetric], simp add: t_def,
        rule exI [of _ "v # vs"], simp add: phyrd_def Let_def v_def [symmetric] t_def [symmetric], simp add: t_def)
qed

definition bus_writes :: "pin_ev list \<Rightarrow> (u32 \<times> u32 \<times> u16) list" where
  "bus_writes h = concat (map (\<lambda>e. case e of Phywr a r v \<Rightarrow> [(a, r, v)] | _ \<Rightarrow> []) h)"

lemma bus_writes_poll: "bus_writes (pin_log (snd (mii_poll phy n s))) = bus_writes (pin_log s)"
proof -
  obtain vs where "pin_log (snd (mii_poll phy n s)) = pin_log s @ map (Phyrd PSEUDO_PHYAD REG_MII_ADDR) vs"
    using mii_poll_log by blast
  moreover have "bus_writes (map (Phyrd a r) vs) = []" for a r by (induction vs) (simp_all add: bus_writes_def)
  ultimately show ?thesis by (simp add: bus_writes_def)
qed

lemma mii_wreg_writes:
  assumes "val = [x, y]"
  shows "bus_writes (pin_log (snd (mii_wreg_chop phy page reg val s))) = bus_writes (pin_log s) @
     (if cur_page s = page then [] else [(0x1e, 0x10, push_bit 8 (ucast page) OR 1)]) @
     [(0x1e, 0x18, ucast x OR push_bit 8 (ucast y)), (0x1e, 0x11, push_bit 8 (ucast reg) OR 1)]"
  using assms
  by (simp add: mii_wreg_chop_def mii_page_def phywr_def Let_def split_def bus_writes_poll)
     (auto simp: bus_writes_def bus_writes_poll [unfolded bus_writes_def] PSEUDO_PHYAD_def REG_MII_PAGE_def REG_MII_DATA0_def REG_MII_ADDR_def)

end
