(* ===== verification/HwAddr.thy ===== *)
theory HwAddr
  imports Prelude
begin

text \<open>
  \<^verbatim>\<open>enet_parse_hwaddr\<close> of \<^verbatim>\<open>cfe/net_ether.c\<close>: the text form of a hardware address. A C string is
  its characters before the terminating zero; the address is the six bytes of the caller, of
  which the parser overwrites as many as it reads.
\<close>

definition ENET_ADDR_LEN :: nat where "ENET_ADDR_LEN = 6"

definition enet_parse_xdigit :: "char \<Rightarrow> int" where
  "enet_parse_xdigit c =
     (let n = int (of_char c :: nat)
      in if 48 \<le> n \<and> n \<le> 57 then n - 48
         else if 97 \<le> n \<and> n \<le> 102 then n - 97 + 10
         else if 65 \<le> n \<and> n \<le> 70 then n - 65 + 10
         else -1)"

definition is_sep :: "char \<Rightarrow> bool" where
  "is_sep c \<longleftrightarrow> c = CHR '':'' \<or> c = CHR ''-''"

text \<open>The loop, with \<open>pos\<close> the number of bytes stored so far (\<^verbatim>\<open>idx\<close> is \<open>6 - pos\<close>).\<close>

function parse_loop :: "string \<Rightarrow> nat \<Rightarrow> u8 list \<Rightarrow> int \<times> u8 list" where
  "parse_loop [] pos hw = (0, hw)"
| "parse_loop (c # str) pos hw =
     (if pos \<ge> ENET_ADDR_LEN then (0, hw)
      else
        let digit1 = enet_parse_xdigit c
        in if digit1 < 0 then (-1, hw)
           else case str of
             [] \<Rightarrow> (-1, hw)
           | d # str' \<Rightarrow>
               (let skip = (\<lambda>s. case s of [] \<Rightarrow> [] | e # s' \<Rightarrow> if is_sep e then s' else s)
                in if is_sep d then
                     parse_loop (skip str) (pos + 1) (hw[pos := of_int digit1])
                   else
                     let digit2 = enet_parse_xdigit d
                     in if digit2 < 0 then (-1, hw)
                        else parse_loop (skip str') (pos + 1)
                               (hw[pos := of_int (push_bit 4 digit1 OR digit2)])))"
  by pat_completeness auto
termination
  by (relation "measure (\<lambda>(str, pos, hw). length str)")
    (auto split: list.split simp: le_imp_less_Suc)

definition enet_parse_hwaddr :: "string \<Rightarrow> u8 list \<Rightarrow> int \<times> u8 list" where
  "enet_parse_hwaddr str hw = parse_loop str 0 hw"

section \<open>The text form of an address\<close>

definition hex_digit :: "nat \<Rightarrow> char" where
  "hex_digit n = (if n < 10 then char_of (48 + n) else char_of (87 + n))"

definition hex_byte :: "u8 \<Rightarrow> string" where
  "hex_byte b = [hex_digit (unat b div 16), hex_digit (unat b mod 16)]"

text \<open>Bytes joined by a separator.\<close>

fun hwaddr_text :: "char \<Rightarrow> u8 list \<Rightarrow> string" where
  "hwaddr_text sep [] = []"
| "hwaddr_text sep [b] = hex_byte b"
| "hwaddr_text sep (b # bs) = hex_byte b @ sep # hwaddr_text sep bs"

lemma xdigit_hex: "n < 16 \<Longrightarrow> enet_parse_xdigit (hex_digit n) = int n"
  by (auto simp: enet_parse_xdigit_def hex_digit_def Let_def)

lemma hex_not_sep: "n < 16 \<Longrightarrow> \<not> is_sep (hex_digit n)"
proof -
  assume n: "n < 16"
  have "of_char (CHR '':'') = (58 :: nat)" "of_char (CHR ''-'') = (45 :: nat)" by simp_all
  moreover have "of_char (hex_digit n) = (if n < 10 then 48 + n else 87 + n)"
    using n by (simp add: hex_digit_def)
  ultimately show ?thesis using n unfolding is_sep_def by (auto split: if_splits)
qed

lemma hex_byte_value: "of_int (push_bit 4 (int (unat b div 16)) OR int (unat b mod 16)) = (b :: u8)"
proof -
  have "push_bit 4 (int (unat b div 16)) OR int (unat b mod 16)
      = push_bit 4 (drop_bit 4 (int (unat b))) OR take_bit 4 (int (unat b))"
    by (simp add: drop_bit_eq_div take_bit_eq_mod zdiv_int zmod_int)
  also have "\<dots> = int (unat b)" by (rule bit_eqI) (auto simp: bit_simps)
  finally show ?thesis by simp
qed

text \<open>One byte of text is stored and the separator after it skipped.\<close>

lemma parse_byte:
  assumes "pos < 6" "is_sep sep"
  shows "parse_loop (hex_byte b @ sep # str) pos hw = parse_loop str (pos + 1) (hw[pos := b])"
    and "parse_loop (hex_byte b) pos hw = (0, hw[pos := b])"
proof -
  have "unat b < 256" using unsigned_less [of b, where ?'a = nat] by simp
  then have d: "unat b div 16 < 16" "unat b mod 16 < 16" by simp_all
  then show "parse_loop (hex_byte b @ sep # str) pos hw = parse_loop str (pos + 1) (hw[pos := b])"
    "parse_loop (hex_byte b) pos hw = (0, hw[pos := b])"
    using assms
    by (simp_all only: hex_byte_def append.simps parse_loop.simps Let_def xdigit_hex hex_not_sep list.case
        ENET_ADDR_LEN_def hex_byte_value) simp_all
qed

lemma parse_text:
  assumes "is_sep sep"
  shows "pos + length bs \<le> 6 \<Longrightarrow> length hw = 6 \<Longrightarrow>
    parse_loop (hwaddr_text sep bs) pos hw = (0, take pos hw @ bs @ drop (pos + length bs) hw)"
proof (induction bs arbitrary: pos hw)
  case Nil
  then show ?case by simp
next
  case (Cons b bs)
  have pos: "pos < 6" using Cons.prems by simp
  show ?case
  proof (cases bs)
    case Nil
    then show ?thesis
      using parse_byte(2) [OF pos assms, of b hw] Cons.prems by (simp add: list_update_take_drop)
  next
    case c: (Cons c cs)
    have "parse_loop (hwaddr_text sep (b # bs)) pos hw = parse_loop (hwaddr_text sep bs) (pos + 1) (hw[pos := b])"
      using parse_byte(1) [OF pos assms] c by simp
    also have "\<dots> = (0, take (pos + 1) (hw[pos := b]) @ bs @ drop (pos + 1 + length bs) (hw[pos := b]))"
      using Cons.prems by (intro Cons.IH) simp_all
    finally show ?thesis using Cons.prems by (simp add: list_update_take_drop)
  qed
qed


section \<open>Properties\<close>

text \<open>C18: The parser reads back every hardware address from its text, with either separator, and
  stores all six bytes.\<close>
theorem hwaddr_round_trip:
  assumes "length bs = 6" "length hw = 6" "sep = CHR '':'' \<or> sep = CHR ''-''"
  shows "enet_parse_hwaddr (hwaddr_text sep bs) hw = (0, bs)"
  using parse_text [of sep 0 bs hw] assms by (simp add: enet_parse_hwaddr_def is_sep_def)

lemma hwaddr_round_trip_witness:
  "enet_parse_hwaddr (hwaddr_text (CHR '':'') [2, 0, 0, 0x47, 0x10, 0xfe]) (replicate 6 0)
     = (0, [2, 0, 0, 0x47, 0x10, 0xfe])"
  using hwaddr_round_trip [of "[2, 0, 0, 0x47, 0x10, 0xfe]" "replicate 6 0" "CHR '':''"] by simp

text \<open>A proper prefix of an address at a byte boundary is accepted as well: the result is 0
  although the last bytes keep what they held.\<close>
theorem hwaddr_prefix_accepted:
  assumes "length bs < 6" "length hw = 6"
  shows "enet_parse_hwaddr (hwaddr_text (CHR '':'') bs) hw = (0, bs @ drop (length bs) hw)"
  using parse_text [of "CHR '':''" 0 bs hw] assms by (simp add: enet_parse_hwaddr_def is_sep_def)

lemma hwaddr_prefix_accepted_witness:
  "enet_parse_hwaddr (hwaddr_text (CHR '':'') [2, 0]) (replicate 6 9) = (0, [2, 0, 9, 9, 9, 9])"
  using hwaddr_prefix_accepted [of "[2, 0]" "replicate 6 9"] by (simp add: eval_nat_numeral)

end
