(* ===== verification/MacDriver.thy ===== *)
theory MacDriver
  imports Robo HwAddr
begin

text \<open>
  The Ethernet driver \<^verbatim>\<open>cfe/dev_sb_mac.c\<close>, third part: link setup, hardware initialisation, the
  interrupt service routine, start and stop, the attach function for the on-chip core, the
  device functions behind the dispatch table and the two entry points of the network glue,
  \<^verbatim>\<open>cfe_ether_init\<close> and \<^verbatim>\<open>cfe_output\<close>. A result \<open>None\<close> means that the code does not return.
  Console messages are left out.
\<close>

section \<open>Registers\<close>

definition R_INT_STATUS :: u32 where "R_INT_STATUS = 0x020"
definition R_INT_MASK :: u32 where "R_INT_MASK = 0x024"
definition R_GP_TIMER :: u32 where "R_GP_TIMER = 0x028"
definition R_EMAC_XMT_MAX_BURST :: u32 where "R_EMAC_XMT_MAX_BURST = 0x0A0"
definition R_EMAC_RCV_MAX_BURST :: u32 where "R_EMAC_RCV_MAX_BURST = 0x0A4"
definition R_EMAC_CONTROL :: u32 where "R_EMAC_CONTROL = 0x0A8"
definition R_INT_RECV_LAZY :: u32 where "R_INT_RECV_LAZY = 0x100"
definition R_XMT_CONTROL :: u32 where "R_XMT_CONTROL = 0x200"
definition R_XMT_ADDR :: u32 where "R_XMT_ADDR = 0x204"
definition R_RCV_CONTROL :: u32 where "R_RCV_CONTROL = 0x210"
definition R_RCV_ADDR :: u32 where "R_RCV_ADDR = 0x214"
definition R_RCV_CONFIG :: u32 where "R_RCV_CONFIG = 0x400"
definition R_RCV_MAX_LENGTH :: u32 where "R_RCV_MAX_LENGTH = 0x404"
definition R_XMT_MAX_LENGTH :: u32 where "R_XMT_MAX_LENGTH = 0x408"
definition R_CAM_DATA_L :: u32 where "R_CAM_DATA_L = 0x420"
definition R_CAM_DATA_H :: u32 where "R_CAM_DATA_H = 0x424"
definition R_CAM_CONTROL :: u32 where "R_CAM_CONTROL = 0x428"
definition R_XMT_CONTROL1 :: u32 where "R_XMT_CONTROL1 = 0x430"
definition R_SBTPSFLAG :: u32 where "R_SBTPSFLAG = 0xF18"
definition R_SBIMSTATE :: u32 where "R_SBIMSTATE = 0xF90"
definition R_SBTMSTATEHI :: u32 where "R_SBTMSTATEHI = 0xF9C"

definition M_INT_TO :: u32 where "M_INT_TO = MAKEMASK1 7"
definition M_INT_RI :: u32 where "M_INT_RI = MAKEMASK1 16"
definition M_INT_XI :: u32 where "M_INT_XI = MAKEMASK1 24"
definition M_EMCTL_CC :: u32 where "M_EMCTL_CC = MAKEMASK1 0"
definition M_RCFG_AM :: u32 where "M_RCFG_AM = MAKEMASK1 1"
definition M_CAM_VB :: u32 where "M_CAM_VB = MAKEMASK1 16"
definition M_CAMCTL_CE :: u32 where "M_CAMCTL_CE = MAKEMASK1 0"
definition M_CAMCTL_CW :: u32 where "M_CAMCTL_CW = MAKEMASK1 3"
definition M_CAMCTL_CB :: u32 where "M_CAMCTL_CB = MAKEMASK1 31"
definition M_ECTL_EE :: u32 where "M_ECTL_EE = MAKEMASK1 0"
definition M_ECTL_ED :: u32 where "M_ECTL_ED = MAKEMASK1 1"
definition M_TCTL_FD :: u32 where "M_TCTL_FD = MAKEMASK1 0"
definition M_TCTL_SB :: u32 where "M_TCTL_SB = MAKEMASK1 2"
definition M_XCTL_XE :: u32 where "M_XCTL_XE = MAKEMASK1 0"
definition M_RCTL_RE :: u32 where "M_RCTL_RE = MAKEMASK1 0"
definition M_SBTS_SE :: u32 where "M_SBTS_SE = MAKEMASK1 0"
definition M_SBIS_IE :: u32 where "M_SBIS_IE = MAKEMASK1 17"
definition M_SBIS_TO :: u32 where "M_SBIS_TO = MAKEMASK1 18"
definition G_SBTSF_FN :: "u32 \<Rightarrow> u32" where "G_SBTSF_FN x = GETVALUE x 0 (MAKEMASK 6 0)"
definition G_SBID_RV :: "u32 \<Rightarrow> u32" where "G_SBID_RV x = GETVALUE x 0 (MAKEMASK 4 0)"
definition G_STAT_STATE :: "u32 \<Rightarrow> u32" where "G_STAT_STATE x = GETVALUE x 12 (MAKEMASK 4 12)"
definition MAX_ETHER_PACK :: u32 where "MAX_ETHER_PACK = 1518"
definition GP_TIMER_HZ :: u32 where "GP_TIMER_HZ = 62500000"

definition M_PHYINT_LC :: u16 where "M_PHYINT_LC = push_bit 1 1"
definition M_PHYINT_SP :: u16 where "M_PHYINT_SP = push_bit 2 1"
definition M_PHYINT_DC :: u16 where "M_PHYINT_DC = push_bit 3 1"
definition M_PHYINT_MI :: u16 where "M_PHYINT_MI = push_bit 8 1"
definition M_PHYINT_LI :: u16 where "M_PHYINT_LI = push_bit 9 1"
definition M_PHYINT_SI :: u16 where "M_PHYINT_SI = push_bit 10 1"
definition M_PHYINT_FD :: u16 where "M_PHYINT_FD = push_bit 11 1"
definition M_PHYINT_IE :: u16 where "M_PHYINT_IE = push_bit 14 1"

definition OUI_BCMxx :: u32 where "OUI_BCMxx = 0x001018"
definition DEV_BCM5201 :: u16 where "DEV_BCM5201 = 0x21"
definition DEV_BCM5221 :: u16 where "DEV_BCM5221 = 0x1E"
definition DEV_BCM4401 :: u16 where "DEV_BCM4401 = 0x36"
definition MII_BMSR :: u32 where "MII_BMSR = 1"
definition MII_BMCR :: u32 where "MII_BMCR = 0"
definition MII_ANLPAR :: u32 where "MII_ANLPAR = 5"
definition BMSR_ANCOMPLETE :: u16 where "BMSR_ANCOMPLETE = 0x0020"
definition BMSR_AUTONEG :: u16 where "BMSR_AUTONEG = 0x0008"
definition BMSR_LINKSTAT :: u16 where "BMSR_LINKSTAT = 0x0004"

definition ETHER_SPEED_UNKNOWN :: int where "ETHER_SPEED_UNKNOWN = 0"
definition ETHER_SPEED_AUTO :: int where "ETHER_SPEED_AUTO = 0"
definition ETHER_SPEED_10HDX :: int where "ETHER_SPEED_10HDX = 1"
definition ETHER_SPEED_10FDX :: int where "ETHER_SPEED_10FDX = 2"
definition ETHER_SPEED_100HDX :: int where "ETHER_SPEED_100HDX = 3"
definition ETHER_SPEED_100FDX :: int where "ETHER_SPEED_100FDX = 4"
definition ETHER_LOOPBACK_OFF :: int where "ETHER_LOOPBACK_OFF = 0"
definition CFE_ERR_IOERR :: int where "CFE_ERR_IOERR = -4"
definition CFE_ERR_NOMEM :: int where "CFE_ERR_NOMEM = -5"

text \<open>
  What the driver takes from outside: the address of its interrupt handler and of its state, the
  non-volatile variables, and whether the two small allocations succeed.
\<close>

record env =
  isr_entry :: addr
  softc_addr :: addr
  nvvar :: "string \<Rightarrow> string option"
  irq_alloc :: bool
  robo_alloc :: bool

section \<open>Link\<close>

text \<open>The wait for the end of negotiation: \<^verbatim>\<open>timeout\<close> runs from 40 down in steps of 5.\<close>

fun autoneg_wait :: "device \<Rightarrow> nat \<Rightarrow> u16 \<Rightarrow> 'a mac_scheme \<Rightarrow> u16 \<times> 'a mac_scheme" where
  "autoneg_wait dev 0 st s = (st, s)"
| "autoneg_wait dev (Suc n) st s =
     (let (st, s) = mii_read dev MII_BMSR s
      in if st AND BMSR_ANCOMPLETE \<noteq> 0 then (st, s)
         else autoneg_wait dev n st (sleep (CFE_HZ div 2) s))"

definition mii_autonegotiate :: "device \<Rightarrow> env \<Rightarrow> 'a mac_scheme \<Rightarrow> 'a mac_scheme option" where
  "mii_autonegotiate dev env s =
     (if phy_addr s = 0x1E then
        let (b, s) = isbcm5354 dev s
        in if \<not> b then robosw_init dev (nvvar env) (robo_alloc env) (hwaddr s) s else Some s
      else
        let s = snd (mii_read dev MII_BMSR s);
            (st, s) = mii_read dev MII_BMSR s;
            (st, s) =
              (if st AND (BMSR_AUTONEG OR BMSR_LINKSTAT) = BMSR_AUTONEG OR BMSR_LINKSTAT
               then (st, snd (mii_read dev MII_BMCR s))
               else autoneg_wait dev 8 st s);
            (remote, s) = mii_read dev MII_ANLPAR s;
            speed =
              (if st AND BMSR_ANCOMPLETE \<noteq> 0 then
                 if remote AND 0x0100 \<noteq> 0 then ETHER_SPEED_100FDX
                 else if remote AND 0x0080 \<noteq> 0 then ETHER_SPEED_100HDX
                 else if remote AND 0x0040 \<noteq> 0 then ETHER_SPEED_10FDX
                 else if remote AND 0x0020 \<noteq> 0 then ETHER_SPEED_10HDX
                 else ETHER_SPEED_UNKNOWN
               else ETHER_SPEED_UNKNOWN);
            s = s\<lparr>linkspeed := speed\<rparr>
        in Some (snd (mii_read dev MII_BMSR s)))"

text \<open>The address filter: ten polls for the busy bit.\<close>

fun cam_wait :: "device \<Rightarrow> nat \<Rightarrow> 'a mac_scheme \<Rightarrow> bool \<times> 'a mac_scheme" where
  "cam_wait dev 0 s = (False, s)"
| "cam_wait dev (Suc n) s =
     (let (v, s) = READCSR dev R_CAM_CONTROL s
      in if v AND M_CAMCTL_CB \<noteq> 0 then (True, s) else cam_wait dev n (sleep 1 s))"

definition bcm4401_set_hw_addr :: "device \<Rightarrow> u8 list \<Rightarrow> 'a mac_scheme \<Rightarrow> int \<times> 'a mac_scheme" where
  "bcm4401_set_hw_addr dev a s =
     (let enet_upper = push_bit 8 (ucast (a ! 0)) OR ucast (a ! 1);
          enet_lower = push_bit 24 (ucast (a ! 2)) OR push_bit 16 (ucast (a ! 3))
                       OR push_bit 8 (ucast (a ! 4)) OR ucast (a ! 5);
          s = WRITECSR R_CAM_DATA_H (M_CAM_VB OR MAKEVALUE enet_upper 0) s;
          s = WRITECSR R_CAM_DATA_L (MAKEVALUE enet_lower 0) s;
          s = WRITECSR R_CAM_CONTROL (MAKEVALUE 0 16 OR M_CAMCTL_CW) s;
          (ok, s) = cam_wait dev CFE_HZ s
      in (if ok then 0 else -1, s))"

definition bcm4401_set_linkspeed :: "device \<Rightarrow> 'a mac_scheme \<Rightarrow> 'a mac_scheme" where
  "bcm4401_set_linkspeed dev s =
     (let (ctrl, s) = READCSR dev R_XMT_CONTROL1 s;
          ctrl = (if linkspeed s = ETHER_SPEED_100FDX \<or> linkspeed s = ETHER_SPEED_10FDX
                  then ctrl OR (M_TCTL_FD OR M_TCTL_SB)
                  else ctrl AND NOT (M_TCTL_FD OR M_TCTL_SB))
      in WRITECSR R_XMT_CONTROL1 ctrl s)"

section \<open>Hardware initialisation\<close>

text \<open>The PHY interrupt set up for the three PHY devices that have it.\<close>

definition hwinit_phy :: "device \<Rightarrow> 'a mac_scheme \<Rightarrow> 'a mac_scheme" where
  "hwinit_phy dev s =
     (let s = s\<lparr>phy_interrupt := 0\<rparr>
      in if phy_vendor s = OUI_BCMxx \<and> phy_device s \<in> {DEV_BCM5201, DEV_BCM5221, DEV_BCM4401} then
           let (phy_isr, s) = mii_read dev R_INTERRUPT s;
               phy_isr = phy_isr AND NOT (M_PHYINT_LI OR M_PHYINT_SI OR M_PHYINT_FD OR M_PHYINT_MI);
               phy_isr = phy_isr OR M_PHYINT_IE;
               s = mii_write dev R_INTERRUPT phy_isr s
           in s\<lparr>phy_interrupt := 1\<rparr>
         else s)"

text \<open>The MAC registers, once the link is set up.\<close>

definition hwinit_mac :: "device \<Rightarrow> 'a mac_scheme \<Rightarrow> 'a mac_scheme" where
  "hwinit_mac dev s =
     (let (is5350, s) = isbcm5350 dev s;
          s = (if \<not> is5350 then snd (bcm4401_set_hw_addr dev (hwaddr s) s) else s);
          s = WRITECSR R_CAM_CONTROL M_CAMCTL_CE s;
          s = WRITECSR R_RCV_PTR 0 s;
          s = WRITECSR R_RCV_CONTROL (M_RCTL_RE OR MAKEVALUE (of_nat PKTBUF_RX_OFFSET) 1) s;
          s = WRITECSR R_RCV_ADDR (PTR_TO_PCI (rxdscrmem s)) s;
          s = WRITECSR R_RCV_PTR (PTR_TO_PCI (rxdscrmem s + of_nat (8 * rxdscr_add s)) AND 0xFFF) s;
          s = WRITECSR R_XMT_PTR 0 s;
          s = WRITECSR R_XMT_CONTROL M_XCTL_XE s;
          s = WRITECSR R_XMT_ADDR (PTR_TO_PCI (txdscrmem s)) s;
          s = WRITECSR R_EMAC_XMT_MAX_BURST 32 s;
          s = WRITECSR R_EMAC_RCV_MAX_BURST 32 s;
          s = WRITECSR R_RCV_CONFIG M_RCFG_AM s;
          s = WRITECSR R_RCV_MAX_LENGTH MAX_ETHER_PACK s;
          (ctrl, s) = READCSR dev R_EMAC_CONTROL s;
          ctrl = ctrl OR M_EMCTL_CC;
          s = WRITECSR R_EMAC_CONTROL ctrl s;
          (is5350, s) = isbcm5350 dev s;
          s = (if \<not> is5350 then bcm4401_set_linkspeed dev s else s);
          s = WRITECSR R_XMT_MAX_LENGTH MAX_ETHER_PACK s;
          s = WRITECSR R_INT_RECV_LAZY (MAKEVALUE 1 24 OR MAKEVALUE 100 0) s;
          (is5350, s) = isbcm5350 dev s;
          (ctrl, s) = (if \<not> is5350 then READCSR dev R_ENET_CONTROL s else (ctrl, s));
          s = WRITECSR R_ENET_CONTROL (ctrl OR M_ECTL_EE) s
      in s\<lparr>eth_state := Eth_state_on\<rparr>)"

definition bcm4401_hwinit :: "device \<Rightarrow> env \<Rightarrow> 'a mac_scheme \<Rightarrow> 'a mac_scheme option" where
  "bcm4401_hwinit dev env s =
     (if eth_state s = Eth_state_uninit then do {
        let s = hwinit_phy dev (snd (mii_probe dev s));
        s \<leftarrow> mii_autonegotiate dev env s;
        let s = (if phy_interrupt s \<noteq> 0 then snd (mii_read dev R_INTERRUPT s) else s);
        Some (hwinit_mac dev s) }
      else Some s)"

text \<open>One reset sequence of the backplane core; \<^verbatim>\<open>sb_ether_attach\<close> holds the same lines inline.\<close>

definition core_enable :: "device \<Rightarrow> 'a mac_scheme \<Rightarrow> 'a mac_scheme" where
  "core_enable dev s =
     (let s = WRITECSR R_SBTMSTATELOW (M_SBTS_RS OR M_SBTS_CE OR M_SBTS_FC) s;
          s = usleep 100 (snd (READCSR dev R_SBTMSTATELOW s));
          (v, s) = READCSR dev R_SBTMSTATEHI s;
          s = (if v AND M_SBTS_SE \<noteq> 0 then WRITECSR R_SBTMSTATEHI 0 s else s);
          (v, s) = READCSR dev R_SBIMSTATE s;
          s = (if v AND (M_SBIS_IE OR M_SBIS_TO) \<noteq> 0 then
                 let (sbis, s) = READCSR dev R_SBIMSTATE s
                 in WRITECSR R_SBIMSTATE (sbis AND NOT (M_SBIS_IE OR M_SBIS_TO)) s
               else s);
          s = WRITECSR R_SBTMSTATELOW (M_SBTS_CE OR M_SBTS_FC) s;
          s = usleep 100 (snd (READCSR dev R_SBTMSTATELOW s));
          s = WRITECSR R_SBTMSTATELOW M_SBTS_CE s
      in usleep 100 (snd (READCSR dev R_SBTMSTATELOW s)))"

definition bcm4401_coreinit :: "device \<Rightarrow> 'a mac_scheme \<Rightarrow> 'a mac_scheme" where
  "bcm4401_coreinit dev s = core_enable dev s"


section \<open>Interrupts, start and stop\<close>

text \<open>
  One pass of the service routine with the pending causes \<open>st\<close>. The receive and transmit
  interrupts are counted because IPOLL is set.
\<close>

definition isr_pass :: "device \<Rightarrow> u32 \<Rightarrow> 'a mac_scheme \<Rightarrow> 'a mac_scheme option" where
  "isr_pass dev st s =
     do {
       let s = WRITECSR R_INT_STATUS st s;
       s \<leftarrow> (if st AND M_INT_RI \<noteq> 0
             then bcm4401_procrxring dev (s\<lparr>rx_interrupts := rx_interrupts s + 1\<rparr>) else Some s);
       s \<leftarrow> (if st AND M_INT_XI \<noteq> 0
             then bcm4401_proctxring dev (s\<lparr>tx_interrupts := tx_interrupts s + 1\<rparr>) else Some s);
       Some (if st AND M_INT_TO \<noteq> 0 then s\<lparr>slow_poll := 1\<rparr> else s) }"

partial_function (option) isr_loop :: "device \<Rightarrow> 'a mac_scheme \<Rightarrow> 'a mac_scheme option" where
  "isr_loop dev s =
     (let r = READCSR dev R_INT_STATUS s;
          st = fst r AND intmask (snd r)
      in if st = 0 then Some (snd r)
         else Option.bind (isr_pass dev st (snd r)) (\<lambda>s. isr_loop dev s))"

definition bcm4401_isr :: "device \<Rightarrow> 'a mac_scheme \<Rightarrow> 'a mac_scheme option" where
  "bcm4401_isr dev s = isr_loop dev (s\<lparr>interrupts := interrupts s + 1\<rparr>)"

definition bcm4401_start :: "device \<Rightarrow> env \<Rightarrow> 'a mac_scheme \<Rightarrow> 'a mac_scheme option" where
  "bcm4401_start dev env s =
     do {
       s \<leftarrow> bcm4401_hwinit dev env s;
       let s = WRITECSR R_GP_TIMER 0 s;
       let s = s\<lparr>intmask := 0\<rparr>;
       let s = WRITECSR R_INT_MASK 0 s;
       let (st, s) = READCSR dev R_INT_STATUS s;
       let s = WRITECSR R_INT_STATUS st s;
       let s = s\<lparr>intmask := M_INT_RI OR M_INT_XI\<rparr>;
       let s = (if phy_interrupt s \<noteq> 0 then s\<lparr>intmask := intmask s OR M_INT_TO\<rparr> else s);
       (_, s) \<leftarrow> cfe_request_irq dev (irq_alloc env) (mac_irq s) (isr_entry env) (softc_addr env)
                  CFE_IRQ_FLAGS_SHARED 0 s;
       let s = WRITECSR R_INT_MASK (intmask s) s;
       let s = s\<lparr>slow_poll := 0\<rparr>;
       let s = (if phy_interrupt s \<noteq> 0 then WRITECSR R_GP_TIMER (GP_TIMER_HZ div 4) s else s);
       Some (s\<lparr>eth_state := Eth_state_on\<rparr>) }"

text \<open>The three waits of \<^verbatim>\<open>bcm4401_stop\<close>: up to \<open>n\<close> polls until the condition holds.\<close>

fun stop_wait :: "device \<Rightarrow> nat \<Rightarrow> u32 \<Rightarrow> (u32 \<Rightarrow> bool) \<Rightarrow> 'a mac_scheme \<Rightarrow> 'a mac_scheme" where
  "stop_wait dev 0 csr ready s = s"
| "stop_wait dev (Suc n) csr ready s =
     (let (v, s) = READCSR dev csr s
      in if ready v then s else stop_wait dev n csr ready (usleep 100 s))"

definition bcm4401_stop :: "device \<Rightarrow> 'a mac_scheme \<Rightarrow> 'a mac_scheme option" where
  "bcm4401_stop dev s =
     do {
       let s = (if phy_interrupt s \<noteq> 0
                then snd (READCSR dev R_GP_TIMER (WRITECSR R_GP_TIMER 0 s)) else s);
       let s = s\<lparr>slow_poll := 0\<rparr>;
       let s = s\<lparr>intmask := 0\<rparr>;
       let s = snd (READCSR dev R_INT_MASK (WRITECSR R_INT_MASK 0 s));
       let (st, s) = READCSR dev R_INT_STATUS s;
       let s = WRITECSR R_INT_STATUS st s;
       let s = WRITECSR R_ENET_CONTROL M_ECTL_ED s;
       let s = stop_wait dev 1000 R_ENET_CONTROL (\<lambda>ctl. ctl AND M_ECTL_ED = 0) s;
       let s = WRITECSR R_XMT_CONTROL 0 s;
       let s = stop_wait dev 1000 R_XMT_STATUS (\<lambda>v. G_STAT_STATE v = 0) s;
       let s = WRITECSR R_RCV_CONTROL 0 s;
       let s = stop_wait dev 1000 R_RCV_STATUS (\<lambda>v. G_STAT_STATE v = 0) s;
       let (st, s) = READCSR dev R_INT_STATUS s;
       let s = WRITECSR R_INT_STATUS st s;
       s \<leftarrow> cfe_free_irq dev (mac_irq s) 0 s;
       Some (mii_enable dev s) }"

section \<open>Attach\<close>

text \<open>
  \<^verbatim>\<open>sb_ether_attach\<close> on a state just zeroed: \<open>mem\<close> are the addresses \<^verbatim>\<open>dma_alloc\<close> returns for
  the two rings and the pool.
\<close>

definition sb_ether_attach ::
  "device \<Rightarrow> env \<Rightarrow> addr \<times> addr \<times> addr \<Rightarrow> nat \<Rightarrow> string option \<Rightarrow> int \<Rightarrow> 'a mac_scheme
     \<Rightarrow> (int \<times> 'a mac_scheme) option" where
  "sb_ether_attach dev env mem unit mac_addr phy s =
     do {
       let s = s\<lparr>membase := [SB_ENET0_BASE, SB_ENET1_BASE] ! unit\<rparr>;
       let (flag, s) = READCSR dev R_SBTPSFLAG s;
       let s = s\<lparr>mac_irq := G_SBTSF_FN flag\<rparr>;
       let (id, s) = READCSR dev R_SBIDHIGH s;
       let s = s\<lparr>mac_device := ucast (G_SBID_CR id), mac_revision := ucast (G_SBID_RV id),
                 linkspeed := ETHER_SPEED_AUTO, loopback := ETHER_LOOPBACK_OFF\<rparr>;
       let s = core_enable dev s;
       let s = bcm4401_coreinit dev s;
       let s = mii_enable dev s;
       let (_, s) = bcm4401_init dev (fst mem) (fst (snd mem)) (snd (snd mem)) s;
       let s = s\<lparr>hwaddr := (case mac_addr of
                   Some str \<Rightarrow> snd (enet_parse_hwaddr str (hwaddr s))
                 | None \<Rightarrow> [0x02, 0x00, 0x00, 0x47, 0x10, 0x10 + of_nat unit])\<rparr>;
       let s = s\<lparr>phy_addr := phy, eth_state := Eth_state_uninit\<rparr>;
       let s = s\<lparr>inpkts := 0, outpkts := 0, interrupts := 0, rx_interrupts := 0, tx_interrupts := 0\<rparr>;
       s \<leftarrow> bcm4401_start dev env s;
       Some (1, s) }"

definition sb_ether_probe ::
  "device \<Rightarrow> env \<Rightarrow> addr \<times> addr \<times> addr \<Rightarrow> nat \<Rightarrow> int \<Rightarrow> string option \<Rightarrow> 'a mac_scheme
     \<Rightarrow> 'a mac_scheme option" where
  "sb_ether_probe dev env mem index phy mac_addr s =
     (if index = 0 \<or> index = 1 then do {
        (_, s) \<leftarrow> sb_ether_attach dev env mem index mac_addr phy s;
        Some s }
      else Some s)"

definition cfe_ether_init ::
  "device \<Rightarrow> env \<Rightarrow> addr \<times> addr \<times> addr \<Rightarrow> string option \<Rightarrow> 'a mac_scheme \<Rightarrow> 'a mac_scheme option" where
  "cfe_ether_init dev env mem macaddr s =
     (let (b, s) = isbcm535x dev s
      in if b then sb_ether_probe dev env mem 0 0x1e macaddr s
         else sb_ether_probe dev env mem 1 0 macaddr s)"

section \<open>Device functions\<close>

definition bcm4401_ether_open :: "device \<Rightarrow> env \<Rightarrow> 'a mac_scheme \<Rightarrow> (int \<times> 'a mac_scheme) option" where
  "bcm4401_ether_open dev env s =
     do {
       s \<leftarrow> (if eth_state s = Eth_state_on then bcm4401_stop dev s else Some s);
       let s = s\<lparr>inpkts := 0, outpkts := 0, interrupts := 0, rx_interrupts := 0, tx_interrupts := 0\<rparr>;
       s \<leftarrow> bcm4401_start dev env s;
       s \<leftarrow> bcm4401_isr dev s;
       Some (0, s) }"

text \<open>The result code and the returned length.\<close>

definition bcm4401_ether_read ::
  "device \<Rightarrow> addr \<Rightarrow> int \<Rightarrow> 'a mac_scheme \<Rightarrow> (int \<times> int option \<times> 'a mac_scheme) option" where
  "bcm4401_ether_read dev buf_ptr buf_length s =
     do {
       s \<leftarrow> bcm4401_isr dev s;
       if eth_state s \<noteq> Eth_state_on then Some (-1, None, s)
       else do {
         let s = CS_ENTER dev s;
         let (pkt, h) = q_deqnext (qlinks s) (rxqueue s);
         let s = CS_EXIT dev (s\<lparr>qlinks := h\<rparr>);
         case pkt of None \<Rightarrow> Some (0, Some 0, s)
         | Some p \<Rightarrow> do {
             let blen = (if buf_length > pkt_length s p then pkt_length s p else buf_length);
             let s = s\<lparr>copied := copied s @ [(buf_ptr, pkt_buffer p + of_nat PKTBUF_RX_OFFSET, blen)]\<rparr>;
             let s = eth_free_pkt dev p s;
             let s = bcm4401_fillrxring dev s;
             s \<leftarrow> bcm4401_isr dev s;
             Some (0, Some blen, s) } } }"

definition bcm4401_ether_inpstat :: "device \<Rightarrow> 'a mac_scheme \<Rightarrow> (int \<times> int option \<times> 'a mac_scheme) option" where
  "bcm4401_ether_inpstat dev s =
     do {
       s \<leftarrow> bcm4401_isr dev s;
       Some (if eth_state s \<noteq> Eth_state_on then (-1, None, s)
             else (0, Some (if q_isempty (qlinks s) (rxqueue s) then 0 else 1), s)) }"

text \<open>
  The common body of \<^verbatim>\<open>bcm4401_ether_write\<close> and \<^verbatim>\<open>cfe_output\<close> between the two polls: \<open>Inl\<close> is the
  error return, \<open>Inr\<close> the state after the packet went on the ring.
\<close>

definition send_packet :: "device \<Rightarrow> int \<Rightarrow> addr \<Rightarrow> 'a mac_scheme \<Rightarrow> (int \<times> 'a mac_scheme) + 'a mac_scheme" where
  "send_packet dev buf_length buf_ptr s =
     (let (pkt, s) = eth_alloc_pkt dev s
      in case pkt of None \<Rightarrow> Inl (CFE_ERR_NOMEM, s)
         | Some p \<Rightarrow>
             let blen = (if buf_length > pkt_length s p then pkt_length s p else buf_length);
                 s = s\<lparr>copied := copied s @ [(pkt_buffer p, buf_ptr, blen)]\<rparr>;
                 s = s\<lparr>pkt_length := (pkt_length s)(p := blen)\<rparr>;
                 (rv, s) = bcm4401_transmit p s
             in if rv \<noteq> 0 then Inl (CFE_ERR_IOERR, eth_free_pkt dev p s) else Inr s)"

definition bcm4401_ether_write ::
  "device \<Rightarrow> addr \<Rightarrow> int \<Rightarrow> 'a mac_scheme \<Rightarrow> (int \<times> 'a mac_scheme) option" where
  "bcm4401_ether_write dev buf_ptr buf_length s =
     do {
       s \<leftarrow> bcm4401_isr dev s;
       if eth_state s \<noteq> Eth_state_on then Some (-1, s)
       else case send_packet dev buf_length buf_ptr s of
         Inl r \<Rightarrow> Some r
       | Inr s \<Rightarrow> do { s \<leftarrow> bcm4401_isr dev s; Some (0, s) } }"

definition cfe_output :: "device \<Rightarrow> int \<Rightarrow> addr \<Rightarrow> 'a mac_scheme \<Rightarrow> (int \<times> 'a mac_scheme) option" where
  "cfe_output dev buf_length buf_ptr s =
     do {
       s \<leftarrow> bcm4401_isr dev s;
       if eth_state s \<noteq> Eth_state_on then Some (-1, s)
       else case send_packet dev buf_length buf_ptr s of
         Inl r \<Rightarrow> Some r
       | Inr s \<Rightarrow> do { s \<leftarrow> bcm4401_isr dev s; Some (0, s) } }"

datatype ioctl_out = No_out | Out_bytes "u8 list" | Out_int int

definition bcm4401_ether_ioctl :: "int \<Rightarrow> int \<Rightarrow> 'a mac_scheme \<Rightarrow> int \<times> ioctl_out \<times> 'a mac_scheme" where
  "bcm4401_ether_ioctl cmd arg s =
     (if cmd = 1 then (0, Out_bytes (hwaddr s), s)
      else if cmd = 2 then (-1, No_out, s)
      else if cmd = 3 then (0, Out_int (linkspeed s), s)
      else if cmd = 4 then (-1, No_out, s)
      else if cmd = 5 then (0, Out_int (linkspeed s), s)
      else if cmd = 7 then (0, Out_int (loopback s), s)
      else if cmd = 8 then (-1, No_out, s\<lparr>loopback := ETHER_LOOPBACK_OFF\<rparr>)
      else (-1, No_out, s))"

definition bcm4401_ether_close :: "device \<Rightarrow> 'a mac_scheme \<Rightarrow> (int \<times> 'a mac_scheme) option" where
  "bcm4401_ether_close dev s =
     do {
       let s = s\<lparr>eth_state := Eth_state_off\<rparr>;
       s \<leftarrow> bcm4401_stop dev s;
       s \<leftarrow> bcm4401_resetrings dev s;
       Some (0, s\<lparr>eth_state := Eth_state_uninit\<rparr>) }"

definition bcm4401_ether_poll :: "device \<Rightarrow> env \<Rightarrow> 'a mac_scheme \<Rightarrow> 'a mac_scheme option" where
  "bcm4401_ether_poll dev env s =
     (if slow_poll s \<noteq> 0 then
        let s = s\<lparr>slow_poll := 0\<rparr>
        in if phy_interrupt s \<noteq> 0 then
             let (phy_isr, s) = mii_interrupt dev s
             in if phy_isr AND (M_PHYINT_LC OR M_PHYINT_SP OR M_PHYINT_DC) \<noteq> 0 then do {
                  s \<leftarrow> mii_autonegotiate dev env s;
                  Some (bcm4401_set_linkspeed dev s) }
                else Some s
           else Some s
      else Some s)"

definition bcm4401_ether_reset :: "device \<Rightarrow> 'a mac_scheme \<Rightarrow> 'a mac_scheme option" where
  "bcm4401_ether_reset dev s =
     do {
       s \<leftarrow> (if eth_state s = Eth_state_on then bcm4401_stop dev s else Some s);
       Some (s\<lparr>eth_state := Eth_state_uninit\<rparr>) }"

end
