(* ===== verification/MacContracts.thy ===== *)
theory MacContracts
  imports MacDriver
begin

text \<open>
  What the Ethernet driver promises about its packets: every packet of the pool is on the free
  list, on the receive ring, on the transmit ring or in the hands of the code that runs, and
  never in two of these places (\<open>rings_own\<close> of \<^verbatim>\<open>MacRings\<close>). Set-up establishes it, the interrupt
  routine, sending and resetting keep it. The device is a parameter: what the statements ask of
  it is that the descriptor it reports lies in the filled part of the ring.
\<close>

section \<open>A driver after set-up\<close>

text \<open>The state after \<^verbatim>\<open>bcm4401_init\<close> with a pool at 0x80100000, and its facts.\<close>

definition mac1 :: mac where
  "mac1 = snd (bcm4401_init dev_dead 0x80200000 0x80300000 0x80100000 mac0)"

lemma pool1 [simp]: "pool_ok 0x80100000"
  by (simp add: pool_ok_def)

lemma notin_pool:
  assumes "pool_ok base" "p < base"
  shows "p \<notin> set (pool_pkts base)"
proof
  assume "p \<in> set (pool_pkts base)"
  then obtain i where "i < 32" "p = base + of_nat (i * ETH_PKTBUF_SIZE)"
    by (auto simp: pool_pkts_def ETH_PKTPOOL_SIZE_def)
  then show False using unat_pool_pkt [OF assms(1), of i] assms(2) by (simp add: word_less_nat_alt)
qed

lemma mac0_queues [simp]: "freelist mac0 = 0x80001000" "rxqueue mac0 = 0x80001010" "delivered mac0 = []"
  by (simp_all add: mac0_def machine.extend_def mac.defs)

lemma mac1_facts:
  "rings_own mac1 (drop 8 (pool_pkts 0x80100000)) {#}" "rx_pkts mac1 = take 8 (pool_pkts 0x80100000)"
  "tx_pkts mac1 = []" "delivered mac1 = []" "pktpool mac1 = 0x80100000" "rxdscr_remove mac1 = 0"
  "txdscr_remove mac1 = 0" "membase mac1 = SB_ENET0_BASE"
  using bcm4401_init_owns [of "0x80100000" mac0 dev_dead "0x80200000" "0x80300000"] notin_pool
  by (auto simp: mac1_def)

text \<open>C14: After \<^verbatim>\<open>bcm4401_init\<close> the pool is split in two: the first eight packets are on the receive
  ring, in order, the other twenty-four on the free list, and the transmit ring is empty.
\<close>

theorem init_splits_pool:
  assumes "pool_ok pool" "freelist s \<notin> set (pool_pkts pool)"
    "rxqueue s \<noteq> freelist s" "rxqueue s \<notin> set (pool_pkts pool)"
  shows "\<exists>t. bcm4401_init dev rxmem txmem pool s = (0, t) \<and>
    rings_own t (drop 8 (pool_pkts pool)) {#} \<and> rx_pkts t = take 8 (pool_pkts pool) \<and>
    tx_pkts t = [] \<and> delivered t = delivered s"
  using bcm4401_init_owns [OF assms, of dev rxmem txmem] by blast

lemma init_splits_pool_witness:
  "\<exists>t. bcm4401_init dev_dead 0x80200000 0x80300000 0x80100000 mac0 = (0, t) \<and>
     rings_own t (drop 8 (pool_pkts 0x80100000)) {#}"
  using init_splits_pool [of "0x80100000" mac0 dev_dead "0x80200000" "0x80300000"] notin_pool by auto

section \<open>Receiving\<close>

lemma procrxring_delivery:
  assumes "rings_own s fl {#}" "n \<le> length (rx_pkts s)"
    and "G_STAT_CD (fst (READCSR dev R_RCV_STATUS s)) = of_nat (8 * ((rxdscr_remove s + n) mod 32))"
    and mem: "\<And>l p. p \<in> set (rx_pkts s) \<Longrightarrow> dev l (pkt_buffer p) = hdr p"
  shows "\<exists>s' fl'. bcm4401_procrxring dev s = Some s' \<and> rings_own s' fl' {#} \<and>
    length (rx_pkts s') = length (rx_pkts s) \<and> tx_pkts s' = tx_pkts s \<and>
    delivered s' = delivered s @ concat (map (\<lambda>p. delivered_by (hdr p) p) (take n (rx_pkts s)))"
proof -
  let ?s = "snd (READCSR dev R_RCV_STATUS s)"
  have o: "rings_own ?s fl {#}" using assms(1) by simp
  obtain s' fl' hs where r: "procrx_loop dev (of_nat (8 * ((rxdscr_remove ?s + n) mod 32))) ?s = Some s'"
    "rings_own s' fl' {#}" "length (rx_pkts s') = length (rx_pkts s)" "tx_pkts s' = tx_pkts s"
    "list_all2 (\<lambda>h p. \<exists>l. h = dev l (pkt_buffer p)) hs (take n (rx_pkts s))"
    "delivered s' = delivered s @ concat (map2 delivered_by hs (take n (rx_pkts s)))"
    using procrx_loop_owns [OF o, of n dev] assms(2) by (auto simp: csr_frame)
  have "list_all2 (\<lambda>h p. h = hdr p) hs (take n (rx_pkts s))"
    using r(5) by (rule list.rel_mono_strong) (auto dest: in_set_takeD simp: mem)
  then have "hs = map hdr (take n (rx_pkts s))"
    by (auto simp: list_all2_conv_all_nth intro: nth_equalityI)
  then have "map2 delivered_by hs (take n (rx_pkts s)) = map (\<lambda>p. delivered_by (hdr p) p) (take n (rx_pkts s))"
    by (simp add: zip_map1 zip_same_conv_map)
  then show ?thesis
    using r assms(3) by (auto simp: bcm4401_procrxring_def split_beta Let_def)
qed

text \<open>C11: When the engine reports that it has filled the first \<open>n\<close> descriptors of the receive ring,
  \<^verbatim>\<open>bcm4401_procrxring\<close> returns, hands exactly the frames without an error bit to \<^verbatim>\<open>net_rcv\<close>, in
  the order of arrival and with the length of the header less the CRC, and puts as many packets
  back on the ring as it took off. No packet is lost or in two places.
\<close>

theorem procrxring_delivers:
  assumes "rings_own s fl {#}" "n \<le> length (rx_pkts s)"
    and "G_STAT_CD (fst (READCSR dev R_RCV_STATUS s)) = of_nat (8 * ((rxdscr_remove s + n) mod 32))"
    and mem: "\<And>l p. p \<in> set (rx_pkts s) \<Longrightarrow> dev l (pkt_buffer p) = hdr p"
  shows "\<exists>s' fl'. bcm4401_procrxring dev s = Some s' \<and> rings_own s' fl' {#} \<and>
    length (rx_pkts s') = length (rx_pkts s) \<and> tx_pkts s' = tx_pkts s \<and>
    delivered s' = delivered s @ concat (map (\<lambda>p. delivered_by (hdr p) p) (take n (rx_pkts s)))"
  using procrxring_delivery [of s fl n dev hdr] assms by blast

text \<open>A device that has filled two descriptors: a good frame of 60 bytes and CRC, and a bad one.\<close>

definition dev_two :: device where
  "dev_two l a =
     (if a = PHYS_TO_K1 (SB_ENET0_BASE + R_RCV_STATUS) then 16
      else if a = pkt_buffer 0x80100000 then 64
      else if a = pkt_buffer 0x80100800 then 0x10040 else 0)"

lemma dev_two_facts:
  "rx_pkts mac1 = [0x80100000, 0x80100800, 0x80101000, 0x80101800, 0x80102000, 0x80102800,
      0x80103000, 0x80103800]"
  "G_STAT_CD (fst (READCSR dev_two R_RCV_STATUS mac1)) = of_nat (8 * ((rxdscr_remove mac1 + 2) mod 32))"
  "dev_two l (pkt_buffer p) = dev_two [] (pkt_buffer p)"
  "concat (map (\<lambda>p. delivered_by (dev_two [] (pkt_buffer p)) p) (take 2 (rx_pkts mac1))) = [(0x80100020, 60)]"
proof -
  show rx: "rx_pkts mac1 = [0x80100000, 0x80100800, 0x80101000, 0x80101800, 0x80102000, 0x80102800,
      0x80103000, 0x80103800]"
    by (simp add: mac1_facts pool_pkts_def ETH_PKTPOOL_SIZE_def ETH_PKTBUF_SIZE_def upt_rec)
  show "G_STAT_CD (fst (READCSR dev_two R_RCV_STATUS mac1))
      = of_nat (8 * ((rxdscr_remove mac1 + 2) mod 32))"
    by (simp add: mac1_facts READCSR_def phys_read32_def load_simps dev_two_def G_STAT_CD_def
        GETVALUE_def MAKEMASK_def mask_eq_exp_minus_1)
  show "dev_two l (pkt_buffer p) = dev_two [] (pkt_buffer p)" by (simp add: dev_two_def)
  show "concat (map (\<lambda>p. delivered_by (dev_two [] (pkt_buffer p)) p) (take 2 (rx_pkts mac1))) = [(0x80100020, 60)]"
    by (auto simp: rx mac1_facts delivered_by_def dev_two_def pkt_buffer_def ETH_PKTBUF_OFFSET_def
        PHYS_TO_K1_def SB_ENET0_BASE_def R_RCV_STATUS_def M_RCVHDR0_ERRORS_def MAKEMASK1_def
        G_RCVHDR0_CD_def GETVALUE_def MAKEMASK_def ENET_CRC_SIZE_def)
qed

lemma procrxring_delivers_witness:
  "\<exists>s'. bcm4401_procrxring dev_two mac1 = Some s' \<and> delivered s' = [(0x80100020, 60)]"
proof -
  have n: "2 \<le> length (rx_pkts mac1)" by (simp add: dev_two_facts(1))
  have "delivered mac1 = []" by (simp add: mac1_facts)
  then show ?thesis
    using procrxring_delivers [of mac1 "drop 8 (pool_pkts 0x80100000)" 2 dev_two
        "\<lambda>p. dev_two [] (pkt_buffer p)", OF mac1_facts(1) n dev_two_facts(2,3)]
    unfolding dev_two_facts(4) by auto
qed

section \<open>Sending\<close>

lemma owns_copied [simp]:
  "owns_fl (s\<lparr>copied := cp\<rparr>) fl held = owns_fl s fl held"
  "owns_fl (s\<lparr>outpkts := k\<rparr>) fl held = owns_fl s fl held"
  by (simp_all add: owns_fl_def rings_wf_def rx_pkts_def tx_pkts_def)

lemma transmit_full:
  assumes "next_dscr MAXTXDSCR (txdscr_add s) = txdscr_remove s"
  shows "bcm4401_transmit p s = (-1, s\<lparr>outpkts := outpkts s + 1\<rparr>)"
  by (simp add: bcm4401_transmit_def add_txbuf_full [OF assms] Let_def)

lemma transmit_room:
  assumes "owns_fl s fl (add_mset p held)" "next_dscr MAXTXDSCR (txdscr_add s) \<noteq> txdscr_remove s"
    "rxdscr_onring s = int (length (rx_pkts s))"
  shows "\<exists>t. bcm4401_transmit p s = (0, t) \<and> rings_own t fl held \<and> tx_pkts t = tx_pkts s @ [p] \<and>
    rx_pkts t = rx_pkts s"
proof -
  have "rxdscr_onring (snd (bcm4401_add_txbuf p s)) = rxdscr_onring s"
    by (simp add: bcm4401_add_txbuf_def Let_def split_beta)
  moreover have "rxdscr_onring (WRITECSR c v t) = rxdscr_onring t" for c v and t :: "'a mac_scheme"
    by (simp add: WRITECSR_def phys_write32_def)
  ultimately show ?thesis
    using owns_add_txbuf [OF assms(1,2)] assms(3)
    by (simp add: bcm4401_transmit_def Let_def split_beta rings_own_def)
qed

lemma send_packet_owns:
  assumes own: "rings_own s fl {#}"
  shows "case fl of
      [] \<Rightarrow> \<exists>t. send_packet dev len buf s = Inl (CFE_ERR_NOMEM, t) \<and> rings_own t [] {#} \<and> tx_pkts t = tx_pkts s
    | p # fl' \<Rightarrow>
        if length (tx_pkts s) = 31
        then \<exists>t. send_packet dev len buf s = Inl (CFE_ERR_IOERR, t) \<and> rings_own t (fl' @ [p]) {#} \<and>
               tx_pkts t = tx_pkts s
        else \<exists>t. send_packet dev len buf s = Inr t \<and> rings_own t fl' {#} \<and>
               tx_pkts t = tx_pkts s @ [p] \<and> rx_pkts t = rx_pkts s"
proof -
  let ?a = "eth_alloc_pkt dev s"
  have o: "owns_fl s fl {#}" and r: "rxdscr_onring s = int (length (rx_pkts s))"
    using own by (simp_all add: rings_own_def)
  show ?thesis
  proof (cases fl)
    case Nil
    then show ?thesis
      using owns_alloc [OF o, of dev] r
      by (simp add: send_packet_def split_beta Let_def rings_own_def)
  next
    case (Cons p fl')
    with owns_alloc [OF o, of dev]
    have a: "fst ?a = Some p" "owns_fl (snd ?a) fl' (add_mset p {#})" by simp_all
    define blen where "blen = (if len > pkt_length (snd ?a) p then pkt_length (snd ?a) p else len)"
    define u where "u = (snd ?a)\<lparr>copied := copied (snd ?a) @ [(pkt_buffer p, buf, blen)],
        pkt_length := (pkt_length (snd ?a))(p := blen)\<rparr>"
    have u: "owns_fl u fl' (add_mset p {#})" "tx_pkts u = tx_pkts s" "rx_pkts u = rx_pkts s"
        "rxdscr_onring u = int (length (rx_pkts s))"
      using a(2) r by (simp_all add: u_def)
    have e: "send_packet dev len buf s = (let (rv, s) = bcm4401_transmit p u in
        if rv \<noteq> 0 then Inl (CFE_ERR_IOERR, eth_free_pkt dev p s) else Inr s)"
      using a(1) by (simp add: send_packet_def split_beta Let_def u_def blen_def)
    have wf: "rings_wf u" using u(1) by (simp add: owns_fl_def)
    show ?thesis
    proof (cases "length (tx_pkts s) = 31")
      case True
      then have "next_dscr MAXTXDSCR (txdscr_add u) = txdscr_remove u"
        using tx_room [OF wf] u(2) by auto
      then show ?thesis
        using Cons True e u owns_free [OF u(1), of dev]
          owns_free [of "u\<lparr>outpkts := outpkts u + 1\<rparr>" fl' p "{#}" dev]
        by (simp add: transmit_full rings_own_def)
    next
      case False
      have "length (tx_pkts u) < 32"
        using ring_idx_length [of "txdscr_remove u" 32 "txdscr_add u"] wf
        by (auto simp: rings_wf_def tx_pkts_def MAXTXDSCR_def)
      then have "next_dscr MAXTXDSCR (txdscr_add u) \<noteq> txdscr_remove u"
        using False tx_room [OF wf] u(2) by simp
      from transmit_room [OF u(1) this] u False Cons e show ?thesis by auto
    qed
  qed
qed

text \<open>Sending leaves the sent end of the transmit ring and the core's address alone.\<close>

lemma send_packet_frame:
  assumes "send_packet dev len buf s = Inr t"
  shows "txdscr_remove t = txdscr_remove s \<and> membase t = membase s"
  using assms
  by (auto simp: send_packet_def split_beta Let_def eth_alloc_pkt_def bcm4401_transmit_def bcm4401_add_txbuf_def
      WRITECSR_def phys_write32_def split: option.splits if_splits)

lemma send_packet_queued:
  assumes "rings_own s (p # fl) {#}" "length (tx_pkts s) < 31"
  shows "\<exists>t. send_packet dev len buf s = Inr t \<and> rings_own t fl {#} \<and> tx_pkts t = tx_pkts s @ [p] \<and>
    txdscr_remove t = txdscr_remove s \<and> membase t = membase s"
  using send_packet_owns [OF assms(1), of dev len buf] assms(2) send_packet_frame [of dev len buf s] by auto

text \<open>C13: Sending a packet. With no free packet the answer is \<^verbatim>\<open>CFE_ERR_NOMEM\<close>; with thirty-one packets
  waiting it is \<^verbatim>\<open>CFE_ERR_IOERR\<close> and the packet taken goes back to the free list; otherwise the
  first free packet is appended to the transmit ring. In every case each packet stays in exactly
  one place.
\<close>

theorem send_packet_result:
  assumes own: "rings_own s fl {#}"
  shows "case fl of
      [] \<Rightarrow> \<exists>t. send_packet dev len buf s = Inl (CFE_ERR_NOMEM, t) \<and> rings_own t [] {#} \<and> tx_pkts t = tx_pkts s
    | p # fl' \<Rightarrow>
        if length (tx_pkts s) = 31
        then \<exists>t. send_packet dev len buf s = Inl (CFE_ERR_IOERR, t) \<and> rings_own t (fl' @ [p]) {#} \<and>
               tx_pkts t = tx_pkts s
        else \<exists>t. send_packet dev len buf s = Inr t \<and> rings_own t fl' {#} \<and>
               tx_pkts t = tx_pkts s @ [p] \<and> rx_pkts t = rx_pkts s"
  using assms by (rule send_packet_owns)

lemma send_packet_result_witness:
  "\<exists>t. send_packet dev_dead 100 0x80400000 mac1 = Inr t \<and> tx_pkts t = [0x80104000]"
proof -
  have "drop 8 (pool_pkts 0x80100000) = 0x80104000 # drop 9 (pool_pkts 0x80100000)"
    by (simp add: pool_pkts_def ETH_PKTPOOL_SIZE_def ETH_PKTBUF_SIZE_def upt_rec)
  then show ?thesis
    using send_packet_result [OF mac1_facts(1), of dev_dead 100 "0x80400000"] by (auto simp: mac1_facts)
qed

text \<open>C16: When the engine reports that it has sent the first \<open>n\<close> packets, \<^verbatim>\<open>bcm4401_proctxring\<close> returns
  and moves exactly these, in order, to the end of the free list.
\<close>

theorem proctxring_frees_sent:
  assumes "rings_own s fl {#}" "n \<le> length (tx_pkts s)"
    and "G_STAT_CD (fst (READCSR dev R_XMT_STATUS s)) = of_nat (8 * ((txdscr_remove s + n) mod 32))"
  shows "\<exists>s'. bcm4401_proctxring dev s = Some s' \<and> rings_own s' (fl @ take n (tx_pkts s)) {#} \<and>
    tx_pkts s' = drop n (tx_pkts s) \<and> rx_pkts s' = rx_pkts s \<and> delivered s' = delivered s"
proof -
  have "rings_own (snd (READCSR dev R_XMT_STATUS s)) fl {#}" using assms(1) by simp
  from proctx_loop_owns [OF this, of n dev] assms(2,3) show ?thesis
    by (auto simp: bcm4401_proctxring_def split_beta Let_def)
qed

text \<open>Three packets sent, and a device that reports the first two of them as transmitted.\<close>

definition mac_send1 :: "mac \<Rightarrow> mac" where
  "mac_send1 s = (case send_packet dev_dead 100 0x80400000 s of Inl (_, t) \<Rightarrow> t | Inr t \<Rightarrow> t)"

definition mac_sent3 :: mac where "mac_sent3 = mac_send1 (mac_send1 (mac_send1 mac1))"

definition dev_sent2 :: device where
  "dev_sent2 l a = (if a = PHYS_TO_K1 (SB_ENET0_BASE + R_XMT_STATUS) then 16 else 0)"

lemma sent_queues:
  assumes "rings_own s (p # fl) {#}" "length (tx_pkts s) < 31"
  shows "rings_own (mac_send1 s) fl {#}" "tx_pkts (mac_send1 s) = tx_pkts s @ [p]"
    "txdscr_remove (mac_send1 s) = txdscr_remove s" "membase (mac_send1 s) = membase s"
  using send_packet_queued [OF assms, of dev_dead 100 "0x80400000"] by (auto simp: mac_send1_def)

lemma mac_sent3_facts:
  "rings_own mac_sent3 (drop 11 (pool_pkts 0x80100000)) {#}"
  "tx_pkts mac_sent3 = [0x80104000, 0x80104800, 0x80105000]"
  "txdscr_remove mac_sent3 = 0" "membase mac_sent3 = SB_ENET0_BASE"
proof -
  have d: "drop 8 (pool_pkts 0x80100000) = 0x80104000 # 0x80104800 # 0x80105000 # drop 11 (pool_pkts 0x80100000)"
    by (simp add: pool_pkts_def ETH_PKTPOOL_SIZE_def ETH_PKTBUF_SIZE_def upt_rec)
  note 1 = sent_queues [OF mac1_facts(1) [unfolded d]]
  note 2 = sent_queues [OF 1(1)]
  note 3 = sent_queues [OF 2(1)]
  show "rings_own mac_sent3 (drop 11 (pool_pkts 0x80100000)) {#}"
    "tx_pkts mac_sent3 = [0x80104000, 0x80104800, 0x80105000]"
    "txdscr_remove mac_sent3 = 0" "membase mac_sent3 = SB_ENET0_BASE"
    using 1 2 3 by (simp_all add: mac_sent3_def mac1_facts)
qed

lemma proctxring_frees_sent_witness:
  "\<exists>s'. bcm4401_proctxring dev_sent2 mac_sent3 = Some s' \<and> tx_pkts s' = [0x80105000] \<and>
     rings_own s' (drop 11 (pool_pkts 0x80100000) @ [0x80104000, 0x80104800]) {#}"
  using proctxring_frees_sent [OF mac_sent3_facts(1), of 2 dev_sent2]
  by (auto simp: mac_sent3_facts READCSR_def phys_read32_def load_simps dev_sent2_def G_STAT_CD_def GETVALUE_def
      numeral_2_eq_2 MAKEMASK_def)

section \<open>Reset\<close>

text \<open>C15: \<^verbatim>\<open>bcm4401_resetrings\<close> recovers every packet: whatever the two rings held is behind the free
  list, in order, and eight packets of that list are put on the new receive ring.
\<close>

theorem resetrings_recovers_all:
  assumes "rings_own s fl {#}"
  shows "\<exists>t. bcm4401_resetrings dev s = Some t \<and>
    rings_own t (drop 8 (fl @ tx_pkts s @ rx_pkts s)) {#} \<and>
    rx_pkts t = take 8 (fl @ tx_pkts s @ rx_pkts s) \<and> length (rx_pkts t) = 8 \<and> tx_pkts t = []"
  using resetrings_owns [OF assms, of dev] by blast

lemma resetrings_recovers_all_witness:
  "\<exists>t. bcm4401_resetrings dev_dead mac1 = Some t \<and> rx_pkts t = take 8 (drop 8 (pool_pkts 0x80100000))"
  using resetrings_recovers_all [OF mac1_facts(1), of dev_dead] by (auto simp: mac1_facts)

section \<open>The interrupt service routine\<close>

text \<open>
  A device behaves if, each time the routine looks, either no enabled cause is pending, or the
  descriptors the engine reports for the pending causes lie in the filled part of the rings,
  and it behaves from there on; after finitely many looks nothing is pending.
\<close>

inductive isr_sane :: "device \<Rightarrow> 'a mac_scheme \<Rightarrow> bool" for dev where
  idle: "fst (READCSR dev R_INT_STATUS s) AND intmask s = 0 \<Longrightarrow> isr_sane dev s"
| work: "\<lbrakk> st = fst (READCSR dev R_INT_STATUS s) AND intmask s; st \<noteq> 0;
    u = WRITECSR R_INT_STATUS st (snd (READCSR dev R_INT_STATUS s));
    r = u\<lparr>rx_interrupts := rx_interrupts u + 1\<rparr>;
    st AND M_INT_RI \<noteq> 0 \<longrightarrow> rx_status_ok dev r;
    \<And>v w. (if st AND M_INT_RI \<noteq> 0 then bcm4401_procrxring dev r else Some u) = Some v \<Longrightarrow>
      w = v\<lparr>tx_interrupts := tx_interrupts v + 1\<rparr> \<Longrightarrow> st AND M_INT_XI \<noteq> 0 \<Longrightarrow> tx_status_ok dev w;
    \<And>t. isr_pass dev st (snd (READCSR dev R_INT_STATUS s)) = Some t \<Longrightarrow> isr_sane dev t \<rbrakk>
    \<Longrightarrow> isr_sane dev s"

lemma csr_intmask [simp]: "intmask (snd (READCSR dev c s)) = intmask s"
  by (simp add: READCSR_def phys_read32_def)

lemma isr_pass_owns:
  fixes s :: "'a mac_scheme" and st :: u32
  assumes "rings_own s fl {#}"
  defines "u \<equiv> WRITECSR R_INT_STATUS st s"
  defines "r \<equiv> u\<lparr>rx_interrupts := rx_interrupts u + 1\<rparr>"
  assumes rx: "st AND M_INT_RI \<noteq> 0 \<longrightarrow> rx_status_ok dev r"
    and tx: "\<And>v w. (if st AND M_INT_RI \<noteq> 0 then bcm4401_procrxring dev r else Some u) = Some v \<Longrightarrow>
      w = v\<lparr>tx_interrupts := tx_interrupts v + 1\<rparr> \<Longrightarrow> st AND M_INT_XI \<noteq> 0 \<Longrightarrow> tx_status_ok dev w"
  shows "\<exists>t fl'. isr_pass dev st s = Some t \<and> rings_own t fl' {#} \<and>
    length (rx_pkts t) = length (rx_pkts s)"
proof -
  have r: "rings_own r fl {#}" "rx_pkts r = rx_pkts s" "rings_own u fl {#}" "rx_pkts u = rx_pkts s"
    using assms(1) by (simp_all add: r_def u_def)
  obtain v flv where v: "(if st AND M_INT_RI \<noteq> 0 then bcm4401_procrxring dev r else Some u) = Some v"
    "rings_own v flv {#}" "length (rx_pkts v) = length (rx_pkts s)"
    using procrxring_owns [OF r(1), of dev] rx r by (cases "st AND M_INT_RI = 0") auto
  define w where "w = v\<lparr>tx_interrupts := tx_interrupts v + 1\<rparr>"
  have w: "rings_own w flv {#}" "rx_pkts w = rx_pkts v" using v(2) by (simp_all add: w_def)
  obtain x flx where x: "(if st AND M_INT_XI \<noteq> 0 then bcm4401_proctxring dev w else Some v) = Some x"
    "rings_own x flx {#}" "length (rx_pkts x) = length (rx_pkts s)"
    using proctxring_owns [OF w(1), of dev] tx [OF v(1) w_def] w(2) v
    by (cases "st AND M_INT_XI = 0") auto
  have "isr_pass dev st s = Some (if st AND M_INT_TO \<noteq> 0 then x\<lparr>slow_poll := 1\<rparr> else x)"
    using v(1) x(1) unfolding isr_pass_def u_def [symmetric] r_def [symmetric] Let_def
    by (cases "st AND M_INT_XI = 0") (simp_all add: r_def w_def)
  then show ?thesis using x by auto
qed

lemma isr_loop_owns:
  assumes "isr_sane dev s" "rings_own s fl {#}"
  shows "\<exists>t fl'. isr_loop dev s = Some t \<and> rings_own t fl' {#} \<and>
    length (rx_pkts t) = length (rx_pkts s)"
  using assms
proof (induction arbitrary: fl rule: isr_sane.induct)
  case (idle s)
  then show ?case by (subst isr_loop.simps) (auto simp: Let_def)
next
  case (work st s u r)
  let ?s = "snd (READCSR dev R_INT_STATUS s)"
  have "rings_own ?s fl {#}" using work.prems by simp
  from isr_pass_owns [OF this, of st dev] work.hyps obtain t flt where t:
    "isr_pass dev st ?s = Some t" "rings_own t flt {#}" "length (rx_pkts t) = length (rx_pkts s)"
    by auto
  have "isr_loop dev s = isr_loop dev t"
    using work.hyps(1,2) t(1) by (subst isr_loop.simps) (simp add: Let_def)
  then show ?case using work.IH [OF t(1,2)] t(3) by auto
qed

text \<open>C12: With a device that behaves, the interrupt service routine returns, every packet is still in
  exactly one place, and the receive ring is as full as before.
\<close>

theorem isr_returns_and_owns:
  assumes "isr_sane dev (s\<lparr>interrupts := interrupts s + 1\<rparr>)" "rings_own s fl {#}"
  shows "\<exists>t fl'. bcm4401_isr dev s = Some t \<and> rings_own t fl' {#} \<and>
    length (rx_pkts t) = length (rx_pkts s)"
  using isr_loop_owns [OF assms(1), of fl] assms(2) by (simp add: bcm4401_isr_def)

text \<open>A device with one receive interrupt, gone once acknowledged, and an empty ring.\<close>

definition dev_once :: device where
  "dev_once l a =
     (if a = PHYS_TO_K1 (SB_ENET0_BASE + R_INT_STATUS) \<and> length l = length (io_log mac1)
      then M_INT_RI else 0)"

definition mac_on :: mac where
  "mac_on = mac1\<lparr>intmask := M_INT_RI OR M_INT_XI\<rparr>"

lemma mac_on_own: "rings_own mac_on (drop 8 (pool_pkts 0x80100000)) {#}"
  using mac1_facts(1) by (simp add: mac_on_def rings_own_def owns_fl_def rings_wf_def rx_pkts_def tx_pkts_def)

lemma mac_on_sane: "isr_sane dev_once (mac_on\<lparr>interrupts := interrupts mac_on + 1\<rparr>)"
proof (rule isr_sane.work [OF refl _ refl refl])
  let ?s = "mac_on\<lparr>interrupts := interrupts mac_on + 1\<rparr>"
  let ?st = "fst (READCSR dev_once R_INT_STATUS ?s) AND intmask ?s"
  let ?u = "WRITECSR R_INT_STATUS ?st (snd (READCSR dev_once R_INT_STATUS ?s))"
  let ?r = "?u\<lparr>rx_interrupts := rx_interrupts ?u + 1\<rparr>"
  have m: "membase mac_on = SB_ENET0_BASE" "rxdscr_remove mac_on = 0" "intmask mac_on = M_INT_RI OR M_INT_XI"
    "io_log mac_on = io_log mac1"
    by (simp_all add: mac_on_def mac1_facts)
  have st: "?st = M_INT_RI"
    by (simp add: m READCSR_def phys_read32_def load_simps dev_once_def M_INT_RI_def M_INT_XI_def MAKEMASK1_def)
  have nz: "M_INT_RI \<noteq> 0" "M_INT_RI AND M_INT_XI = 0" "M_INT_RI AND M_INT_TO = 0" "M_INT_RI AND M_INT_RI \<noteq> 0"
    by (simp_all add: M_INT_RI_def M_INT_XI_def M_INT_TO_def MAKEMASK1_def)
  have cd: "G_STAT_CD (fst (READCSR dev_once R_RCV_STATUS ?r)) = 0" "rxdscr_remove ?r = 0"
    by (simp_all add: m READCSR_def phys_read32_def WRITECSR_def phys_write32_def store_def load_simps
        dev_once_def G_STAT_CD_def GETVALUE_def)
  show "?st \<noteq> 0" using st nz by simp
  show "?st AND M_INT_RI \<noteq> 0 \<longrightarrow> rx_status_ok dev_once ?r"
    unfolding rx_status_ok_def cd by (auto intro: exI [of _ 0])
  show "?st AND M_INT_XI \<noteq> 0 \<Longrightarrow> tx_status_ok dev_once w" for w using st nz by simp
  have e: "bcm4401_procrxring dev_once ?r = Some (snd (READCSR dev_once R_RCV_STATUS ?r))"
    using cd by (simp add: bcm4401_procrxring_def split_beta Let_def) (subst procrx_loop.simps, simp)
  fix t
  assume "isr_pass dev_once ?st (snd (READCSR dev_once R_INT_STATUS ?s)) = Some t"
  then have t: "t = snd (READCSR dev_once R_RCV_STATUS ?r)"
    using e nz unfolding st isr_pass_def by (simp add: Let_def)
  have "length (io_log t) \<noteq> length (io_log mac1)"
    by (simp add: t m READCSR_def phys_read32_def WRITECSR_def phys_write32_def store_def load_simps)
  then show "isr_sane dev_once t"
    by (intro isr_sane.idle) (simp add: READCSR_def phys_read32_def load_simps dev_once_def)
qed

lemma isr_returns_and_owns_witness:
  "\<exists>t fl'. bcm4401_isr dev_once mac_on = Some t \<and> rings_own t fl' {#} \<and>
    length (rx_pkts t) = length (rx_pkts mac_on)"
  using isr_returns_and_owns [OF mac_on_sane mac_on_own] .

section \<open>Link set-up\<close>

lemma cam_wait_idle:
  assumes "\<And>l. dev l (PHYS_TO_K1 (membase s + R_CAM_CONTROL)) AND M_CAMCTL_CB = 0"
  shows "\<exists>l. cam_wait dev n s = (False, s\<lparr>io_log := io_log s @ l\<rparr>) \<and> writes l = [] \<and>
    length (filter (\<lambda>e. e = Sleep 1) l) = n"
  using assms
proof (induction n arbitrary: s)
  case 0
  show ?case by (auto intro: exI [of _ "[]"])
next
  case (Suc n)
  let ?c = "PHYS_TO_K1 (membase s + R_CAM_CONTROL)"
  let ?l = "[Rd ?c (dev (io_log s) ?c), Sleep 1]"
  let ?t = "s\<lparr>io_log := io_log s @ ?l\<rparr>"
  have "cam_wait dev (Suc n) s = cam_wait dev n ?t"
    using Suc.prems by (simp add: READCSR_def phys_read32_def load_def Let_def sleep_def)
  moreover obtain l where "cam_wait dev n ?t = (False, ?t\<lparr>io_log := io_log ?t @ l\<rparr>)" "writes l = []"
    "length (filter (\<lambda>e. e = Sleep 1) l) = n"
    using Suc.IH [of ?t] Suc.prems by auto
  ultimately show ?case by (intro exI [of _ "?l @ l"]) simp
qed

text \<open>The address filter reports success only if the busy bit is seen set within ten polls: on a
  device that is idle at once (or always) \<^verbatim>\<open>bcm4401_set_hw_addr\<close> waits ten ticks and returns
  \<open>-1\<close>, although both halves of the address and the write command were written.
\<close>

theorem set_hw_addr_fails_when_idle:
  assumes "\<And>l. dev l (PHYS_TO_K1 (membase s + R_CAM_CONTROL)) AND M_CAMCTL_CB = 0"
  shows "\<exists>l. bcm4401_set_hw_addr dev a s = (-1, s\<lparr>io_log := io_log s @ l\<rparr>) \<and>
    length (filter (\<lambda>e. e = Sleep 1) l) = 10 \<and>
    map fst (writes l) = map (\<lambda>r. PHYS_TO_K1 (membase s + r)) [R_CAM_DATA_H, R_CAM_DATA_L, R_CAM_CONTROL]"
proof -
  define w where "w = (\<lambda>c v. Wr (PHYS_TO_K1 (membase s + c)) v)"
  define hi lo where "hi = M_CAM_VB OR MAKEVALUE (push_bit 8 (ucast (a ! 0)) OR ucast (a ! 1)) 0"
    and "lo = MAKEVALUE (push_bit 24 (ucast (a ! 2)) OR push_bit 16 (ucast (a ! 3))
                       OR push_bit 8 (ucast (a ! 4)) OR ucast (a ! 5)) 0"
  define t where "t = s\<lparr>io_log := io_log s @ [w R_CAM_DATA_H hi, w R_CAM_DATA_L lo,
      w R_CAM_CONTROL (MAKEVALUE 0 16 OR M_CAMCTL_CW)]\<rparr>"
  have "bcm4401_set_hw_addr dev a s = (let (ok, u) = cam_wait dev 10 t in (if ok then 0 else -1, u))"
    by (simp add: bcm4401_set_hw_addr_def WRITECSR_def phys_write32_def store_def Let_def t_def w_def
        hi_def lo_def CFE_HZ_def)
  moreover obtain l where "cam_wait dev 10 t = (False, t\<lparr>io_log := io_log t @ l\<rparr>)" "writes l = []"
    "length (filter (\<lambda>e. e = Sleep 1) l) = 10"
    using cam_wait_idle [of dev t 10] assms by (auto simp: t_def)
  ultimately show ?thesis
    by (intro exI [of _ "[w R_CAM_DATA_H hi, w R_CAM_DATA_L lo,
      w R_CAM_CONTROL (MAKEVALUE 0 16 OR M_CAMCTL_CW)] @ l"]) (simp add: t_def w_def)
qed

lemma set_hw_addr_fails_when_idle_witness:
  "fst (bcm4401_set_hw_addr dev_dead [2, 0, 0, 0x47, 0x10, 0x10] mac1) = -1"
  using set_hw_addr_fails_when_idle [of dev_dead mac1 "[2, 0, 0, 0x47, 0x10, 0x10]"]
  by (auto simp: dev_dead_def)

end
