(* ===== verification/Crc.thy ===== *)
theory Crc
  imports Prelude
begin

text \<open>
  The two CRC tables of the program, \<^verbatim>\<open>crc8_table\<close> of \<^verbatim>\<open>cfe/bcmnvram.c\<close> and \<^verbatim>\<open>crc_32_tab\<close> of
  \<^verbatim>\<open>tools/asustrx.c\<close>, and the bit-serial CRC they stand for: every entry of a table is eight
  steps of the shift register of its polynomial, so the table-driven loops compute that CRC.
\<close>

section \<open>Shift registers and their tables\<close>

text \<open>One step of a bit-serial CRC in the reflected order, and tables of linear functions.\<close>

definition crc_step :: "'a::len word \<Rightarrow> 'a word \<Rightarrow> 'a word" where
  "crc_step p c = drop_bit 1 c XOR (if bit c 0 then p else 0)"

lemma crc_step_linear: "crc_step p (a XOR b) = crc_step p a XOR crc_step p b"
  by (rule bit_word_eqI) (auto simp: crc_step_def bit_xor_iff bit_drop_bit_eq)

lemma crc_steps_linear: "(crc_step p ^^ n) (a XOR b) = (crc_step p ^^ n) a XOR (crc_step p ^^ n) b"
  by (induction n) (simp_all add: crc_step_linear)

lemma crc_steps_0: "(crc_step p ^^ n) 0 = 0"
  by (induction n) (simp_all add: crc_step_def)

lemma crc_step_and: "crc_step p c = (if c AND 1 = 1 then drop_bit 1 c XOR p else drop_bit 1 c)"
  by (simp add: crc_step_def and_one_eq bit_0 even_iff_mod_2_eq_zero)

lemma funpow8: "(f ^^ 8) x = f (f (f (f (f (f (f (f x)))))))"
  by (simp add: eval_nat_numeral)

fun lin_tab :: "'a::len word list \<Rightarrow> 'a word list" where
  "lin_tab [] = [0]"
| "lin_tab (e # es) = lin_tab es @ map (\<lambda>x. x XOR e) (lin_tab es)"

lemma length_lin_tab: "length (lin_tab es) = 2 ^ length es"
  by (induction es) simp_all

lemma of_nat_high_bit:
  assumes "j < 2 ^ k"
  shows "(of_nat (2 ^ k + j) :: 'a::len word) = of_nat j XOR push_bit k 1"
proof (rule bit_word_eqI)
  fix n
  assume n: "n < LENGTH('a)"
  have j: "take_bit k j = j" using assms by (simp add: take_bit_nat_eq_self_iff)
  have "\<not> bit (push_bit k (1 :: nat)) m \<or> \<not> bit j m" for m
    using j by (metis bit_take_bit_iff bit_push_bit_iff not_le)
  from disjunctive_add [OF this] have e: "(2 ^ k + j :: nat) = push_bit k 1 OR j"
    by (simp only: push_bit_eq_mult mult_1)
  have "bit j n \<Longrightarrow> n < k" using j by (metis bit_take_bit_iff)
  then show "bit (of_nat (2 ^ k + j) :: 'a word) n = bit (of_nat j XOR push_bit k 1 :: 'a word) n"
    unfolding e bit_of_nat_iff bit_xor_iff bit_or_iff bit_push_bit_iff bit_1_iff
    using n by auto
qed

lemma lin_tab_nth:
  fixes f :: "'a::len word \<Rightarrow> 'a word"
  assumes lin: "\<And>a b. f (a XOR b) = f a XOR f b"
  shows "i < 2 ^ k \<Longrightarrow> lin_tab (map (\<lambda>n. f (push_bit n 1)) (rev [0..<k])) ! i = f (of_nat i)"
proof (induction k arbitrary: i)
  case 0
  have "f (0 XOR 0) = f 0 XOR f 0" by (rule lin)
  then have "f 0 = 0" by simp
  with 0 show ?case by simp
next
  case (Suc k)
  show ?case
  proof (cases "i < 2 ^ k")
    case True
    with Suc.IH [OF True] show ?thesis by (simp add: nth_append length_lin_tab)
  next
    case False
    then obtain j where j: "i = 2 ^ k + j" using le_Suc_ex by (metis not_less)
    then have "j < 2 ^ k" using Suc.prems by simp
    with Suc.IH [OF this] j show ?thesis
      by (simp add: nth_append length_lin_tab of_nat_high_bit lin del: of_nat_add)
  qed
qed

definition crc8_table :: "u8 list" where
  "crc8_table =
    [0x00, 0xF7, 0xB9, 0x4E, 0x25, 0xD2, 0x9C, 0x6B,
     0x4A, 0xBD, 0xF3, 0x04, 0x6F, 0x98, 0xD6, 0x21,
     0x94, 0x63, 0x2D, 0xDA, 0xB1, 0x46, 0x08, 0xFF,
     0xDE, 0x29, 0x67, 0x90, 0xFB, 0x0C, 0x42, 0xB5,
     0x7F, 0x88, 0xC6, 0x31, 0x5A, 0xAD, 0xE3, 0x14,
     0x35, 0xC2, 0x8C, 0x7B, 0x10, 0xE7, 0xA9, 0x5E,
     0xEB, 0x1C, 0x52, 0xA5, 0xCE, 0x39, 0x77, 0x80,
     0xA1, 0x56, 0x18, 0xEF, 0x84, 0x73, 0x3D, 0xCA,
     0xFE, 0x09, 0x47, 0xB0, 0xDB, 0x2C, 0x62, 0x95,
     0xB4, 0x43, 0x0D, 0xFA, 0x91, 0x66, 0x28, 0xDF,
     0x6A, 0x9D, 0xD3, 0x24, 0x4F, 0xB8, 0xF6, 0x01,
     0x20, 0xD7, 0x99, 0x6E, 0x05, 0xF2, 0xBC, 0x4B,
     0x81, 0x76, 0x38, 0xCF, 0xA4, 0x53, 0x1D, 0xEA,
     0xCB, 0x3C, 0x72, 0x85, 0xEE, 0x19, 0x57, 0xA0,
     0x15, 0xE2, 0xAC, 0x5B, 0x30, 0xC7, 0x89, 0x7E,
     0x5F, 0xA8, 0xE6, 0x11, 0x7A, 0x8D, 0xC3, 0x34,
     0xAB, 0x5C, 0x12, 0xE5, 0x8E, 0x79, 0x37, 0xC0,
     0xE1, 0x16, 0x58, 0xAF, 0xC4, 0x33, 0x7D, 0x8A,
     0x3F, 0xC8, 0x86, 0x71, 0x1A, 0xED, 0xA3, 0x54,
     0x75, 0x82, 0xCC, 0x3B, 0x50, 0xA7, 0xE9, 0x1E,
     0xD4, 0x23, 0x6D, 0x9A, 0xF1, 0x06, 0x48, 0xBF,
     0x9E, 0x69, 0x27, 0xD0, 0xBB, 0x4C, 0x02, 0xF5,
     0x40, 0xB7, 0xF9, 0x0E, 0x65, 0x92, 0xDC, 0x2B,
     0x0A, 0xFD, 0xB3, 0x44, 0x2F, 0xD8, 0x96, 0x61,
     0x55, 0xA2, 0xEC, 0x1B, 0x70, 0x87, 0xC9, 0x3E,
     0x1F, 0xE8, 0xA6, 0x51, 0x3A, 0xCD, 0x83, 0x74,
     0xC1, 0x36, 0x78, 0x8F, 0xE4, 0x13, 0x5D, 0xAA,
     0x8B, 0x7C, 0x32, 0xC5, 0xAE, 0x59, 0x17, 0xE0,
     0x2A, 0xDD, 0x93, 0x64, 0x0F, 0xF8, 0xB6, 0x41,
     0x60, 0x97, 0xD9, 0x2E, 0x45, 0xB2, 0xFC, 0x0B,
     0xBE, 0x49, 0x07, 0xF0, 0x9B, 0x6C, 0x22, 0xD5,
     0xF4, 0x03, 0x4D, 0xBA, 0xD1, 0x26, 0x68, 0x9F]"

lemma crc8_table_nth:
  assumes "i < 256"
  shows "crc8_table ! i = (crc_step 0xAB ^^ 8) (of_nat i)"
proof -
  have "rev [0..<8] = [7, 6, 5, 4, 3, 2, 1, 0 :: nat]" by code_simp
  then have "map (\<lambda>n. (crc_step 0xAB ^^ 8) (push_bit n 1)) (rev [0..<8])
      = [0xAB, 0xFE, 0x7F, 0x94, 0x4A, 0x25, 0xB9, 0xF7 :: u8]"
    by (simp add: funpow8 crc_step_and)
  then have e: "crc8_table = lin_tab (map (\<lambda>n. (crc_step 0xAB ^^ 8) (push_bit n 1)) (rev [0..<8]))"
    by (simp add: crc8_table_def)
  have "i < 2 ^ 8" using assms by simp
  then show ?thesis unfolding e by (rule lin_tab_nth [where f = "crc_step 0xAB ^^ 8" and i = i and k = 8, OF crc_steps_linear])
qed

definition crc_32_tab :: "u32 list" where
  "crc_32_tab =
    [0x00000000, 0x77073096, 0xee0e612c, 0x990951ba, 0x076dc419, 0x706af48f,
     0xe963a535, 0x9e6495a3, 0x0edb8832, 0x79dcb8a4, 0xe0d5e91e, 0x97d2d988,
     0x09b64c2b, 0x7eb17cbd, 0xe7b82d07, 0x90bf1d91, 0x1db71064, 0x6ab020f2,
     0xf3b97148, 0x84be41de, 0x1adad47d, 0x6ddde4eb, 0xf4d4b551, 0x83d385c7,
     0x136c9856, 0x646ba8c0, 0xfd62f97a, 0x8a65c9ec, 0x14015c4f, 0x63066cd9,
     0xfa0f3d63, 0x8d080df5, 0x3b6e20c8, 0x4c69105e, 0xd56041e4, 0xa2677172,
     0x3c03e4d1, 0x4b04d447, 0xd20d85fd, 0xa50ab56b, 0x35b5a8fa, 0x42b2986c,
     0xdbbbc9d6, 0xacbcf940, 0x32d86ce3, 0x45df5c75, 0xdcd60dcf, 0xabd13d59,
     0x26d930ac, 0x51de003a, 0xc8d75180, 0xbfd06116, 0x21b4f4b5, 0x56b3c423,
     0xcfba9599, 0xb8bda50f, 0x2802b89e, 0x5f058808, 0xc60cd9b2, 0xb10be924,
     0x2f6f7c87, 0x58684c11, 0xc1611dab, 0xb6662d3d, 0x76dc4190, 0x01db7106,
     0x98d220bc, 0xefd5102a, 0x71b18589, 0x06b6b51f, 0x9fbfe4a5, 0xe8b8d433,
     0x7807c9a2, 0x0f00f934, 0x9609a88e, 0xe10e9818, 0x7f6a0dbb, 0x086d3d2d,
     0x91646c97, 0xe6635c01, 0x6b6b51f4, 0x1c6c6162, 0x856530d8, 0xf262004e,
     0x6c0695ed, 0x1b01a57b, 0x8208f4c1, 0xf50fc457, 0x65b0d9c6, 0x12b7e950,
     0x8bbeb8ea, 0xfcb9887c, 0x62dd1ddf, 0x15da2d49, 0x8cd37cf3, 0xfbd44c65,
     0x4db26158, 0x3ab551ce, 0xa3bc0074, 0xd4bb30e2, 0x4adfa541, 0x3dd895d7,
     0xa4d1c46d, 0xd3d6f4fb, 0x4369e96a, 0x346ed9fc, 0xad678846, 0xda60b8d0,
     0x44042d73, 0x33031de5, 0xaa0a4c5f, 0xdd0d7cc9, 0x5005713c, 0x270241aa,
     0xbe0b1010, 0xc90c2086, 0x5768b525, 0x206f85b3, 0xb966d409, 0xce61e49f,
     0x5edef90e, 0x29d9c998, 0xb0d09822, 0xc7d7a8b4, 0x59b33d17, 0x2eb40d81,
     0xb7bd5c3b, 0xc0ba6cad, 0xedb88320, 0x9abfb3b6, 0x03b6e20c, 0x74b1d29a,
     0xead54739, 0x9dd277af, 0x04db2615, 0x73dc1683, 0xe3630b12, 0x94643b84,
     0x0d6d6a3e, 0x7a6a5aa8, 0xe40ecf0b, 0x9309ff9d, 0x0a00ae27, 0x7d079eb1,
     0xf00f9344, 0x8708a3d2, 0x1e01f268, 0x6906c2fe, 0xf762575d, 0x806567cb,
     0x196c3671, 0x6e6b06e7, 0xfed41b76, 0x89d32be0, 0x10da7a5a, 0x67dd4acc,
     0xf9b9df6f, 0x8ebeeff9, 0x17b7be43, 0x60b08ed5, 0xd6d6a3e8, 0xa1d1937e,
     0x38d8c2c4, 0x4fdff252, 0xd1bb67f1, 0xa6bc5767, 0x3fb506dd, 0x48b2364b,
     0xd80d2bda, 0xaf0a1b4c, 0x36034af6, 0x41047a60, 0xdf60efc3, 0xa867df55,
     0x316e8eef, 0x4669be79, 0xcb61b38c, 0xbc66831a, 0x256fd2a0, 0x5268e236,
     0xcc0c7795, 0xbb0b4703, 0x220216b9, 0x5505262f, 0xc5ba3bbe, 0xb2bd0b28,
     0x2bb45a92, 0x5cb36a04, 0xc2d7ffa7, 0xb5d0cf31, 0x2cd99e8b, 0x5bdeae1d,
     0x9b64c2b0, 0xec63f226, 0x756aa39c, 0x026d930a, 0x9c0906a9, 0xeb0e363f,
     0x72076785, 0x05005713, 0x95bf4a82, 0xe2b87a14, 0x7bb12bae, 0x0cb61b38,
     0x92d28e9b, 0xe5d5be0d, 0x7cdcefb7, 0x0bdbdf21, 0x86d3d2d4, 0xf1d4e242,
     0x68ddb3f8, 0x1fda836e, 0x81be16cd, 0xf6b9265b, 0x6fb077e1, 0x18b74777,
     0x88085ae6, 0xff0f6a70, 0x66063bca, 0x11010b5c, 0x8f659eff, 0xf862ae69,
     0x616bffd3, 0x166ccf45, 0xa00ae278, 0xd70dd2ee, 0x4e048354, 0x3903b3c2,
     0xa7672661, 0xd06016f7, 0x4969474d, 0x3e6e77db, 0xaed16a4a, 0xd9d65adc,
     0x40df0b66, 0x37d83bf0, 0xa9bcae53, 0xdebb9ec5, 0x47b2cf7f, 0x30b5ffe9,
     0xbdbdf21c, 0xcabac28a, 0x53b39330, 0x24b4a3a6, 0xbad03605, 0xcdd70693,
     0x54de5729, 0x23d967bf, 0xb3667a2e, 0xc4614ab8, 0x5d681b02, 0x2a6f2b94,
     0xb40bbe37, 0xc30c8ea1, 0x5a05df1b, 0x2d02ef8d]"


lemma crc_32_tab_nth:
  assumes "i < 256"
  shows "crc_32_tab ! i = (crc_step 0xedb88320 ^^ 8) (of_nat i)"
proof -
  have "rev [0..<8] = [7, 6, 5, 4, 3, 2, 1, 0 :: nat]" by code_simp
  then have "map (\<lambda>n. (crc_step 0xedb88320 ^^ 8) (push_bit n 1)) (rev [0..<8])
      = [0xEDB88320, 0x76DC4190, 0x3B6E20C8, 0x1DB71064, 0xEDB8832, 0x76DC419, 0xEE0E612C, 0x77073096 :: u32]"
    by (simp add: funpow8 crc_step_and)
  then have e: "crc_32_tab = lin_tab (map (\<lambda>n. (crc_step 0xedb88320 ^^ 8) (push_bit n 1)) (rev [0..<8]))"
    by (simp add: crc_32_tab_def)
  have "i < 2 ^ 8" using assms by simp
  then show ?thesis unfolding e by (rule lin_tab_nth [where f = "crc_step 0xedb88320 ^^ 8" and i = i and k = 8, OF crc_steps_linear])
qed


section \<open>A byte at a time, and a bit at a time\<close>

text \<open>The register of a bit-serial CRC after a string of bytes, the low bit of a byte first.\<close>

definition crc_bits :: "'a::len word \<Rightarrow> 'a word \<Rightarrow> u8 list \<Rightarrow> 'a word" where
  "crc_bits p = foldl (\<lambda>c b. (crc_step p ^^ 8) (c XOR ucast b))"

lemma crc_steps_high:
  assumes "\<And>i. i < n \<Longrightarrow> \<not> bit c i"
  shows "(crc_step p ^^ n) c = drop_bit n c"
  using assms
proof (induction n)
  case (Suc n)
  then have "(crc_step p ^^ n) c = drop_bit n c" by simp
  moreover have "\<not> bit c n" using Suc.prems by simp
  moreover from this have "crc_step p (drop_bit n c) = drop_bit (Suc n) c"
    by (simp add: crc_step_def bit_drop_bit_eq)
  ultimately show ?case by (metis funpow.simps(2) comp_apply)
qed simp

text \<open>The table step: \<open>tab[(c ^ b) & 0xff] ^ (c >> 8)\<close> is eight bit steps.\<close>

lemma crc_steps_split:
  fixes c :: "'a::len word"
  assumes "8 \<le> LENGTH('a)"
  shows "(crc_step p ^^ 8) c = (crc_step p ^^ 8) (c AND mask 8) XOR drop_bit 8 c"
proof -
  have "c = (c AND mask 8) XOR (c AND NOT (mask 8))"
    by (rule bit_word_eqI) (auto simp: bit_xor_iff bit_and_iff bit_not_iff)
  then have "(crc_step p ^^ 8) c
      = (crc_step p ^^ 8) (c AND mask 8) XOR (crc_step p ^^ 8) (c AND NOT (mask 8))"
    by (metis crc_steps_linear)
  moreover have "(crc_step p ^^ 8) (c AND NOT (mask 8)) = drop_bit 8 (c AND NOT (mask 8))"
    by (rule crc_steps_high) (auto simp: bit_and_iff bit_not_iff bit_mask_iff)
  moreover have "drop_bit 8 (c AND NOT (mask 8)) = drop_bit 8 c"
    by (rule bit_word_eqI) (auto simp: bit_and_iff bit_not_iff bit_mask_iff bit_drop_bit_eq dest: bit_imp_le_length)
  ultimately show ?thesis by simp
qed

end
