(* ===== verification/Trx.thy ===== *)
theory Trx
  imports Crc
begin

text \<open>
  The firmware image builder \<^verbatim>\<open>tools/asustrx.c\<close>: from one to three files it makes an image with
  a TRX header, aligned parts, an optional footer and a CRC. The option parser is left to the C
  library; its result is the record \<open>trx_opts\<close>. A file is its content, or \<open>None\<close> when it cannot be
  opened. The host is a 64-bit little-endian one. A store outside the allocated buffer is the
  result \<open>Buffer_overrun\<close>.
\<close>

section \<open>Buffers\<close>

definition put :: "nat \<Rightarrow> u8 list \<Rightarrow> u8 list \<Rightarrow> u8 list option" where
  "put i bs buf =
     (if i + length bs \<le> length buf then Some (take i buf @ bs @ drop (i + length bs) buf) else None)"

lemma put_length: "put i bs buf = Some b \<Longrightarrow> length b = length buf"
  by (auto simp: put_def split: if_splits)

lemma put_fits: "i + length bs \<le> length buf \<Longrightarrow> \<exists>b. put i bs buf = Some b"
  by (simp add: put_def)

lemma put_None: "put i bs buf = None \<longleftrightarrow> length buf < i + length bs"
  by (auto simp: put_def)

lemma put_same: "put i bs buf = Some b \<Longrightarrow> slice i (length bs) b = bs"
  by (auto simp: put_def slice_def split: if_splits)

lemma put_other:
  assumes "put i bs buf = Some b" "j + n \<le> i \<or> i + length bs \<le> j"
  shows "slice j n b = slice j n buf"
proof -
  have b: "b = take i buf @ bs @ drop (i + length bs) buf" "i + length bs \<le> length buf"
    using assms(1) by (auto simp: put_def split: if_splits)
  from assms(2) show ?thesis
  proof
    assume "j + n \<le> i"
    then show ?thesis using b by (simp add: slice_def take_drop min_def)
  next
    assume "i + length bs \<le> j"
    then show ?thesis using b by (simp add: slice_def)
  qed
qed

section \<open>The image\<close>

definition TRX_MAGIC :: u32 where "TRX_MAGIC = 0x30524448"
definition TRX_VERSION :: u32 where "TRX_VERSION = 1"
definition TRX_MAX_LEN :: nat where "TRX_MAX_LEN = 0x9A0000"

datatype trx_error = Usage | Malloc_failed | Offset_too_large | Cannot_open | File_too_large | Buffer_overrun | Fwrite_failed

record trx_opts =
  seg_offsets :: "u32 list"
  maxlen :: nat
  prod_id :: "u8 list"
  version :: "u8 list"

definition crc32buf :: "u8 list \<Rightarrow> u32" where
  "crc32buf bs =
     foldl (\<lambda>crc b. crc_32_tab ! unat ((crc XOR scast b) AND 0xff) XOR drop_bit 8 crc) 0xFFFFFFFF bs"

text \<open>One file: its place, its bytes and, when another one follows, zeros up to a word.\<close>

definition trx_file ::
  "trx_opts \<Rightarrow> bool \<Rightarrow> nat \<Rightarrow> u8 list option \<Rightarrow> nat \<times> u8 list \<Rightarrow> trx_error + nat \<times> u8 list" where
  "trx_file opts another i file st =
     (let (cur_len, buf) = st;
          off = get32 (16 + 4 * i) buf;
          placed =
            (if off = 0 then
               (case put (16 + 4 * i) (bytes32 (of_nat cur_len)) buf of
                  None \<Rightarrow> Inl Buffer_overrun | Some buf \<Rightarrow> Inr (cur_len, buf))
             else if cur_len > unat off then Inl Offset_too_large
             else Inr (unat off, buf))
      in case placed of Inl e \<Rightarrow> Inl e
         | Inr (cur_len, buf) \<Rightarrow>
             (case file of None \<Rightarrow> Inl Cannot_open
              | Some content \<Rightarrow>
                  let avail = nat ((int (maxlen opts) - int cur_len) mod 2 ^ 64);
                      n = length content
                  in case put cur_len (take avail content) buf of
                       None \<Rightarrow> Inl Buffer_overrun
                     | Some buf \<Rightarrow>
                         if avail \<le> n then Inl File_too_large
                         else if another \<and> n mod 4 \<noteq> 0 then
                           (case put (cur_len + n) (replicate (4 - n mod 4) 0) buf of
                              None \<Rightarrow> Inl Buffer_overrun
                            | Some buf \<Rightarrow> Inr ((cur_len + (n + (4 - n mod 4))) mod 2 ^ 32, buf))
                         else Inr ((cur_len + n) mod 2 ^ 32, buf)))"

fun trx_files ::
  "trx_opts \<Rightarrow> nat \<Rightarrow> u8 list option list \<Rightarrow> nat \<times> u8 list \<Rightarrow> trx_error + nat \<times> u8 list" where
  "trx_files opts i [] st = Inr st"
| "trx_files opts i (f # fs) st =
     (case trx_file opts (fs \<noteq> []) i f st of Inl e \<Rightarrow> Inl e
      | Inr st \<Rightarrow> trx_files opts (i + 1) fs st)"

text \<open>The footer: version, product, the fixed hardware list, padding.\<close>

definition asus_footer :: "trx_opts \<Rightarrow> u8 list" where
  "asus_footer opts = version opts @ prod_id opts @ [0, 2, 2, 99] @ replicate 44 0"

definition trx_header :: "trx_opts \<Rightarrow> u8 list" where
  "trx_header opts =
     bytes32 TRX_MAGIC @ bytes32 0 @ bytes32 0 @ bytes32 (push_bit 16 TRX_VERSION) @
     concat (map bytes32 (take 3 (seg_offsets opts @ [0, 0, 0])))"

text \<open>From the last file to the bytes handed to \<^verbatim>\<open>fwrite\<close>.\<close>

definition trx_finish :: "trx_opts \<Rightarrow> nat \<times> u8 list \<Rightarrow> trx_error + u8 list" where
  "trx_finish opts st =
     (let (cur_len, buf) = st;
          cur_len = (if prod_id opts ! 0 \<noteq> 0 then (cur_len + 64) mod 2 ^ 32 else cur_len);
          n = cur_len mod 0x1000;
          pad = (if n \<noteq> 0 then 0x1000 - n else 0)
      in case put cur_len (replicate pad 0) buf of None \<Rightarrow> Inl Buffer_overrun
         | Some buf \<Rightarrow>
             let cur_len = (cur_len + pad) mod 2 ^ 32
             in case (if prod_id opts ! 0 = 0 then Some buf
                      else if cur_len < 64 then None
                      else put (cur_len - 64) (asus_footer opts) buf) of
                  None \<Rightarrow> Inl Buffer_overrun
                | Some buf \<Rightarrow>
                    if cur_len < 12 \<or> length buf < cur_len then Inl Buffer_overrun
                    else
                      let crc = crc32buf (slice 12 (cur_len - 12) buf)
                      in case put 8 (bytes32 crc) buf of None \<Rightarrow> Inl Buffer_overrun
                         | Some buf \<Rightarrow>
                             (case put 4 (bytes32 (of_nat cur_len)) buf of None \<Rightarrow> Inl Buffer_overrun
                              | Some buf \<Rightarrow> Inr (take cur_len buf)))"

definition trx_build :: "trx_opts \<Rightarrow> u8 list option list \<Rightarrow> trx_error + u8 list" where
  "trx_build opts files =
     (if length (seg_offsets opts) > 3 then Inl Buffer_overrun
      else if files = [] then Inl Usage
      else if length files > 3 then Inl Usage
      else case put 0 (trx_header opts) (replicate (maxlen opts) 0) of None \<Rightarrow> Inl Buffer_overrun
         | Some buf \<Rightarrow>
             (case trx_files opts 0 files (28, buf) of Inl e \<Rightarrow> Inl e
              | Inr st \<Rightarrow> trx_finish opts st))"

section \<open>The checksum\<close>

text \<open>C25: The table-driven checksum is the bit-serial CRC of the polynomial 0xedb88320 over the
  bytes, started from all ones and not inverted at the end.\<close>
theorem crc32buf_serial: "crc32buf bs = crc_bits 0xedb88320 0xFFFFFFFF bs"
proof -
  have step: "crc_32_tab ! unat ((c XOR scast b) AND 0xff) XOR drop_bit 8 c
      = (crc_step 0xedb88320 ^^ 8) (c XOR ucast b)" for c and b :: u8
  proof -
    have m: "(0xff :: u32) = mask 8" by (simp add: mask_eq_exp_minus_1)
    let ?i = "(c XOR scast b) AND mask 8"
    have i: "?i = (c XOR ucast b) AND mask 8"
      by (rule bit_word_eqI) (auto simp: bit_and_iff bit_xor_iff bit_mask_iff bit_ucast_iff bit_signed_iff)
    have "unat ?i < 256"
      using and_mask_less' [of 8 "c XOR scast b"] by (simp add: word_less_nat_alt)
    then have "crc_32_tab ! unat ?i = (crc_step 0xedb88320 ^^ 8) ?i"
      using crc_32_tab_nth [of "unat ?i"] by simp
    moreover have "drop_bit 8 (c XOR ucast b) = drop_bit 8 c"
      by (rule bit_word_eqI) (auto simp: bit_drop_bit_eq bit_xor_iff bit_ucast_u8)
    ultimately show ?thesis
      using crc_steps_split [of "0xedb88320" "c XOR ucast b"] by (simp add: m i)
  qed
  show ?thesis unfolding crc32buf_def crc_bits_def step ..
qed

section \<open>What is in an image\<close>

definition align4 :: "nat \<Rightarrow> nat" where
  "align4 n = (if n mod 4 = 0 then n else n + (4 - n mod 4))"

lemma align4_mod: "align4 n mod 4 = 0"
proof (cases "n mod 4 = 0")
  case False
  have "n + (4 - n mod 4) = 4 * (n div 4) + 4" using mult_div_mod_eq [of 4 n] by arith
  with False show ?thesis by (simp add: align4_def)
qed (simp add: align4_def)

lemma align4_ge: "n \<le> align4 n"
  unfolding align4_def by (split if_split) (simp only: le_add1 order_refl simp_thms)

lemma align4_below: "c mod 4 = 0 \<Longrightarrow> m mod 4 = 0 \<Longrightarrow> c + n < m \<Longrightarrow> c + align4 n \<le> m"
proof -
  assume a: "c mod 4 = 0" "m mod 4 = 0" "c + n < m"
  obtain k l where k: "c = 4 * k" "m = 4 * l" using a(1,2) by (auto elim!: dvdE simp: mod_eq_0_iff_dvd)
  have "n < 4 * (l - k)" using a(3) k by simp
  moreover have "align4 n \<le> 4 * q" if "n < 4 * q" for q
    using that div_mult_mod_eq [of n 4] by (auto simp: align4_def) arith
  ultimately show ?thesis using k a(3) by fastforce
qed

text \<open>A file without a given offset: its offset is recorded, its bytes are copied, the other words
  of the header and all earlier parts stay.\<close>

lemma trx_file_ok:
  assumes buf: "length buf = maxlen opts" and m: "maxlen opts < 2 ^ 32" "maxlen opts mod 4 = 0"
    and off: "get32 (16 + 4 * i) buf = 0" and i: "16 + 4 * i + 4 \<le> cur"
    and cur: "cur mod 4 = 0" "cur + length c < maxlen opts"
  shows "\<exists>b. trx_file opts another i (Some c) (cur, buf)
      = Inr (cur + (if another then align4 (length c) else length c), b) \<and>
    length b = maxlen opts \<and> get32 (16 + 4 * i) b = of_nat cur \<and> slice cur (length c) b = c \<and>
    (\<forall>j n. j + n \<le> cur \<and> (j + n \<le> 16 + 4 * i \<or> 20 + 4 * i \<le> j) \<longrightarrow> slice j n b = slice j n buf)"
proof -
  let ?n = "length c"
  obtain b1 where b1: "put (16 + 4 * i) (bytes32 (of_nat cur)) buf = Some b1"
    using put_fits [of "16 + 4 * i" "bytes32 (of_nat cur)" buf] buf i cur by auto
  have l1: "length b1 = maxlen opts" using put_length [OF b1] buf by simp
  have avail: "nat ((int (maxlen opts) - int cur) mod 2 ^ 64) = maxlen opts - cur"
    using cur m by (subst mod_pos_pos_trivial) auto
  have t: "take (maxlen opts - cur) c = c" using cur by simp
  obtain b2 where b2: "put cur c b1 = Some b2"
    using put_fits [of cur c b1] l1 cur by auto
  have l2: "length b2 = maxlen opts" using put_length [OF b2] l1 by simp
  have pad: "cur + ?n + (4 - ?n mod 4) \<le> length b2" if "?n mod 4 \<noteq> 0"
    using align4_below [OF cur(1) m(2) cur(2)] l2 that by (simp add: align4_def)
  define b3 where "b3 = (if another \<and> ?n mod 4 \<noteq> 0
      then the (put (cur + ?n) (replicate (4 - ?n mod 4) 0) b2) else b2)"
  have b3: "put (cur + ?n) (replicate (4 - ?n mod 4) 0) b2 = Some b3" if "another" "?n mod 4 \<noteq> 0"
    using put_fits [of "cur + ?n" "replicate (4 - ?n mod 4) 0" b2] pad that by (auto simp: b3_def)
  have s3: "length b3 = maxlen opts \<and> (\<forall>j n. j + n \<le> cur + ?n \<longrightarrow> slice j n b3 = slice j n b2)"
  proof (cases "another \<and> ?n mod 4 \<noteq> 0")
    case True
    with put_length [OF b3] put_other [OF b3] l2 show ?thesis by auto
  qed (auto simp: b3_def l2)
  have e: "trx_file opts another i (Some c) (cur, buf)
      = Inr (cur + (if another then align4 ?n else ?n), b3)"
  proof (cases "another \<and> ?n mod 4 \<noteq> 0")
    case True
    define k where "k = 4 - ?n mod 4"
    have "(cur + (?n + k)) mod 2 ^ 32 = cur + (?n + k)"
      by (rule mod_less) (use pad True m l2 k_def in auto)
    moreover have "put (cur + ?n) (replicate k 0) b2 = Some b3" using b3 True by (simp add: k_def)
    moreover have "align4 ?n = ?n + k" using True by (simp add: align4_def k_def)
    ultimately show ?thesis
      using True off b1 b2 avail t cur by (simp add: trx_file_def Let_def k_def [symmetric])
  next
    case False
    then have "b3 = b2" by (simp only: b3_def if_False)
    moreover have "(cur + ?n) mod 2 ^ 32 = cur + ?n" by (rule mod_less) (use cur m in simp)
    ultimately show ?thesis
      using False off b1 b2 avail t cur by (auto simp: trx_file_def Let_def align4_def)
  qed
  have "get32 (16 + 4 * i) b3 = of_nat cur"
    using s3 put_other [OF b2, of "16 + 4 * i" 4] put_same [OF b1] i by (simp add: get32_def)
  moreover have "slice cur ?n b3 = c" using s3 put_same [OF b2] by simp
  moreover have "slice j n b3 = slice j n buf"
    if "j + n \<le> cur" "j + n \<le> 16 + 4 * i \<or> 20 + 4 * i \<le> j" for j n
    using s3 put_other [OF b2, of j n] put_other [OF b1, of j n] that by simp
  ultimately show ?thesis using e s3 by blast
qed

text \<open>The last steps: whatever stands before \<open>cur\<close> stays, but for the length and the checksum.\<close>

definition foot :: "trx_opts \<Rightarrow> nat" where
  "foot opts = (if prod_id opts ! 0 \<noteq> 0 then 64 else 0)"

definition round4k :: "nat \<Rightarrow> nat" where
  "round4k n = n + (if n mod 0x1000 \<noteq> 0 then 0x1000 - n mod 0x1000 else 0)"

lemma round4k_props: "round4k n mod 4096 = 0" "n \<le> round4k n"
  "n \<le> m \<Longrightarrow> m mod 4096 = 0 \<Longrightarrow> round4k n \<le> m"
proof -
  show "n \<le> round4k n" by (simp only: round4k_def le_add1)
  have e: "round4k n = 4096 * ((n + 4095) div 4096)"
  proof (cases "n mod 4096 = 0")
    case True
    then obtain k where "n = 4096 * k" by (auto elim: dvdE simp: mod_eq_0_iff_dvd)
    then show ?thesis by (simp add: round4k_def)
  next
    case False
    define q r where "q = n div 4096" and "r = n mod 4096"
    have n: "n = 4096 * q + r" "r < 4096" "r \<noteq> 0" using False by (simp_all add: q_def r_def)
    then have "(n + 4095) div 4096 = q + 1" by (intro div_nat_eqI) auto
    then show ?thesis using n by (simp add: round4k_def)
  qed
  then show "round4k n mod 4096 = 0" by simp
  assume "n \<le> m" "m mod 4096 = 0"
  then obtain k where k: "m = 4096 * k" by (auto elim: dvdE simp: mod_eq_0_iff_dvd)
  with \<open>n \<le> m\<close> have "n + 4095 < Suc k * 4096" by simp
  then have "(n + 4095) div 4096 < Suc k" by (rule less_mult_imp_div_less)
  then show "round4k n \<le> m" unfolding e k by (intro mult_le_mono2) (simp only: less_Suc_eq_le)
qed

lemma slice_take: "j + n \<le> t \<Longrightarrow> slice j n (take t b) = slice j n b"
  by (simp add: slice_def drop_take min_def)

lemma trx_finish_ok:
  assumes buf: "length buf = maxlen opts" "maxlen opts mod 4096 = 0" "maxlen opts < 2 ^ 32"
    and cur: "28 \<le> cur" "cur + foot opts \<le> maxlen opts"
    and footer: "length (prod_id opts) = 12" "length (version opts) = 4"
  shows "\<exists>img. trx_finish opts (cur, buf) = Inr img \<and> length img = round4k (cur + foot opts) \<and>
    get32 4 img = of_nat (length img) \<and> get32 8 img = crc32buf (drop 12 img) \<and>
    (\<forall>j n. j + n \<le> cur \<and> (j + n \<le> 4 \<or> 12 \<le> j) \<longrightarrow> slice j n img = slice j n buf)"
proof -
  define c where "c = cur + foot opts"
  define pad where "pad = (if c mod 0x1000 \<noteq> 0 then 0x1000 - c mod 0x1000 else 0)"
  have t: "c + pad = round4k c" by (simp add: round4k_def pad_def)
  have tm: "round4k c \<le> maxlen opts" using round4k_props(3) cur buf by (simp add: c_def)
  have cc: "cur \<le> c" "28 \<le> c" using cur by (simp_all add: c_def)
  obtain b1 where b1: "put c (replicate pad 0) buf = Some b1"
    using put_fits [of c "replicate pad 0" buf] buf t tm by auto
  have l1: "length b1 = maxlen opts" using put_length [OF b1] buf by simp
  have small: "c < 2 ^ 32" "c + pad < 2 ^ 32" using cur(2) buf(3) t tm by (simp_all add: c_def)
  obtain b2 where b2: "(if prod_id opts ! 0 = 0 then Some b1 else if c + pad < 64 then None
        else put (c + pad - 64) (asus_footer opts) b1) = Some b2"
  proof (cases "prod_id opts ! 0 = 0")
    case False
    then have "c + pad - 64 + length (asus_footer opts) \<le> length b1"
      using l1 t tm footer by (simp add: asus_footer_def c_def foot_def)
    moreover have "\<not> c + pad < 64" using False by (simp add: c_def foot_def)
    ultimately show ?thesis using put_fits [of "c + pad - 64" "asus_footer opts" b1] False that by auto
  qed (use that in auto)
  have l2: "length b2 = maxlen opts" using put_length b2 l1 by (auto split: if_splits)
  let ?crc = "crc32buf (slice 12 (c + pad - 12) b2)"
  obtain b3 where b3: "put 8 (bytes32 ?crc) b2 = Some b3"
    using put_fits [of 8 "bytes32 ?crc" b2] l2 tm t cc by auto
  have l3: "length b3 = maxlen opts" using put_length [OF b3] l2 by simp
  obtain b4 where b4: "put 4 (bytes32 (of_nat (c + pad))) b3 = Some b4"
    using put_fits [of 4 "bytes32 (of_nat (c + pad))" b3] l3 tm t cc by auto
  have l4: "length b4 = maxlen opts" using put_length [OF b4] l3 by simp
  define img where "img = take (c + pad) b4"
  have li: "length img = round4k c" using l4 t tm by (simp add: img_def)
  have e: "trx_finish opts (cur, buf) = Inr img"
  proof -
    have c1: "(if prod_id opts ! 0 \<noteq> 0 then (cur + 64) mod 2 ^ 32 else cur) = c"
      using small(1) by (cases "prod_id opts ! 0 = 0") (simp_all add: c_def foot_def)
    have c2: "(c + pad) mod 2 ^ 32 = c + pad" using small(2) by (rule mod_less)
    have "\<not> (c + pad < 12 \<or> length b2 < c + pad)" using l2 t tm cc by simp
    then show ?thesis
      unfolding trx_finish_def Let_def prod.case c1 pad_def [symmetric] c2
      by (simp only: b1 b2 b3 b4 option.case if_False img_def)
  qed
  have sl: "slice j n img = slice j n b4" if "j + n \<le> round4k c" for j n
    using that t by (simp add: img_def slice_take)
  have keep: "slice j n b2 = slice j n buf" if "j + n \<le> cur" for j n
    using that put_other [OF b1, of j n] put_other [of "c + pad - 64" "asus_footer opts" b1 b2 j n] b2 cc
    by (auto simp: c_def foot_def asus_footer_def footer split: if_splits)
  have h: "slice j n img = slice j n b2" if "j + n \<le> round4k c" "j + n \<le> 4 \<or> 12 \<le> j" for j n
    using that sl put_other [OF b4, of j n] put_other [OF b3, of j n] by auto
  have "get32 4 img = of_nat (length img)"
    using sl [of 4 4] put_same [OF b4] t cc li by (simp add: get32_def)
  moreover have "get32 8 img = ?crc"
    using sl [of 8 4] put_same [OF b3] put_other [OF b4, of 8 4] t cc by (simp add: get32_def)
  moreover have "slice 12 (c + pad - 12) b2 = drop 12 img"
    using h [of 12 "c + pad - 12"] li t cc by (simp add: slice_def)
  moreover have "\<forall>j n. j + n \<le> cur \<and> (j + n \<le> 4 \<or> 12 \<le> j) \<longrightarrow> slice j n img = slice j n buf"
    using h keep cc t by auto
  ultimately show ?thesis using e li by (auto simp: c_def)
qed

section \<open>Properties of images\<close>

lemma trx_header_words:
  assumes "seg_offsets opts = []"
  shows "length (trx_header opts) = 28" "slice 0 4 (trx_header opts) = bytes32 TRX_MAGIC"
    "slice 16 4 (trx_header opts) = bytes32 0" "slice 20 4 (trx_header opts) = bytes32 0"
  using assms by (simp_all add: trx_header_def slice_def bytes32_def)

lemma slice_slice: "j + n \<le> m \<Longrightarrow> slice j n (slice 0 m b) = slice j n b"
  by (simp add: slice_def drop_take min_def)

lemma two_files_layout:
  assumes opts: "seg_offsets opts = []" "length (prod_id opts) = 12" "length (version opts) = 4"
    "maxlen opts mod 4096 = 0" "maxlen opts < 2 ^ 32"
    and room: "28 + align4 (length a) + length b + foot opts \<le> maxlen opts"
      "28 + align4 (length a) + length b < maxlen opts"
  shows "\<exists>img. trx_build opts [Some a, Some b] = Inr img \<and> length img \<le> maxlen opts \<and> length img mod 4096 = 0 \<and>
    get32 0 img = TRX_MAGIC \<and> get32 4 img = of_nat (length img) \<and>
    get32 8 img = crc32buf (drop 12 img) \<and>
    get32 16 img = 28 \<and> slice 28 (length a) img = a \<and>
    get32 20 img = of_nat (28 + align4 (length a)) \<and> slice (28 + align4 (length a)) (length b) img = b"
proof -
  note h = trx_header_words [OF opts(1)]
  have ge: "length a \<le> align4 (length a)" by (rule align4_ge)
  have m4: "maxlen opts mod 4 = 0"
    using opts(4) by (auto simp: mod_eq_0_iff_dvd intro: dvd_trans [of 4 4096])
  obtain b0 where b0: "put 0 (trx_header opts) (replicate (maxlen opts) 0) = Some b0"
    using put_fits [of 0 "trx_header opts" "replicate (maxlen opts) 0"] h(1) room by auto
  have l0: "length b0 = maxlen opts" using put_length [OF b0] by simp
  have "slice 0 28 b0 = trx_header opts" using put_same [OF b0] h(1) by simp
  then have hb: "slice j 4 b0 = slice j 4 (trx_header opts)" if "j + 4 \<le> 28" for j
    using slice_slice [of j 4 28 b0] that by simp
  have z: "get32 (16 + 4 * 0) b0 = 0" "get32 20 b0 = 0" "get32 0 b0 = TRX_MAGIC"
    using hb [of 16] hb [of 20] hb [of 0] h by (simp_all add: get32_def)
  have "28 + length a < maxlen opts" using ge room(2) by linarith
  from trx_file_ok [OF l0 opts(5) m4 z(1), of 28 a True] this
  obtain b1 where b1: "trx_file opts True 0 (Some a) (28, b0) = Inr (28 + align4 (length a), b1)"
    "length b1 = maxlen opts" "get32 16 b1 = 28" "slice 28 (length a) b1 = a"
    "\<And>j n. j + n \<le> 28 \<Longrightarrow> j + n \<le> 16 \<or> 20 \<le> j \<Longrightarrow> slice j n b1 = slice j n b0"
    by auto
  let ?c = "28 + align4 (length a)"
  have z1: "get32 (16 + 4 * 1) b1 = 0" "get32 0 b1 = TRX_MAGIC"
    using b1(5) [of 20 4] b1(5) [of 0 4] z by (simp_all add: get32_def)
  have "?c mod 4 = 0" using align4_mod [of "length a"] by (simp add: mod_eq_0_iff_dvd dvd_add_right_iff)
  from trx_file_ok [OF b1(2) opts(5) m4 z1(1) _ this, of b False] room(2)
  obtain b2 where b2: "trx_file opts False 1 (Some b) (?c, b1) = Inr (?c + length b, b2)"
    "length b2 = maxlen opts" "get32 20 b2 = of_nat ?c" "slice ?c (length b) b2 = b"
    "\<And>j n. j + n \<le> ?c \<Longrightarrow> j + n \<le> 20 \<or> 24 \<le> j \<Longrightarrow> slice j n b2 = slice j n b1"
    by auto
  obtain img where img: "trx_finish opts (?c + length b, b2) = Inr img"
    "length img = round4k (?c + length b + foot opts)" "get32 4 img = of_nat (length img)"
    "get32 8 img = crc32buf (drop 12 img)"
    "\<And>j n. j + n \<le> ?c + length b \<Longrightarrow> j + n \<le> 4 \<or> 12 \<le> j \<Longrightarrow> slice j n img = slice j n b2"
    using trx_finish_ok [OF b2(2) opts(4,5) _ room(1) opts(2,3)] by auto
  have e: "trx_build opts [Some a, Some b] = Inr img"
    using b0 b1(1) b2(1) img(1) opts(1) by (simp add: trx_build_def)
  have "get32 0 img = TRX_MAGIC" "get32 16 img = 28" "get32 20 img = of_nat ?c"
    using img(5) [of 0 4] img(5) [of 16 4] img(5) [of 20 4] b2(5) [of 0 4] b2(5) [of 16 4] z1(2) b1(3) b2(3)
    by (simp_all add: get32_def)
  moreover have "slice 28 (length a) img = a" "slice ?c (length b) img = b"
    using img(5) [of 28 "length a"] img(5) [of ?c "length b"] b2(5) [of 28 "length a"] b1(4) b2(4) ge
    by simp_all
  moreover have "length img mod 4096 = 0" using img(2) round4k_props(1) by simp
  moreover have "length img \<le> maxlen opts" using img(2) round4k_props(3) [OF room(1) opts(4)] by simp
  ultimately show ?thesis using e img(3,4) by - (rule exI [of _ img], intro conjI, assumption+)
qed

text \<open>An image of two files, as the firmware's makefile builds it: a whole number of 4 KiB
  blocks, with the magic number, its own length and the checksum of everything behind it; the
  first part directly behind the header, the second at the next word boundary, their offsets in
  the header; the bytes of both files are at these offsets.\<close>
theorem trx_two_files:
  assumes opts: "seg_offsets opts = []" "length (prod_id opts) = 12" "length (version opts) = 4"
    "maxlen opts mod 4096 = 0" "maxlen opts < 2 ^ 32"
    and room: "28 + align4 (length a) + length b + foot opts \<le> maxlen opts"
      "28 + align4 (length a) + length b < maxlen opts"
  shows "\<exists>img. trx_build opts [Some a, Some b] = Inr img \<and> length img mod 4096 = 0 \<and>
    get32 0 img = TRX_MAGIC \<and> get32 4 img = of_nat (length img) \<and>
    get32 8 img = crc32buf (drop 12 img) \<and>
    get32 16 img = 28 \<and> slice 28 (length a) img = a \<and>
    get32 20 img = of_nat (28 + align4 (length a)) \<and> slice (28 + align4 (length a)) (length b) img = b"
  using two_files_layout [OF opts room] by (elim exE conjE) (intro exI conjI, assumption+)

definition opts0 :: trx_opts where
  "opts0 = \<lparr>seg_offsets = [], maxlen = TRX_MAX_LEN, prod_id = replicate 12 0, version = [1, 9, 2, 7]\<rparr>"

lemma trx_two_files_witness:
  "\<exists>img. trx_build opts0 [Some [1, 2, 3, 4, 5], Some [0x52, 0x49]] = Inr img \<and>
     get32 20 img = 36 \<and> slice 36 2 img = [0x52, 0x49]"
proof -
  have l: "length [1, 2, 3, 4, 5 :: u8] = 5" "length [0x52, 0x49 :: u8] = 2" by simp_all
  show ?thesis
    using trx_two_files [of opts0 "[1, 2, 3, 4, 5]" "[0x52, 0x49]", unfolded l]
    by (auto simp: opts0_def foot_def align4_def TRX_MAX_LEN_def)
qed

text \<open>C26: The footer is not counted when a file is checked against the space: with a product id, a
  last part that ends less than 64 bytes before the end of the buffer makes the builder write
  outside of it.\<close>
theorem trx_footer_overrun:
  assumes opts: "seg_offsets opts = []" "prod_id opts ! 0 \<noteq> 0"
    "maxlen opts mod 4096 = 0" "maxlen opts < 2 ^ 32"
    and room: "28 + length a < maxlen opts" "maxlen opts < 28 + length a + 64"
  shows "trx_build opts [Some a] = Inl Buffer_overrun"
proof -
  note h = trx_header_words [OF opts(1)]
  have m4: "maxlen opts mod 4 = 0"
    using opts(3) by (auto simp: mod_eq_0_iff_dvd intro: dvd_trans [of 4 4096])
  obtain b0 where b0: "put 0 (trx_header opts) (replicate (maxlen opts) 0) = Some b0"
    using put_fits [of 0 "trx_header opts" "replicate (maxlen opts) 0"] h(1) room by auto
  have l0: "length b0 = maxlen opts" using put_length [OF b0] by simp
  have "slice 0 28 b0 = trx_header opts" using put_same [OF b0] h(1) by simp
  then have "slice 16 4 b0 = slice 16 4 (trx_header opts)" using slice_slice [of 16 4 28 b0] by simp
  then have "get32 (16 + 4 * 0) b0 = 0" using h(3) by (simp add: get32_def)
  from trx_file_ok [OF l0 opts(4) m4 this, of 28 a False] room(1)
  obtain b1 where b1: "trx_file opts False 0 (Some a) (28, b0) = Inr (28 + length a, b1)"
    "length b1 = maxlen opts" by auto
  have "put (28 + length a + 64) xs b1 = None" for xs using b1(2) room(2) by (simp add: put_None)
  moreover have "28 + length a + 64 < 2 ^ 32"
  proof -
    obtain k where k: "maxlen opts = 4096 * k" using opts(3) by (auto elim: dvdE simp: mod_eq_0_iff_dvd)
    then have "k < 1048576" using opts(4) by simp
    then show ?thesis using k room(1) by simp
  qed
  ultimately have "trx_finish opts (28 + length a, b1) = Inl Buffer_overrun"
    using opts(2) by (simp add: trx_finish_def Let_def)
  then show ?thesis using b0 b1(1) opts(1) by (simp add: trx_build_def)
qed

lemma trx_footer_overrun_witness:
  "trx_build (opts0\<lparr>maxlen := 0x1000, prod_id := replicate 12 65\<rparr>) [Some (replicate 4060 7)] = Inl Buffer_overrun"
  using trx_footer_overrun [of "opts0\<lparr>maxlen := 0x1000, prod_id := replicate 12 65\<rparr>" "replicate 4060 7"]
  by (simp add: opts0_def)

end
