(* ===== verification/Nvram.thy ===== *)
theory Nvram
  imports Crc
begin

text \<open>
  The non-volatile variables, \<^verbatim>\<open>cfe/bcmnvram.c\<close>: bindings \<^verbatim>\<open>name=value\<close> in 257 hash chains, read
  from an image in flash memory and written back as one. A tuple is its address and its binding; a
  chain is a list. The flash is a function from addresses to bytes; the allocator gives an
  address or \<open>NULL\<close> for each call. The target is little endian. A result \<open>None\<close> means that the
  code reads or writes outside its buffers.
\<close>

section \<open>Data\<close>

record nvram_tuple_t =
  tup_addr :: addr
  binding :: string

record nvram_header_t =
  magic :: u32
  len :: u32
  crc_ver_init :: u32
  config_refresh :: u32
  config_ncdl :: u32

record nvram =
  nv_header :: nvram_header_t
  hashtab :: "nvram_tuple_t list list"
  nv_pending :: "nvram_tuple_t list"

definition HASH_SIZE :: nat where "HASH_SIZE = 257"
definition NVRAM_MAGIC :: u32 where "NVRAM_MAGIC = 0x48534C46"
definition NVRAM_VERSION :: u32 where "NVRAM_VERSION = 1"
definition NVRAM_VER_SHIFT :: nat where "NVRAM_VER_SHIFT = 8"
definition NVRAM_CRC_MASK :: u32 where "NVRAM_CRC_MASK = 0xFF"
definition NVRAM_SPACE :: nat where "NVRAM_SPACE = 0x8000"

text \<open>Characters and bytes; a \<^verbatim>\<open>char\<close> of the target is signed.\<close>

definition byte_of :: "char \<Rightarrow> u8" where
  "byte_of c = of_nat (of_char c)"

definition char_of_byte :: "u8 \<Rightarrow> char" where
  "char_of_byte b = char_of (unat b)"

lemma char_of_byte_of [simp]: "char_of_byte (byte_of c) = c"
  using nat_of_char_less_256 [of c]
  by (simp add: char_of_byte_def byte_of_def unat_of_nat take_bit_nat_eq_self)

lemma byte_of_0 [simp]: "byte_of c = 0 \<longleftrightarrow> c = CHR 0x00"
proof -
  have "byte_of (CHR 0x00) = 0" by (simp add: byte_of_def)
  then show ?thesis by (metis char_of_byte_of)
qed

definition nvram_crc :: "(nat \<Rightarrow> u8) \<Rightarrow> nat \<Rightarrow> u8" where
  "nvram_crc base n = foldl (\<lambda>crc off. crc8_table ! unat (crc XOR base off)) 0xFF [9..<n]"

definition nvram_hash :: "string \<Rightarrow> nat" where
  "nvram_hash name =
     unat (foldl (\<lambda>sum c. 7 * sum + scast (byte_of c)) (0 :: u32) (takeWhile (\<lambda>c. c \<noteq> CHR ''='') name))
     mod HASH_SIZE"

section \<open>Operations\<close>

definition nvram_lookup :: "string \<Rightarrow> nvram \<Rightarrow> nvram_tuple_t option" where
  "nvram_lookup name s =
     find (\<lambda>p. take (length name) (binding p) = name \<and> length name < length (binding p) \<and>
               binding p ! length name = CHR ''='') (hashtab s ! nvram_hash name)"

definition nvram_insert :: "nat \<Rightarrow> nvram_tuple_t \<Rightarrow> nvram \<Rightarrow> nvram" where
  "nvram_insert hash tuple s = s\<lparr>hashtab := (hashtab s)[hash := tuple # hashtab s ! hash]\<rparr>"

fun chain_remove :: "addr \<Rightarrow> nvram_tuple_t list \<Rightarrow> int \<times> nvram_tuple_t list" where
  "chain_remove a [] = (0, [])"
| "chain_remove a (p # ps) =
     (if tup_addr p = a then (1, ps)
      else let (r, ps) = chain_remove a ps in (r, p # ps))"

definition nvram_delete :: "nat \<Rightarrow> nvram_tuple_t \<Rightarrow> nvram \<Rightarrow> int \<times> nvram" where
  "nvram_delete hash tuple s =
     (let (r, chain) = chain_remove (tup_addr tuple) (hashtab s ! hash)
      in (r, s\<lparr>hashtab := (hashtab s)[hash := chain]\<rparr>))"

definition read_header :: "(addr \<Rightarrow> u8) \<Rightarrow> addr \<Rightarrow> nvram_header_t" where
  "read_header mem a =
     \<lparr>magic = mem32 mem a, len = mem32 mem (a + 4), crc_ver_init = mem32 mem (a + 8),
      config_refresh = mem32 mem (a + 12), config_ncdl = mem32 mem (a + 16)\<rparr>"

text \<open>The header found, and the two checksums when they differ: that is only reported.\<close>

definition nvram_find :: "(addr \<Rightarrow> u8) \<Rightarrow> addr \<Rightarrow> u32 \<Rightarrow> addr option \<times> (u8 \<times> u32) option" where
  "nvram_find mem base nvsize =
     (let hdr = base + nvsize - of_nat NVRAM_SPACE
      in if magic (read_header mem hdr) \<noteq> NVRAM_MAGIC then (None, None)
         else
           let stored = crc_ver_init (read_header mem hdr) AND NVRAM_CRC_MASK;
               crc = nvram_crc (\<lambda>off. mem (hdr + of_nat off)) (unat (len (read_header mem hdr)))
           in (Some hdr, if ucast crc \<noteq> stored then Some (crc, stored) else None))"

text \<open>The loop over the strings of the buffer; \<open>alloc k\<close> is the result of the \<open>k\<close>-th allocation, \<open>left\<close> the
  number of bytes up to \<^verbatim>\<open>hdr->len\<close>, and a string that runs past all bytes copied is \<open>None\<close>.\<close>

function internalize_loop :: "(nat \<Rightarrow> addr) \<Rightarrow> nat \<Rightarrow> nat \<Rightarrow> u8 list \<Rightarrow> nvram \<Rightarrow> (int \<times> nvram) option" where
  "internalize_loop alloc k left bs s =
     (if left = 0 \<or> bs = [] \<or> hd bs = 0 then Some (0, s)
      else
        let str = map char_of_byte (takeWhile (\<lambda>b. b \<noteq> 0) bs);
            rest = dropWhile (\<lambda>b. b \<noteq> 0) bs
        in if rest = [] then None
           else if alloc k = NULL then Some (-1, s)
           else internalize_loop alloc (k + 1) (left - (length str + 1)) (tl rest)
                  (nvram_insert (nvram_hash str) \<lparr>tup_addr = alloc k, binding = str\<rparr> s))"
  by pat_completeness auto
termination
  by (relation "measure (\<lambda>(_, _, _, bs, _). length bs)")
    (auto simp: less_Suc_eq_le neq_Nil_conv intro: le_trans [OF diff_le_self length_dropWhile_le])

declare internalize_loop.simps [simp del]

text \<open>The copy is made word by word, so it ends at the next word boundary.\<close>

definition nvram_internalize ::
  "(addr \<Rightarrow> u8) \<Rightarrow> (nat \<Rightarrow> addr) \<Rightarrow> addr \<Rightarrow> nvram \<Rightarrow> (int \<times> nvram) option" where
  "nvram_internalize mem alloc hdr s =
     (let n = unat (len (read_header mem hdr))
      in if alloc 0 = NULL \<or> n < 20 then None
         else internalize_loop alloc 1 (n - 20)
                (map (\<lambda>off. mem (hdr + of_nat off)) [20..<4 * ((n + 3) div 4)]) s)"

definition nvram_init ::
  "(addr \<Rightarrow> u8) \<Rightarrow> (nat \<Rightarrow> addr) \<Rightarrow> addr \<Rightarrow> u32 \<Rightarrow> nvram \<Rightarrow> (int \<times> nvram) option" where
  "nvram_init mem alloc base nvsize s =
     (let s = s\<lparr>hashtab := replicate HASH_SIZE []\<rparr>;
          s = s\<lparr>nv_pending := []\<rparr>
      in case fst (nvram_find mem base nvsize) of
           Some hdr \<Rightarrow>
             (case nvram_internalize mem alloc hdr (s\<lparr>nv_header := read_header mem hdr\<rparr>) of
                None \<Rightarrow> None | Some (_, s) \<Rightarrow> Some (0, s))
         | None \<Rightarrow>
             Some (0, s\<lparr>nv_header := \<lparr>magic = NVRAM_MAGIC, len = 20,
               crc_ver_init = push_bit NVRAM_VER_SHIFT NVRAM_VERSION, config_refresh = 0, config_ncdl = 0\<rparr>\<rparr>))"

text \<open>The result and the bindings the callback saw.\<close>

definition nvram_enum :: "(string \<Rightarrow> int) \<Rightarrow> nvram \<Rightarrow> int \<times> string list" where
  "nvram_enum proc s =
     (let bs = map binding (concat (hashtab s)); seen = takeWhile (\<lambda>b. proc b \<noteq> 0) bs
      in if seen = bs then (1, bs) else (0, take (length seen + 1) bs))"

definition nvram_get :: "string \<Rightarrow> nvram \<Rightarrow> string option" where
  "nvram_get name s =
     (case nvram_lookup name s of None \<Rightarrow> None | Some p \<Rightarrow> Some (drop (length name + 1) (binding p)))"

definition nvram_set :: "addr \<Rightarrow> string \<Rightarrow> string \<Rightarrow> nvram \<Rightarrow> int \<times> nvram" where
  "nvram_set mem name value s =
     (if mem = NULL then (-1, s)
      else
        let tuple = \<lparr>tup_addr = mem, binding = name @ ''='' @ value\<rparr>;
            hash = nvram_hash name;
            s = (case nvram_lookup name s of None \<Rightarrow> s
                 | Some p \<Rightarrow> let s = snd (nvram_delete hash p s) in s\<lparr>nv_pending := p # nv_pending s\<rparr>)
        in (0, nvram_insert hash tuple s))"

definition nvram_unset :: "string \<Rightarrow> nvram \<Rightarrow> int \<times> nvram" where
  "nvram_unset name s =
     (case nvram_lookup name s of None \<Rightarrow> (-1, s)
      | Some p \<Rightarrow> let s = snd (nvram_delete (nvram_hash name) p s) in (0, s\<lparr>nv_pending := p # nv_pending s\<rparr>))"

definition header_bytes :: "nvram_header_t \<Rightarrow> u8 list" where
  "header_bytes h = bytes32 (magic h) @ bytes32 (len h) @ bytes32 (crc_ver_init h) @
     bytes32 (config_refresh h) @ bytes32 (config_ncdl h)"

definition tuple_bytes :: "nvram_tuple_t \<Rightarrow> u8 list" where
  "tuple_bytes t = map byte_of (binding t) @ [0]"

text \<open>The result, the block given to \<^verbatim>\<open>cfe_writeblk\<close> and the new state.\<close>

definition nvram_commit :: "bool \<Rightarrow> nvram \<Rightarrow> int \<times> u8 list option \<times> nvram" where
  "nvram_commit alloc s =
     (let tuples = concat (hashtab s);
          total = 20 + sum_list (map (\<lambda>p. length (binding p) + 1) tuples);
          total = total + 2;
          total = 4 * ((total + 3) div 4)
      in if total > NVRAM_SPACE then (-1, None, s)
         else if \<not> alloc then (-1, None, s)
         else
           let hdr = (nv_header s)\<lparr>len := of_nat total,
                 crc_ver_init := crc_ver_init (nv_header s) AND NOT NVRAM_CRC_MASK\<rparr>;
               body = concat (map tuple_bytes tuples);
               body = body @ replicate (total - 20 - length body) 0;
               crc = nvram_crc (\<lambda>off. (header_bytes hdr @ body) ! off) total;
               hdr = hdr\<lparr>crc_ver_init := crc_ver_init hdr OR ucast crc\<rparr>
           in (0, Some (header_bytes hdr @ body), s\<lparr>nv_header := hdr\<rparr>))"

section \<open>The table as a map\<close>

text \<open>The name and the value of a binding.\<close>

definition b_name :: "string \<Rightarrow> string" where
  "b_name b = takeWhile (\<lambda>c. c \<noteq> CHR ''='') b"

definition b_value :: "string \<Rightarrow> string" where
  "b_value b = drop (length (b_name b) + 1) b"

lemma b_name_of [simp]: "CHR ''='' \<notin> set n \<Longrightarrow> b_name (n @ CHR ''='' # v) = n"
  unfolding b_name_def by (subst takeWhile_append2) auto

lemma b_value_of [simp]: "CHR ''='' \<notin> set n \<Longrightarrow> b_value (n @ CHR ''='' # v) = v"
  by (simp add: b_value_def)

lemma hash_b_name: "nvram_hash (b_name b) = nvram_hash b"
  by (simp add: nvram_hash_def b_name_def)

lemma nvram_hash_less: "nvram_hash n < 257"
  by (simp add: nvram_hash_def HASH_SIZE_def)

lemma match_iff:
  assumes "CHR ''='' \<notin> set n"
  shows "take (length n) b = n \<and> length n < length b \<and> b ! length n = CHR ''='' \<longleftrightarrow>
    CHR ''='' \<in> set b \<and> b_name b = n"
proof
  assume a: "take (length n) b = n \<and> length n < length b \<and> b ! length n = CHR ''=''"
  then have "b = n @ CHR ''='' # drop (length n + 1) b"
    by (metis Suc_eq_plus1 append_take_drop_id Cons_nth_drop_Suc)
  then show "CHR ''='' \<in> set b \<and> b_name b = n" using assms b_name_of by (metis in_set_conv_decomp)
next
  assume "CHR ''='' \<in> set b \<and> b_name b = n"
  then have d: "dropWhile (\<lambda>c. c \<noteq> CHR ''='') b \<noteq> []" "n = takeWhile (\<lambda>c. c \<noteq> CHR ''='') b"
    by (auto simp: b_name_def dropWhile_eq_Nil_conv)
  from hd_dropWhile [OF d(1)] d(1)
  have "dropWhile (\<lambda>c. c \<noteq> CHR ''='') b = CHR ''='' # tl (dropWhile (\<lambda>c. c \<noteq> CHR ''='') b)"
    by (metis list.collapse)
  then obtain v where "b = n @ CHR ''='' # v" using d(2) by (metis takeWhile_dropWhile_id)
  then show "take (length n) b = n \<and> length n < length b \<and> b ! length n = CHR ''=''" by simp
qed

text \<open>Every tuple is in the chain of its name; in a chain the names, and the addresses, differ.\<close>

definition chain_ok :: "nat \<Rightarrow> nvram_tuple_t list \<Rightarrow> bool" where
  "chain_ok i c \<longleftrightarrow> (\<forall>t \<in> set c. CHR ''='' \<in> set (binding t) \<and> nvram_hash (binding t) = i) \<and>
     distinct (map (\<lambda>t. b_name (binding t)) c) \<and> distinct (map tup_addr c)"

definition nvram_wf :: "nvram \<Rightarrow> bool" where
  "nvram_wf s \<longleftrightarrow> length (hashtab s) = 257 \<and> (\<forall>i < 257. chain_ok i (hashtab s ! i))"

definition chain_get :: "string \<Rightarrow> string list \<Rightarrow> string option" where
  "chain_get n bs = map_option b_value (find (\<lambda>b. b_name b = n) bs)"

lemma find_map_binding: "find P (map f xs) = map_option f (find (P \<circ> f) xs)"
  by (induction xs) auto

lemma find_cong_set: "(\<And>x. x \<in> set xs \<Longrightarrow> P x = Q x) \<Longrightarrow> find P xs = find Q xs"
  by (induction xs) auto

lemma nvram_lookup_eq:
  assumes "\<forall>t \<in> set (hashtab s ! nvram_hash n). CHR ''='' \<in> set (binding t)" "CHR ''='' \<notin> set n"
  shows "nvram_lookup n s = find (\<lambda>t. b_name (binding t) = n) (hashtab s ! nvram_hash n)"
  using assms(1) unfolding nvram_lookup_def match_iff [OF assms(2)]
  by (intro find_cong_set) auto

lemma nvram_get_eq:
  assumes "\<forall>t \<in> set (hashtab s ! nvram_hash n). CHR ''='' \<in> set (binding t)" "CHR ''='' \<notin> set n"
  shows "nvram_get n s = chain_get n (map binding (hashtab s ! nvram_hash n))"
proof (cases "find (\<lambda>t. b_name (binding t) = n) (hashtab s ! nvram_hash n)")
  case (Some t)
  then have "b_name (binding t) = n" by (auto simp: find_Some_iff)
  with Some nvram_lookup_eq [OF assms] show ?thesis
    by (simp add: nvram_get_def chain_get_def find_map_binding comp_def b_value_def)
next
  case None
  with nvram_lookup_eq [OF assms] show ?thesis
    by (simp add: nvram_get_def chain_get_def find_map_binding comp_def)
qed

lemma wf_chain_eq:
  assumes "nvram_wf s"
  shows "\<forall>t \<in> set (hashtab s ! nvram_hash n). CHR ''='' \<in> set (binding t)"
proof -
  have "chain_ok (nvram_hash n) (hashtab s ! nvram_hash n)"
    using assms nvram_hash_less by (simp add: nvram_wf_def)
  then show ?thesis by (simp add: chain_ok_def)
qed

lemmas nvram_lookup_find = nvram_lookup_eq [OF wf_chain_eq]
lemmas nvram_get_chain = nvram_get_eq [OF wf_chain_eq]

text \<open>Removing the tuple found by name leaves the other names.\<close>

lemma chain_remove_filter:
  "distinct (map tup_addr c) \<Longrightarrow> p \<in> set c \<Longrightarrow> snd (chain_remove (tup_addr p) c) = filter (\<lambda>t. t \<noteq> p) c"
proof (induction c)
  case (Cons q c)
  show ?case
  proof (cases "q = p")
    case True
    then have "p \<notin> set c" using Cons.prems(1) by auto
    then have "filter (\<lambda>t. t \<noteq> p) c = c" by (auto simp: filter_id_conv)
    with True show ?thesis by simp
  next
    case False
    then have "p \<in> set c" "tup_addr q \<noteq> tup_addr p" using Cons.prems by auto
    with Cons False show ?thesis by (simp add: split_beta)
  qed
qed simp

definition forget :: "string \<Rightarrow> nvram_tuple_t list \<Rightarrow> nvram_tuple_t list" where
  "forget n c = filter (\<lambda>t. b_name (binding t) \<noteq> n) c"

lemma forget_found:
  assumes "chain_ok i c" "find (\<lambda>t. b_name (binding t) = n) c = Some p"
  shows "snd (chain_remove (tup_addr p) c) = forget n c"
proof -
  have p: "p \<in> set c" "b_name (binding p) = n" using assms(2) by (auto simp: find_Some_iff)
  have "snd (chain_remove (tup_addr p) c) = filter (\<lambda>t. t \<noteq> p) c"
    using assms(1) p by (intro chain_remove_filter) (auto simp: chain_ok_def)
  also have "\<dots> = forget n c" unfolding forget_def
  proof (rule filter_cong [OF refl])
    fix t
    assume "t \<in> set c"
    then show "(t \<noteq> p) = (b_name (binding t) \<noteq> n)"
      using assms(1) p by (auto simp: chain_ok_def distinct_map inj_on_def)
  qed
  finally show ?thesis .
qed

lemma forget_none: "find (\<lambda>t. b_name (binding t) = n) c = None \<Longrightarrow> forget n c = c"
  by (auto simp: forget_def find_None_iff filter_id_conv)

lemma chain_ok_forget: "chain_ok i c \<Longrightarrow> chain_ok i (forget n c)"
  by (auto simp: chain_ok_def forget_def distinct_map_filter)

lemma chain_get_forget:
  "chain_get m (map binding (forget n c)) = (if m = n then None else chain_get m (map binding c))"
  by (induction c) (auto simp: chain_get_def forget_def)

lemma wf_update:
  "nvram_wf s \<Longrightarrow> chain_ok i c \<Longrightarrow> nvram_wf (s\<lparr>hashtab := (hashtab s)[i := c]\<rparr>)"
  by (cases "i < 257") (auto simp: nvram_wf_def nth_list_update)

lemma wf_pending [simp]: "nvram_wf (s\<lparr>nv_pending := x\<rparr>) = nvram_wf s"
  by (simp add: nvram_wf_def)

section \<open>Setting and removing\<close>

lemma nth_update: "i < length xs \<Longrightarrow> xs[i := y] ! j = (if j = i then y else xs ! j)"
  by (simp add: nth_list_update)

text \<open>What lookup and delete do to the chain of a name, whether it is bound or not.\<close>

definition dropped :: "string \<Rightarrow> nvram \<Rightarrow> nvram" where
  "dropped n s = (case nvram_lookup n s of None \<Rightarrow> s
     | Some p \<Rightarrow> let s = snd (nvram_delete (nvram_hash n) p s) in s\<lparr>nv_pending := p # nv_pending s\<rparr>)"

lemma dropped_hashtab:
  assumes "nvram_wf s" "CHR ''='' \<notin> set n"
  shows "hashtab (dropped n s) = (hashtab s)[nvram_hash n := forget n (hashtab s ! nvram_hash n)]"
proof -
  have ok: "chain_ok (nvram_hash n) (hashtab s ! nvram_hash n)"
    using assms(1) nvram_hash_less by (simp add: nvram_wf_def)
  show ?thesis
  proof (cases "find (\<lambda>t. b_name (binding t) = n) (hashtab s ! nvram_hash n)")
    case None
    then show ?thesis using nvram_lookup_find [OF assms] by (simp add: dropped_def forget_none)
  next
    case (Some p)
    with forget_found [OF ok this] show ?thesis using nvram_lookup_find [OF assms]
      by (simp add: dropped_def nvram_delete_def Let_def split_beta)
  qed
qed

lemma wf_hashtab: "hashtab t = hashtab u \<Longrightarrow> nvram_wf u \<Longrightarrow> nvram_wf t"
  by (simp add: nvram_wf_def)

lemma dropped_wf:
  assumes "nvram_wf s" "CHR ''='' \<notin> set n"
  shows "nvram_wf (dropped n s)"
proof -
  have "chain_ok (nvram_hash n) (forget n (hashtab s ! nvram_hash n))"
    using assms(1) nvram_hash_less by (intro chain_ok_forget) (simp add: nvram_wf_def)
  from wf_hashtab [OF _ wf_update [OF assms(1) this]] show ?thesis by (simp add: dropped_hashtab [OF assms])
qed

lemma dropped_get:
  assumes "nvram_wf s" "CHR ''='' \<notin> set n" "CHR ''='' \<notin> set m"
  shows "nvram_get m (dropped n s) = ((\<lambda>m. nvram_get m s)(n := None)) m"
proof -
  have "length (hashtab s) = 257" using assms(1) by (simp add: nvram_wf_def)
  then show ?thesis
    using dropped_wf [OF assms(1,2)] assms nvram_hash_less [of n]
    by (auto simp: nvram_get_chain dropped_hashtab nth_update chain_get_forget)
qed

lemma nvram_unset_dropped: "nvram_unset n s = (if nvram_lookup n s = None then -1 else 0, dropped n s)"
  by (simp add: nvram_unset_def dropped_def Let_def split: option.split)

lemma nvram_set_dropped:
  "a \<noteq> NULL \<Longrightarrow> nvram_set a n v s =
     (0, nvram_insert (nvram_hash n) \<lparr>tup_addr = a, binding = n @ CHR ''='' # v\<rparr> (dropped n s))"
  by (simp add: nvram_set_def dropped_def Let_def split: option.split)

text \<open>The addresses in use.\<close>

definition tup_addrs :: "nvram \<Rightarrow> addr set" where
  "tup_addrs s = tup_addr ` set (concat (hashtab s))"

lemma concat_insert:
  assumes "i < length xs"
  shows "set (concat (xs[i := y # xs ! i])) = insert y (set (concat xs))"
proof -
  have e: "xs = take i xs @ xs ! i # drop (Suc i) xs" using assms by (rule id_take_nth_drop)
  have "xs[i := y # xs ! i] = take i xs @ (y # xs ! i) # drop (Suc i) xs"
    using assms by (rule upd_conv_take_nth_drop)
  then have "set (concat (xs[i := y # xs ! i]))
      = insert y (set (concat (take i xs @ xs ! i # drop (Suc i) xs)))" by simp
  then show ?thesis using e by simp
qed

lemma insert_wf:
  fixes v :: string
  assumes wf: "nvram_wf s" and n: "CHR ''='' \<notin> set n" and a: "a \<notin> tup_addrs s"
    and fresh: "nvram_get n s = None"
  defines "t \<equiv> nvram_insert (nvram_hash n) \<lparr>tup_addr = a, binding = n @ CHR ''='' # v\<rparr> s"
  shows "nvram_wf t \<and> (CHR ''='' \<notin> set m \<longrightarrow> nvram_get m t = ((\<lambda>m. nvram_get m s)(n \<mapsto> v)) m) \<and>
    tup_addrs t = insert a (tup_addrs s)"
proof -
  let ?h = "nvram_hash n"
  have len: "length (hashtab s) = 257" and h: "?h < 257"
    using wf nvram_hash_less by (simp_all add: nvram_wf_def)
  have ok: "chain_ok ?h (hashtab s ! ?h)" using wf h by (simp add: nvram_wf_def)
  have "find (\<lambda>t. b_name (binding t) = n) (hashtab s ! ?h) = None"
    using fresh nvram_get_chain [OF wf n] by (simp add: chain_get_def find_map_binding comp_def)
  then have new: "n \<notin> (\<lambda>t. b_name (binding t)) ` set (hashtab s ! ?h)" by (auto simp: find_None_iff)
  have "hashtab s ! ?h \<in> set (hashtab s)" using len h by simp
  then have "a \<notin> tup_addr ` set (hashtab s ! ?h)" using a by (auto simp: tup_addrs_def)
  then have ok': "chain_ok ?h (\<lparr>tup_addr = a, binding = n @ CHR ''='' # v\<rparr> # hashtab s ! ?h)"
    using ok new n hash_b_name [of "n @ CHR ''='' # v"] by (auto simp: chain_ok_def)
  have wf': "nvram_wf t" unfolding t_def nvram_insert_def by (rule wf_update [OF wf ok'])
  have ch: "chain_get k (b # bs) = (if b_name b = k then Some (b_value b) else chain_get k bs)" for k b bs
    by (simp add: chain_get_def)
  have nb: "b_name (n @ CHR ''='' # v) = n" "b_value (n @ CHR ''='' # v) = v" using n by simp_all
  have "nvram_get m t = ((\<lambda>m. nvram_get m s)(n \<mapsto> v)) m" if "CHR ''='' \<notin> set m"
    using wf wf' that n len h nb by (auto simp: nvram_get_chain t_def nvram_insert_def nth_update ch)
  moreover have "tup_addrs t = insert a (tup_addrs s)"
    using len h concat_insert [of ?h "hashtab s"] by (simp add: tup_addrs_def t_def nvram_insert_def)
  ultimately show ?thesis using wf' by blast
qed

text \<open>A sequence of operations, and what it does to the map of variables.\<close>

datatype nv_op = Set_var addr string string | Unset_var string

fun nv_step :: "nv_op \<Rightarrow> nvram \<Rightarrow> nvram" where
  "nv_step (Set_var a n v) s = snd (nvram_set a n v s)"
| "nv_step (Unset_var n) s = snd (nvram_unset n s)"

fun nv_spec :: "nv_op \<Rightarrow> (string \<rightharpoonup> string) \<Rightarrow> (string \<rightharpoonup> string)" where
  "nv_spec (Set_var a n v) m = m(n \<mapsto> v)"
| "nv_spec (Unset_var n) m = m(n := None)"

fun op_name :: "nv_op \<Rightarrow> string" where
  "op_name (Set_var a n v) = n"
| "op_name (Unset_var n) = n"

fun op_addr :: "nv_op \<Rightarrow> addr list" where
  "op_addr (Set_var a n v) = [a]"
| "op_addr (Unset_var n) = []"

lemma dropped_addrs:
  assumes "nvram_wf s" "CHR ''='' \<notin> set n"
  shows "tup_addrs (dropped n s) \<subseteq> tup_addrs s"
proof -
  have i: "nvram_hash n < length (hashtab s)" using assms(1) nvram_hash_less by (simp add: nvram_wf_def)
  have "set (hashtab (dropped n s)) \<subseteq> insert (forget n (hashtab s ! nvram_hash n)) (set (hashtab s))"
    using set_update_subset_insert by (simp add: dropped_hashtab [OF assms])
  moreover have "set (forget n (hashtab s ! nvram_hash n)) \<subseteq> set (hashtab s ! nvram_hash n)"
    by (auto simp: forget_def)
  ultimately show ?thesis using nth_mem [OF i] unfolding tup_addrs_def set_concat by blast
qed

lemma nv_step_refines:
  assumes wf: "nvram_wf s" and n: "CHR ''='' \<notin> set (op_name c)"
    and a: "NULL \<notin> set (op_addr c)" "tup_addrs s \<inter> set (op_addr c) = {}"
  shows "nvram_wf (nv_step c s) \<and>
    (CHR ''='' \<notin> set m \<longrightarrow> nvram_get m (nv_step c s) = nv_spec c (\<lambda>m. nvram_get m s) m) \<and>
    tup_addrs (nv_step c s) \<subseteq> tup_addrs s \<union> set (op_addr c)"
proof (cases c)
  case (Unset_var n)
  then show ?thesis
    using dropped_wf [OF wf] dropped_get [OF wf] dropped_addrs [OF wf] assms by (auto simp: nvram_unset_dropped)
next
  case (Set_var x n v)
  have x: "x \<noteq> NULL" "CHR ''='' \<notin> set n" "x \<notin> tup_addrs s" using Set_var n a by auto
  have w: "nvram_wf (dropped n s)" by (rule dropped_wf [OF wf x(2)])
  have "x \<notin> tup_addrs (dropped n s)" using dropped_addrs [OF wf x(2)] x(3) by blast
  moreover have "nvram_get n (dropped n s) = None" using dropped_get [OF wf x(2) x(2)] by simp
  ultimately have i: "nvram_wf (nv_step c s)"
    "CHR ''='' \<notin> set m \<Longrightarrow> nvram_get m (nv_step c s) = ((\<lambda>m. nvram_get m (dropped n s))(n \<mapsto> v)) m"
    "tup_addrs (nv_step c s) = insert x (tup_addrs (dropped n s))"
    using insert_wf [OF w x(2), where a = x and m = m and v = v] Set_var x(1) by (simp_all add: nvram_set_dropped)
  moreover have "CHR ''='' \<notin> set m \<Longrightarrow>
      ((\<lambda>m. nvram_get m (dropped n s))(n \<mapsto> v)) m = ((\<lambda>m. nvram_get m s)(n \<mapsto> v)) m"
    using dropped_get [OF wf x(2)] by auto
  ultimately show ?thesis using dropped_addrs [OF wf x(2)] Set_var by auto
qed

lemma nv_spec_cong:
  assumes "\<And>m. CHR ''='' \<notin> set m \<Longrightarrow> f m = g m" "CHR ''='' \<notin> set m"
  shows "fold nv_spec cs f m = fold nv_spec cs g m"
  using assms(1)
proof (induction cs arbitrary: f g)
  case (Cons d ds)
  have "nv_spec d f k = nv_spec d g k" if "CHR ''='' \<notin> set k" for k
    using Cons.prems that by (cases d) auto
  from Cons.IH [OF this] show ?case by simp
next
  case Nil
  then show ?case using assms(2) by simp
qed

lemma nv_run_wf:
  assumes "nvram_wf s" "\<And>c. c \<in> set cs \<Longrightarrow> CHR ''='' \<notin> set (op_name c)"
    "distinct (concat (map op_addr cs))" "NULL \<notin> set (concat (map op_addr cs))"
    "tup_addrs s \<inter> set (concat (map op_addr cs)) = {}"
  shows "nvram_wf (fold nv_step cs s) \<and>
    (\<forall>m. CHR ''='' \<notin> set m \<longrightarrow>
      nvram_get m (fold nv_step cs s) = fold nv_spec cs (\<lambda>m. nvram_get m s) m)"
  using assms
proof (induction cs arbitrary: s)
  case (Cons c cs)
  have n: "CHR ''='' \<notin> set (op_name c)" using Cons.prems(2) by simp
  have a: "NULL \<notin> set (op_addr c)" "tup_addrs s \<inter> set (op_addr c) = {}" using Cons.prems(4,5) by auto
  note step = nv_step_refines [OF Cons.prems(1) n a]
  have "tup_addrs (nv_step c s) \<inter> set (concat (map op_addr cs)) = {}"
  proof -
    have "tup_addrs (nv_step c s) \<subseteq> tup_addrs s \<union> set (op_addr c)" using step by blast
    moreover have "(tup_addrs s \<union> set (op_addr c)) \<inter> set (concat (map op_addr cs)) = {}"
      using Cons.prems(3,5) by auto
    ultimately show ?thesis by blast
  qed
  with Cons.IH [of "nv_step c s"] step Cons.prems have IH: "nvram_wf (fold nv_step cs (nv_step c s)) \<and>
    (\<forall>m. CHR ''='' \<notin> set m \<longrightarrow>
      nvram_get m (fold nv_step cs (nv_step c s)) = fold nv_spec cs (\<lambda>m. nvram_get m (nv_step c s)) m)"
    by auto
  show ?case
  proof (intro conjI allI impI)
    show "nvram_wf (fold nv_step (c # cs) s)" using IH by simp
    fix m
    assume m: "CHR ''='' \<notin> set m"
    have "nvram_get m (fold nv_step (c # cs) s) = fold nv_spec cs (\<lambda>m. nvram_get m (nv_step c s)) m"
      using IH m by simp
    also have "\<dots> = fold nv_spec cs (nv_spec c (\<lambda>m. nvram_get m s)) m"
      by (rule nv_spec_cong [OF _ m]) (use step in blast)
    finally show "nvram_get m (fold nv_step (c # cs) s) = fold nv_spec (c # cs) (\<lambda>m. nvram_get m s) m"
      by simp
  qed
qed simp

lemma nvram_wf_empty: "hashtab s = replicate HASH_SIZE [] \<Longrightarrow> nvram_wf s"
  by (simp add: nvram_wf_def HASH_SIZE_def chain_ok_def)

text \<open>C20: On a well-formed table, for names without an equals sign and allocations at fresh
  addresses, every sequence of settings and removals leaves a well-formed table, and looking a
  variable up gives what the same updates of a map give.\<close>
theorem nvram_refines_map:
  assumes "nvram_wf s" "\<And>c. c \<in> set cs \<Longrightarrow> CHR ''='' \<notin> set (op_name c)"
    "distinct (concat (map op_addr cs))" "NULL \<notin> set (concat (map op_addr cs))"
    "tup_addrs s \<inter> set (concat (map op_addr cs)) = {}"
  shows "nvram_wf (fold nv_step cs s) \<and>
    (\<forall>m. CHR ''='' \<notin> set m \<longrightarrow>
      nvram_get m (fold nv_step cs s) = fold nv_spec cs (\<lambda>m. nvram_get m s) m)"
  using nv_run_wf [OF assms] .

definition nv_empty :: nvram where
  "nv_empty = \<lparr>nv_header = \<lparr>magic = NVRAM_MAGIC, len = 20, crc_ver_init = 0x100,
     config_refresh = 0, config_ncdl = 0\<rparr>, hashtab = replicate HASH_SIZE [], nv_pending = []\<rparr>"

lemma nv_empty_facts: "nvram_wf nv_empty" "tup_addrs nv_empty = {}" "nvram_get n nv_empty = None"
proof -
  show "nvram_wf nv_empty" by (rule nvram_wf_empty) (simp add: nv_empty_def)
  show "tup_addrs nv_empty = {}" by (auto simp: tup_addrs_def nv_empty_def)
  show "nvram_get n nv_empty = None"
    using nvram_hash_less [of n] by (simp add: nvram_get_def nvram_lookup_def nv_empty_def HASH_SIZE_def)
qed

lemma nvram_refines_map_witness:
  "nvram_get ''b'' (fold nv_step [Set_var 4 ''a'' ''1'', Set_var 8 ''b'' ''2'', Unset_var ''a''] nv_empty)
     = Some ''2''"
proof -
  let ?cs = "[Set_var 4 ''a'' ''1'', Set_var 8 ''b'' ''2'', Unset_var ''a'']"
  have "CHR ''='' \<notin> set (op_name c)" if "c \<in> set ?cs" for c using that by auto
  then show ?thesis
    using nvram_refines_map [OF nv_empty_facts(1), of ?cs] by (simp add: nv_empty_facts)
qed

section \<open>Writing and reading back\<close>

lemma chain_get_rev:
  "distinct (map b_name bs) \<Longrightarrow> chain_get n (rev bs) = chain_get n bs"
proof (induction bs)
  case (Cons b bs)
  have "chain_get n (xs @ [b]) = (case chain_get n xs of None \<Rightarrow> chain_get n [b] | Some v \<Rightarrow> Some v)" for xs
    by (induction xs) (simp_all add: chain_get_def)
  moreover have "chain_get n (b # bs) = (if b_name b = n then Some (b_value b) else chain_get n bs)"
    "chain_get n [b] = (if b_name b = n then Some (b_value b) else None)" by (simp_all add: chain_get_def)
  moreover have "b_name b = n \<Longrightarrow> chain_get n bs = None"
    using Cons.prems by (auto simp: chain_get_def find_None_iff image_iff)
  ultimately show ?case using Cons by (auto split: option.splits)
qed simp

text \<open>Reading the strings of a list of tuples back.\<close>

definition reload :: "(nat \<Rightarrow> addr) \<Rightarrow> nat \<Rightarrow> string list \<Rightarrow> nvram \<Rightarrow> nvram" where
  "reload alloc k bs s = fold (\<lambda>(a, b). nvram_insert (nvram_hash b) \<lparr>tup_addr = a, binding = b\<rparr>)
     (zip (map alloc [k..<k + length bs]) bs) s"

lemma reload_Cons:
  "reload alloc k (b # bs) s
     = reload alloc (k + 1) bs (nvram_insert (nvram_hash b) \<lparr>tup_addr = alloc k, binding = b\<rparr> s)"
proof -
  have "[k..<k + length (b # bs)] = k # [k + 1..<k + 1 + length bs]"
    by (simp add: upt_conv_Cons del: upt_Suc)
  then show ?thesis by (simp add: reload_def del: upt_Suc)
qed

lemma internalize_loop_strings:
  assumes "\<And>b. b \<in> set bs \<Longrightarrow> b \<noteq> [] \<and> CHR 0x00 \<notin> set b" "\<And>k. alloc k \<noteq> NULL"
  shows "internalize_loop alloc k (length (concat (map (\<lambda>b. map byte_of b @ [0]) bs)) + z)
      (concat (map (\<lambda>b. map byte_of b @ [0]) bs) @ replicate z 0 @ rst) s
    = Some (0, reload alloc k bs s)"
  using assms(1)
proof (induction bs arbitrary: k s)
  case Nil
  show ?case by (cases z) (simp_all add: internalize_loop.simps reload_def)
next
  case (Cons b bs)
  let ?r = "concat (map (\<lambda>b. map byte_of b @ [0]) bs) @ replicate z 0 @ rst"
  let ?n = "length (concat (map (\<lambda>b. map byte_of b @ [0]) bs)) + z"
  have b: "b \<noteq> []" "CHR 0x00 \<notin> set b" using Cons.prems by auto
  then have h: "byte_of (hd b) \<noteq> 0" "\<forall>x \<in> set (map byte_of b). x \<noteq> 0" by (auto simp: hd_in_set) (metis hd_in_set)
  then have t: "takeWhile (\<lambda>x. x \<noteq> 0) (map byte_of b @ 0 # ?r) = map byte_of b"
    "dropWhile (\<lambda>x. x \<noteq> 0) (map byte_of b @ 0 # ?r) = 0 # ?r"
    by (simp_all add: takeWhile_append2 dropWhile_append2 del: set_map)
  have "internalize_loop alloc k (length b + 1 + ?n) (map byte_of b @ 0 # ?r) s
      = internalize_loop alloc (k + 1) ?n ?r (nvram_insert (nvram_hash b) \<lparr>tup_addr = alloc k, binding = b\<rparr> s)"
    using b h t assms(2) by (subst internalize_loop.simps) (simp add: hd_append hd_map comp_def)
  then show ?case using Cons by (simp add: reload_Cons add.assoc)
qed

text \<open>After a reload every chain holds the strings of its hash, the last one first.\<close>

lemma reload_chain:
  assumes "length (hashtab s) = 257"
  shows "length (hashtab (reload alloc k bs s)) = 257 \<and>
    map binding (hashtab (reload alloc k bs s) ! i)
      = rev (filter (\<lambda>b. nvram_hash b = i) bs) @ map binding (hashtab s ! i)"
  using assms
proof (induction bs arbitrary: k s)
  case (Cons b bs)
  let ?t = "nvram_insert (nvram_hash b) \<lparr>tup_addr = alloc k, binding = b\<rparr> s"
  have l: "length (hashtab ?t) = 257" using Cons.prems by (simp add: nvram_insert_def)
  have "hashtab ?t ! i = (if nvram_hash b = i then [\<lparr>tup_addr = alloc k, binding = b\<rparr>] else []) @ hashtab s ! i"
    using Cons.prems nvram_hash_less [of b] by (auto simp: nvram_insert_def nth_update)
  with Cons.IH [OF l] show ?case by (auto simp: reload_Cons)
qed (simp add: reload_def)

lemma filter_concat_chain:
  assumes "nvram_wf s" "i < 257"
  shows "filter (\<lambda>b. nvram_hash b = i) (map binding (concat (hashtab s))) = map binding (hashtab s ! i)"
proof -
  have len: "length (hashtab s) = 257" using assms(1) by (simp add: nvram_wf_def)
  have h: "filter (\<lambda>b. nvram_hash b = i) (map binding (hashtab s ! j))
      = (if j = i then map binding (hashtab s ! j) else [])" if "j < 257" for j
    using assms(1) that by (auto simp: nvram_wf_def chain_ok_def filter_id_conv filter_empty_conv)
  have "filter (\<lambda>b. nvram_hash b = i) (map binding (concat (hashtab s)))
      = concat (map (\<lambda>j. filter (\<lambda>b. nvram_hash b = i) (map binding (hashtab s ! j))) [0..<257])"
    by (subst map_nth [symmetric, of "hashtab s"])
      (simp add: len map_concat filter_concat comp_def)
  also have "\<dots> = concat (map (\<lambda>j. if j = i then map binding (hashtab s ! j) else []) [0..<257])"
    by (rule arg_cong [where f = concat]) (auto simp: h)
  also have "\<dots> = map binding (hashtab s ! i)"
  proof -
    have e: "[0..<257] = [0..<i] @ i # [i + 1..<257]"
      using assms(2) upt_add_eq_append [of 0 i "257 - i"] by (simp add: upt_conv_Cons del: upt_Suc)
    have n: "concat (map (\<lambda>j. if j = i then map binding (hashtab s ! j) else []) xs) = []"
      if "i \<notin> set xs" for xs using that by (induction xs) auto
    have "i \<notin> set [0..<i]" "i \<notin> set [i + 1..<257]" by simp_all
    then show ?thesis
      unfolding e map_append concat_append list.map concat.simps n [OF \<open>i \<notin> set [0..<i]\<close>]
        n [OF \<open>i \<notin> set [i + 1..<257]\<close>] by simp
  qed
  finally show ?thesis .
qed

lemma reload_get:
  assumes wf: "nvram_wf s" and n: "CHR ''='' \<notin> set n"
    and u: "hashtab u = replicate HASH_SIZE []"
  shows "nvram_get n (reload alloc k (map binding (concat (hashtab s))) u) = nvram_get n s"
proof -
  let ?t = "reload alloc k (map binding (concat (hashtab s))) u"
  let ?h = "nvram_hash n"
  have h: "?h < 257" by (rule nvram_hash_less)
  have "map binding (hashtab ?t ! ?h) = rev (map binding (hashtab s ! ?h))"
    using reload_chain [of u alloc k "map binding (concat (hashtab s))" ?h] filter_concat_chain [OF wf h] u h
    by (simp add: HASH_SIZE_def)
  then have c: "map binding (hashtab ?t ! ?h) = rev (map binding (hashtab s ! ?h))" .
  then have "set (map binding (hashtab ?t ! ?h)) = set (map binding (hashtab s ! ?h))" by simp
  then have "\<forall>t \<in> set (hashtab ?t ! ?h). CHR ''='' \<in> set (binding t)"
    using wf_chain_eq [OF wf] by force
  from nvram_get_eq [OF this n] have "nvram_get n ?t = chain_get n (rev (map binding (hashtab s ! ?h)))"
    by (simp add: c)
  also have "\<dots> = chain_get n (map binding (hashtab s ! ?h))"
    using wf h by (intro chain_get_rev) (simp add: nvram_wf_def chain_ok_def comp_def)
  also have "\<dots> = nvram_get n s" by (simp add: nvram_get_chain [OF wf n])
  finally show ?thesis .
qed

lemma header_in_mem:
  assumes "in_mem mem base (header_bytes h @ body)"
  shows "read_header mem base = h"
proof -
  have l: "length (header_bytes h) = 20" by (simp add: header_bytes_def)
  have g: "mem32 mem (base + of_nat j) = get32 j (header_bytes h @ body)" if "j \<le> 16" for j
    using mem32_get32 [OF assms, of j] that l by simp
  show ?thesis
    using g [of 0] g [of 4] g [of 8] g [of 12] g [of 16]
    by (simp add: read_header_def get32_def slice_def header_bytes_def)
qed

lemma crc_header:
  "9 \<le> off \<Longrightarrow>
   (header_bytes (h\<lparr>crc_ver_init := crc_ver_init h OR ucast c\<rparr>) @ body) ! off
     = (header_bytes h @ body) ! off" for c :: u8
proof -
  assume off: "9 \<le> off"
  have "drop_bit 8 (ucast c :: u32) = 0" "drop_bit 16 (ucast c :: u32) = 0" "drop_bit 24 (ucast c :: u32) = 0"
    by (rule bit_word_eqI; auto simp: bit_drop_bit_eq bit_ucast_u8)+
  then have "drop 9 (header_bytes (h\<lparr>crc_ver_init := crc_ver_init h OR ucast c\<rparr>) @ body)
      = drop 9 (header_bytes h @ body)"
    by (simp add: header_bytes_def bytes32_def)
  then have "drop 9 (header_bytes (h\<lparr>crc_ver_init := crc_ver_init h OR ucast c\<rparr>) @ body) ! (off - 9)
      = drop 9 (header_bytes h @ body) ! (off - 9)" by simp
  moreover have "9 \<le> length (header_bytes g @ body)" for g by (simp add: header_bytes_def)
  ultimately show ?thesis using off nth_drop [of 9 _ "off - 9"] by (metis le_add_diff_inverse)
qed

lemma tuple_bytes_strings:
  "concat (map tuple_bytes ts) = concat (map (\<lambda>b. map byte_of b @ [0]) (map binding ts))"
  by (rule arg_cong [where f = concat]) (simp add: tuple_bytes_def)

lemma length_tuples:
  "length (concat (map tuple_bytes ts)) = sum_list (map (\<lambda>p. length (binding p) + 1) ts)"
  by (induction ts) (simp_all add: tuple_bytes_def)

text \<open>The parts of a committed block.\<close>

lemma commit_parts:
  assumes c: "nvram_commit True s = (0, Some blk, s')"
  shows "\<exists>z. blk = header_bytes (nv_header s') @ concat (map tuple_bytes (concat (hashtab s))) @ replicate z 0 \<and>
    length blk \<le> NVRAM_SPACE \<and> len (nv_header s') = of_nat (length blk) \<and>
    magic (nv_header s') = magic (nv_header s) \<and>
    crc_ver_init (nv_header s') AND NVRAM_CRC_MASK = ucast (nvram_crc (\<lambda>off. blk ! off) (length blk))"
proof -
  let ?b = "concat (map tuple_bytes (concat (hashtab s)))"
  define total where "total = 4 * ((20 + length ?b + 2 + 3) div 4)"
  have big: "20 + length ?b \<le> total" by (simp add: total_def)
  define h where "h = (nv_header s)\<lparr>len := of_nat total,
      crc_ver_init := crc_ver_init (nv_header s) AND NOT NVRAM_CRC_MASK\<rparr>"
  define body where "body = ?b @ replicate (total - 20 - length ?b) 0"
  define crc where "crc = nvram_crc (\<lambda>off. (header_bytes h @ body) ! off) total"
  define h' where "h' = h\<lparr>crc_ver_init := crc_ver_init h OR ucast crc\<rparr>"
  have lh: "length (header_bytes g) = 20" for g by (simp add: header_bytes_def)
  have lb: "length (header_bytes g @ body) = total" for g using big lh by (simp add: body_def)
  have "total \<le> NVRAM_SPACE \<and> blk = header_bytes h' @ body \<and> nv_header s' = h'"
    using c unfolding nvram_commit_def Let_def length_tuples [symmetric] total_def [symmetric]
      h_def [symmetric] body_def [symmetric] crc_def [symmetric] h'_def [symmetric]
    by (auto split: if_splits)
  then have b: "total \<le> NVRAM_SPACE" "blk = header_bytes h' @ body" "nv_header s' = h'" by simp_all
  have "nvram_crc (\<lambda>off. blk ! off) total = crc"
    unfolding crc_def nvram_crc_def b(2) h'_def by (rule foldl_cong) (auto simp: crc_header)
  moreover have "crc_ver_init h' AND NVRAM_CRC_MASK = ucast crc"
  proof -
    have "(NVRAM_CRC_MASK :: u32) = mask 8" by (simp add: NVRAM_CRC_MASK_def mask_eq_exp_minus_1)
    moreover have "(x AND NOT (mask 8) OR ucast crc) AND mask 8 = (ucast crc :: u32)" for x
      by (rule bit_word_eqI) (auto simp: bit_and_iff bit_or_iff bit_not_iff bit_mask_iff bit_ucast_u8)
    ultimately show ?thesis by (simp add: h'_def h_def)
  qed
  ultimately show ?thesis
    using b lb by (auto simp: body_def h'_def h_def)
qed

text \<open>C21: A committed block that stands in flash at the place \<^verbatim>\<open>nvram_init\<close> looks at is found, its
  checksum agrees, and reading it gives a table with the same variables.\<close>
theorem nvram_commit_reload:
  assumes wf: "nvram_wf s" and m: "magic (nv_header s) = NVRAM_MAGIC"
    and str: "\<And>t. t \<in> set (concat (hashtab s)) \<Longrightarrow> CHR 0x00 \<notin> set (binding t)"
    and c: "nvram_commit True s = (0, Some blk, s')" and mem: "in_mem mem base blk"
    and alloc: "\<And>k. alloc k \<noteq> NULL"
  shows "nvram_find mem base (of_nat NVRAM_SPACE) = (Some base, None) \<and>
    (\<exists>t. nvram_init mem alloc base (of_nat NVRAM_SPACE) u = Some (0, t) \<and>
      (\<forall>n. CHR ''='' \<notin> set n \<longrightarrow> nvram_get n t = nvram_get n s))"
proof -
  let ?bs = "map binding (concat (hashtab s))"
  obtain z where p: "blk = header_bytes (nv_header s') @ concat (map (\<lambda>b. map byte_of b @ [0]) ?bs) @ replicate z 0"
    "length blk \<le> NVRAM_SPACE" "len (nv_header s') = of_nat (length blk)"
    "magic (nv_header s') = NVRAM_MAGIC"
    "crc_ver_init (nv_header s') AND NVRAM_CRC_MASK = ucast (nvram_crc (\<lambda>off. blk ! off) (length blk))"
    using commit_parts [OF c] m by (auto simp: tuple_bytes_strings)
  have h: "read_header mem base = nv_header s'" using header_in_mem mem p(1) by simp
  have l: "unat (len (nv_header s')) = length blk"
    using p(2,3) by (simp add: unat_of_nat NVRAM_SPACE_def take_bit_nat_eq_self)
  have "nvram_crc (\<lambda>off. mem (base + of_nat off)) (length blk) = nvram_crc (\<lambda>off. blk ! off) (length blk)"
    unfolding nvram_crc_def by (rule foldl_cong) (use mem in \<open>auto simp: in_mem_def\<close>)
  then have f: "nvram_find mem base (of_nat NVRAM_SPACE) = (Some base, None)"
    using h l p(4,5) by (simp add: nvram_find_def Let_def)
  define u' where "u' = u\<lparr>hashtab := replicate HASH_SIZE [], nv_pending := [], nv_header := nv_header s'\<rparr>"
  have "length (header_bytes (nv_header s')) = 20" by (simp add: header_bytes_def)
  then have d: "drop 20 blk = concat (map (\<lambda>b. map byte_of b @ [0]) ?bs) @ replicate z 0" "20 \<le> length blk"
    using p(1) by auto
  have ne: "b \<noteq> [] \<and> CHR 0x00 \<notin> set b" if "b \<in> set ?bs" for b
  proof -
    have "b \<in> binding ` set (concat (hashtab s))" using that by (simp only: set_map)
    then obtain t where t: "t \<in> set (concat (hashtab s))" "b = binding t" by (rule imageE)
    then obtain chain where ch: "chain \<in> set (hashtab s)" "t \<in> set chain" by auto
    then obtain i where "i < 257" "chain = hashtab s ! i"
      using wf by (auto simp: nvram_wf_def in_set_conv_nth [of chain])
    with ch(2) have "CHR ''='' \<in> set b" using wf t(2) by (auto simp: nvram_wf_def chain_ok_def)
    then show ?thesis using str t by auto
  qed
  let ?rest = "map (\<lambda>off. mem (base + of_nat off)) [length blk..<4 * ((length blk + 3) div 4)]"
  have "length (drop 20 blk) = length blk - 20" by simp
  then have "length blk - 20 = length (concat (map (\<lambda>b. map byte_of b @ [0]) ?bs)) + z"
    unfolding d(1) by simp
  then have "internalize_loop alloc 1 (length blk - 20) (drop 20 blk @ ?rest) u' = Some (0, reload alloc 1 ?bs u')"
    using internalize_loop_strings [where bs = ?bs and alloc = alloc and k = 1 and z = z and rst = ?rest and s = u', OF ne alloc] unfolding d(1) by simp
  moreover have "length blk \<le> 4 * ((length blk + 3) div 4)" by linarith
  then have "[20..<4 * ((length blk + 3) div 4)] = [20..<length blk] @ [length blk..<4 * ((length blk + 3) div 4)]"
    using d(2) upt_add_eq_append [of 20 "length blk" "4 * ((length blk + 3) div 4) - length blk"] by simp
  ultimately have "nvram_init mem alloc base (of_nat NVRAM_SPACE) u = Some (0, reload alloc 1 ?bs u')"
    using f h l d(2) alloc [of 0] read_in_mem [OF mem, of 20]
    by (simp add: nvram_init_def nvram_internalize_def Let_def u'_def)
  moreover have "nvram_get n (reload alloc 1 ?bs u') = nvram_get n s" if "CHR ''='' \<notin> set n" for n
    by (rule reload_get [OF wf that]) (simp add: u'_def)
  ultimately show ?thesis using f by blast
qed

lemma nvram_commit_reload_witness:
  "\<exists>blk s' mem t. nvram_commit True (nv_step (Set_var 4 ''a'' ''1'') nv_empty) = (0, Some blk, s') \<and>
     nvram_init mem (\<lambda>k. 8) 0xbc3f8000 (of_nat NVRAM_SPACE) nv_empty = Some (0, t) \<and>
     nvram_get ''a'' t = Some ''1''"
proof -
  let ?s = "nv_step (Set_var 4 ''a'' ''1'') nv_empty"
  let ?t = "\<lparr>tup_addr = 4, binding = ''a=1''\<rparr>"
  have "nvram_lookup ''a'' nv_empty = None"
    using nvram_hash_less [of "''a''"] by (simp add: nvram_lookup_def nv_empty_def HASH_SIZE_def)
  then have s: "?s = nvram_insert (nvram_hash ''a'') ?t nv_empty"
    by (simp add: nvram_set_dropped dropped_def)
  have one: "concat ((replicate n [])[i := [x]]) = [x]" if "i < n" for n i and x :: nvram_tuple_t
    using that by (simp add: upd_conv_take_nth_drop)
  have c: "concat (hashtab ?s) = [?t]"
    unfolding s using nvram_hash_less [of "''a''"] one [of "nvram_hash ''a''" 257 ?t]
    by (simp add: nvram_insert_def nv_empty_def HASH_SIZE_def)
  have "nvram_wf ?s \<and> (CHR ''='' \<notin> set ''a'' \<longrightarrow> nvram_get ''a'' ?s = nv_spec (Set_var 4 ''a'' ''1'') (\<lambda>m. nvram_get m nv_empty) ''a'') \<and>
      tup_addrs ?s \<subseteq> tup_addrs nv_empty \<union> set (op_addr (Set_var 4 ''a'' ''1''))"
    by (rule nv_step_refines) (simp_all add: nv_empty_facts)
  then have w: "nvram_wf ?s" "nvram_get ''a'' ?s = Some ''1''" by simp_all
  obtain blk s' where b: "nvram_commit True ?s = (0, Some blk, s')"
    unfolding nvram_commit_def c by (simp add: Let_def NVRAM_SPACE_def)
  define mem :: "addr \<Rightarrow> u8" where "mem = (\<lambda>a. blk ! unat (a - 0xbc3f8000))"
  have "length blk \<le> 0x8000" using commit_parts [OF b] by (auto simp: NVRAM_SPACE_def)
  then have m: "in_mem mem 0xbc3f8000 blk"
    by (auto simp: in_mem_def mem_def unat_of_nat take_bit_nat_eq_self)
  have h: "magic (nv_header ?s) = NVRAM_MAGIC" unfolding s by (simp add: nvram_insert_def nv_empty_def)
  have n: "CHR 0x00 \<notin> set (binding t)" if "t \<in> set (concat (hashtab ?s))" for t using that unfolding c by simp
  from nvram_commit_reload [OF w(1) h n b m, of "\<lambda>k. 8" nv_empty] b w(2) show ?thesis by fastforce
qed

section \<open>The checksum\<close>

text \<open>The table-driven checksum of an image is the bit-serial CRC of the polynomial of its
  comment, reflected, over all bytes from the tenth, started from all ones.\<close>
theorem nvram_crc_serial: "nvram_crc base n = crc_bits 0xAB 0xFF (map base [9..<n])"
proof -
  have step: "crc8_table ! unat (c XOR b) = (crc_step 0xAB ^^ 8) (c XOR ucast b)" for c b :: u8
  proof -
    have "unat (c XOR b) < 256" using unsigned_less [of "c XOR b", where ?'a = nat] by simp
    from crc8_table_nth [OF this] show ?thesis by simp
  qed
  show ?thesis unfolding nvram_crc_def crc_bits_def foldl_map step ..
qed

end
