(* ===== verification/Boot.thy ===== *)
theory Boot
  imports Trx CpuIrq Busy
begin

text \<open>
  The start-up program \<^verbatim>\<open>main.c\<close>: the serial console and the search for the bytecode in flash. The
  loader looks into the firmware image that \<^verbatim>\<open>tools/asustrx.c\<close> builds. The bytecode version
  \<^verbatim>\<open>RITE_VM_VER\<close> belongs to the interpreter and is a parameter, as is the success of \<^verbatim>\<open>malloc\<close>;
  running the bytecode is the interpreter's business.
\<close>

section \<open>Console\<close>

definition setbaud :: "nat \<Rightarrow> int \<Rightarrow> 'a machine_scheme \<Rightarrow> 'a machine_scheme" where
  "setbaud baud port s =
     (let regbase = (if port = 0 then 0xb8000300 else 0xb8000400);
          clk = of_nat (200000000 div 8 div 16 div baud) :: u32;
          s = store (regbase + 3) 0x80 s;
          s = store regbase (clk AND 0xff) s;
          s = store (regbase + 1) (drop_bit 8 clk AND 0xff) s
      in store (regbase + 3) 0x03 s)"

definition havech :: "device \<Rightarrow> int \<Rightarrow> 'a machine_scheme \<Rightarrow> u32 \<times> 'a machine_scheme" where
  "havech dev port s =
     (let lsr = (if port = 1 then 0xb8000305 + 0x100 else 0xb8000305);
          (v, s) = load dev lsr s
      in (v AND 1, s))"

text \<open>Polling a status register for a bit.\<close>

partial_function (option) uart_wait ::
  "device \<Rightarrow> addr \<Rightarrow> u32 \<Rightarrow> 'a machine_scheme \<Rightarrow> 'a machine_scheme option" where
  "uart_wait dev lsr bits s =
     (if fst (load dev lsr s) AND bits \<noteq> 0 then Some (snd (load dev lsr s))
      else uart_wait dev lsr bits (snd (load dev lsr s)))"

definition getch :: "device \<Rightarrow> int \<Rightarrow> 'a machine_scheme \<Rightarrow> (int \<times> 'a machine_scheme) option" where
  "getch dev port s =
     (let lsr = (if port = 1 then 0xb8000305 + 0x100 else 0xb8000305);
          thr = (if port = 1 then 0xb8000300 + 0x100 else 0xb8000300)
      in case uart_wait dev lsr 1 s of None \<Rightarrow> None
         | Some s \<Rightarrow> (let (v, s) = load dev thr s in Some (sint (ucast v :: u8), s)))"

definition put2 :: "device \<Rightarrow> u8 \<Rightarrow> 'a machine_scheme \<Rightarrow> 'a machine_scheme option" where
  "put2 dev c s =
     (case uart_wait dev 0xb8000405 0x20 s of None \<Rightarrow> None
      | Some s \<Rightarrow> Some (store 0xb8000400 (ucast c) s))"

definition put_ch :: "device \<Rightarrow> u8 \<Rightarrow> 'a machine_scheme \<Rightarrow> 'a machine_scheme option" where
  "put_ch dev c s =
     (case uart_wait dev 0xb8000305 0x20 s of None \<Rightarrow> None
      | Some s \<Rightarrow> Some (store 0xb8000300 (ucast c) s))"

text \<open>A string is the bytes before its terminator.\<close>

fun print2 :: "device \<Rightarrow> u8 list \<Rightarrow> 'a machine_scheme \<Rightarrow> 'a machine_scheme option" where
  "print2 dev [] s = Some s"
| "print2 dev (c # cs) s =
     (if c = 0 then Some s
      else case put2 dev c s of None \<Rightarrow> None | Some s \<Rightarrow> print2 dev cs s)"

fun print :: "device \<Rightarrow> u8 list \<Rightarrow> 'a machine_scheme \<Rightarrow> 'a machine_scheme option" where
  "print dev [] s = Some s"
| "print dev (c # cs) s =
     (if c = 0 then Some s
      else case put_ch dev c s of None \<Rightarrow> None | Some s \<Rightarrow> print dev cs s)"

section \<open>Finding the bytecode\<close>

datatype boot_result = No_code | Version_mismatch | Mrb "u8 list"

text \<open>\<^verbatim>\<open>strncmp\<close> against a string: do the first \<open>n\<close> characters agree?\<close>

fun strn_eq :: "nat \<Rightarrow> u8 list \<Rightarrow> u8 list \<Rightarrow> bool" where
  "strn_eq 0 a b = True"
| "strn_eq (Suc n) (x # a) (y # b) = (x = y \<and> (x = 0 \<or> strn_eq n a b))"
| "strn_eq (Suc n) a b = False"

definition flash_base :: addr where "flash_base = 0xa0000000 + 0x1C000000"

definition boot_size :: "bool \<Rightarrow> u32" where
  "boot_size b5354 = (if b5354 then 0x20000 else 0x40000)"

text \<open>From the size of the boot area to the bytecode; \<open>None\<close> when \<^verbatim>\<open>malloc\<close> fails, since the copy
  is made without a check.\<close>

definition boot_select :: "bool \<Rightarrow> (addr \<Rightarrow> u8) \<Rightarrow> u8 list \<Rightarrow> (u32 \<Rightarrow> bool) \<Rightarrow> boot_result option" where
  "boot_select b5354 mem ver malloc_ok =
     (let bootsize = boot_size b5354;
          sizep = flash_base + bootsize + 0x14;
          vmsize = push_bit 24 (ucast (mem (sizep + 3))) OR push_bit 16 (ucast (mem (sizep + 2)))
                   OR push_bit 8 (ucast (mem (sizep + 1))) OR ucast (mem sizep);
          mrbp = flash_base + bootsize + vmsize
      in if mem mrbp = 0x52 \<and> mem (mrbp + 1) = 0x49 \<and> mem (mrbp + 2) = 0x54 \<and> mem (mrbp + 3) = 0x45 then
           if \<not> strn_eq 4 [mem (mrbp + 4), mem (mrbp + 5), mem (mrbp + 6), mem (mrbp + 7)] (ver @ [0])
           then Some Version_mismatch
           else
             let mrbsize = push_bit 24 (ucast (mem (mrbp + 8))) OR push_bit 16 (ucast (mem (mrbp + 9)))
                           OR push_bit 8 (ucast (mem (mrbp + 0xa))) OR ucast (mem (mrbp + 0xb)) :: u32
             in if \<not> malloc_ok mrbsize then None
                else Some (Mrb (map (\<lambda>i. mem (mrbp + of_nat i)) [0..<unat mrbsize]))
         else Some No_code)"

section \<open>The console transmits\<close>

text \<open>The history after \<open>n\<close> more polls of a register, and a device that always becomes ready.\<close>

fun polled :: "device \<Rightarrow> addr \<Rightarrow> nat \<Rightarrow> mmio_ev list \<Rightarrow> mmio_ev list" where
  "polled dev a 0 l = l"
| "polled dev a (Suc n) l = polled dev a n (l @ [Rd a (dev l a)])"

definition becomes_ready :: "device \<Rightarrow> addr \<Rightarrow> u32 \<Rightarrow> bool" where
  "becomes_ready dev a bits \<longleftrightarrow> (\<forall>l. \<exists>n. dev (polled dev a n l) a AND bits \<noteq> 0)"

lemma uart_wait_ends:
  "uart_wait dev lsr bits s = Some t \<Longrightarrow> \<exists>n. \<not> fst (load dev lsr (((\<lambda>s. snd (load dev lsr s)) ^^ n) s)) AND bits = 0"
proof (rule uart_wait.raw_induct [where P = "\<lambda>dev lsr bits s t.
    \<exists>n. \<not> fst (load dev lsr (((\<lambda>s. snd (load dev lsr s)) ^^ n) s)) AND bits = 0"])
  fix wait dev lsr bits t and s :: "'a machine_scheme"
  assume IH: "\<And>dev lsr bits s t. wait dev lsr bits s = Some t \<Longrightarrow> \<exists>n. \<not> fst (load dev lsr (((\<lambda>s. snd (load dev lsr s)) ^^ n) s)) AND bits = 0"
    and eq: "(if fst (load dev lsr s) AND bits \<noteq> 0 then Some (snd (load dev lsr s)) else wait dev lsr bits (snd (load dev lsr s))) = Some t"
  show "\<exists>n. \<not> fst (load dev lsr (((\<lambda>s. snd (load dev lsr s)) ^^ n) s)) AND bits = 0"
    by (rule busy_wait_unroll [where busy = "\<lambda>s. fst (load dev lsr s) AND bits = 0"], rule IH) (use eq in simp)
qed

interpretation uart: busy_wait "uart_wait dev lsr bits" "\<lambda>s. fst (load dev lsr s) AND bits = 0"
  "\<lambda>s. snd (load dev lsr s)" "\<lambda>s. snd (load dev lsr s)"
  by unfold_locales (subst uart_wait.simps, simp, erule uart_wait_ends)

lemma polled_again:
  "((\<lambda>s. snd (load dev a s)) ^^ n) s = s\<lparr>io_log := polled dev a n (io_log s)\<rparr>"
  "writes (polled dev a n l) = writes l"
proof -
  show "((\<lambda>s. snd (load dev a s)) ^^ n) s = s\<lparr>io_log := polled dev a n (io_log s)\<rparr>"
    by (induction n arbitrary: s) (simp_all add: funpow_Suc_right load_simps del: funpow.simps)
  show "writes (polled dev a n l) = writes l" by (induction n arbitrary: l) simp_all
qed

lemma uart_wait_returns:
  assumes "dev (polled dev a n (io_log s)) a AND bits \<noteq> 0"
  shows "\<exists>l. uart_wait dev a bits s = Some (s\<lparr>io_log := l\<rparr>) \<and> writes l = writes (io_log s)"
proof -
  have "\<not> fst (load dev a (((\<lambda>s. snd (load dev a s)) ^^ n) s)) AND bits = 0"
    unfolding polled_again(1) using assms by (simp add: load_simps)
  from uart.returns [OF this]
  obtain i where "uart_wait dev a bits s = Some (snd (load dev a (((\<lambda>s. snd (load dev a s)) ^^ i) s)))" by blast
  then show ?thesis unfolding polled_again(1)
    by (intro exI [of _ "polled dev a i (io_log s) @ [Rd a (dev (polled dev a i (io_log s)) a)]"])
      (simp add: load_simps polled_again(2))
qed

lemma put_ch_sends:
  assumes "becomes_ready dev 0xb8000305 0x20"
  shows "\<exists>l. put_ch dev c s = Some (s\<lparr>io_log := l\<rparr>) \<and>
    writes l = writes (io_log s) @ [(0xb8000300, ucast c)]"
proof -
  obtain n where "dev (polled dev 0xb8000305 n (io_log s)) 0xb8000305 AND 0x20 \<noteq> 0"
    using assms unfolding becomes_ready_def by blast
  from uart_wait_returns [where dev = dev and a = "0xb8000305" and s = s and bits = "0x20", OF this]
  show ?thesis by (auto simp: put_ch_def store_def)
qed

text \<open>C28: On a line that always becomes ready again, printing a string returns, and the characters
  go to the transmit register in order, each once, up to the terminator.\<close>
theorem print_sends:
  assumes "becomes_ready dev 0xb8000305 0x20"
  shows "\<exists>l. print dev cs s = Some (s\<lparr>io_log := l\<rparr>) \<and>
    writes l = writes (io_log s) @ map (\<lambda>c. (0xb8000300, ucast c)) (takeWhile (\<lambda>c. c \<noteq> 0) cs)"
proof (induction cs arbitrary: s)
  case Nil
  show ?case by (auto intro: exI [of _ "io_log s"])
next
  case (Cons c cs)
  show ?case
  proof (cases "c = 0")
    case True
    then show ?thesis by (auto intro: exI [of _ "io_log s"])
  next
    case False
    obtain l where l: "put_ch dev c s = Some (s\<lparr>io_log := l\<rparr>)"
      "writes l = writes (io_log s) @ [(0xb8000300, ucast c)]" using put_ch_sends [OF assms] by blast
    from Cons.IH [of "s\<lparr>io_log := l\<rparr>"] l False show ?thesis by auto
  qed
qed

text \<open>A line that is busy for one poll after each character.\<close>

definition dev_uart :: device where
  "dev_uart l a = (if l \<noteq> [] \<and> last l = Rd a 0 then 0x20 else 0)"

lemma print_sends_witness:
  "\<exists>l. print dev_uart [0x48, 0x69, 0] machine0 = Some (machine0\<lparr>io_log := l\<rparr>) \<and>
     writes l = writes (io_log machine0) @ [(0xb8000300, 0x48), (0xb8000300, 0x69)]"
proof -
  have "dev_uart (polled dev_uart a (if dev_uart l a = 0 then 1 else 0) l) a AND 0x20 \<noteq> 0" for l a
    by (auto simp: dev_uart_def)
  then have "becomes_ready dev_uart 0xb8000305 0x20" unfolding becomes_ready_def by blast
  from print_sends [OF this, of "[0x48, 0x69, 0]" machine0] show ?thesis by simp
qed

section \<open>The loader finds what the builder wrote\<close>

text \<open>A bytecode file: its magic, the version, and its own length at offset 8, high byte first.\<close>

definition rite_file :: "u8 list \<Rightarrow> u8 list \<Rightarrow> bool" where
  "rite_file ver b \<longleftrightarrow> 12 \<le> length b \<and> take 4 b = [0x52, 0x49, 0x54, 0x45] \<and> length ver = 4 \<and>
     slice 4 4 b = ver \<and> word32 (b ! 11) (b ! 10) (b ! 9) (b ! 8) = of_nat (length b)"

lemma strn_eq_refl: "strn_eq n xs (xs @ ys)" if "n \<le> length xs"
  using that
proof (induction n arbitrary: xs)
  case (Suc n)
  then show ?case by (cases xs) auto
qed simp

lemma boot_select_at:
  fixes v :: u32 and b5354 :: bool
  defines "x \<equiv> flash_base + boot_size b5354 + v"
  assumes sz: "mem32 mem (flash_base + boot_size b5354 + 0x14) = v"
    and m: "\<And>k. k < length b \<Longrightarrow> mem (x + of_nat k) = b ! k"
    and b: "rite_file ver b" "length b < 2 ^ 32" and alloc: "malloc_ok (of_nat (length b))"
  shows "boot_select b5354 mem ver malloc_ok = Some (Mrb b)"
proof -
  have lb: "12 \<le> length b" using b by (simp add: rite_file_def)
  have ms: "mem x = b ! 0" "mem (x + 1) = b ! 1" "mem (x + 2) = b ! 2" "mem (x + 3) = b ! 3"
    "mem (x + 4) = b ! 4" "mem (x + 5) = b ! 5" "mem (x + 6) = b ! 6" "mem (x + 7) = b ! 7"
    "mem (x + 8) = b ! 8" "mem (x + 9) = b ! 9" "mem (x + 0xa) = b ! 10" "mem (x + 0xb) = b ! 11"
    using m [of 0] m [of 1] m [of 2] m [of 3] m [of 4] m [of 5] m [of 6] m [of 7] m [of 8] m [of 9]
      m [of 10] m [of 11] lb by (cases b, simp_all)
  have t: "b ! 0 = 0x52" "b ! 1 = 0x49" "b ! 2 = 0x54" "b ! 3 = 0x45"
    using b lb slice4 [of 0 b] by (simp_all add: rite_file_def slice_def numeral_2_eq_2)
  have v: "[b ! 4, b ! 5, b ! 6, b ! 7] = ver"
    using b lb slice4 [of 4 b] by (simp add: rite_file_def)
  have n: "push_bit 24 (ucast (b ! 8)) OR push_bit 16 (ucast (b ! 9)) OR push_bit 8 (ucast (b ! 10))
      OR ucast (b ! 11) = (of_nat (length b) :: u32)"
    using b by (simp add: rite_file_def word32_def ac_simps)
  have ul: "unat (of_nat (length b) :: u32) = length b"
    using b(2) by (simp add: unat_of_nat take_bit_nat_eq_self)
  have eq: "strn_eq 4 ver (ver @ [0])" using b by (intro strn_eq_refl) (simp add: rite_file_def)
  have bytes: "map (\<lambda>k. mem (x + of_nat k)) [0..<length b] = b"
    by (rule nth_equalityI) (simp_all add: m)
  have sz': "push_bit 24 (ucast (mem (flash_base + boot_size b5354 + 0x14 + 3)))
      OR push_bit 16 (ucast (mem (flash_base + boot_size b5354 + 0x14 + 2)))
      OR push_bit 8 (ucast (mem (flash_base + boot_size b5354 + 0x14 + 1)))
      OR ucast (mem (flash_base + boot_size b5354 + 0x14)) = v"
    using sz by (simp add: mem32_def word32_def ac_simps)
  show ?thesis
    unfolding boot_select_def Let_def sz' x_def [symmetric] ms t n ul bytes v using eq alloc by simp
qed

text \<open>An image built of a program and a bytecode file and written behind the boot area is
  started by the loader of \<^verbatim>\<open>main.c\<close>: it finds the second part through the offset in the header
  and hands exactly the bytes of the file to the interpreter.\<close>
theorem boot_finds_built_image:
  assumes opts: "seg_offsets opts = []" "length (prod_id opts) = 12" "length (version opts) = 4"
    "maxlen opts mod 4096 = 0" "maxlen opts < 2 ^ 32"
    and room: "28 + align4 (length a) + length b + foot opts \<le> maxlen opts"
      "28 + align4 (length a) + length b < maxlen opts"
    and rite: "rite_file ver b" and img: "trx_build opts [Some a, Some b] = Inr img"
    and flash: "in_mem mem (flash_base + boot_size b5354) img"
    and alloc: "malloc_ok (of_nat (length b))"
  shows "boot_select b5354 mem ver malloc_ok = Some (Mrb b)"
proof -
  let ?o = "28 + align4 (length a)" and ?base = "flash_base + boot_size b5354"
  have i: "get32 20 img = of_nat ?o" "slice ?o (length b) img = b"
    using two_files_layout [OF opts room] img by auto
  have lb: "12 \<le> length b" using rite by (simp add: rite_file_def)
  have li: "?o + length b \<le> length img"
    using arg_cong [OF i(2), of length] lb by (simp add: slice_def)
  have sz: "mem32 mem (?base + 0x14) = of_nat ?o"
    using mem32_get32 [OF flash, of 20] i(1) li by simp
  have m: "mem (?base + of_nat ?o + of_nat k) = b ! k" if "k < length b" for k
  proof -
    have "?o + k < length img" using li that by simp
    then have "mem (?base + of_nat (?o + k)) = img ! (?o + k)"
      by (rule flash [unfolded in_mem_def, rule_format])
    also have "\<dots> = slice ?o (length b) img ! k" using li that by (simp add: slice_def)
    finally show ?thesis using i(2) by (simp add: add.assoc)
  qed
  show ?thesis using room(2) opts(5) by (intro boot_select_at [OF sz _ rite, where malloc_ok = malloc_ok] m alloc) simp_all
qed

definition rite0 :: "u8 list" where
  "rite0 = [0x52, 0x49, 0x54, 0x45, 0x30, 0x30, 0x30, 0x36, 0, 0, 0, 12]"

lemma boot_finds_built_image_witness:
  "\<exists>img. trx_build opts0 [Some [1, 2, 3, 4, 5], Some rite0] = Inr img \<and>
     boot_select True (\<lambda>a. img ! unat (a - (flash_base + boot_size True))) [0x30, 0x30, 0x30, 0x36]
       (\<lambda>_. True) = Some (Mrb rite0)"
proof -
  let ?vm = "[1, 2, 3, 4, 5 :: u8]" and ?mem = "\<lambda>img a. img ! unat (a - (flash_base + boot_size True))"
  have l: "length ?vm = 5" "length rite0 = 12" by (simp_all add: rite0_def)
  have room: "28 + align4 (length ?vm) + length rite0 + foot opts0 \<le> maxlen opts0"
    "28 + align4 (length ?vm) + length rite0 < maxlen opts0"
    unfolding l by (simp_all add: align4_def foot_def opts0_def TRX_MAX_LEN_def)
  have o: "seg_offsets opts0 = []" "length (prod_id opts0) = 12" "length (version opts0) = 4"
    "maxlen opts0 mod 4096 = 0" "maxlen opts0 < 2 ^ 32" by (simp_all add: opts0_def TRX_MAX_LEN_def)
  obtain img where img: "trx_build opts0 [Some ?vm, Some rite0] = Inr img" "length img \<le> maxlen opts0"
    using two_files_layout [OF o room] by blast
  have "length img < 2 ^ 32" using img(2) o(5) by simp
  then have "in_mem (?mem img) (flash_base + boot_size True) img"
    by (auto simp: in_mem_def unat_of_nat take_bit_nat_eq_self)
  moreover have "rite_file [0x30, 0x30, 0x30, 0x36] rite0"
    by (simp add: rite_file_def rite0_def slice_def word32_def)
  ultimately show ?thesis
    using boot_finds_built_image [OF o room _ img(1), of "[0x30, 0x30, 0x30, 0x36]" "?mem img" True "\<lambda>_. True"] img
    by auto
qed

end
