(* ===== verification/InQueue.thy ===== *)
theory InQueue
  imports MacContracts Nvram HwAddr
begin

text \<open>
  The network interface \<^verbatim>\<open>bcm_ether.c\<close> between the Ethernet driver and the TCP/IP stack: the queue of
  received packets, filled by \<^verbatim>\<open>net_rcv\<close> out of the receive interrupt and emptied by \<^verbatim>\<open>doque\<close>, the
  output function and the set-up. The stack (lwIP) is not code of this repository: its allocator
  and its input function are parameters, answering from the history of calls, and the calls
  themselves are recorded. A packet buffer is its address, 0 for NULL.
\<close>

section \<open>The queue\<close>

datatype lwip_call =
    Pbuf_alloc u16 addr
  | Pbuf_take addr addr u16
  | Pbuf_free addr
  | Netif_input addr int

record net_if =
  inque :: "addr list"
  inquestart :: nat
  inqueend :: nat
  lwip_log :: "lwip_call list"

definition INQEULEN :: nat where "INQEULEN = 32"

definition ERR_OK :: int where "ERR_OK = 0"
definition ERR_MEM :: int where "ERR_MEM = -1"

definition lwip :: "lwip_call \<Rightarrow> 'a net_if_scheme \<Rightarrow> 'a net_if_scheme" where
  "lwip c s = s\<lparr>lwip_log := lwip_log s @ [c]\<rparr>"

definition eninque :: "addr \<Rightarrow> 'a net_if_scheme \<Rightarrow> 'a net_if_scheme" where
  "eninque p s =
     (let s = s\<lparr>inque := (inque s)[inqueend s := p]\<rparr>;
          s = s\<lparr>inqueend := inqueend s + 1\<rparr>
      in if inqueend s = INQEULEN then s\<lparr>inqueend := 0\<rparr> else s)"

type_synonym pbuf_allocator = "lwip_call list \<Rightarrow> u16 \<Rightarrow> addr"
type_synonym netif_input = "lwip_call list \<Rightarrow> addr \<Rightarrow> int"

text \<open>The length is converted to the 16 bits of the stack's functions.\<close>

definition net_rcv :: "pbuf_allocator \<Rightarrow> addr \<Rightarrow> int \<Rightarrow> 'a net_if_scheme \<Rightarrow> 'a net_if_scheme" where
  "net_rcv alloc data plen s =
     (let n = of_int plen :: u16;
          p = alloc (lwip_log s) n;
          s = lwip (Pbuf_alloc n p) s;
          s = lwip (Pbuf_take p (data + 32) n) s
      in eninque p s)"

text \<open>One pass of the loop of \<^verbatim>\<open>doque\<close>, and the function.\<close>

definition doque_step :: "netif_input \<Rightarrow> 'a net_if_scheme \<Rightarrow> 'a net_if_scheme" where
  "doque_step input s =
     (let p = inque s ! inquestart s;
          err = input (lwip_log s) p;
          s = lwip (Netif_input p err) s;
          s = (if err \<noteq> ERR_OK then lwip (Pbuf_free p) s else s);
          s = s\<lparr>inquestart := inquestart s + 1\<rparr>
      in if inquestart s = INQEULEN then s\<lparr>inquestart := 0\<rparr> else s)"

partial_function (option) doque_loop :: "netif_input \<Rightarrow> 'a net_if_scheme \<Rightarrow> 'a net_if_scheme option" where
  "doque_loop input s =
     (if inquestart s \<noteq> inqueend s then doque_loop input (doque_step input s) else Some s)"

definition doque :: "netif_input \<Rightarrow> 'a net_if_scheme \<Rightarrow> 'a net_if_scheme option" where
  "doque input s = (if inquestart s \<noteq> inqueend s then doque_loop input s else Some s)"

text \<open>The packets between the two indices.\<close>

definition queued :: "'a net_if_scheme \<Rightarrow> addr list" where
  "queued s = map (\<lambda>k. inque s ! k) (ring_idx INQEULEN (inquestart s) (inqueend s))"

definition inq_wf :: "'a net_if_scheme \<Rightarrow> bool" where
  "inq_wf s \<longleftrightarrow> length (inque s) = INQEULEN \<and> inquestart s < INQEULEN \<and> inqueend s < INQEULEN"

definition handed :: "'a net_if_scheme \<Rightarrow> addr list" where
  "handed s = List.map_filter (\<lambda>c. case c of Netif_input p err \<Rightarrow> Some p | _ \<Rightarrow> None) (lwip_log s)"

text \<open>The copies into packet buffers.\<close>

definition takes :: "'a net_if_scheme \<Rightarrow> (addr \<times> addr \<times> u16) list" where
  "takes s = List.map_filter (\<lambda>c. case c of Pbuf_take p d n \<Rightarrow> Some (p, d, n) | _ \<Rightarrow> None) (lwip_log s)"

lemma eninque_next: "inq_wf s \<Longrightarrow> eninque p s =
  s\<lparr>inque := (inque s)[inqueend s := p], inqueend := next_dscr INQEULEN (inqueend s)\<rparr>"
  by (auto simp: eninque_def next_dscr_def inq_wf_def Let_def INQEULEN_def)

lemma queued_eninque:
  assumes "inq_wf s" "length (queued s) < 31"
  shows "inq_wf (eninque p s)" "queued (eninque p s) = queued s @ [p]" "lwip_log (eninque p s) = lwip_log s"
proof -
  let ?a = "inqueend s" and ?r = "inquestart s"
  have w: "?r < INQEULEN" "?a < INQEULEN" "length (inque s) = INQEULEN" using assms(1) by (simp_all add: inq_wf_def)
  have "next_dscr INQEULEN ?a \<noteq> ?r"
    using assms(2) ring_full_iff [OF w(1,2)] by (simp add: queued_def INQEULEN_def)
  then have "ring_idx INQEULEN ?r (next_dscr INQEULEN ?a) = ring_idx INQEULEN ?r ?a @ [?a]"
    by (rule ring_idx_snoc [OF w(1,2)])
  moreover have "map (\<lambda>k. (inque s)[?a := p] ! k) (ring_idx INQEULEN ?r ?a) = queued s"
    unfolding queued_def using ring_idx_less [OF w(1,2)] by (intro map_cong refl nth_list_update_neq) metis
  ultimately show "queued (eninque p s) = queued s @ [p]" "lwip_log (eninque p s) = lwip_log s"
    using w by (simp_all add: eninque_next [OF assms(1)] queued_def)
  show "inq_wf (eninque p s)"
    using w next_dscr_less [OF w(2)] by (simp add: eninque_next [OF assms(1)] inq_wf_def)
qed

lemma doque_step_next: "inq_wf s \<Longrightarrow> inquestart s \<noteq> inqueend s \<Longrightarrow> \<exists>l.
    doque_step input s = s\<lparr>lwip_log := l, inquestart := next_dscr INQEULEN (inquestart s)\<rparr>
    \<and> handed (doque_step input s) = handed s @ [inque s ! inquestart s]"
  by (auto simp: doque_step_def next_dscr_def inq_wf_def Let_def INQEULEN_def lwip_def handed_def map_filter_def
      intro!: exI)

lemma queued_doque_step:
  assumes "inq_wf s" "queued s = p # ps"
  shows "inq_wf (doque_step input s)" "queued (doque_step input s) = ps" "inqueend (doque_step input s) = inqueend s"
    "handed (doque_step input s) = handed s @ [p]"
proof -
  have w: "inquestart s < INQEULEN" "inqueend s < INQEULEN" using assms(1) by (simp_all add: inq_wf_def)
  have n: "inquestart s \<noteq> inqueend s" using assms(2) by (auto simp: queued_def ring_simps)
  obtain l where l: "doque_step input s = s\<lparr>lwip_log := l, inquestart := next_dscr INQEULEN (inquestart s)\<rparr>"
    "handed (doque_step input s) = handed s @ [inque s ! inquestart s]"
    using doque_step_next [OF assms(1) n] by blast
  then show "inq_wf (doque_step input s)" "queued (doque_step input s) = ps" "inqueend (doque_step input s) = inqueend s"
    "handed (doque_step input s) = handed s @ [p]"
    using assms w ring_idx_Cons [OF w n] next_dscr_less [OF w(1)] by (auto simp: queued_def inq_wf_def)
qed

lemma queued_empty_iff: "inq_wf s \<Longrightarrow> queued s = [] \<longleftrightarrow> inquestart s = inqueend s"
  using ring_idx_Cons [of "inquestart s" INQEULEN "inqueend s"]
  by (cases "inquestart s = inqueend s") (auto simp: queued_def inq_wf_def ring_simps)

lemma takes_step: "takes (doque_step input s) = takes s"
  by (simp add: doque_step_def Let_def takes_def lwip_def map_filter_def)

text \<open>Emptying the queue returns, and hands everything over in order.\<close>

lemma doque_loop_empties:
  assumes "inq_wf s"
  shows "\<exists>t. doque_loop input s = Some t \<and> inq_wf t \<and> queued t = [] \<and> handed t = handed s @ queued s
    \<and> takes t = takes s"
  using assms
proof (induction "queued s" arbitrary: s)
  case Nil
  then have "inquestart s = inqueend s" using queued_empty_iff by metis
  then show ?case using Nil by (simp add: doque_loop.simps)
next
  case (Cons p ps)
  note q = queued_doque_step [OF Cons.prems Cons.hyps(2) [symmetric], of input]
  have "inquestart s \<noteq> inqueend s" using Cons queued_empty_iff by (metis list.distinct(1))
  then have "doque_loop input s = doque_loop input (doque_step input s)" by (subst doque_loop.simps) simp
  then show ?case using Cons.hyps(1) [OF q(2) [symmetric] q(1)] q(2,4) Cons.hyps(2) [symmetric] by (simp add: takes_step)
qed

lemma doque_empties:
  assumes "inq_wf s"
  shows "\<exists>t. doque input s = Some t \<and> inq_wf t \<and> queued t = [] \<and> handed t = handed s @ queued s
    \<and> takes t = takes s"
  using doque_loop_empties [OF assms, of input] queued_empty_iff [OF assms] assms by (auto simp: doque_def)

section \<open>Interleaved with interrupts the queue is a FIFO\<close>

text \<open>An arrival (the interrupt) or one pass of the loop of \<^verbatim>\<open>doque\<close>; the queue they should implement:
  what waits and what has been handed over.\<close>

datatype net_ev = Arrival addr | Pass

fun net_step :: "netif_input \<Rightarrow> net_ev \<Rightarrow> 'a net_if_scheme \<Rightarrow> 'a net_if_scheme" where
  "net_step input (Arrival p) s = eninque p s"
| "net_step input Pass s = (if inquestart s \<noteq> inqueend s then doque_step input s else s)"

fun fifo_step :: "net_ev \<Rightarrow> addr list \<times> addr list \<Rightarrow> addr list \<times> addr list" where
  "fifo_step (Arrival p) (q, h) = (q @ [p], h)"
| "fifo_step Pass (q, h) = (case q of [] \<Rightarrow> ([], h) | x # q \<Rightarrow> (q, h @ [x]))"

text \<open>At no time do more than 31 packets wait.\<close>

fun fits :: "net_ev list \<Rightarrow> addr list \<times> addr list \<Rightarrow> bool" where
  "fits [] a = True"
| "fits (e # es) a = (length (fst (fifo_step e a)) \<le> 31 \<and> fits es (fifo_step e a))"

lemma net_run_fifo:
  assumes "inq_wf s" "fits es (queued s, handed s)"
  shows "inq_wf (fold (net_step input) es s) \<and>
    (queued (fold (net_step input) es s), handed (fold (net_step input) es s)) = fold fifo_step es (queued s, handed s)"
  using assms
proof (induction es arbitrary: s)
  case (Cons e es)
  have "inq_wf (net_step input e s) \<and>
      (queued (net_step input e s), handed (net_step input e s)) = fifo_step e (queued s, handed s)"
  proof (cases e)
    case (Arrival p)
    then show ?thesis using queued_eninque [OF Cons.prems(1), of p] Cons.prems(2) by (simp add: handed_def)
  next
    case Pass
    show ?thesis
    proof (cases "queued s")
      case Nil
      then show ?thesis using Pass Cons.prems(1) queued_empty_iff by fastforce
    next
      case (Cons x q)
      then have "inquestart s \<noteq> inqueend s" using queued_empty_iff [OF Cons.prems(1)] by auto
      then show ?thesis using Pass Cons queued_doque_step [OF Cons.prems(1) Cons] by simp
    qed
  qed
  then show ?case using Cons.IH [of "net_step input e s"] Cons.prems(2) by simp
qed simp

text \<open>C35: Interleaved with the interrupt in any order, the packet queue is a FIFO: as long as at most
  31 packets wait, \<^verbatim>\<open>doque\<close> hands each packet to the stack once, in the order of arrival.\<close>
theorem inqueue_is_fifo:
  assumes "inq_wf s" "fits es (queued s, handed s)"
  shows "(queued (fold (net_step input) es s), handed (fold (net_step input) es s))
    = fold fifo_step es (queued s, handed s)"
  using net_run_fifo [OF assms] by blast

definition net0 :: net_if where
  "net0 = \<lparr>inque = replicate 32 0, inquestart = 30, inqueend = 30, lwip_log = []\<rparr>"

lemma inqueue_is_fifo_witness:
  "(queued (fold (net_step (\<lambda>_ _. 0)) [Arrival 5, Arrival 6, Pass, Arrival 7, Pass] net0),
    handed (fold (net_step (\<lambda>_ _. 0)) [Arrival 5, Arrival 6, Pass, Arrival 7, Pass] net0)) = ([7], [5, 6])"
proof -
  have "inq_wf net0" "queued net0 = []" "handed net0 = []"
    by (simp_all add: net0_def inq_wf_def queued_def handed_def INQEULEN_def ring_simps map_filter_def)
  then show ?thesis
    using inqueue_is_fifo [of net0 "[Arrival 5, Arrival 6, Pass, Arrival 7, Pass]" "\<lambda>_ _. 0"] by simp
qed

text \<open>The queue has no check for being full: the 32nd waiting packet makes the indices equal, the
  queue looks empty, and none of the 32 packets is handed over or freed.\<close>
theorem inqueue_overflow_loses_all:
  assumes "inq_wf s" "length (queued s) = 31"
  shows "queued (eninque p s) = [] \<and> doque input (eninque p s) = Some (eninque p s)"
proof -
  have w: "inquestart s < INQEULEN" "inqueend s < INQEULEN" using assms(1) by (simp_all add: inq_wf_def)
  have "next_dscr INQEULEN (inqueend s) = inquestart s"
    using ring_full_iff [OF w] assms(2) by (simp add: queued_def INQEULEN_def)
  then show ?thesis
    by (simp add: eninque_next [OF assms(1)] queued_def ring_simps doque_def)
qed

lemma inqueue_overflow_loses_all_witness:
  "queued (eninque 99 (net0\<lparr>inqueend := 29\<rparr>)) = [] \<and>
   doque (\<lambda>_ _. 0) (eninque 99 (net0\<lparr>inqueend := 29\<rparr>)) = Some (eninque 99 (net0\<lparr>inqueend := 29\<rparr>))"
proof (rule inqueue_overflow_loses_all)
  show "inq_wf (net0\<lparr>inqueend := 29\<rparr>)" by (simp add: net0_def inq_wf_def INQEULEN_def)
  show "length (queued (net0\<lparr>inqueend := 29\<rparr>)) = 31"
    by (simp add: net0_def queued_def INQEULEN_def ring_idx_def)
qed

section \<open>From the receive ring to the stack\<close>

lemma net_rcv_facts:
  assumes "inq_wf s" "length (queued s) < 31"
  shows "\<exists>p. inq_wf (net_rcv alloc d l s) \<and> queued (net_rcv alloc d l s) = queued s @ [p]
    \<and> handed (net_rcv alloc d l s) = handed s
    \<and> takes (net_rcv alloc d l s) = takes s @ [(p, d + 32, of_int l)]"
proof -
  let ?p = "alloc (lwip_log s) (of_int l)"
  let ?t = "lwip (Pbuf_take ?p (d + 32) (of_int l)) (lwip (Pbuf_alloc (of_int l) ?p) s)"
  have "inq_wf ?t" "queued ?t = queued s" using assms(1) by (simp_all add: lwip_def inq_wf_def queued_def)
  then show ?thesis
    using queued_eninque [of ?t ?p] assms(2)
    by (intro exI [of _ ?p]) (simp add: net_rcv_def Let_def handed_def takes_def, simp add: lwip_def map_filter_def)
qed

lemma net_rcv_fold:
  assumes "inq_wf s" "length (queued s) + length ds \<le> 31"
  shows "\<exists>ps. inq_wf (fold (\<lambda>(d, l). net_rcv alloc d l) ds s)
    \<and> queued (fold (\<lambda>(d, l). net_rcv alloc d l) ds s) = queued s @ ps
    \<and> handed (fold (\<lambda>(d, l). net_rcv alloc d l) ds s) = handed s \<and> length ps = length ds
    \<and> takes (fold (\<lambda>(d, l). net_rcv alloc d l) ds s) = takes s @ map2 (\<lambda>p (d, l). (p, d + 32, of_int l)) ps ds"
  using assms
proof (induction ds arbitrary: s)
  case (Cons x ds)
  obtain d l where x: "x = (d, l)" by fastforce
  obtain p where p: "inq_wf (net_rcv alloc d l s)" "queued (net_rcv alloc d l s) = queued s @ [p]"
    "handed (net_rcv alloc d l s) = handed s" "takes (net_rcv alloc d l s) = takes s @ [(p, d + 32, of_int l)]"
    using net_rcv_facts [of s alloc d l] Cons.prems by auto
  obtain ps where "inq_wf (fold (\<lambda>(d, l). net_rcv alloc d l) ds (net_rcv alloc d l s))"
    "queued (fold (\<lambda>(d, l). net_rcv alloc d l) ds (net_rcv alloc d l s)) = queued s @ [p] @ ps"
    "handed (fold (\<lambda>(d, l). net_rcv alloc d l) ds (net_rcv alloc d l s)) = handed s" "length ps = length ds"
    "takes (fold (\<lambda>(d, l). net_rcv alloc d l) ds (net_rcv alloc d l s))
      = takes s @ [(p, d + 32, of_int l)] @ map2 (\<lambda>p (d, l). (p, d + 32, of_int l)) ps ds"
    using Cons.IH [OF p(1)] p Cons.prems(2) by auto
  then show ?case by (intro exI [of _ "p # ps"]) (simp add: x)
qed simp

lemma delivered_by_length: "length (delivered_by h p) \<le> 1"
  by (simp add: delivered_by_def)

lemma delivered_count: "length (concat (map (\<lambda>p. delivered_by (hdr p) p) ps)) \<le> length ps"
proof (induction ps)
  case (Cons p ps)
  then show ?case using delivered_by_length [of "hdr p" p] by simp
qed simp

text \<open>C34: From the wire to the stack: when the engine has filled \<open>n\<close> descriptors, the receive routine
  and then \<^verbatim>\<open>doque\<close> hand to the stack, in the order of arrival, one packet buffer for each frame
  without an error, filled from behind the 32 bytes of receive header with the length less the CRC.
  The queue cannot overflow on the way, because the ring holds at most 31 packets.\<close>
theorem frames_reach_stack:
  assumes "rings_own s fl {#}" "n \<le> length (rx_pkts s)"
    and "G_STAT_CD (fst (READCSR dev R_RCV_STATUS s)) = of_nat (8 * ((rxdscr_remove s + n) mod 32))"
    and "\<And>l p. p \<in> set (rx_pkts s) \<Longrightarrow> dev l (pkt_buffer p) = hdr p"
    and "inq_wf q" "queued q = []"
    and "ds = concat (map (\<lambda>p. delivered_by (hdr p) p) (take n (rx_pkts s)))"
  shows "\<exists>s' q' ps. bcm4401_procrxring dev s = Some s' \<and> delivered s' = delivered s @ ds \<and>
    doque input (fold (\<lambda>(d, l). net_rcv alloc d l) ds q) = Some q' \<and> queued q' = [] \<and>
    handed q' = handed q @ ps \<and> length ps = length ds \<and>
    takes q' = takes q @ map2 (\<lambda>p (d, l). (p, d + 32, of_int l)) ps ds"
proof -
  obtain s' where s': "bcm4401_procrxring dev s = Some s'" "delivered s' = delivered s @ ds"
    using procrxring_delivery [OF assms(1-3), of hdr] assms(4,7) by blast
  have "rings_wf s" using assms(1) by (simp add: rings_own_def owns_fl_def)
  then have "length (rx_pkts s) < 32" by (rule rx_length_less)
  then have "length (queued q) + length ds \<le> 31"
    using delivered_count [of hdr "take n (rx_pkts s)"] assms(6,7) by simp
  then obtain ps where ps: "inq_wf (fold (\<lambda>(d, l). net_rcv alloc d l) ds q)"
    "queued (fold (\<lambda>(d, l). net_rcv alloc d l) ds q) = queued q @ ps"
    "handed (fold (\<lambda>(d, l). net_rcv alloc d l) ds q) = handed q" "length ps = length ds"
    "takes (fold (\<lambda>(d, l). net_rcv alloc d l) ds q) = takes q @ map2 (\<lambda>p (d, l). (p, d + 32, of_int l)) ps ds"
    using net_rcv_fold [OF assms(5)] by blast
  then show ?thesis
    using s' doque_empties [OF ps(1), of input] assms(6) by auto
qed

lemma frames_reach_stack_witness:
  "\<exists>s' q' p. bcm4401_procrxring dev_two mac1 = Some s' \<and> delivered s' = [(0x80100020, 60)] \<and>
    doque (\<lambda>_ _. 0) (net_rcv (\<lambda>_ _. 0x80200000) 0x80100020 60 net0) = Some q' \<and> handed q' = [p] \<and>
    takes q' = [(p, 0x80100040, 60)]"
proof -
  have w: "inq_wf net0" "queued net0 = []" "handed net0 = []" "takes net0 = []"
    by (simp_all add: net0_def inq_wf_def queued_def handed_def takes_def INQEULEN_def ring_simps map_filter_def)
  have n: "2 \<le> length (rx_pkts mac1)" by (simp add: dev_two_facts(1))
  obtain s' q' ps where r: "bcm4401_procrxring dev_two mac1 = Some s'" "delivered s' = delivered mac1 @ [(0x80100020, 60)]"
    "doque (\<lambda>_ _. 0) (fold (\<lambda>(d, l). net_rcv (\<lambda>_ _. 0x80200000) d l) [(0x80100020, 60)] net0) = Some q'"
    "handed q' = handed net0 @ ps" "length ps = 1"
    "takes q' = takes net0 @ map2 (\<lambda>p (d, l). (p, d + 32, of_int l)) ps [(0x80100020, 60)]"
    using frames_reach_stack [of mac1 "drop 8 (pool_pkts 0x80100000)" 2 dev_two
        "\<lambda>p. dev_two [] (pkt_buffer p)" net0 "[(0x80100020, 60)]", OF mac1_facts(1) n dev_two_facts(2,3) w(1,2)
        dev_two_facts(4) [symmetric], of "\<lambda>_ _. 0" "\<lambda>_ _. 0x80200000"] by auto
  have "delivered mac1 = []" by (simp add: mac1_facts)
  moreover from r(5) obtain p where "ps = [p]" by (auto simp: length_Suc_conv)
  ultimately show ?thesis using r w by auto
qed

section \<open>Output and set-up\<close>

text \<open>A packet buffer as the output function sees it: the length of the whole chain and the payload
  of its first part.\<close>

definition low_level_output :: "device \<Rightarrow> u16 \<times> addr \<Rightarrow> 'a mac_scheme \<Rightarrow> (int \<times> 'a mac_scheme) option" where
  "low_level_output dev p s =
     (case cfe_output dev (int (unat (fst p))) (snd p) s of None \<Rightarrow> None
      | Some (_, s) \<Rightarrow> Some (ERR_OK, s))"

text \<open>The fields of the interface that the set-up fills. \<open>mem\<close> is the result of \<^verbatim>\<open>mem_malloc\<close>.\<close>

datatype netif_fun = Etharp_output | Ethip6_output | Low_level_output

record netif =
  netif_state :: addr
  netif_name :: string
  netif_output :: "netif_fun option"
  netif_output_ip6 :: "netif_fun option"
  netif_linkoutput :: "netif_fun option"
  hwaddr_len :: u8
  netif_hwaddr :: "u8 list"
  netif_mtu :: u16
  netif_flags :: "string list"

definition ethernetif_init ::
  "device \<Rightarrow> env \<Rightarrow> addr \<times> addr \<times> addr \<Rightarrow> addr \<Rightarrow> nvram \<Rightarrow> netif \<Rightarrow> 'a net_if_scheme \<Rightarrow> 'b mac_scheme
     \<Rightarrow> (int \<times> netif \<times> 'a net_if_scheme \<times> 'b mac_scheme) option" where
  "ethernetif_init dev env mems mem nv netif q s =
     (if mem = NULL then Some (ERR_MEM, netif, q, s)
      else
        let q = q\<lparr>inquestart := 0, inqueend := 0\<rparr>;
            macptr = (case nvram_get ''et0macaddr'' nv of None \<Rightarrow> ''12:34:56:78:9a:bc'' | Some m \<Rightarrow> m);
            netif = netif\<lparr>netif_state := mem, netif_name := ''be'', netif_output := Some Etharp_output,
                      netif_output_ip6 := Some Ethip6_output, netif_linkoutput := Some Low_level_output,
                      hwaddr_len := 6, netif_hwaddr := snd (enet_parse_hwaddr macptr (netif_hwaddr netif)),
                      netif_mtu := 1500,
                      netif_flags := [''NETIF_FLAG_BROADCAST'', ''NETIF_FLAG_ETHARP'', ''NETIF_FLAG_LINK_UP'']\<rparr>
        in case cfe_ether_init dev env mems (Some macptr) s of None \<Rightarrow> None
           | Some s \<Rightarrow> Some (ERR_OK, netif, q, s))"

end
