(* ===== verification/SbClock.thy ===== *)
theory SbClock
  imports Machine
begin

text \<open>
  The clocks of the chip common core, \<^verbatim>\<open>cfe/sb_utils.c\<close> with the registers of \<^verbatim>\<open>cfe/sb_chipc.h\<close>: the
  rate of a PLL setting, the rates of backplane, CPU and UART, and the change of the setting. (The
  other half of the file, for parts with an external interface core, is not compiled for this
  chip.) A division by zero traps on the target: those results are \<open>None\<close>.
\<close>

section \<open>Registers\<close>

definition R_CORECAPABILITIES :: u32 where "R_CORECAPABILITIES = 0x004"
definition R_CORECONTROL :: u32 where "R_CORECONTROL = 0x008"
definition R_WATCHDOGCOUNTER :: u32 where "R_WATCHDOGCOUNTER = 0x080"
definition R_WATCHDOGCNTR :: u32 where "R_WATCHDOGCNTR = R_WATCHDOGCOUNTER"
definition R_CLOCKCONTROLN :: u32 where "R_CLOCKCONTROLN = 0x090"
definition R_CLOCKCONTROLM0 :: u32 where "R_CLOCKCONTROLM0 = 0x094"
definition R_CLOCKCONTROLM1 :: u32 where "R_CLOCKCONTROLM1 = 0x098"
definition R_CLOCKCONTROLM2 :: u32 where "R_CLOCKCONTROLM2 = 0x09C"
definition R_CLOCKCONTROLM3 :: u32 where "R_CLOCKCONTROLM3 = 0x0A0"
definition R_UARTCLOCKDIV :: u32 where "R_UARTCLOCKDIV = 0x0A4"
definition R_CLOCKCONTROLSB :: u32 where "R_CLOCKCONTROLSB = R_CLOCKCONTROLM0"
definition R_SBIDHIGH :: u32 where "R_SBIDHIGH = 0xFFC"

definition G_CORECAP_CS :: "u32 \<Rightarrow> u32" where "G_CORECAP_CS x = GETVALUE x 3 (MAKEMASK 2 3)"
definition G_CORECAP_PL :: "u32 \<Rightarrow> u32" where "G_CORECAP_PL x = GETVALUE x 15 (MAKEMASK 3 15)"
definition M_CORECTL_CO :: u32 where "M_CORECTL_CO = MAKEMASK1 0"
definition G_SBID_RV :: "u32 \<Rightarrow> u32" where "G_SBID_RV x = GETVALUE x 0 (MAKEMASK 4 0)"
definition G_CCN_N1 :: "u32 \<Rightarrow> u32" where "G_CCN_N1 x = GETVALUE x 0 (MAKEMASK 6 0)"
definition G_CCN_N2 :: "u32 \<Rightarrow> u32" where "G_CCN_N2 x = GETVALUE x 8 (MAKEMASK 5 8)"
definition G_CCM_M1 :: "u32 \<Rightarrow> u32" where "G_CCM_M1 x = GETVALUE x 0 (MAKEMASK 6 0)"
definition G_CCM_M2 :: "u32 \<Rightarrow> u32" where "G_CCM_M2 x = GETVALUE x 8 (MAKEMASK 5 8)"
definition G_CCM_M3 :: "u32 \<Rightarrow> u32" where "G_CCM_M3 x = GETVALUE x 16 (MAKEMASK 6 16)"
definition G_CCM_MC :: "u32 \<Rightarrow> u32" where "G_CCM_MC x = GETVALUE x 24 (MAKEMASK 5 24)"
definition K_CS_INTERNAL :: u32 where "K_CS_INTERNAL = 0x1"

definition K_PLL_TYPE1 :: u32 where "K_PLL_TYPE1 = 0x2"
definition K_PLL_TYPE2 :: u32 where "K_PLL_TYPE2 = 0x4"
definition K_PLL_TYPE3 :: u32 where "K_PLL_TYPE3 = 0x6"
definition K_PLL_TYPE4 :: u32 where "K_PLL_TYPE4 = 0x1"
definition K_PLL_TYPE5 :: u32 where "K_PLL_TYPE5 = 0x3"
definition K_PLL_TYPE6 :: u32 where "K_PLL_TYPE6 = 0x5"
definition K_PLL_TYPE7 :: u32 where "K_PLL_TYPE7 = 0x7"
definition K_PL_4710 :: u32 where "K_PL_4710 = 0x2"
definition K_PL_4704 :: u32 where "K_PL_4704 = 0x4"
definition K_PL_5365 :: u32 where "K_PL_5365 = 0x6"

definition PLL_NONE :: u32 where "PLL_NONE = 0x00000000"
definition PLL_N3M :: u32 where "PLL_N3M = 0x00010000"
definition PLL_N4M :: u32 where "PLL_N4M = 0x00020000"
definition PLL_TYPE3 :: u32 where "PLL_TYPE3 = 0x00030000"
definition PLL_TYPE4 :: u32 where "PLL_TYPE4 = 0x00008000"

definition CC_CLOCK_BASE1 :: u32 where "CC_CLOCK_BASE1 = 24000000"
definition CC_CLOCK_BASE2 :: u32 where "CC_CLOCK_BASE2 = 12500000"
definition CHIPC_T6_MMASK :: u32 where "CHIPC_T6_MMASK = 1"
definition CHIPC_T6_M0 :: u32 where "CHIPC_T6_M0 = 120000000"
definition CHIPC_T6_M1 :: u32 where "CHIPC_T6_M1 = 100000000"
definition CC_F6_2 :: u32 where "CC_F6_2 = 0x02"
definition CC_F6_3 :: u32 where "CC_F6_3 = 0x03"
definition CC_F6_4 :: u32 where "CC_F6_4 = 0x05"
definition CC_F6_5 :: u32 where "CC_F6_5 = 0x09"
definition CC_F6_6 :: u32 where "CC_F6_6 = 0x11"
definition CC_F6_7 :: u32 where "CC_F6_7 = 0x21"
definition CC_F5_BIAS :: u32 where "CC_F5_BIAS = 5"
definition CC_MC_BYPASS :: u32 where "CC_MC_BYPASS = 0x08"
definition CC_MC_M1 :: u32 where "CC_MC_M1 = 0x04"
definition CC_MC_M1M2 :: u32 where "CC_MC_M1M2 = 0x02"
definition CC_MC_M1M2M3 :: u32 where "CC_MC_M1M2M3 = 0x01"
definition CC_MC_M1M3 :: u32 where "CC_MC_M1M3 = 0x11"
definition CC_T2_BIAS :: u32 where "CC_T2_BIAS = 2"
definition CC_T2M2_BIAS :: u32 where "CC_T2M2_BIAS = 3"
definition CC_T2MC_M1BYP :: u32 where "CC_T2MC_M1BYP = 1"
definition CC_T2MC_M2BYP :: u32 where "CC_T2MC_M2BYP = 2"
definition CC_T2MC_M3BYP :: u32 where "CC_T2MC_M3BYP = 4"

lemmas cc_consts =
  R_CORECAPABILITIES_def R_CORECONTROL_def R_WATCHDOGCOUNTER_def R_WATCHDOGCNTR_def R_CLOCKCONTROLN_def
  R_CLOCKCONTROLM0_def R_CLOCKCONTROLM1_def R_CLOCKCONTROLM2_def R_CLOCKCONTROLM3_def
  R_UARTCLOCKDIV_def R_CLOCKCONTROLSB_def R_SBIDHIGH_def

lemmas pll_consts =
  K_PLL_TYPE1_def K_PLL_TYPE2_def K_PLL_TYPE3_def K_PLL_TYPE4_def K_PLL_TYPE5_def K_PLL_TYPE6_def
  K_PLL_TYPE7_def K_PL_4710_def K_PL_4704_def K_PL_5365_def PLL_NONE_def PLL_N3M_def PLL_N4M_def
  PLL_TYPE3_def PLL_TYPE4_def

lemmas cc_factors =
  CC_CLOCK_BASE1_def CC_CLOCK_BASE2_def CHIPC_T6_MMASK_def CHIPC_T6_M0_def CHIPC_T6_M1_def
  CC_F6_2_def CC_F6_3_def CC_F6_4_def CC_F6_5_def CC_F6_6_def CC_F6_7_def CC_F5_BIAS_def
  CC_MC_BYPASS_def CC_MC_M1_def CC_MC_M1M2_def CC_MC_M1M2M3_def CC_MC_M1M3_def
  CC_T2_BIAS_def CC_T2M2_BIAS_def CC_T2MC_M1BYP_def CC_T2MC_M2BYP_def CC_T2MC_M3BYP_def

text \<open>\<^verbatim>\<open>READCSR\<close> and \<^verbatim>\<open>WRITECSR\<close> of this file.\<close>

definition READCSR_cc :: "device \<Rightarrow> u32 \<Rightarrow> 'a machine_scheme \<Rightarrow> u32 \<times> 'a machine_scheme" where
  "READCSR_cc dev x s = load dev (PHYS_TO_K1 (SB_CHIPC_BASE + x)) s"

definition WRITECSR_cc :: "u32 \<Rightarrow> u32 \<Rightarrow> 'a machine_scheme \<Rightarrow> 'a machine_scheme" where
  "WRITECSR_cc x v s = store (PHYS_TO_K1 (SB_CHIPC_BASE + x)) v s"

section \<open>Rates\<close>

definition factor6 :: "u32 \<Rightarrow> u32" where
  "factor6 x =
     (if x = CC_F6_2 then 2 else if x = CC_F6_3 then 3 else if x = CC_F6_4 then 4
      else if x = CC_F6_5 then 5 else if x = CC_F6_6 then 6 else if x = CC_F6_7 then 7 else 0)"

definition div_trap :: "u32 \<Rightarrow> u32 \<Rightarrow> u32 option" where
  "div_trap a b = (if b = 0 then None else Some (a div b))"

definition pll_factors :: "u32 \<Rightarrow> u32 \<Rightarrow> u32 \<Rightarrow> u32 \<Rightarrow> u32 option" where
  "pll_factors pll_type m mc clock =
     (let m1 = factor6 (G_CCM_M1 m);
          m2 = (if pll_type = K_PLL_TYPE1 \<or> pll_type = K_PLL_TYPE3 then G_CCM_M2 m + CC_F5_BIAS
                else factor6 (G_CCM_M2 m));
          m3 = factor6 (G_CCM_M3 m)
      in if mc = CC_MC_BYPASS then Some clock
         else if mc = CC_MC_M1 then div_trap clock m1
         else if mc = CC_MC_M1M2 then div_trap clock (m1 * m2)
         else if mc = CC_MC_M1M2M3 then div_trap clock (m1 * m2 * m3)
         else if mc = CC_MC_M1M3 then div_trap clock (m1 * m3)
         else Some 0)"

definition sb_clock_rate :: "u32 \<Rightarrow> u32 \<Rightarrow> u32 \<Rightarrow> u32 option" where
  "sb_clock_rate pll_type n m =
     (let n1 = G_CCN_N1 n; n2 = G_CCN_N2 n
      in if pll_type = K_PLL_TYPE5 then Some 100000000
         else if pll_type = K_PLL_TYPE6 then
           Some (if m AND CHIPC_T6_MMASK \<noteq> 0 then CHIPC_T6_M1 else CHIPC_T6_M0)
         else if pll_type \<notin> {K_PLL_TYPE1, K_PLL_TYPE2, K_PLL_TYPE3, K_PLL_TYPE4, K_PLL_TYPE7} then Some 0
         else let (n1, n2) = (if pll_type = K_PLL_TYPE2 then (n1 + CC_T2_BIAS, n2 + CC_T2_BIAS)
                              else (factor6 n1, n2 + CC_F5_BIAS));
                  clk_base = (if pll_type = K_PLL_TYPE3 \<or> pll_type = K_PLL_TYPE7 then CC_CLOCK_BASE2
                              else CC_CLOCK_BASE1);
                  clock = clk_base * n1 * n2
         in if clock = 0 then Some 0
            else let mc = G_CCM_MC m
            in if pll_type = K_PLL_TYPE2 then
                 (let m1 = G_CCM_M1 m + CC_T2_BIAS;
                      m2 = G_CCM_M2 m + CC_T2M2_BIAS;
                      m3 = G_CCM_M3 m + CC_T2_BIAS;
                      clock = (if mc AND CC_T2MC_M1BYP = 0 then clock div m1 else clock);
                      clock = (if mc AND CC_T2MC_M2BYP = 0 then clock div m2 else clock);
                      clock = (if mc AND CC_T2MC_M3BYP = 0 then clock div m3 else clock)
                  in Some clock)
               else pll_factors pll_type m mc clock)"

definition sb_clock :: "device \<Rightarrow> 'a machine_scheme \<Rightarrow> u32 option \<times> 'a machine_scheme" where
  "sb_clock dev s =
     (let (corecap, s) = READCSR_cc dev R_CORECAPABILITIES s;
          pll_type = G_CORECAP_PL corecap;
          (clockcontrol_n, s) = READCSR_cc dev R_CLOCKCONTROLN s;
          (clockcontrol_m, s) =
            READCSR_cc dev (if pll_type = K_PLL_TYPE6 then R_CLOCKCONTROLM3
                            else if pll_type = K_PLL_TYPE3 then R_CLOCKCONTROLM2
                            else R_CLOCKCONTROLSB) s;
          rate = sb_clock_rate pll_type clockcontrol_n clockcontrol_m
      in (if pll_type = K_PLL_TYPE3 then map_option (\<lambda>r. r div 2) rate else rate, s))"

text \<open>For the PLL types the switch does not name, \<^verbatim>\<open>clockcontrol_m\<close> keeps whatever the register
  or stack slot held: the parameter \<open>junk\<close>.\<close>

definition sb_cpu_clock :: "device \<Rightarrow> u32 \<Rightarrow> 'a machine_scheme \<Rightarrow> u32 option \<times> 'a machine_scheme" where
  "sb_cpu_clock dev junk s =
     (let (corecap, s) = READCSR_cc dev R_CORECAPABILITIES s;
          pll_type = G_CORECAP_PL corecap;
          (clockcontrol_n, s) = READCSR_cc dev R_CLOCKCONTROLN s
      in if pll_type = K_PLL_TYPE5 then (Some (200 * 1000 * 1000), s)
         else let (clockcontrol_m, s) =
                (if pll_type \<in> {K_PLL_TYPE2, K_PLL_TYPE4, K_PLL_TYPE6, K_PLL_TYPE7} then
                   READCSR_cc dev R_CLOCKCONTROLM3 s
                 else if pll_type = K_PLL_TYPE3 then READCSR_cc dev R_CLOCKCONTROLM2 s
                 else (junk, s))
              in (sb_clock_rate pll_type clockcontrol_n clockcontrol_m, s))"

text \<open>The UART clock. The PLL types it hands to \<^verbatim>\<open>sb_clock_rate\<close> are not those the function knows.\<close>

definition sb_uart_clock :: "device \<Rightarrow> 'a machine_scheme \<Rightarrow> u32 option \<times> 'a machine_scheme" where
  "sb_uart_clock dev s =
     (let (coreid, s) = READCSR_cc dev R_SBIDHIGH s;
          (corecap, s) = READCSR_cc dev R_CORECAPABILITIES s;
          pl = G_CORECAP_PL corecap;
          pll_type = (if pl = K_PL_4710 then PLL_N3M else if pl = K_PL_4704 then PLL_N4M
                      else if pl = K_PL_5365 then PLL_TYPE3 else PLL_NONE);
          (cc_n, s) = READCSR_cc dev R_CLOCKCONTROLN s;
          (clock, dv, s) =
            (if pll_type = PLL_N3M then
               (let (cc_m, s) = READCSR_cc dev R_CLOCKCONTROLM2 s
                in (sb_clock_rate PLL_N3M cc_n cc_m, 1, s))
             else if pll_type = PLL_TYPE3 then (Some 100000000, 54, WRITECSR_cc R_UARTCLOCKDIV 54 s)
             else if 3 \<le> G_SBID_RV coreid then
               (let (cc_m, s) = READCSR_cc dev R_CLOCKCONTROLSB s;
                    clock = sb_clock_rate PLL_N4M cc_n cc_m;
                    dv = (case clock of None \<Rightarrow> 0 | Some c \<Rightarrow> c div 1843200)
                in (clock, dv, WRITECSR_cc R_UARTCLOCKDIV dv s))
             else (Some 88000000, 48, s));
          (corectl, s) = READCSR_cc dev R_CORECONTROL s
      in case clock of None \<Rightarrow> (None, s)
         | Some clock \<Rightarrow>
             (if 0 < G_SBID_RV coreid \<and> corectl AND M_CORECTL_CO = 0 then
                (if G_CORECAP_CS corecap = K_CS_INTERNAL then div_trap clock dv else Some 1843200)
              else Some clock, s))"

section \<open>Setting the clock\<close>

datatype n4m_table_t = N4m (mipsclock: u32) (sbclock: u32) (n4m_n: u16) (n4m_sb: u32) (pci33: u32)
  (n4m_m2: u32) (n4m_m3: u32) (n4m_ratio: u32) (ratio_parm: u32)

definition type2_table :: "n4m_table_t list" where
  "type2_table =
   [N4m 180000000 80000000 0x0403 0x01010000 0x01020300 0x01020600 0x05000100 0x94 0x012a00a9,
    N4m 180000000 90000000 0x0403 0x01000100 0x01020300 0x01000100 0x05000100 0x21 0x0aaa0555,
    N4m 200000000 100000000 0x0303 0x01000000 0x01000600 0x01000000 0x05000000 0x21 0x0aaa0555,
    N4m 211200000 105600000 0x0902 0x01000200 0x01030400 0x01000200 0x05000200 0x21 0x0aaa0555,
    N4m 220800000 110400000 0x1500 0x01000200 0x01030400 0x01000200 0x05000200 0x21 0x0aaa0555,
    N4m 230400000 115200000 0x0604 0x01000200 0x01020600 0x01000200 0x05000200 0x21 0x0aaa0555,
    N4m 234000000 104000000 0x0b01 0x01010000 0x01010700 0x01020600 0x05000100 0x94 0x012a00a9,
    N4m 240000000 120000000 0x0803 0x01000200 0x01020600 0x01000200 0x05000200 0x21 0x0aaa0555,
    N4m 252000000 126000000 0x0504 0x01000100 0x01020500 0x01000100 0x05000100 0x21 0x0aaa0555,
    N4m 264000000 132000000 0x0903 0x01000200 0x01020700 0x01000200 0x05000200 0x21 0x0aaa0555,
    N4m 270000000 120000000 0x0703 0x01010000 0x01030400 0x01020600 0x05000100 0x94 0x012a00a9,
    N4m 276000000 122666666 0x1500 0x01010000 0x01030400 0x01020600 0x05000100 0x94 0x012a00a9,
    N4m 280000000 140000000 0x0503 0x01000000 0x01010600 0x01000000 0x05000000 0x21 0x0aaa0555,
    N4m 288000000 128000000 0x0604 0x01010000 0x01030400 0x01020600 0x05000100 0x94 0x012a00a9,
    N4m 288000000 144000000 0x0404 0x01000000 0x01010600 0x01000000 0x05000000 0x21 0x0aaa0555,
    N4m 300000000 133333333 0x0803 0x01010000 0x01020600 0x01020600 0x05000100 0x94 0x012a00a9,
    N4m 300000000 150000000 0x0803 0x01000100 0x01020600 0x01000100 0x05000100 0x21 0x0aaa0555]"

definition type4_table :: "n4m_table_t list" where
  "type4_table =
   [N4m 192000000 96000000 0x0702 0x04020011 0x11030011 0x04020011 0x04020003 0x21 0x0aaa0555,
    N4m 200000000 100000000 0x0009 0x04020011 0x11030011 0x04020011 0x04020003 0x21 0x0aaa0555,
    N4m 216000000 108000000 0x0211 0x11020005 0x11030303 0x11020005 0x04000005 0x21 0x0aaa0555,
    N4m 228000000 101333333 0x0e02 0x11030003 0x11210005 0x11030305 0x04000005 0x94 0x012a00a9,
    N4m 228000000 114000000 0x0e02 0x11020005 0x11210005 0x11020005 0x04000005 0x21 0x0aaa0555,
    N4m 240000000 120000000 0x0109 0x11030002 0x01050203 0x11030002 0x04000003 0x21 0x0aaa0555,
    N4m 252000000 126000000 0x0203 0x04000005 0x11050005 0x04000005 0x04000002 0x21 0x0aaa0555,
    N4m 264000000 132000000 0x0602 0x04000005 0x11050005 0x04000005 0x04000002 0x21 0x0aaa0555,
    N4m 272000000 116571428 0x0c02 0x04000021 0x02000909 0x02000221 0x04000003 0x73 0x254a14a9,
    N4m 280000000 120000000 0x0209 0x04000021 0x01030303 0x02000221 0x04000003 0x73 0x254a14a9,
    N4m 288000000 123428571 0x0111 0x04000021 0x01030303 0x02000221 0x04000003 0x73 0x254a14a9,
    N4m 300000000 120000000 0x0009 0x04000009 0x01030203 0x02000902 0x04000002 0x52 0x02520129]"

text \<open>The reset: the write that starts it; the function does not return.\<close>

definition sb_chip_reset :: "'a machine_scheme \<Rightarrow> 'a machine_scheme" where
  "sb_chip_reset s = WRITECSR_cc R_WATCHDOGCNTR 1 s"

text \<open>The first entry with the current settings; the last entry but not the first that the request
  reaches.\<close>

definition current_entry :: "u32 \<Rightarrow> u32 \<Rightarrow> u32 \<Rightarrow> u32 \<Rightarrow> u32 \<Rightarrow> n4m_table_t \<Rightarrow> bool" where
  "current_entry old_n old_m0 old_m1 old_m2 old_m3 e \<longleftrightarrow>
     old_n = ucast (n4m_n e) \<and> old_m0 = n4m_sb e \<and> old_m1 = pci33 e \<and> old_m2 = n4m_m2 e \<and> old_m3 = n4m_m3 e"

fun best_entry :: "n4m_table_t list \<Rightarrow> u32 \<Rightarrow> nat \<Rightarrow> nat" where
  "best_entry tab cpu 0 = 0"
| "best_entry tab cpu (Suc i) = (if mipsclock (tab ! Suc i) \<le> cpu then Suc i else best_entry tab cpu i)"

text \<open>The value returned (\<open>None\<close>: the chip is being reset, or the rate computation trapped) and the
  state.\<close>

definition sb_setclock :: "device \<Rightarrow> u32 \<Rightarrow> u32 \<Rightarrow> 'a machine_scheme \<Rightarrow> int option \<times> 'a machine_scheme" where
  "sb_setclock dev cpu pci s =
     (let (corecap, s) = READCSR_cc dev R_CORECAPABILITIES s;
          pl = G_CORECAP_PL corecap
      in if pl = K_PL_5365 then (Some 200000000, s)
         else if pl \<noteq> K_PL_4704 then (Some 0, s)
         else
           let tab = type2_table;
               (old_n, s) = READCSR_cc dev R_CLOCKCONTROLN s;
               (old_m0, s) = READCSR_cc dev R_CLOCKCONTROLM0 s;
               (old_m1, s) = READCSR_cc dev R_CLOCKCONTROLM1 s;
               (old_m2, s) = READCSR_cc dev R_CLOCKCONTROLM2 s;
               (old_m3, s) = READCSR_cc dev R_CLOCKCONTROLM3 s;
               old_ratio =
                 (case find (current_entry old_n old_m0 old_m1 old_m2 old_m3) tab of
                    Some e \<Rightarrow> Some (n4m_ratio e)
                  | None \<Rightarrow>
                     (case (sb_clock_rate PLL_N4M old_n old_m3, sb_clock_rate PLL_N4M old_n old_m0) of
                        (Some mips_clk, Some sb_clk) \<Rightarrow>
                          Some (if mips_clk = 2 * sb_clk then 0x21
                                else if mips_clk = (sb_clk div 4) * 9 then 0x94 else 0)
                      | _ \<Rightarrow> None))
           in case old_ratio of None \<Rightarrow> (None, s)
              | Some old_ratio \<Rightarrow>
                  if old_ratio = 0 then (Some 0, s)
                  else if cpu < mipsclock (tab ! 0) then (Some 0, s)
                  else
                    let e = tab ! best_entry tab cpu (length tab - 1)
                    in if n4m_ratio e \<noteq> old_ratio then (Some 0, s)
                       else if \<not> current_entry old_n old_m0 old_m1 old_m2 old_m3 e then
                         (let s = WRITECSR_cc R_CLOCKCONTROLN (ucast (n4m_n e)) s;
                              s = WRITECSR_cc R_CLOCKCONTROLM0 (n4m_sb e) s;
                              s = WRITECSR_cc R_CLOCKCONTROLM1 (pci33 e) s;
                              s = WRITECSR_cc R_CLOCKCONTROLM2 (n4m_m2 e) s;
                              s = WRITECSR_cc R_CLOCKCONTROLM3 (n4m_m3 e) s
                          in (None, sb_chip_reset s))
                       else (Some 1, s))"

section \<open>The tables agree with the rate function\<close>

definition entry_ok :: "u32 \<Rightarrow> n4m_table_t \<Rightarrow> bool" where
  "entry_ok pll_type e \<longleftrightarrow>
     sb_clock_rate pll_type (ucast (n4m_n e)) (n4m_m3 e) = Some (mipsclock e) \<and>
     sb_clock_rate pll_type (ucast (n4m_n e)) (n4m_sb e) = Some (sbclock e)"

lemmas rate_defs =
  sb_clock_rate_def pll_factors_def factor6_def div_trap_def G_CCN_N1_def G_CCN_N2_def G_CCM_M1_def
  G_CCM_M2_def G_CCM_M3_def G_CCM_MC_def GETVALUE_def MAKEMASK_def pll_consts cc_factors

text \<open>C31: Every entry of the clock table in use gives, through \<^verbatim>\<open>sb_clock_rate\<close>, exactly the CPU and
  backplane clocks it promises; so does every entry of the table for the PLL of type 4 but the one
  for 216 MHz, whose settings give 252 and 126 MHz.\<close>
theorem clock_tables_agree:
  "(\<forall>e \<in> set type2_table. entry_ok K_PLL_TYPE2 e) \<and>
   (\<forall>i < length type4_table. entry_ok K_PLL_TYPE4 (type4_table ! i) \<longleftrightarrow> i \<noteq> 2) \<and>
   mipsclock (type4_table ! 2) = 216000000 \<and>
   sb_clock_rate K_PLL_TYPE4 (ucast (n4m_n (type4_table ! 2))) (n4m_m3 (type4_table ! 2)) = Some 252000000 \<and>
   sb_clock_rate K_PLL_TYPE4 (ucast (n4m_n (type4_table ! 2))) (n4m_sb (type4_table ! 2)) = Some 126000000"
proof (intro conjI)
  show "\<forall>e \<in> set type2_table. entry_ok K_PLL_TYPE2 e"
    unfolding type2_table_def list_all_iff [symmetric] list.pred_inject
    by (simp add: entry_ok_def rate_defs Let_def)
next
  have l: "length type4_table = 12" by (simp add: type4_table_def)
  have m: "map (entry_ok K_PLL_TYPE4) type4_table = map (\<lambda>i. i \<noteq> 2) [0..<12]"
    by (simp add: type4_table_def entry_ok_def rate_defs Let_def upt_rec)
  show "\<forall>i < length type4_table. entry_ok K_PLL_TYPE4 (type4_table ! i) \<longleftrightarrow> i \<noteq> 2"
  proof (intro allI impI)
    fix i
    assume "i < length type4_table"
    then show "entry_ok K_PLL_TYPE4 (type4_table ! i) \<longleftrightarrow> i \<noteq> 2"
      using arg_cong [OF m, of "\<lambda>xs. xs ! i"] by (simp add: l)
  qed
qed (simp_all add: type4_table_def rate_defs Let_def)

lemma clock_tables_agree_witness:
  "entry_ok K_PLL_TYPE2 (type2_table ! 0) \<and> \<not> entry_ok K_PLL_TYPE4 (type4_table ! 2)"
proof -
  have "type2_table ! 0 \<in> set type2_table" "2 < length type4_table"
    by (simp_all add: type2_table_def type4_table_def)
  then show ?thesis using clock_tables_agree by blast
qed

section \<open>The mixed-up PLL types\<close>

lemma rate_unknown_type: "pll_type \<in> {PLL_N3M, PLL_N4M} \<Longrightarrow> sb_clock_rate pll_type n m = Some 0"
  by (auto simp: sb_clock_rate_def pll_consts)

lemma cc_snd [io_simps]:
  "snd (READCSR_cc dev x s) = snd (load dev (PHYS_TO_K1 (SB_CHIPC_BASE + x)) s)"
  by (simp add: READCSR_cc_def)

text \<open>The values a device gives that answers each register with a constant.\<close>

definition const_dev :: "device \<Rightarrow> (addr \<Rightarrow> u32) \<Rightarrow> bool" where
  "const_dev dev v \<longleftrightarrow> (\<forall>l. \<forall>x < 0x1000. dev l (PHYS_TO_K1 (SB_CHIPC_BASE + x)) = v x)"

lemma cc_read:
  assumes "const_dev dev v" "x < 0x1000"
  shows "\<exists>l'. READCSR_cc dev x (s\<lparr>io_log := l\<rparr>) = (v x, s\<lparr>io_log := l'\<rparr>) \<and> writes l' = writes l"
  using assms by (intro exI [of _ "l @ [Rd (PHYS_TO_K1 (SB_CHIPC_BASE + x)) (v x)]"])
    (simp add: READCSR_cc_def load_def const_dev_def Let_def)

lemma length_type2: "length type2_table = 17"
  by (simp add: type2_table_def)

lemma setclock_deduces_2_1:
  assumes "const_dev dev v" and a: "G_CORECAP_PL (v R_CORECAPABILITIES) = K_PL_4704"
    "find (current_entry (v R_CLOCKCONTROLN) (v R_CLOCKCONTROLM0) (v R_CLOCKCONTROLM1)
      (v R_CLOCKCONTROLM2) (v R_CLOCKCONTROLM3)) type2_table = None"
    "mipsclock (type2_table ! 0) \<le> cpu"
    "e = type2_table ! best_entry type2_table cpu (length type2_table - 1)" "n4m_ratio e = 0x21"
  shows "fst (sb_setclock dev cpu pci s) = None \<and>
    writes (io_log (snd (sb_setclock dev cpu pci s))) = writes (io_log s) @
      map (\<lambda>(x, w). (PHYS_TO_K1 (SB_CHIPC_BASE + x), w))
        [(R_CLOCKCONTROLN, ucast (n4m_n e)), (R_CLOCKCONTROLM0, n4m_sb e), (R_CLOCKCONTROLM1, pci33 e),
         (R_CLOCKCONTROLM2, n4m_m2 e), (R_CLOCKCONTROLM3, n4m_m3 e), (R_WATCHDOGCNTR, 1)]"
proof -
  let ?cur = "current_entry (v R_CLOCKCONTROLN) (v R_CLOCKCONTROLM0) (v R_CLOCKCONTROLM1)
      (v R_CLOCKCONTROLM2) (v R_CLOCKCONTROLM3)"
  have "best_entry type2_table cpu i \<le> i" for i by (induction i) auto
  from this [of 16] have "e \<in> set type2_table" unfolding a(4) length_type2 by (intro nth_mem) (simp add: length_type2)
  then have n: "\<not> ?cur e" using a(2) by (auto simp: find_None_iff)
  have k: "K_PL_4704 \<noteq> K_PL_5365" by (simp add: pll_consts)
  obtain l0 where r0: "READCSR_cc dev R_CORECAPABILITIES s = (v R_CORECAPABILITIES, s\<lparr>io_log := l0\<rparr>)"
    "writes l0 = writes (io_log s)" using cc_read [OF assms(1), where x = R_CORECAPABILITIES and s = s and l = "io_log s"] by (auto simp: cc_consts)
  obtain l1 where r1: "READCSR_cc dev R_CLOCKCONTROLN (s\<lparr>io_log := l0\<rparr>) = (v R_CLOCKCONTROLN, s\<lparr>io_log := l1\<rparr>)"
    "writes l1 = writes l0" using cc_read [OF assms(1), where x = R_CLOCKCONTROLN and s = s and l = l0] by (auto simp: cc_consts)
  obtain l2 where r2: "READCSR_cc dev R_CLOCKCONTROLM0 (s\<lparr>io_log := l1\<rparr>) = (v R_CLOCKCONTROLM0, s\<lparr>io_log := l2\<rparr>)"
    "writes l2 = writes l1" using cc_read [OF assms(1), where x = R_CLOCKCONTROLM0 and s = s and l = l1] by (auto simp: cc_consts)
  obtain l3 where r3: "READCSR_cc dev R_CLOCKCONTROLM1 (s\<lparr>io_log := l2\<rparr>) = (v R_CLOCKCONTROLM1, s\<lparr>io_log := l3\<rparr>)"
    "writes l3 = writes l2" using cc_read [OF assms(1), where x = R_CLOCKCONTROLM1 and s = s and l = l2] by (auto simp: cc_consts)
  obtain l4 where r4: "READCSR_cc dev R_CLOCKCONTROLM2 (s\<lparr>io_log := l3\<rparr>) = (v R_CLOCKCONTROLM2, s\<lparr>io_log := l4\<rparr>)"
    "writes l4 = writes l3" using cc_read [OF assms(1), where x = R_CLOCKCONTROLM2 and s = s and l = l3] by (auto simp: cc_consts)
  obtain l5 where r5: "READCSR_cc dev R_CLOCKCONTROLM3 (s\<lparr>io_log := l4\<rparr>) = (v R_CLOCKCONTROLM3, s\<lparr>io_log := l5\<rparr>)"
    "writes l5 = writes l4" using cc_read [OF assms(1), where x = R_CLOCKCONTROLM3 and s = s and l = l4] by (auto simp: cc_consts)
  have c: "\<not> cpu < mipsclock (type2_table ! 0)" using a(3) by simp
  have z: "sb_clock_rate PLL_N4M n m = Some 0" for n m by (rule rate_unknown_type) simp
  have sc: "sb_setclock dev cpu pci s =
    (None, sb_chip_reset (WRITECSR_cc R_CLOCKCONTROLM3 (n4m_m3 e) (WRITECSR_cc R_CLOCKCONTROLM2 (n4m_m2 e)
      (WRITECSR_cc R_CLOCKCONTROLM1 (pci33 e) (WRITECSR_cc R_CLOCKCONTROLM0 (n4m_sb e)
      (WRITECSR_cc R_CLOCKCONTROLN (ucast (n4m_n e)) (s\<lparr>io_log := l5\<rparr>)))))))"
    unfolding sb_setclock_def r0(1) Let_def prod.case a(1) if_not_P [OF k]
    apply (simp only: r1 r2 r3 r4 r5 prod.case a(2) option.case z simp_thms if_False)
    apply (simp only: flip: a(4))
    using n a(5) c by simp
  show ?thesis by (simp add: sc sb_chip_reset_def WRITECSR_cc_def store_def r0 r1 r2 r3 r4 r5)
qed

lemma uart_clock_traps:
  assumes "const_dev dev v" "G_CORECAP_PL (v R_CORECAPABILITIES) = K_PL_4704"
    "3 \<le> G_SBID_RV (v R_SBIDHIGH)" "v R_CORECONTROL AND M_CORECTL_CO = 0"
    "G_CORECAP_CS (v R_CORECAPABILITIES) = K_CS_INTERNAL"
  shows "fst (sb_uart_clock dev s) = None"
proof -
  have f: "fst (READCSR_cc dev x t) = v x" if "x < 0x1000" for x and t :: "'a machine_scheme"
    using assms(1) that by (simp add: READCSR_cc_def load_def const_dev_def Let_def)
  have k: "K_PL_4704 \<noteq> K_PL_4710" "K_PL_4704 \<noteq> K_PL_5365" "PLL_N4M \<noteq> PLL_N3M" "PLL_N4M \<noteq> PLL_TYPE3"
    by (simp_all add: pll_consts)
  have r: "R_SBIDHIGH < 0x1000" "R_CORECAPABILITIES < 0x1000" "R_CLOCKCONTROLN < 0x1000"
    "R_CLOCKCONTROLSB < 0x1000" "R_CORECONTROL < 0x1000" by (simp_all add: cc_consts)
  have "0 < G_SBID_RV (v R_SBIDHIGH)" using assms(3) by (simp add: word_le_nat_alt word_less_nat_alt)
  then show ?thesis
    using k assms(2-5) by (simp add: sb_uart_clock_def split_beta Let_def f r rate_unknown_type div_trap_def)
qed

text \<open>The PLL types that \<^verbatim>\<open>sb_setclock\<close> and \<^verbatim>\<open>sb_uart_clock\<close> give to \<^verbatim>\<open>sb_clock_rate\<close> are unknown to
  it, so all rates come out 0. On a chip with a type 2 PLL whose settings are in no table entry,
  \<^verbatim>\<open>sb_setclock\<close> therefore always deduces the ratio 2 to 1 (as 0 is twice 0), and installs a 2 to 1
  entry whatever the real ratio is; and \<^verbatim>\<open>sb_uart_clock\<close> divides by zero on a chip of revision 3 or
  later that runs its UART from the internal clock.\<close>
theorem clock_types_mixed_up:
  assumes "const_dev dev v" "G_CORECAP_PL (v R_CORECAPABILITIES) = K_PL_4704"
    and "find (current_entry (v R_CLOCKCONTROLN) (v R_CLOCKCONTROLM0) (v R_CLOCKCONTROLM1)
      (v R_CLOCKCONTROLM2) (v R_CLOCKCONTROLM3)) type2_table = None"
    and "mipsclock (type2_table ! 0) \<le> cpu"
      "e = type2_table ! best_entry type2_table cpu (length type2_table - 1)" "n4m_ratio e = 0x21"
    and "3 \<le> G_SBID_RV (v R_SBIDHIGH)" "v R_CORECONTROL AND M_CORECTL_CO = 0"
      "G_CORECAP_CS (v R_CORECAPABILITIES) = K_CS_INTERNAL"
  shows "fst (sb_setclock dev cpu pci s) = None \<and>
    writes (io_log (snd (sb_setclock dev cpu pci s))) = writes (io_log s) @
      map (\<lambda>(x, w). (PHYS_TO_K1 (SB_CHIPC_BASE + x), w))
        [(R_CLOCKCONTROLN, ucast (n4m_n e)), (R_CLOCKCONTROLM0, n4m_sb e), (R_CLOCKCONTROLM1, pci33 e),
         (R_CLOCKCONTROLM2, n4m_m2 e), (R_CLOCKCONTROLM3, n4m_m3 e), (R_WATCHDOGCNTR, 1)] \<and>
    fst (sb_uart_clock dev s) = None"
  using setclock_deduces_2_1 [OF assms(1-6), of pci s] uart_clock_traps [OF assms(1,2,7-9), of s] by simp

text \<open>A chip with a type 2 PLL running at 144 and 48 MHz, a ratio of 3 to 1.\<close>

definition dev_4704 :: device where
  "dev_4704 l a =
     (if a = PHYS_TO_K1 (SB_CHIPC_BASE + R_CORECAPABILITIES) then 0x20008
      else if a = PHYS_TO_K1 (SB_CHIPC_BASE + R_SBIDHIGH) then 3 else 0)"

definition cc_4704 :: "u32 \<Rightarrow> u32" where
  "cc_4704 x = dev_4704 [] (PHYS_TO_K1 (SB_CHIPC_BASE + x))"

definition machine_reset :: machine where
  "machine_reset = \<lparr>io_log = [], cp0_sr = 0, cp0_cause = 0, irq_desc = [], ip_handler = [], exc_vectors = (\<lambda>_. None)\<rparr>"

lemma clock_types_mixed_up_witness:
  "fst (sb_setclock dev_4704 200000000 0 machine_reset) = None \<and>
   fst (sb_uart_clock dev_4704 machine_reset) = None"
proof -
  have c: "const_dev dev_4704 cc_4704" by (simp add: const_dev_def cc_4704_def dev_4704_def)
  have v: "cc_4704 R_CORECAPABILITIES = 0x20008" "cc_4704 R_SBIDHIGH = 3" "cc_4704 R_CLOCKCONTROLN = 0"
    "cc_4704 R_CORECONTROL = 0"
    by (simp_all add: cc_4704_def dev_4704_def cc_consts SB_CHIPC_BASE_def PHYS_TO_K1_def)
  have f: "find (current_entry (cc_4704 R_CLOCKCONTROLN) m0 m1 m2 m3) type2_table = None" for m0 m1 m2 m3
    by (simp add: v(3) type2_table_def current_entry_def)
  have b: "best_entry type2_table 200000000 (length type2_table - 1) = 2"
    by (simp add: length_type2 numeral_eq_Suc) (simp add: type2_table_def)
  have g: "G_CORECAP_PL 0x20008 = K_PL_4704" "3 \<le> G_SBID_RV 3" "G_CORECAP_CS 0x20008 = K_CS_INTERNAL"
    by (simp_all add: G_CORECAP_PL_def G_SBID_RV_def G_CORECAP_CS_def GETVALUE_def MAKEMASK_def
        pll_consts K_CS_INTERNAL_def)
  show ?thesis
    using clock_types_mixed_up [OF c _ f _ refl, of 200000000 0 machine_reset] g
    by (simp add: v b M_CORECTL_CO_def) (simp add: type2_table_def)
qed

end
