(* ===== verification/Timer.thy ===== *)
theory Timer
  imports SbClock CpuIrq Busy "HOL-Library.Signed_Division"
begin

text \<open>
  Time: the delay loops of \<^verbatim>\<open>cfe/cfe_timer.c\<close> on the CP0 count register, and the tick interrupt,
  the watchdog and the clock of \<^verbatim>\<open>bcm_timer.c\<close>. The count register is read by \<^verbatim>\<open>_getticks\<close>; its
  successive values are a parameter, and the state of a delay is the number of the next reading.
  (\<^verbatim>\<open>cfe_timer_task\<close> and the body of \<^verbatim>\<open>cfe_sleep\<close> are compiled out.) The two counters of the watchdog,
  each a C \<^verbatim>\<open>int\<close>, are unbounded here; they agree for periods below 2 ^ 31 ticks.
\<close>

section \<open>Delays\<close>

record cfe_clocks =
  cfe_clocks_per_Kns :: u32
  cfe_clocks_per_usec :: u32
  cfe_clocks_per_tick :: u32
  cfe_oldcount :: u32
  cfe_ticks :: int

definition CPUCFG_CYCLESPERCPUTICK :: u32 where "CPUCFG_CYCLESPERCPUTICK = 2"

definition CFE_CLOCKSPERUSEC :: "u32 \<Rightarrow> u32" where
  "CFE_CLOCKSPERUSEC cpu_speed = cpu_speed div 1000000 div CPUCFG_CYCLESPERCPUTICK"

definition CFE_CLOCKSPERKNS :: "u32 \<Rightarrow> u32" where
  "CFE_CLOCKSPERKNS cpu_speed = cpu_speed div 976563 div CPUCFG_CYCLESPERCPUTICK"

definition CFE_CLOCKSPERTICK :: "u32 \<Rightarrow> u32" where
  "CFE_CLOCKSPERTICK cpu_speed = cpu_speed div of_nat CFE_HZ div CPUCFG_CYCLESPERCPUTICK"

definition cfe_timer_init :: "u32 \<Rightarrow> (nat \<Rightarrow> u32) \<Rightarrow> nat \<Rightarrow> nat \<times> cfe_clocks" where
  "cfe_timer_init cpu_speed getticks n =
     (n + 1,
      \<lparr>cfe_clocks_per_Kns = (if CFE_CLOCKSPERKNS cpu_speed = 0 then 1 else CFE_CLOCKSPERKNS cpu_speed),
       cfe_clocks_per_usec = (if CFE_CLOCKSPERUSEC cpu_speed = 0 then 1 else CFE_CLOCKSPERUSEC cpu_speed),
       cfe_clocks_per_tick = CFE_CLOCKSPERTICK cpu_speed,
       cfe_oldcount = getticks n, cfe_ticks = 0\<rparr>)"

text \<open>\<^verbatim>\<open>cfe_sleep\<close> as it is compiled: the waiting is under \<^verbatim>\<open>#if 0\<close>.\<close>

definition cfe_sleep :: "int \<Rightarrow> nat \<Rightarrow> nat" where
  "cfe_sleep ticks n = n"

text \<open>Reading the count register while a condition holds; the number of the next reading.\<close>

partial_function (option) count_while :: "(u32 \<Rightarrow> bool) \<Rightarrow> (nat \<Rightarrow> u32) \<Rightarrow> nat \<Rightarrow> nat option" where
  "count_while P getticks n = (if P (getticks n) then count_while P getticks (n + 1) else Some (n + 1))"

definition wait_count :: "u32 \<Rightarrow> (nat \<Rightarrow> u32) \<Rightarrow> nat \<Rightarrow> nat option" where
  "wait_count clocks getticks n =
     (let now = getticks n;
          newcount = now + clocks
      in case (if newcount < now then count_while (\<lambda>t. now < t) getticks (n + 1) else Some (n + 1)) of
           None \<Rightarrow> None
         | Some n \<Rightarrow> count_while (\<lambda>t. t < newcount) getticks n)"

definition cfe_usleep :: "cfe_clocks \<Rightarrow> int \<Rightarrow> (nat \<Rightarrow> u32) \<Rightarrow> nat \<Rightarrow> nat option" where
  "cfe_usleep c usec getticks n = wait_count (of_int usec * cfe_clocks_per_usec c) getticks n"

definition cfe_nsleep :: "cfe_clocks \<Rightarrow> int \<Rightarrow> (nat \<Rightarrow> u32) \<Rightarrow> nat \<Rightarrow> nat option" where
  "cfe_nsleep c nsec getticks n =
     wait_count (drop_bit 10 (of_int nsec * cfe_clocks_per_Kns c + 512)) getticks n"

definition udelay :: "cfe_clocks \<Rightarrow> int \<Rightarrow> (nat \<Rightarrow> u32) \<Rightarrow> nat \<Rightarrow> nat option" where
  "udelay c us getticks n = cfe_usleep c us getticks n"

fun delay_loop :: "cfe_clocks \<Rightarrow> nat \<Rightarrow> (nat \<Rightarrow> u32) \<Rightarrow> nat \<Rightarrow> nat option" where
  "delay_loop c 0 getticks n = Some n"
| "delay_loop c (Suc k) getticks n =
     (case cfe_usleep c 1000 getticks n of None \<Rightarrow> None | Some n \<Rightarrow> delay_loop c k getticks n)"

definition delay_ms :: "cfe_clocks \<Rightarrow> int \<Rightarrow> (nat \<Rightarrow> u32) \<Rightarrow> nat \<Rightarrow> nat option" where
  "delay_ms c ms getticks n = delay_loop c (nat ms) getticks n"

section \<open>The tick interrupt, the watchdog and the clock\<close>

definition CHIPC_WATCHDOG :: addr where "CHIPC_WATCHDOG = 0xb8000080"

record timer = machine +
  alarm :: u32
  interval :: u32
  starttime :: u32
  jiffies :: u32
  wdticks :: int
  wdcount :: int
  cp0_compare :: u32

definition setalarm :: "u32 \<Rightarrow> 'a timer_scheme \<Rightarrow> 'a timer_scheme" where
  "setalarm v s = s\<lparr>cp0_compare := v\<rparr>"

text \<open>The network is polled first; that function is a parameter here.\<close>

definition timer_isr :: "('a timer_scheme \<Rightarrow> 'a timer_scheme) \<Rightarrow> 'a timer_scheme \<Rightarrow> 'a timer_scheme" where
  "timer_isr net_poll s =
     (let s = net_poll s;
          s = s\<lparr>alarm := alarm s + interval s\<rparr>;
          s = setalarm (alarm s) s;
          s = s\<lparr>jiffies := jiffies s + 1\<rparr>
      in if wdticks s \<noteq> 0 then
           (if wdcount s = 0 then store CHIPC_WATCHDOG 1 s else s\<lparr>wdcount := wdcount s - 1\<rparr>)
         else s)"

definition watchdog_start :: "int \<Rightarrow> 'a timer_scheme \<Rightarrow> 'a timer_scheme" where
  "watchdog_start sec s = (let s = s\<lparr>wdticks := sec * 100\<rparr> in s\<lparr>wdcount := wdticks s\<rparr>)"

definition watchdog_reset :: "'a timer_scheme \<Rightarrow> 'a timer_scheme" where
  "watchdog_reset s = s\<lparr>wdcount := wdticks s\<rparr>"

definition watchdog_stop :: "'a timer_scheme \<Rightarrow> 'a timer_scheme" where
  "watchdog_stop s = s\<lparr>wdticks := 0\<rparr>"

text \<open>\<^verbatim>\<open>sys_now\<close> returns an \<^verbatim>\<open>int\<close>: the product is converted to a signed number.\<close>

definition sys_now :: "'a timer_scheme \<Rightarrow> int" where
  "sys_now s = sint (jiffies s * 10)"

definition reset_counter :: "'a timer_scheme \<Rightarrow> 'a timer_scheme" where
  "reset_counter s = s\<lparr>jiffies := 0\<rparr>"

text \<open>Division of signed numbers truncates; the sum is unsigned.\<close>

definition time_now :: "'a timer_scheme \<Rightarrow> u32" where
  "time_now s = of_int (sys_now s sdiv 1000) + starttime s"

text \<open>
  The start. \<open>isr\<close> is the address of \<^verbatim>\<open>timer_isr\<close>, \<open>alloc\<close> says whether the allocator serves
  \<^verbatim>\<open>cfe_request_irq\<close>, \<open>junk\<close> is the uninitialised value in \<^verbatim>\<open>sb_cpu_clock\<close>. \<open>None\<close> marks a trap; the
  message about the clock is left out.
\<close>

definition timer_init ::
  "device \<Rightarrow> bool \<Rightarrow> u32 \<Rightarrow> addr \<Rightarrow> (nat \<Rightarrow> u32) \<Rightarrow> nat \<Rightarrow> 'a timer_scheme
     \<Rightarrow> (cfe_clocks \<times> nat \<times> 'a timer_scheme) option" where
  "timer_init dev alloc junk isr getticks n s =
     (let (b, s) = isbcm5354 dev s;
          (clk, s) = (if b then (Some (240 * 1000 * 1000), s) else sb_cpu_clock dev junk s)
      in case clk of None \<Rightarrow> None
         | Some clk \<Rightarrow>
             let (n, c) = cfe_timer_init clk getticks n;
                 s = s\<lparr>interval := of_int (sint clk sdiv 2 sdiv 100)\<rparr>
             in case cfe_request_irq dev alloc 5 isr 0 CFE_IRQ_FLAGS_SHARED 0 s of None \<Rightarrow> None
                | Some (_, s) \<Rightarrow>
                    let s = cfe_enable_irq dev 5 s;
                        s = s\<lparr>alarm := getticks n + interval s\<rparr>;
                        n = n + 1
                    in Some (c, n, setalarm (alarm s) s))"

section \<open>A delay ends in time\<close>

text \<open>The loop stops at the first reading that fails the condition.\<close>

lemma count_while_ends: "count_while P g n = Some t \<Longrightarrow> \<exists>k. \<not> P (g ((Suc ^^ k) n))"
proof (drule count_while.raw_induct [where Pa = "\<lambda>a t. \<exists>k. \<not> fst (fst a) (snd (fst a) ((Suc ^^ k) (snd a)))", rotated])
  fix cw t and P :: "u32 \<Rightarrow> bool" and g n
  assume IH: "\<And>g n b y. cw g n b = Some y \<Longrightarrow> \<exists>k. \<not> fst (fst ((g, n), b)) (snd (fst ((g, n), b)) ((Suc ^^ k) (snd ((g, n), b))))"
    and eq: "(if P (g n) then cw P g (n + 1) else Some (n + 1)) = Some t"
  have "\<exists>k. \<not> P (g ((Suc ^^ k) n))"
    by (rule busy_wait_unroll [where busy = "\<lambda>n. P (g n)"]) (use IH [of P g "n + 1"] eq in simp)
  then show "\<exists>k. \<not> fst (fst ((P, g), n)) (snd (fst ((P, g), n)) ((Suc ^^ k) (snd ((P, g), n))))" by simp
qed simp

interpretation counting: busy_wait "count_while P g" "\<lambda>n. P (g n)" Suc Suc
  by unfold_locales (subst count_while.simps, simp, erule count_while_ends)

lemma count_while_first:
  assumes "\<not> P (getticks (n + k))"
  shows "\<exists>i \<ge> n. count_while P getticks n = Some (i + 1) \<and> \<not> P (getticks i)
    \<and> (\<forall>j. n \<le> j \<and> j < i \<longrightarrow> P (getticks j))"
proof -
  have "\<not> P (getticks ((Suc ^^ k) n))" using assms by (simp add: add.commute)
  from counting.returns [where P = P and g = getticks and n = k and s = n, OF this]
  obtain i where i: "count_while P getticks n = Some (Suc ((Suc ^^ i) n))" "\<not> P (getticks ((Suc ^^ i) n))"
    "\<forall>j < i. P (getticks ((Suc ^^ j) n))" by blast
  have "P (getticks j)" if "n \<le> j" "j < n + i" for j
    using i(3) [rule_format, of "j - n"] that by simp
  with i(1,2) show ?thesis by (intro exI [of _ "n + i"]) (simp add: add.commute)
qed

text \<open>The counter as a clock: it advances, by at most \<open>d\<close> between two readings.\<close>

definition ticks_of :: "(nat \<Rightarrow> nat) \<Rightarrow> nat \<Rightarrow> (nat \<Rightarrow> u32) \<Rightarrow> bool" where
  "ticks_of t d getticks \<longleftrightarrow>
     (\<forall>i. getticks i = of_nat (t i)) \<and> (\<forall>i. t i < t (i + 1) \<and> t (i + 1) \<le> t i + d)"

lemma ticks_mono: "ticks_of t d g \<Longrightarrow> i \<le> j \<Longrightarrow> t i + (j - i) \<le> t j"
proof (induction j)
  case (Suc j)
  then show ?case
    by (cases "i \<le> j") (auto simp: ticks_of_def Suc_diff_le le_Suc_eq intro: order_trans [OF _ Suc_leI])
qed simp

lemma ticks_reach: "ticks_of t d g \<Longrightarrow> \<exists>j \<ge> m. x \<le> t j"
  using ticks_mono [of t d g m "m + x"] by (intro exI [of _ "m + x"]) simp

text \<open>The first reading from \<open>m\<close> on that reaches \<open>x\<close>, and how far beyond it is.\<close>

lemma first_reach:
  assumes "ticks_of t d g"
  obtains j where "m \<le> j" "x \<le> t j" "\<And>i. m \<le> i \<Longrightarrow> i < j \<Longrightarrow> t i < x" "t j \<le> max (t m) (x + d)"
proof -
  define j where "j = (LEAST j. m \<le> j \<and> x \<le> t j)"
  have j: "m \<le> j \<and> x \<le> t j"
    unfolding j_def by (rule LeastI_ex) (use ticks_reach [OF assms, of m x] in blast)
  have l: "t i < x" if "m \<le> i" "i < j" for i
    using that not_less_Least [of i "\<lambda>j. m \<le> j \<and> x \<le> t j"] by (auto simp: j_def)
  have "t j \<le> max (t m) (x + d)"
  proof (cases "j = m")
    case False
    then have "m \<le> j - 1" "j - 1 < j" using j by auto
    then have "t (j - 1) < x" by (rule l)
    moreover have "t (j - 1 + 1) \<le> t (j - 1) + d" using assms unfolding ticks_of_def by blast
    ultimately show ?thesis using False j by simp
  qed simp
  then show thesis using that j l by blast
qed

lemma reading:
  assumes "ticks_of t d g" "2 ^ 32 dvd b" "b \<le> t i" "t i < b + 2 ^ 32"
  shows "unat (g i) = t i - b"
proof -
  obtain k where k: "b = 2 ^ 32 * k" using assms(2) by auto
  have "t i = (t i - b) + 2 ^ 32 * k" using assms(3) k by simp
  then have "t i mod 2 ^ 32 = (t i - b) mod 2 ^ 32" by (metis mod_mult_self2)
  also have "\<dots> = t i - b" using assms(3,4) by (intro mod_less) (simp add: less_diff_conv2 add.commute)
  finally show ?thesis using assms(1) by (simp add: ticks_of_def unat_of_nat take_bit_eq_mod)
qed

text \<open>The second loop: inside a period of the counter, it ends at the first reading of the target.\<close>

lemma wait_window:
  assumes "ticks_of t d g" "2 ^ 32 dvd b" "b \<le> t m" "t m < b + 2 ^ 32" "w + d < 2 ^ 32"
  shows "\<exists>i \<ge> m. count_while (\<lambda>x. x < of_nat w) g m = Some (i + 1) \<and> b + w \<le> t i \<and> t i \<le> max (t m) (b + w + d)"
proof -
  obtain j where j: "m \<le> j" "b + w \<le> t j" "t j \<le> max (t m) (b + w + d)"
    using first_reach [OF assms(1), of m "b + w"] by metis
  have w: "unat (of_nat w :: u32) = w" using assms(5) by (simp add: unat_of_nat take_bit_nat_eq_self)
  have r: "unat (g i) = t i - b" if "m \<le> i" "i \<le> j" for i
  proof (rule reading [OF assms(1,2)])
    show "b \<le> t i" using ticks_mono [OF assms(1) that(1)] assms(3) by simp
    show "t i < b + 2 ^ 32" using ticks_mono [OF assms(1) that(2)] j(3) assms(4,5) by simp
  qed
  have "\<not> g (m + (j - m)) < of_nat w" using r [of j] j w by (simp add: word_less_nat_alt)
  then obtain i where i: "m \<le> i" "count_while (\<lambda>x. x < of_nat w) g m = Some (i + 1)" "\<not> g i < of_nat w"
    "\<forall>k. m \<le> k \<and> k < i \<longrightarrow> g k < of_nat w"
    using count_while_first [of "\<lambda>x. x < of_nat w" g m "j - m"] by auto
  have "i \<le> j" using i(4) \<open>\<not> g (m + (j - m)) < of_nat w\<close> j(1) by (metis le_add_diff_inverse not_less)
  then have "b + w \<le> t i" "t i \<le> t j"
    using r [OF i(1)] i(1,3) w ticks_mono [OF assms(1), of i j] ticks_mono [OF assms(1) i(1)] assms(3)
    by (auto simp: word_less_nat_alt)
  then show ?thesis using i(1,2) j(3) by (intro exI [of _ i]) simp
qed

lemma wait_count_elapses:
  assumes "ticks_of t d g" "d \<le> unat (g n)" "(unat (g n) + unat clocks) mod 2 ^ 32 + d < 2 ^ 32"
    "2 * d < 2 ^ 32"
  shows "\<exists>i. wait_count clocks g n = Some (i + 1) \<and> t n + unat clocks \<le> t i \<and> t i \<le> t n + unat clocks + 2 * d"
proof -
  let ?c = "unat clocks" and ?now = "unat (g n)"
  have lt: "?now < 2 ^ 32" "?c < 2 ^ 32"
    using unsigned_less [where ?'a = nat and 'b = 32, of "g n"]
      unsigned_less [where ?'a = nat and 'b = 32, of clocks] by simp_all
  have gn: "?now = t n mod 2 ^ 32" using assms(1) by (simp add: ticks_of_def unat_of_nat take_bit_eq_mod)
  then obtain b where b: "2 ^ 32 dvd b" "t n = b + ?now"
    by (metis dvd_triv_left mult_div_mod_eq)
  have step: "t n < t (n + 1)" "t (n + 1) \<le> t n + d" using assms(1) unfolding ticks_of_def by blast+
  show ?thesis
  proof (cases "?now + ?c < 2 ^ 32")
    case True
    then have "g n + clocks = of_nat (?now + ?c)" "\<not> g n + clocks < g n"
      by (simp_all add: word_less_nat_alt unat_word_ariths)
    moreover obtain i where "n + 1 \<le> i" "count_while (\<lambda>x. x < of_nat (?now + ?c)) g (n + 1) = Some (i + 1)"
      "b + (?now + ?c) \<le> t i" "t i \<le> max (t (n + 1)) (b + (?now + ?c) + d)"
      using wait_window [OF assms(1) b(1), of "n + 1" "?now + ?c"] b(2) step assms(3) True by auto
    ultimately show ?thesis using b(2) step by (intro exI [of _ i]) (simp add: wait_count_def Let_def)
  next
    case False
    define w where "w = ?now + ?c - 2 ^ 32"
    have w: "?now + ?c = 2 ^ 32 + w" "w < ?now" using False lt by (auto simp: w_def)
    then have wm: "(?now + ?c) mod 2 ^ 32 = w" using lt by (simp add: mod_if)
    have nc: "g n + clocks = of_nat w" "g n + clocks < g n"
      using w wm lt by (simp_all add: word_less_nat_alt word_unat_eq_iff unat_word_ariths unat_of_nat take_bit_eq_mod)
    let ?b = "b + 2 ^ 32"
    obtain j where j: "n + 1 \<le> j" "?b \<le> t j" "\<And>i. n + 1 \<le> i \<Longrightarrow> i < j \<Longrightarrow> t i < ?b"
      "t j \<le> max (t (n + 1)) (?b + d)"
      using first_reach [OF assms(1), of "n + 1" ?b] by metis
    have tj: "t j \<le> ?b + d" using j(4) step(2) b(2) lt by simp
    have "unat (g j) = t j - ?b"
      using assms(4) lt tj j(2) b(1) assms(2) by (intro reading [OF assms(1)]) auto
    then have pj: "\<not> g n < g j" using tj assms(2) by (simp add: word_less_nat_alt)
    have pi: "g n < g i" if "n + 1 \<le> i" "i < j" for i
    proof -
      have "t n < t i" using ticks_mono [OF assms(1), of n i] that by simp
      then have "unat (g i) = t i - b"
        using b j(3) [OF that] by (intro reading [OF assms(1)]) auto
      then show ?thesis using \<open>t n < t i\<close> b(2) by (simp add: word_less_nat_alt)
    qed
    obtain i where i: "n + 1 \<le> i" "count_while (\<lambda>t. g n < t) g (n + 1) = Some (i + 1)" "\<not> g n < g i"
      "\<forall>k. n + 1 \<le> k \<and> k < i \<longrightarrow> g n < g k"
      using count_while_first [of "\<lambda>t. g n < t" g "n + 1" "j - (n + 1)"] pj j(1) by auto
    then have "i = j" using pi pj j(1) by (metis not_less_iff_gr_or_eq)
    have sj: "t j < t (j + 1)" "t (j + 1) \<le> t j + d" using assms(1) unfolding ticks_of_def by blast+
    obtain k where "count_while (\<lambda>x. x < of_nat w) g (j + 1) = Some (k + 1)"
      "?b + w \<le> t k" "t k \<le> max (t (j + 1)) (?b + w + d)"
      using wait_window [OF assms(1), of ?b "j + 1" w] b(1) sj tj j(2) assms(3,4) wm by auto
    then show ?thesis
      using nc i(2) \<open>i = j\<close> sj tj w(1) b(2) by (intro exI [of _ k]) (simp add: wait_count_def Let_def)
  qed
qed

text \<open>C32: On a counter that advances by at most \<open>d\<close> between two readings, \<^verbatim>\<open>cfe_usleep\<close> returns, not
  before the time asked for has passed and at most two readings later. This needs the start to lie
  at least \<open>d\<close> after a wrap of the counter and the end at least \<open>d\<close> before one: otherwise a
  reading can skip the few values at which a loop would stop, the wrap problem of the comment in
  the code.\<close>
theorem usleep_waits:
  fixes c :: cfe_clocks and usec :: int
  defines "k \<equiv> nat usec * unat (cfe_clocks_per_usec c)"
  assumes "ticks_of t d g" "0 \<le> usec" "k < 2 ^ 32" "2 * d < 2 ^ 32"
    and "d \<le> unat (g n)" "(unat (g n) + k) mod 2 ^ 32 + d < 2 ^ 32"
  shows "\<exists>i. cfe_usleep c usec g n = Some (i + 1) \<and> t n + k \<le> t i \<and> t i \<le> t n + k + 2 * d"
proof -
  have "of_int usec = (of_nat (nat usec) :: u32)" using assms(3) by (metis int_nat_eq of_int_of_nat_eq)
  then have "of_int usec * cfe_clocks_per_usec c = of_nat k"
    by (simp add: k_def)
  moreover have "unat (of_nat k :: u32) = k" using assms(4) by (simp add: unat_of_nat take_bit_nat_eq_self)
  ultimately show ?thesis
    using wait_count_elapses [OF assms(2,6), of "of_nat k"] assms(5,7) by (simp add: cfe_usleep_def)
qed

lemma usleep_waits_witness:
  "\<exists>i. cfe_usleep \<lparr>cfe_clocks_per_Kns = 102, cfe_clocks_per_usec = 100, cfe_clocks_per_tick = 10000000,
      cfe_oldcount = 0, cfe_ticks = 0\<rparr> 5 (\<lambda>i. of_nat (1000 + 10 * i)) 0 = Some (i + 1)
    \<and> 1500 \<le> 1000 + 10 * i \<and> 1000 + 10 * i \<le> 1520"
  using usleep_waits [of "\<lambda>i. 1000 + 10 * i" 10 "\<lambda>i. of_nat (1000 + 10 * i)" 5
    "\<lparr>cfe_clocks_per_Kns = 102, cfe_clocks_per_usec = 100, cfe_clocks_per_tick = 10000000,
      cfe_oldcount = 0, cfe_ticks = 0\<rparr>" 0]
  by (simp add: ticks_of_def)

section \<open>The watchdog\<close>

text \<open>The writes to the watchdog register, and a poll of the network that leaves the watchdog alone.\<close>

definition wd_writes :: "'a timer_scheme \<Rightarrow> (addr \<times> u32) list" where
  "wd_writes s = filter (\<lambda>w. fst w = CHIPC_WATCHDOG) (writes (io_log s))"

definition quiet_poll :: "('a timer_scheme \<Rightarrow> 'a timer_scheme) \<Rightarrow> bool" where
  "quiet_poll f \<longleftrightarrow> (\<forall>s. wdticks (f s) = wdticks s \<and> wdcount (f s) = wdcount s \<and> wd_writes (f s) = wd_writes s
     \<and> jiffies (f s) = jiffies s \<and> starttime (f s) = starttime s)"

lemma timer_isr_sel:
  "wdticks (timer_isr f s) = wdticks (f s)"
  "wdcount (timer_isr f s) =
     (if wdticks (f s) \<noteq> 0 \<and> wdcount (f s) \<noteq> 0 then wdcount (f s) - 1 else wdcount (f s))"
  "wd_writes (timer_isr f s) =
     wd_writes (f s) @ (if wdticks (f s) \<noteq> 0 \<and> wdcount (f s) = 0 then [(CHIPC_WATCHDOG, 1)] else [])"
  "jiffies (timer_isr f s) = jiffies (f s) + 1" "starttime (timer_isr f s) = starttime (f s)"
  by (simp_all add: timer_isr_def Let_def setalarm_def store_def wd_writes_def)

lemma wd_ticks:
  assumes "quiet_poll f" "wdticks s \<noteq> 0" "wdcount s = int k"
  shows "wd_writes ((timer_isr f ^^ n) s) = wd_writes s @ replicate (n - k) (CHIPC_WATCHDOG, 1)
    \<and> wdticks ((timer_isr f ^^ n) s) = wdticks s \<and> wdcount ((timer_isr f ^^ n) s) = int (k - n)"
proof (induction n)
  case (Suc n)
  let ?t = "(timer_isr f ^^ n) s"
  have q: "wdticks (f ?t) = wdticks ?t" "wdcount (f ?t) = wdcount ?t" "wd_writes (f ?t) = wd_writes ?t"
    using assms(1) by (simp_all add: quiet_poll_def)
  show ?case
  proof (cases "k \<le> n")
    case True
    then show ?thesis
      using Suc q assms(2)
      by (simp add: timer_isr_sel Suc_diff_le flip: replicate_append_same)
  next
    case False
    then show ?thesis
      using Suc q assms(2) by (simp add: timer_isr_sel of_nat_diff)
  qed
qed (simp add: assms)

text \<open>C33: The watchdog started with \<^verbatim>\<open>sec\<close> seconds does not bite for 100 ticks per second; every
  \<^verbatim>\<open>watchdog_reset\<close> within that time starts it again; without one it bites at the next tick and
  at every tick after.\<close>
theorem watchdog_bites:
  assumes "quiet_poll f" "0 < sec" "m \<le> nat sec * 100"
  shows "wd_writes ((timer_isr f ^^ n) (watchdog_reset ((timer_isr f ^^ m) (watchdog_start sec s))))
    = wd_writes s @ replicate (n - nat sec * 100) (CHIPC_WATCHDOG, 1)"
proof -
  let ?s = "watchdog_start sec s"
  have "wdticks ?s = sec * 100" "wdcount ?s = int (nat sec * 100)" "wd_writes ?s = wd_writes s"
    using assms(2) by (simp_all add: watchdog_start_def wd_writes_def)
  moreover from this have "wd_writes ((timer_isr f ^^ m) ?s) = wd_writes s" "wdticks ((timer_isr f ^^ m) ?s) = sec * 100"
    using wd_ticks [OF assms(1), of ?s "nat sec * 100" m] assms(2,3) by auto
  ultimately show ?thesis
    using wd_ticks [OF assms(1), of "watchdog_reset ((timer_isr f ^^ m) ?s)" "nat sec * 100" n] assms(2)
    by (simp add: watchdog_reset_def wd_writes_def)
qed

definition timer0 :: timer where
  "timer0 = \<lparr>io_log = [], cp0_sr = 0, cp0_cause = 0, irq_desc = [], ip_handler = [], exc_vectors = (\<lambda>_. None),
     alarm = 0, interval = 1000, starttime = 0, jiffies = 0, wdticks = 0, wdcount = 0, cp0_compare = 0\<rparr>"

lemma watchdog_bites_witness:
  "wd_writes ((timer_isr id ^^ 102) (watchdog_reset ((timer_isr id ^^ 90) (watchdog_start 1 timer0))))
    = [(CHIPC_WATCHDOG, 1), (CHIPC_WATCHDOG, 1)]"
proof -
  have "quiet_poll (id :: timer \<Rightarrow> timer)" by (simp add: quiet_poll_def)
  then show ?thesis
    using watchdog_bites [of "id :: timer \<Rightarrow> timer" 1 90 102 timer0]
    by (simp add: timer0_def wd_writes_def numeral_2_eq_2)
qed

section \<open>The clock\<close>

text \<open>The clock runs backwards: \<^verbatim>\<open>sys_now\<close> returns the milliseconds as a signed number, so at the
  tick after 24 days and 20 hours \<^verbatim>\<open>time\<close> drops by 4294966 seconds, almost fifty days.\<close>
theorem time_drops:
  assumes "quiet_poll f" "jiffies s = 214748364"
  shows "time_now (timer_isr f s) = time_now s - 4294966"
proof -
  have "sint (2147483650 :: u32) = - 2147483646" "sint (2147483640 :: u32) = 2147483640" by simp_all
  moreover have "(- 2147483646) sdiv 1000 = (- 2147483 :: int)" "2147483640 sdiv 1000 = (2147483 :: int)"
    by (simp_all add: signed_divide_int_def)
  ultimately show ?thesis
    using assms by (simp add: time_now_def sys_now_def timer_isr_sel quiet_poll_def)
qed

lemma time_drops_witness:
  "time_now (timer_isr id (timer0\<lparr>jiffies := 214748364, starttime := 1700000000\<rparr>)) = 1700000000 - 2147483"
  using time_drops [of "id :: timer \<Rightarrow> timer" "timer0\<lparr>jiffies := 214748364, starttime := 1700000000\<rparr>"]
  by (simp add: quiet_poll_def time_now_def sys_now_def timer0_def signed_divide_int_def)

end
