(* ===== verification/Net.thy ===== *)
theory Net
  imports InQueue Timer
begin

text \<open>
  The network functions of \<^verbatim>\<open>net.c\<close>: one TCP connection of an HTTP client with its receive buffer, one
  UDP socket, the SNTP client, name lookup and the start of the interface. The TCP/IP stack is not
  code of this repository: its results are the parameter \<open>st\<close>, functions of the calls made so far,
  and the calls are recorded. (The packet buffers that \<^verbatim>\<open>rtl_udp_send\<close> and \<^verbatim>\<open>sntp\<close> make and free around a datagram and
  the console messages of the start are left out.) What the interrupts do while the code waits is a parameter of the
  waiting functions. \<open>None\<close> marks a write outside a buffer or, for a waiting function, no return.
\<close>

section \<open>The interrupt lock\<close>

text \<open>\<^verbatim>\<open>cli\<close> keeps the enable and mask bits in the global \<^verbatim>\<open>sr\<close>, here its result, for \<^verbatim>\<open>sti\<close>.\<close>

definition cli :: "'a machine_scheme \<Rightarrow> u32 \<times> 'a machine_scheme" where
  "cli s = cfe_irq_disable s"

definition sti :: "u32 \<Rightarrow> 'a machine_scheme \<Rightarrow> 'a machine_scheme" where
  "sti sr s = cfe_irq_enable sr s"

text \<open>The lock gives the status register back, and no interrupt is enabled inside.\<close>

lemma cli_sti: "sti (fst (cli s)) (snd (cli s)) = s" "\<not> bit (cp0_sr (snd (cli s))) 0"
proof -
  have "(cp0_sr s AND NOT M_SR_EN AND NOT M_SR_EN) OR (cp0_sr s AND M_SR_EN AND M_SR_EN) = cp0_sr s"
    by (rule bit_word_eqI) (auto simp: bit_or_iff bit_and_iff bit_not_iff)
  then show "sti (fst (cli s)) (snd (cli s)) = s"
    by (simp add: sti_def cli_def cfe_irq_disable_def cfe_irq_enable_def Let_def and.assoc)
  have "bit M_SR_EN 0" by (simp add: M_SR_EN_def M_SR_IE_def MAKEMASK1_def bit_or_iff)
  then show "\<not> bit (cp0_sr (snd (cli s))) 0"
    by (simp add: cli_def cfe_irq_disable_def Let_def bit_and_iff bit_not_iff)
qed

section \<open>State\<close>

datatype ip_addr = Ip_any | Ip4 u32 | Ip6 u32 u32 u32 u32

datatype net_call =
    Pbuf_release addr
  | Tcp_new bool addr
  | Tcp_callbacks addr nat
  | Tcp_connect addr ip_addr u16
  | Tcp_recved addr u16
  | Tcp_abort addr
  | Tcp_write addr "u8 list"
  | Tcp_output addr
  | Tcp_close addr
  | Udp_new bool addr
  | Udp_bind addr ip_addr u16
  | Udp_recv addr
  | Udp_remove addr
  | Udp_sendto addr "u8 list" ip_addr u16
  | Dns_lookup "u8 list" int
  | Dns_setserver ip_addr
  | Lwip_init
  | Netif_add ip_addr ip_addr ip_addr
  | Netif_up
  | Dhcp_start
  | Check_timeouts
  | Restart_timeouts
  | Console "u8 list"

record stack =
  st_tcp_new :: "net_call list \<Rightarrow> addr"
  st_sndbuf :: "net_call list \<Rightarrow> addr \<Rightarrow> u16"
  st_udp_new :: "net_call list \<Rightarrow> addr"
  st_udp_bind :: "net_call list \<Rightarrow> int"
  st_dns :: "net_call list \<Rightarrow> int \<times> ip_addr"
  st_dhcp_start :: "net_call list \<Rightarrow> int"
  st_dhcp_supplied :: "nat \<Rightarrow> bool"
  st_ip4_ptr :: addr
  st_myaddr :: u32
  st_my_ip6 :: ip_addr

record net = timer +
  netq :: net_if
  net_log :: "net_call list"
  net_ipaddr :: ip_addr
  net_netmask :: ip_addr
  net_gw :: ip_addr
  dnsserver :: ip_addr
  udpecho_raw_pcb :: addr
  udpsntp_raw_pcb :: addr
  tcphttp_raw_pcb :: addr
  udpbuff :: "u8 list"
  tcpbuff :: "u8 list"
  tcplen :: int
  tcpoff :: int
  tcpstat :: int
  netstat :: int
  dnsstat :: int
  resolvip :: ip_addr

definition UDPBUFF_SIZE :: nat where "UDPBUFF_SIZE = 1024"
definition TCPBUFF_SIZE :: nat where "TCPBUFF_SIZE = 1024 * 8"

definition ncall :: "net_call \<Rightarrow> 'a net_scheme \<Rightarrow> 'a net_scheme" where
  "ncall c s = s\<lparr>net_log := net_log s @ [c]\<rparr>"

definition htonl :: "u32 \<Rightarrow> u32" where
  "htonl v = word32 (ucast (drop_bit 24 v)) (ucast (drop_bit 16 v)) (ucast (drop_bit 8 v)) (ucast v)"

text \<open>A write of bytes at an offset of an array: \<open>None\<close> when it leaves the array.\<close>

definition put_at :: "nat \<Rightarrow> u8 list \<Rightarrow> u8 list \<Rightarrow> u8 list option" where
  "put_at off bs buf =
     (if off + length bs \<le> length buf then Some (take off buf @ bs @ drop (off + length bs) buf) else None)"

section \<open>UDP\<close>

text \<open>A packet buffer is its address and its bytes.\<close>

definition udpecho_raw_recv :: "(addr \<times> u8 list) option \<Rightarrow> 'a net_scheme \<Rightarrow> 'a net_scheme option" where
  "udpecho_raw_recv p s =
     (case p of None \<Rightarrow> Some s
      | Some (a, bs) \<Rightarrow>
          case put_at 0 bs (udpbuff s) of None \<Rightarrow> None
          | Some b \<Rightarrow>
              case put_at (length bs) [0] b of None \<Rightarrow> None
              | Some b \<Rightarrow> Some (ncall (Pbuf_release a) (s\<lparr>udpbuff := b\<rparr>)))"

definition rtl_udp_init :: "stack \<Rightarrow> 'a net_scheme \<Rightarrow> 'a net_scheme" where
  "rtl_udp_init st s =
     (let p = st_udp_new st (net_log s) in (ncall (Udp_new False p) s)\<lparr>udpecho_raw_pcb := p\<rparr>)"

definition rtl_udp_bind :: "stack \<Rightarrow> int \<Rightarrow> 'a net_scheme \<Rightarrow> 'a net_scheme" where
  "rtl_udp_bind st port s =
     (let s = s\<lparr>udpbuff := (udpbuff s)[0 := 0]\<rparr>
      in if udpecho_raw_pcb s \<noteq> NULL then
           let err = st_udp_bind st (net_log s);
               s = ncall (Udp_bind (udpecho_raw_pcb s) Ip_any (of_int port)) s
           in if err = ERR_OK then ncall (Udp_recv (udpecho_raw_pcb s)) s else s
         else s)"

definition strlen :: "u8 list \<Rightarrow> nat" where
  "strlen b = length (takeWhile (\<lambda>c. c \<noteq> 0) b)"

text \<open>The length returned and the bytes copied out; the receive interrupt is kept out of the copy.\<close>

definition rtl_udp_recv :: "int \<Rightarrow> 'a net_scheme \<Rightarrow> int \<times> u8 list \<times> 'a net_scheme" where
  "rtl_udp_recv blen s =
     (if udpbuff s ! 0 \<noteq> 0 then
        let (sr, s) = cli s;
            udplen = int (strlen (udpbuff s));
            rlen = (if udplen > blen then blen else udplen);
            out = take (nat rlen) (udpbuff s);
            s = s\<lparr>udpbuff := (udpbuff s)[0 := 0]\<rparr>
        in (rlen, out, sti sr s)
      else (0, [], s))"

definition rtl_udp_send :: "u32 \<Rightarrow> int \<Rightarrow> u8 list \<Rightarrow> 'a net_scheme \<Rightarrow> 'a net_scheme" where
  "rtl_udp_send addr port buf s =
     (if udpecho_raw_pcb s \<noteq> NULL then
        ncall (Udp_sendto (udpecho_raw_pcb s) buf (Ip4 (htonl addr)) (of_int port)) s
      else s)"

section \<open>TCP\<close>

definition http_recv :: "addr \<Rightarrow> (addr \<times> u8 list) option \<Rightarrow> 'a net_scheme \<Rightarrow> 'a net_scheme option" where
  "http_recv pcb p s =
     (case p of None \<Rightarrow> Some (s\<lparr>tcpstat := 2\<rparr>)
      | Some (a, bs) \<Rightarrow>
          let s = (if tcplen s = 0 then s\<lparr>tcpoff := 0\<rparr> else s)
          in case put_at (nat (tcpoff s + tcplen s)) bs (tcpbuff s) of None \<Rightarrow> None
             | Some b \<Rightarrow>
                 let s = s\<lparr>tcpbuff := b\<rparr>;
                     s = s\<lparr>tcplen := tcplen s + int (length bs)\<rparr>;
                     s = ncall (Tcp_recved pcb (of_nat (length bs))) s
                 in Some (ncall (Pbuf_release a) s))"

definition http_sent :: "'a net_scheme \<Rightarrow> int \<times> 'a net_scheme" where
  "http_sent s = (ERR_OK, s)"

definition http_poll :: "addr \<Rightarrow> 'a net_scheme \<Rightarrow> int \<times> 'a net_scheme" where
  "http_poll pcb s =
     (let s = ncall (Tcp_abort pcb) s;
          s = s\<lparr>tcpstat := 3\<rparr>;
          s = ncall (Console [0x74, 0x63, 0x70, 0x5f, 0x61, 0x62, 0x6f, 0x72, 0x74]) s
      in (ERR_OK, s))"

definition http_err :: "'a net_scheme \<Rightarrow> 'a net_scheme" where
  "http_err s = s\<lparr>tcpstat := 3\<rparr>"

definition http_connected :: "'a net_scheme \<Rightarrow> int \<times> 'a net_scheme" where
  "http_connected s = (ERR_OK, s\<lparr>tcplen := 0, tcpoff := 0, tcpstat := 1\<rparr>)"

text \<open>The length is the smaller of the request and the room in the send buffer; what does not fit is
  dropped.\<close>

definition my_tcp_write :: "stack \<Rightarrow> u8 list \<Rightarrow> 'a net_scheme \<Rightarrow> 'a net_scheme" where
  "my_tcp_write st buf s =
     (let pcb = tcphttp_raw_pcb s;
          n = of_nat (min (length buf) (unat (st_sndbuf st (net_log s) pcb))) :: u16;
          s = ncall (Tcp_write pcb (take (unat n) buf)) s
      in ncall (Tcp_output pcb) s)"

definition my_tcp_close :: "'a net_scheme \<Rightarrow> 'a net_scheme" where
  "my_tcp_close s = ncall (Tcp_close (tcphttp_raw_pcb s)) s"

definition http_close :: "'a net_scheme \<Rightarrow> 'a net_scheme" where
  "http_close s = ncall (Tcp_close (tcphttp_raw_pcb s)) s"

text \<open>The destination from the caller's integers: one for IPv4, eight 16-bit blocks for IPv6.\<close>

definition dist_addr :: "u32 list \<Rightarrow> int \<Rightarrow> ip_addr" where
  "dist_addr a ty =
     (if ty = 0 then Ip4 (htonl (a ! 0))
      else Ip6 (htonl (push_bit 16 (a ! 0) OR a ! 1)) (htonl (push_bit 16 (a ! 2) OR a ! 3))
               (htonl (push_bit 16 (a ! 4) OR a ! 5)) (htonl (push_bit 16 (a ! 6) OR a ! 7)))"

definition tcphttp_raw_init :: "stack \<Rightarrow> u32 list \<Rightarrow> int \<Rightarrow> int \<Rightarrow> 'a net_scheme \<Rightarrow> 'a net_scheme" where
  "tcphttp_raw_init st addr disport ty s =
     (let distaddr = dist_addr addr ty;
          p = st_tcp_new st (net_log s);
          s = (ncall (Tcp_new (ty \<noteq> 0) p) s)\<lparr>tcphttp_raw_pcb := p\<rparr>
      in if p \<noteq> NULL then
           let s = ncall (Tcp_callbacks p 60) s;
               s = ncall (Tcp_connect p distaddr (of_int disport)) s
           in s\<lparr>tcpstat := 0\<rparr>
         else s)"

text \<open>Waiting ten milliseconds at a time while a condition holds; \<open>irq n\<close> is what the interrupts do
  during the \<open>n\<close>-th delay.\<close>

partial_function (option) wait_irq ::
  "('s \<Rightarrow> bool) \<Rightarrow> (nat \<Rightarrow> 's \<Rightarrow> 's) \<Rightarrow> nat \<Rightarrow> 's \<Rightarrow> 's option" where
  "wait_irq P irq n s = (if P s then wait_irq P irq (n + 1) (irq n s) else Some s)"

definition http_connect ::
  "stack \<Rightarrow> (nat \<Rightarrow> 'a net_scheme \<Rightarrow> 'a net_scheme) \<Rightarrow> u32 list \<Rightarrow> int \<Rightarrow> u8 list \<Rightarrow> int \<Rightarrow> 'a net_scheme
     \<Rightarrow> (int \<times> 'a net_scheme) option" where
  "http_connect st irq addr port header ty s =
     (case wait_irq (\<lambda>s. tcpstat s = 0) irq 0 (tcphttp_raw_init st addr port ty s) of None \<Rightarrow> None
      | Some s \<Rightarrow> if tcpstat s = 1 then Some (1, my_tcp_write st header s) else Some (0, s))"

definition http_read :: "int \<Rightarrow> 'a net_scheme \<Rightarrow> int \<times> u8 list \<times> 'a net_scheme" where
  "http_read blen s =
     (if tcplen s \<noteq> 0 then
        let (sr, s) = cli s;
            rlen = (if tcplen s > blen then blen else tcplen s);
            out = slice (nat (tcpoff s)) (nat rlen) (tcpbuff s);
            s = s\<lparr>tcplen := tcplen s - rlen\<rparr>;
            s = s\<lparr>tcpoff := tcpoff s + rlen\<rparr>
        in (rlen, out, sti sr s)
      else if 2 \<le> tcpstat s then (-1, [], s)
      else (0, [], s))"

text \<open>The lock leaves no trace.\<close>

lemma lock_net:
  fixes s :: "'a net_scheme"
  shows "udpbuff (snd (cli s)) = udpbuff s" "tcplen (snd (cli s)) = tcplen s" "tcpoff (snd (cli s)) = tcpoff s"
    "tcpbuff (snd (cli s)) = tcpbuff s"
    "sti (fst (cli s)) (snd (cli s)\<lparr>udpbuff := b\<rparr>) = s\<lparr>udpbuff := b\<rparr>"
    "sti (fst (cli s)) (snd (cli s)\<lparr>tcplen := m, tcpoff := n\<rparr>) = s\<lparr>tcplen := m, tcpoff := n\<rparr>"
proof -
  have "sti (fst (cli s)) (snd (cli s)\<lparr>udpbuff := b\<rparr>) = sti (fst (cli s)) (snd (cli s))\<lparr>udpbuff := b\<rparr>"
    "sti (fst (cli s)) (snd (cli s)\<lparr>tcplen := m, tcpoff := n\<rparr>)
      = sti (fst (cli s)) (snd (cli s))\<lparr>tcplen := m, tcpoff := n\<rparr>"
    by (simp_all add: sti_def cfe_irq_enable_def Let_def)
  then show "sti (fst (cli s)) (snd (cli s)\<lparr>udpbuff := b\<rparr>) = s\<lparr>udpbuff := b\<rparr>"
    "sti (fst (cli s)) (snd (cli s)\<lparr>tcplen := m, tcpoff := n\<rparr>) = s\<lparr>tcplen := m, tcpoff := n\<rparr>"
    by (simp_all only: cli_sti)
qed (simp_all add: cli_def cfe_irq_disable_def Let_def)

lemma http_read_eq:
  "http_read blen s =
     (if tcplen s = 0 then (if 2 \<le> tcpstat s then -1 else 0, [], s)
      else let rlen = (if tcplen s > blen then blen else tcplen s)
        in (rlen, slice (nat (tcpoff s)) (nat rlen) (tcpbuff s), s\<lparr>tcplen := tcplen s - rlen, tcpoff := tcpoff s + rlen\<rparr>))"
  unfolding http_read_def case_prod_beta Let_def by (simp add: lock_net)

section \<open>Start of the interface\<close>

definition net_poll :: "netif_input \<Rightarrow> 'a net_scheme \<Rightarrow> 'a net_scheme option" where
  "net_poll input s =
     (if netstat s = 1 then
        let s = ncall Check_timeouts s
        in case doque input (netq s) of None \<Rightarrow> None | Some q \<Rightarrow> Some (s\<lparr>netq := q\<rparr>)
      else Some s)"

text \<open>Up to a thousand delays of 100 milliseconds, until DHCP has supplied an address.\<close>

fun dhcp_wait :: "stack \<Rightarrow> (nat \<Rightarrow> 's \<Rightarrow> 's) \<Rightarrow> nat \<Rightarrow> nat \<Rightarrow> 's \<Rightarrow> 's" where
  "dhcp_wait st irq 0 i s = s"
| "dhcp_wait st irq (Suc n) i s =
     (let s = irq i s in if st_dhcp_supplied st i then s else dhcp_wait st irq n (i + 1) s)"

text \<open>\<^verbatim>\<open>netif_ip4_addr\<close> is the address of the field in the interface, so the test after the wait
  compares a pointer: \<^verbatim>\<open>st_ip4_ptr\<close>. The link-up and IPv6 calls on the interface are one entry.\<close>

definition net_init ::
  "stack \<Rightarrow> (nat \<Rightarrow> 'a net_scheme \<Rightarrow> 'a net_scheme) \<Rightarrow> bool \<Rightarrow> 'a net_scheme \<Rightarrow> 'a net_scheme" where
  "net_init st irq use_dhcp s =
     (let s = ncall Lwip_init s;
          s = ncall (Netif_add (net_ipaddr s) (net_netmask s) (net_gw s)) s;
          s = ncall Netif_up s;
          s = s\<lparr>netstat := 1\<rparr>;
          s = (if use_dhcp then
                 let err = st_dhcp_start st (net_log s);
                     s = ncall Dhcp_start s
                 in if err \<noteq> ERR_OK then s\<lparr>netstat := 0\<rparr>
                    else let s = dhcp_wait st irq 1000 0 s
                         in if st_ip4_ptr st \<noteq> NULL then s else s\<lparr>netstat := 0\<rparr>
               else ncall (Dns_setserver (dnsserver s)) s)
      in s\<lparr>udpsntp_raw_pcb := NULL\<rparr>)"

definition net_start ::
  "stack \<Rightarrow> (nat \<Rightarrow> 'a net_scheme \<Rightarrow> 'a net_scheme) \<Rightarrow> u32 \<Rightarrow> u32 \<Rightarrow> u32 \<Rightarrow> u32 \<Rightarrow> 'a net_scheme \<Rightarrow> 'a net_scheme" where
  "net_start st irq myaddr mymask mygw mydns s =
     net_init st irq False
       (s\<lparr>net_ipaddr := Ip4 (htonl myaddr), net_netmask := Ip4 (htonl mymask), net_gw := Ip4 (htonl mygw),
         dnsserver := Ip4 (htonl mydns)\<rparr>)"

definition net_startdhcp ::
  "stack \<Rightarrow> (nat \<Rightarrow> 'a net_scheme \<Rightarrow> 'a net_scheme) \<Rightarrow> 'a net_scheme \<Rightarrow> 'a net_scheme" where
  "net_startdhcp st irq s =
     net_init st irq True (s\<lparr>net_ipaddr := Ip4 0, net_netmask := Ip4 0, net_gw := Ip4 0\<rparr>)"

definition getmyaddress :: "stack \<Rightarrow> u32" where
  "getmyaddress st = htonl (st_myaddr st)"

section \<open>Time from the network\<close>

definition sntp_stamp :: "u8 list \<Rightarrow> u32" where
  "sntp_stamp b = (push_bit 24 (ucast (b ! 40)) OR push_bit 16 (ucast (b ! 41)) OR push_bit 8 (ucast (b ! 42))
     OR ucast (b ! 43)) - 2208988800"

definition udpsntp_raw_recv :: "(addr \<times> u8 list) option \<Rightarrow> 'a net_scheme \<Rightarrow> 'a net_scheme" where
  "udpsntp_raw_recv p s =
     (case p of None \<Rightarrow> s
      | Some (a, bs) \<Rightarrow>
          let s = (if length bs = 48 then
                     let s = reset_counter s;
                         s = ncall Restart_timeouts s
                     in s\<lparr>starttime := sntp_stamp bs\<rparr>
                   else s);
              s = ncall (Pbuf_release a) s
          in ncall (Udp_remove (udpsntp_raw_pcb s)) s)"

definition sntp_msg :: "u8 list" where
  "sntp_msg = (push_bit 3 4 OR 3) # replicate 47 0"

definition sntp :: "stack \<Rightarrow> u32 list \<Rightarrow> int \<Rightarrow> 'a net_scheme \<Rightarrow> 'a net_scheme" where
  "sntp st addr ty s =
     (let s = (if udpsntp_raw_pcb s \<noteq> NULL then ncall (Udp_remove (udpsntp_raw_pcb s)) s else s);
          p = st_udp_new st (net_log s);
          s = (ncall (Udp_new (ty \<noteq> 0) p) s)\<lparr>udpsntp_raw_pcb := p\<rparr>;
          s = ncall (Udp_bind p (if ty = 0 then Ip_any else st_my_ip6 st) 123) s;
          s = ncall (Udp_recv p) s
      in ncall (Udp_sendto p sntp_msg (dist_addr addr ty) 123) s)"

section \<open>Name lookup\<close>

definition ip4_value :: "ip_addr \<Rightarrow> u32" where
  "ip4_value a = (case a of Ip4 v \<Rightarrow> v | _ \<Rightarrow> 0)"

fun cpip6addr :: "ip_addr \<Rightarrow> u32 list" where
  "cpip6addr (Ip6 a b c d) =
     concat (map (\<lambda>w. [drop_bit 16 (htonl w) AND 0xffff, htonl w AND 0xffff]) [a, b, c, d])"
| "cpip6addr _ = replicate 8 0"

definition dns_found :: "ip_addr option \<Rightarrow> 'a net_scheme \<Rightarrow> 'a net_scheme" where
  "dns_found addr s =
     (case addr of Some a \<Rightarrow> s\<lparr>resolvip := a, dnsstat := 1\<rparr> | None \<Rightarrow> s\<lparr>dnsstat := 2\<rparr>)"

text \<open>The result and the address words stored.\<close>

definition lookup_name ::
  "stack \<Rightarrow> (nat \<Rightarrow> 'a net_scheme \<Rightarrow> 'a net_scheme) \<Rightarrow> u8 list \<Rightarrow> int \<Rightarrow> 'a net_scheme
     \<Rightarrow> (int \<times> u32 list \<times> 'a net_scheme) option" where
  "lookup_name st irq host ty s =
     (let words = (\<lambda>a. if ty = 0 then [htonl (ip4_value a)] else cpip6addr a);
          s = s\<lparr>dnsstat := 0\<rparr>;
          (err, dnsres) = st_dns st (net_log s);
          s = ncall (Dns_lookup host ty) s
      in if err = ERR_OK then Some (1, words dnsres, s)
         else case wait_irq (\<lambda>s. dnsstat s = 0) irq 0 s of None \<Rightarrow> None
              | Some s \<Rightarrow> if dnsstat s = 1 then Some (1, words (resolvip s), s) else Some (0, [0], s))"

section \<open>Waiting for the stack\<close>

text \<open>The state of a wait is the number of delays so far with the state of the connection.\<close>

lemma wait_irq_ends:
  "wait_irq P irq n (s :: 's) = Some t \<Longrightarrow> \<exists>k. \<not> P (snd (((\<lambda>(u, v). (u + 1, irq u v)) ^^ k) (n, s)))"
proof (drule wait_irq.raw_induct [where Pa = "\<lambda>a t. \<exists>k. \<not> fst (fst (fst a)) (snd (((\<lambda>(u, v). (u + 1, snd (fst (fst a)) u v)) ^^ k) (snd (fst a), snd a)))", rotated])
  fix wait n and P :: "'s \<Rightarrow> bool" and irq s t
  assume IH: "\<And>p i m b y. wait p i m b = Some y \<Longrightarrow>
      \<exists>k. \<not> fst (fst (fst (((p, i), m), b))) (snd (((\<lambda>(u, v). (u + 1, snd (fst (fst (((p, i), m), b))) u v)) ^^ k) (snd (fst (((p, i), m), b)), snd (((p, i), m), b))))"
    and eq: "(if P s then wait P irq (n + 1) (irq n s) else Some s) = Some t"
  have "\<exists>k. \<not> P (snd (((\<lambda>(u, v). (u + 1, irq u v)) ^^ k) (n, s)))"
    by (rule busy_wait_unroll [where busy = "\<lambda>x. P (snd x)"]) (use IH [of P irq "n + 1" "irq n s"] eq in simp)
  then show "\<exists>k. \<not> fst (fst (fst (((P, irq), n), s))) (snd (((\<lambda>(u, v). (u + 1, snd (fst (fst (((P, irq), n), s))) u v)) ^^ k) (snd (fst (((P, irq), n), s)), snd (((P, irq), n), s))))" by simp
qed simp

interpretation pending: busy_wait "\<lambda>x. wait_irq P irq (fst x) (snd x)" "\<lambda>x. P (snd x)" "\<lambda>(u, v). (u + 1, irq u v)" snd
  by unfold_locales (subst wait_irq.simps, simp add: case_prod_beta, drule wait_irq_ends, simp)

text \<open>There is no time limit: connecting returns exactly if some interrupt changes the state of the connection.\<close>

lemma http_connect_returns_iff:
  "http_connect st irq addr port header ty s \<noteq> None \<longleftrightarrow>
     (\<exists>k. tcpstat (snd (((\<lambda>(u, v). (u + 1, irq u v)) ^^ k) (0, tcphttp_raw_init st addr port ty s))) \<noteq> 0)"
proof -
  let ?i = "(0 :: nat, tcphttp_raw_init st addr port ty s)"
  have "http_connect st irq addr port header ty s \<noteq> None \<longleftrightarrow> wait_irq (\<lambda>s. tcpstat s = 0) irq (fst ?i) (snd ?i) \<noteq> None"
    by (simp add: http_connect_def split: option.splits)
  also have "\<dots> \<longleftrightarrow> (\<exists>k. \<not> tcpstat (snd (((\<lambda>(u, v). (u + 1, irq u v)) ^^ k) ?i)) = 0)"
    by (rule pending.returns_iff)
  finally show ?thesis .
qed

section \<open>The connection is a stream\<close>

text \<open>The bytes that wait in the receive buffer, and the states in which they lie inside it.\<close>

definition waiting :: "'a net_scheme \<Rightarrow> u8 list" where
  "waiting s = slice (nat (tcpoff s)) (nat (tcplen s)) (tcpbuff s)"

definition tcp_wf :: "'a net_scheme \<Rightarrow> bool" where
  "tcp_wf s \<longleftrightarrow> 0 \<le> tcpoff s \<and> 0 \<le> tcplen s \<and> tcpoff s + tcplen s \<le> int (length (tcpbuff s))"

lemma take_two: "length a = n \<Longrightarrow> take (n + length bs) (a @ bs @ r) = a @ bs"
  by simp

lemma slice_put:
  assumes "off \<le> k" "k + length bs \<le> length buf"
  shows "slice off (k - off + length bs) (take k buf @ bs @ drop (k + length bs) buf) = slice off (k - off) buf @ bs"
proof -
  have "drop off (take k buf @ bs @ drop (k + length bs) buf)
      = slice off (k - off) buf @ bs @ drop (k + length bs) buf"
    using assms by (simp add: slice_def drop_take)
  moreover have "length (slice off (k - off) buf) = k - off" using assms by (simp add: slice_def)
  ultimately show ?thesis using take_two by (metis slice_def)
qed

lemma http_recv_waiting:
  assumes "tcp_wf s" "http_recv pcb (Some (a, bs)) s = Some t"
  shows "tcp_wf t" "waiting t = waiting s @ bs" "length (tcpbuff t) = length (tcpbuff s)" "tcpstat t = tcpstat s"
proof -
  define u where "u = (if tcplen s = 0 then s\<lparr>tcpoff := 0\<rparr> else s)"
  have u: "tcp_wf u" "waiting u = waiting s" "tcpbuff u = tcpbuff s" "tcpstat u = tcpstat s"
    using assms(1) by (auto simp: u_def tcp_wf_def waiting_def slice_def)
  let ?k = "nat (tcpoff u + tcplen u)"
  obtain b where b: "put_at ?k bs (tcpbuff u) = Some b" and
    t: "t = ncall (Pbuf_release a) (ncall (Tcp_recved pcb (of_nat (length bs)))
        (u\<lparr>tcpbuff := b, tcplen := tcplen u + int (length bs)\<rparr>))"
    using assms(2) by (auto simp: http_recv_def u_def Let_def split: option.splits)
  from b have b: "?k + length bs \<le> length (tcpbuff u)"
    "b = take ?k (tcpbuff u) @ bs @ drop (?k + length bs) (tcpbuff u)"
    by (simp_all add: put_at_def split: if_splits)
  have n: "0 \<le> tcpoff u" "0 \<le> tcplen u" using u(1) by (simp_all add: tcp_wf_def)
  then have "nat (tcpoff u) \<le> ?k" "?k - nat (tcpoff u) = nat (tcplen u)"
    "nat (tcplen u + int (length bs)) = nat (tcplen u) + length bs" by auto
  then have "waiting t = waiting u @ bs"
    using slice_put [of "nat (tcpoff u)" ?k bs "tcpbuff u"] b by (simp add: t waiting_def ncall_def)
  then show "waiting t = waiting s @ bs" using u(2) by simp
  show "tcp_wf t" using b n by (simp add: t tcp_wf_def ncall_def)
  show "length (tcpbuff t) = length (tcpbuff s)" "tcpstat t = tcpstat s"
    using b u(3,4) by (simp_all add: t ncall_def)
qed

lemma http_read_waiting:
  assumes "tcp_wf s" "0 \<le> n" "http_read n s = (r, out, t)"
  shows "tcp_wf t" "waiting s = out @ waiting t" "length (tcpbuff t) = length (tcpbuff s)"
    "tcplen s \<noteq> 0 \<longrightarrow> r = min n (tcplen s) \<and> length out = nat r"
proof -
  have *: "tcp_wf t \<and> waiting s = out @ waiting t \<and> length (tcpbuff t) = length (tcpbuff s) \<and>
    (tcplen s \<noteq> 0 \<longrightarrow> r = min n (tcplen s) \<and> length out = nat r)"
  proof (cases "tcplen s = 0")
    case True
    then show ?thesis using assms by (auto simp: http_read_eq waiting_def slice_def split: if_splits)
  next
    case False
    let ?r = "min n (tcplen s)"
    have w: "0 \<le> tcpoff s" "0 \<le> tcplen s" "tcpoff s + tcplen s \<le> int (length (tcpbuff s))"
      using assms(1) by (simp_all add: tcp_wf_def)
    have t: "r = ?r" "out = slice (nat (tcpoff s)) (nat ?r) (tcpbuff s)"
      "t = s\<lparr>tcplen := tcplen s - ?r, tcpoff := tcpoff s + ?r\<rparr>"
      using assms(3) False by (auto simp: http_read_eq Let_def min_def split: if_splits)
    have "nat (tcplen s) = nat ?r + nat (tcplen s - ?r)" "nat (tcpoff s + ?r) = nat (tcpoff s) + nat ?r"
      using w assms(2) by auto
    then have "waiting s = out @ waiting t"
      by (simp add: waiting_def t slice_def take_add add.commute)
    then show ?thesis using w assms(2) by (auto simp: t tcp_wf_def slice_def)
  qed
  then show "tcp_wf t" "waiting s = out @ waiting t" "length (tcpbuff t) = length (tcpbuff s)"
    "tcplen s \<noteq> 0 \<longrightarrow> r = min n (tcplen s) \<and> length out = nat r" by blast+
qed

text \<open>Segments arriving and reads, in any order: the bytes read and the final state.\<close>

datatype tcp_ev = Segment "u8 list" | Read int

fun run_tcp :: "tcp_ev list \<Rightarrow> 'a net_scheme \<Rightarrow> (u8 list \<times> 'a net_scheme) option" where
  "run_tcp [] s = Some ([], s)"
| "run_tcp (Segment bs # es) s =
     (case http_recv (tcphttp_raw_pcb s) (Some (1, bs)) s of None \<Rightarrow> None | Some s \<Rightarrow> run_tcp es s)"
| "run_tcp (Read n # es) s =
     (let (r, out, s) = http_read n s
      in case run_tcp es s of None \<Rightarrow> None | Some (o', s) \<Rightarrow> Some (out @ o', s))"

fun arrived :: "tcp_ev list \<Rightarrow> u8 list" where
  "arrived [] = []"
| "arrived (Segment bs # es) = bs @ arrived es"
| "arrived (Read n # es) = arrived es"

fun reads_ok :: "tcp_ev list \<Rightarrow> bool" where
  "reads_ok [] = True"
| "reads_ok (Segment bs # es) = reads_ok es"
| "reads_ok (Read n # es) = (0 \<le> n \<and> reads_ok es)"

lemma run_tcp_stream:
  assumes "tcp_wf s" "reads_ok es" "run_tcp es s = Some (out, t)"
  shows "waiting s @ arrived es = out @ waiting t \<and> tcp_wf t \<and> length (tcpbuff t) = length (tcpbuff s)"
  using assms
proof (induction es s arbitrary: out rule: run_tcp.induct)
  case (2 bs es s)
  then obtain u where u: "http_recv (tcphttp_raw_pcb s) (Some (1, bs)) s = Some u" "run_tcp es u = Some (out, t)"
    by (auto split: option.splits)
  show ?case
    using "2.IH" [OF u(1) _ _ u(2)] http_recv_waiting [OF "2.prems"(1) u(1)] "2.prems"(2) by simp
next
  case (3 n es s)
  obtain r o1 u where u: "http_read n s = (r, o1, u)" by (metis prod.exhaust)
  then obtain o2 where o: "run_tcp es u = Some (o2, t)" "out = o1 @ o2"
    using "3.prems"(3) by (auto split: option.splits)
  have "0 \<le> n" "reads_ok es" using "3.prems"(2) by simp_all
  then show ?case
    using "3.IH" [OF u [symmetric] refl refl _ _ o(1)] http_read_waiting [OF "3.prems"(1) _ u] o(2) by simp
qed simp

text \<open>C36: The receive buffer is a stream: as long as nothing runs over its end, the reads return the
  bytes of the segments in order, each once, whatever the sizes and the order of segments and
  reads.\<close>
theorem tcp_stream:
  assumes "tcp_wf s" "waiting s = []" "reads_ok es" "run_tcp es s = Some (out, t)"
  shows "arrived es = out @ waiting t \<and> tcp_wf t"
  using run_tcp_stream [OF assms(1,3,4)] assms(2) by simp

definition net_idle :: net where
  "net_idle = \<lparr>io_log = [], cp0_sr = 0, cp0_cause = 0, irq_desc = [], ip_handler = [], exc_vectors = (\<lambda>_. None),
     alarm = 0, interval = 1000, starttime = 0, jiffies = 0, wdticks = 0, wdcount = 0, cp0_compare = 0,
     netq = net0, net_log = [], net_ipaddr = Ip_any, net_netmask = Ip_any, net_gw = Ip_any,
     dnsserver = Ip_any, udpecho_raw_pcb = 0, udpsntp_raw_pcb = 0x80001000, tcphttp_raw_pcb = 0x80002000,
     udpbuff = replicate UDPBUFF_SIZE 0, tcpbuff = replicate TCPBUFF_SIZE 0, tcplen = 0, tcpoff = 0,
     tcpstat = 1, netstat = 1, dnsstat = 0, resolvip = Ip_any\<rparr>"

lemma net_idle_facts:
  "tcp_wf net_idle" "waiting net_idle = []" "length (tcpbuff net_idle) = TCPBUFF_SIZE"
  by (simp_all add: net_idle_def tcp_wf_def waiting_def slice_def)

lemma tcp_stream_witness:
  "\<exists>t. run_tcp [Segment [1, 2, 3], Read 2, Segment [4], Read 10] (net_idle\<lparr>tcpbuff := replicate 6 0\<rparr>)
      = Some ([1, 2, 3, 4], t) \<and> waiting t = []"
proof -
  let ?s = "net_idle\<lparr>tcpbuff := replicate 6 0\<rparr>" and ?es = "[Segment [1, 2, 3], Read 2, Segment [4], Read 10]"
  have w: "tcp_wf ?s" "waiting ?s = []" by (simp_all add: net_idle_def tcp_wf_def waiting_def slice_def)
  obtain out t where r: "run_tcp ?es ?s = Some (out, t)" "length out = 4"
    by (simp add: net_idle_def http_recv_def http_read_eq put_at_def ncall_def slice_def numeral_eq_Suc)
  have e: "[1, 2, 3, 4] = out @ waiting t" using tcp_stream [OF w _ r(1)] by simp
  have "length (out @ waiting t) = 4" by (simp flip: e)
  then have "waiting t = []" using r(2) by simp
  then show ?thesis using r(1) e by auto
qed

text \<open>Nothing checks the receive buffer for room, and every segment is acknowledged to the peer at
  once. The room is not even reused before the buffer is empty: with a single byte left unread, the
  next segment starts where the last one ended, and two segments that together exceed 8 KiB run over
  the end of the buffer.\<close>
theorem tcp_overruns:
  assumes "tcp_wf s" "waiting s = []" "tcplen s = 0" "length (tcpbuff s) = TCPBUFF_SIZE"
    and "1 \<le> length a" "length a \<le> TCPBUFF_SIZE" "TCPBUFF_SIZE < length a + length b"
  shows "run_tcp [Segment a, Read (int (length a) - 1)] s \<noteq> None \<and>
    run_tcp [Segment a, Read (int (length a) - 1), Segment b] s = None"
  using assms
  by (auto simp: http_recv_def put_at_def http_read_eq Let_def ncall_def nat_diff_distrib')

lemma tcp_overruns_witness:
  "run_tcp [Segment (replicate 8000 65), Read 7999, Segment (replicate 1000 66)] net_idle = None"
  using tcp_overruns [of net_idle "replicate 8000 65" "replicate 1000 66"] net_idle_facts
  by (simp add: net_idle_def TCPBUFF_SIZE_def)

section \<open>The SNTP client removes its socket twice\<close>

text \<open>The answer of the time server ends with a comparison where an assignment was meant
  (\<^verbatim>\<open>udpsntp_raw_pcb == NULL\<close>), so the next \<^verbatim>\<open>sntp\<close> removes the socket that is already removed
  before it makes a new one.\<close>
theorem sntp_removes_twice:
  assumes "udpsntp_raw_pcb s \<noteq> NULL"
  shows "\<exists>l m. net_log (sntp st addr ty (udpsntp_raw_recv (Some (a, bs)) s)) =
    net_log s @ l @ [Udp_remove (udpsntp_raw_pcb s), Udp_remove (udpsntp_raw_pcb s)] @ m \<and>
    set l \<subseteq> {Restart_timeouts, Pbuf_release a}"
proof -
  let ?l = "if length bs = 48 then [Restart_timeouts, Pbuf_release a] else [Pbuf_release a]"
  have "net_log (udpsntp_raw_recv (Some (a, bs)) s) = net_log s @ ?l @ [Udp_remove (udpsntp_raw_pcb s)]"
    "udpsntp_raw_pcb (udpsntp_raw_recv (Some (a, bs)) s) = udpsntp_raw_pcb s"
    by (simp_all add: udpsntp_raw_recv_def Let_def ncall_def reset_counter_def)
  moreover obtain m where "net_log (sntp st addr ty u) = net_log u @ [Udp_remove (udpsntp_raw_pcb u)] @ m"
    if "udpsntp_raw_pcb u \<noteq> NULL" and "u = udpsntp_raw_recv (Some (a, bs)) s" for u
    by (simp add: sntp_def Let_def ncall_def)
  ultimately have "net_log (sntp st addr ty (udpsntp_raw_recv (Some (a, bs)) s)) =
      net_log s @ ?l @ [Udp_remove (udpsntp_raw_pcb s), Udp_remove (udpsntp_raw_pcb s)] @ m"
    using assms by simp
  then show ?thesis by (intro exI [of _ ?l] exI [of _ m] conjI) auto
qed

lemma sntp_removes_twice_witness:
  "\<exists>l m. net_log (sntp \<lparr>st_tcp_new = \<lambda>_. 0, st_sndbuf = \<lambda>_ _. 0, st_udp_new = \<lambda>_. 0x80003000,
      st_udp_bind = \<lambda>_. 0, st_dns = \<lambda>_. (0, Ip_any), st_dhcp_start = \<lambda>_. 0, st_dhcp_supplied = \<lambda>_. True,
      st_ip4_ptr = 0x80000100, st_myaddr = 0, st_my_ip6 = Ip_any\<rparr> [0x85f3eef3] 0
      (udpsntp_raw_recv (Some (0x80100000, replicate 48 0)) net_idle)) =
    l @ [Udp_remove 0x80001000, Udp_remove 0x80001000] @ m"
  using sntp_removes_twice [of net_idle "\<lparr>st_tcp_new = \<lambda>_. 0, st_sndbuf = \<lambda>_ _. 0, st_udp_new = \<lambda>_. 0x80003000,
      st_udp_bind = \<lambda>_. 0, st_dns = \<lambda>_. (0, Ip_any), st_dhcp_start = \<lambda>_. 0, st_dhcp_supplied = \<lambda>_. True,
      st_ip4_ptr = 0x80000100, st_myaddr = 0, st_my_ip6 = Ip_any\<rparr>" "[0x85f3eef3]" 0 "0x80100000" "replicate 48 0"]
  by (auto simp: net_idle_def)

end
