(* ===== verification/HttpSvr.thy ===== *)
theory HttpSvr
  imports Prelude
begin

text \<open>
  The HTTP server \<^verbatim>\<open>httpsvr.c\<close>: the callbacks of one connection, the response and request buffers, and
  the functions the interpreter calls. The TCP/IP stack is not code of this repository: its answers
  are the parameter \<open>sv\<close>, functions of the calls made so far, and the calls are recorded. A chain of
  packet buffers is the list of its parts, an address and the bytes, empty for NULL. \<open>None\<close> marks an
  access outside a buffer. The lock \<^verbatim>\<open>cli\<close>, \<^verbatim>\<open>sti\<close> around the copy in \<^verbatim>\<open>httpsvr_setres\<close>, which leaves no
  trace (theory \<open>Net\<close>), is left out.
\<close>

section \<open>State\<close>

datatype httpsvr_states = ES_NONE | ES_ACCEPTED | ES_RECEIVED | ES_CLOSING

type_synonym chain = "(addr \<times> u8 list) list"

record httpsvr_state =
  es_state :: httpsvr_states
  retries :: u8
  es_pcb :: addr
  es_p :: chain

datatype svr_call =
    Sv_write addr "u8 list" int
  | Sv_ref addr
  | Sv_free addr
  | Sv_free_chain chain
  | Sv_cat chain chain
  | Sv_recved addr u16
  | Sv_callbacks addr bool
  | Sv_setprio addr
  | Sv_malloc bool
  | Sv_mem_free
  | Sv_close addr
  | Sv_abort addr
  | Sv_new addr
  | Sv_bind addr int
  | Sv_listen addr addr
  | Sv_alloc "u8 list" chain

text \<open>\<^verbatim>\<open>conn\<close> is the argument of the callbacks: the state of the connection, \<^verbatim>\<open>None\<close> for NULL.\<close>

record svr =
  httpsvr_pcb :: addr
  reqbuff :: "u8 list"
  resbuff :: "u8 list"
  reslen :: int
  reqlen :: int
  conn :: "httpsvr_state option"
  svr_log :: "svr_call list"

record svr_stack =
  sv_write :: "svr_call list \<Rightarrow> u8 list \<Rightarrow> int"
  sv_sndbuf :: "svr_call list \<Rightarrow> nat"
  sv_alloc :: "svr_call list \<Rightarrow> u8 list \<Rightarrow> chain"
  sv_mem :: "svr_call list \<Rightarrow> bool"
  sv_new :: addr
  sv_bind :: int
  sv_listen :: addr

definition REQBUFF_SIZE :: nat where "REQBUFF_SIZE = 1024"
definition RESBUFF_SIZE :: nat where "RESBUFF_SIZE = 1024 * 32"

text \<open>The error codes of the stack.\<close>

definition E_OK :: int where "E_OK = 0"
definition E_MEM :: int where "E_MEM = -1"
definition E_VAL :: int where "E_VAL = -6"
definition E_ABRT :: int where "E_ABRT = -13"

definition svcall :: "svr_call \<Rightarrow> svr \<Rightarrow> svr" where
  "svcall c s = s\<lparr>svr_log := svr_log s @ [c]\<rparr>"

section \<open>Closing\<close>

definition httpsvr_free :: "httpsvr_state option \<Rightarrow> svr \<Rightarrow> svr" where
  "httpsvr_free es s =
     (case es of None \<Rightarrow> s
      | Some es \<Rightarrow>
          let s = (if es_p es \<noteq> [] then svcall (Sv_free_chain (es_p es)) s else s)
          in svcall Sv_mem_free s)"

definition httpsvr_close :: "addr \<Rightarrow> httpsvr_state option \<Rightarrow> svr \<Rightarrow> svr" where
  "httpsvr_close tpcb es s =
     (let s = (svcall (Sv_callbacks tpcb False) s)\<lparr>conn := None\<rparr>;
          s = httpsvr_free es s
      in svcall (Sv_close tpcb) s)"

definition httpsvr_error :: "svr \<Rightarrow> svr" where
  "httpsvr_error s = (httpsvr_free (conn s) s)\<lparr>conn := None\<rparr>"

section \<open>Sending\<close>

text \<open>The loop over the parts: what is left of the chain and the state. A write that fails ends it.\<close>

fun send_loop :: "svr_stack \<Rightarrow> addr \<Rightarrow> chain \<Rightarrow> svr \<Rightarrow> chain \<times> svr" where
  "send_loop sv tpcb [] s = ([], s)"
| "send_loop sv tpcb (ptr # next) s =
     (if length (snd ptr) \<le> sv_sndbuf sv (svr_log s) then
        let wr_err = sv_write sv (svr_log s) (snd ptr);
            s = svcall (Sv_write tpcb (snd ptr) wr_err) s
        in if wr_err = E_OK then
             let s = (case next of [] \<Rightarrow> s | q # _ \<Rightarrow> svcall (Sv_ref (fst q)) s);
                 s = svcall (Sv_free (fst ptr)) s;
                 s = svcall (Sv_recved tpcb (of_nat (length (snd ptr)))) s
             in send_loop sv tpcb next s
           else (ptr # next, s)
      else (ptr # next, s))"

definition httpsvr_send :: "svr_stack \<Rightarrow> addr \<Rightarrow> httpsvr_state \<Rightarrow> svr \<Rightarrow> svr" where
  "httpsvr_send sv tpcb es s =
     (let (p, s) = send_loop sv tpcb (es_p es) s in s\<lparr>conn := Some (es\<lparr>es_p := p\<rparr>)\<rparr>)"

definition httpsvr_poll :: "svr_stack \<Rightarrow> addr \<Rightarrow> svr \<Rightarrow> int \<times> svr" where
  "httpsvr_poll sv tpcb s =
     (case conn s of
        None \<Rightarrow> (E_ABRT, svcall (Sv_abort tpcb) s)
      | Some es \<Rightarrow>
          (E_OK, if es_p es \<noteq> [] then httpsvr_send sv tpcb es s
                 else if es_state es = ES_CLOSING then httpsvr_close tpcb (Some es) s
                 else s))"

text \<open>The callback is taken off by \<^verbatim>\<open>httpsvr_close\<close>, so it never sees a NULL argument.\<close>

definition httpsvr_sent :: "svr_stack \<Rightarrow> addr \<Rightarrow> svr \<Rightarrow> (int \<times> svr) option" where
  "httpsvr_sent sv tpcb s =
     (case conn s of None \<Rightarrow> None
      | Some es \<Rightarrow>
          let es = es\<lparr>retries := 0\<rparr>; s = s\<lparr>conn := Some es\<rparr>
          in Some (E_OK,
               if es_p es \<noteq> [] then httpsvr_send sv tpcb es (svcall (Sv_callbacks tpcb True) s)
               else if es_state es = ES_CLOSING then httpsvr_close tpcb (Some es) s
               else s))"

section \<open>Receiving\<close>

text \<open>\<^verbatim>\<open>reqbuff[i]\<close>, outside the array \<^verbatim>\<open>None\<close>.\<close>

definition req_at :: "u8 list \<Rightarrow> int \<Rightarrow> u8 option" where
  "req_at b i = (if 0 \<le> i \<and> i < int (length b) then Some (b ! nat i) else None)"

text \<open>\<^verbatim>\<open>reqbuff[i] == c && ...\<close>: the tests of the end of the request, left to right.\<close>

fun req_match :: "u8 list \<Rightarrow> (int \<times> u8) list \<Rightarrow> bool option" where
  "req_match b [] = Some True"
| "req_match b ((i, c) # rest) =
     (case req_at b i of None \<Rightarrow> None | Some x \<Rightarrow> if x = c then req_match b rest else Some False)"

definition req_complete :: "u8 list \<Rightarrow> int \<Rightarrow> bool option" where
  "req_complete b n =
     (case req_match b [(n - 2, 0x0a), (n - 1, 0x0a)] of
        None \<Rightarrow> None
      | Some True \<Rightarrow> Some True
      | Some False \<Rightarrow> req_match b [(n - 4, 0x0d), (n - 3, 0x0a), (n - 2, 0x0d), (n - 1, 0x0a)])"

definition chain_bytes :: "chain \<Rightarrow> u8 list" where
  "chain_bytes p = concat (map snd p)"

text \<open>The first data of a connection. The length is taken from the packet buffer after it has been
  freed.\<close>

definition recv_first ::
  "svr_stack \<Rightarrow> addr \<Rightarrow> chain \<Rightarrow> httpsvr_state \<Rightarrow> svr \<Rightarrow> (int \<times> svr) option" where
  "recv_first sv tpcb p es s =
     (let es = es\<lparr>es_state := ES_CLOSING\<rparr>;
          tot_len = length (chain_bytes p);
          s = s\<lparr>conn := Some es, reqlen := int (min tot_len REQBUFF_SIZE)\<rparr>;
          s = s\<lparr>reqbuff := take (nat (reqlen s)) (chain_bytes p) @ drop (nat (reqlen s)) (reqbuff s)\<rparr>;
          s = svcall (Sv_free_chain p) s
      in case req_complete (reqbuff s) (int tot_len) of None \<Rightarrow> None
         | Some False \<Rightarrow> Some (E_OK, s)
         | Some True \<Rightarrow>
             let r = take (nat (reslen s)) (resbuff s);
                 b = sv_alloc sv (svr_log s) r;
                 s = svcall (Sv_alloc r b) s
             in Some (E_OK, httpsvr_send sv tpcb (es\<lparr>es_p := b\<rparr>) s))"

definition httpsvr_recv :: "svr_stack \<Rightarrow> addr \<Rightarrow> chain \<Rightarrow> int \<Rightarrow> svr \<Rightarrow> (int \<times> svr) option" where
  "httpsvr_recv sv tpcb p err s =
     (case conn s of None \<Rightarrow> None
      | Some es \<Rightarrow>
          if p = [] then
            let es = es\<lparr>es_state := ES_CLOSING\<rparr>; s = s\<lparr>conn := Some es\<rparr>
            in Some (E_OK, if es_p es = [] then httpsvr_close tpcb (Some es) s else httpsvr_send sv tpcb es s)
          else if err \<noteq> E_OK then Some (err, svcall (Sv_free_chain p) s)
          else if es_state es = ES_ACCEPTED then recv_first sv tpcb p es s
          else if es_state es = ES_RECEIVED then
            Some (E_OK,
              if es_p es = [] then svcall (Sv_free_chain p) s
              else (svcall (Sv_cat (es_p es) p) s)\<lparr>conn := Some (es\<lparr>es_p := es_p es @ p\<rparr>)\<rparr>)
          else
            let s = svcall (Sv_recved tpcb (of_nat (length (chain_bytes p)))) s
            in Some (E_OK, svcall (Sv_free_chain p) s))"

section \<open>Accepting, start, and the functions of the interpreter\<close>

definition httpsvr_accept :: "svr_stack \<Rightarrow> addr \<Rightarrow> int \<Rightarrow> svr \<Rightarrow> int \<times> svr" where
  "httpsvr_accept sv newpcb err s =
     (if err \<noteq> E_OK \<or> newpcb = NULL then (E_VAL, s)
      else
        let s = svcall (Sv_setprio newpcb) s;
            ok = sv_mem sv (svr_log s);
            s = svcall (Sv_malloc ok) s
        in if ok then
             (E_OK, (svcall (Sv_callbacks newpcb True) s)
                \<lparr>conn := Some \<lparr>es_state = ES_ACCEPTED, retries = 0, es_pcb = newpcb, es_p = []\<rparr>\<rparr>)
           else (E_MEM, s))"

definition http_html_hdr :: "u8 list" where
  "http_html_hdr = ascii ''HTTP/1.1 200 OK'' @ [0x0d, 0x0a] @ ascii ''Content-type: text/html''
     @ [0x0d, 0x0a, 0x0d, 0x0a]"

definition http_index_html :: "u8 list" where
  "http_index_html = ascii ''<html><head><title>Congrats!</title></head><body><h1>Welcome to our lwIP HTTP server!</h1><p>This is a small test page, served by httpserver raw.</body></html>''"

definition httpsvr_init :: "svr_stack \<Rightarrow> svr \<Rightarrow> svr" where
  "httpsvr_init sv s =
     (let s = (svcall (Sv_new (sv_new sv)) s)\<lparr>httpsvr_pcb := sv_new sv\<rparr>;
          b = http_html_hdr @ http_index_html
      in s\<lparr>reslen := int (length b), resbuff := b @ drop (length b) (resbuff s), reqlen := 0\<rparr>)"

definition httpsvr_bind :: "svr_stack \<Rightarrow> int \<Rightarrow> svr \<Rightarrow> svr" where
  "httpsvr_bind sv port s =
     (if httpsvr_pcb s \<noteq> NULL then
        let s = svcall (Sv_bind (httpsvr_pcb s) port) s
        in if sv_bind sv = E_OK then
             (svcall (Sv_listen (httpsvr_pcb s) (sv_listen sv)) s)\<lparr>httpsvr_pcb := sv_listen sv\<rparr>
           else s
      else s)"

text \<open>\<^verbatim>\<open>len < sizeof(resbuff)\<close> compares unsigned, so a negative length is refused.\<close>

definition httpsvr_setres :: "u8 list \<Rightarrow> int \<Rightarrow> svr \<Rightarrow> svr" where
  "httpsvr_setres buff n s =
     (if 0 \<le> n \<and> n < int RESBUFF_SIZE then
        s\<lparr>resbuff := take (nat n) buff @ drop (nat n) (resbuff s), reslen := n\<rparr>
      else s)"

definition httpsvr_copyreq :: "svr \<Rightarrow> int \<times> u8 list \<times> svr" where
  "httpsvr_copyreq s =
     (if reqlen s \<noteq> 0 then (reqlen s, take (nat (reqlen s)) (reqbuff s), s\<lparr>reqlen := 0\<rparr>)
      else (reqlen s, [], s))"

section \<open>The response is sent once and completely\<close>

text \<open>The bytes the stack has accepted, and the closes.\<close>

definition written :: "svr \<Rightarrow> u8 list" where
  "written s = concat (map (\<lambda>c. case c of Sv_write _ bs err \<Rightarrow> if err = E_OK then bs else [] | _ \<Rightarrow> []) (svr_log s))"

definition closes :: "svr \<Rightarrow> nat" where
  "closes s = length (filter (\<lambda>c. case c of Sv_close _ \<Rightarrow> True | _ \<Rightarrow> False) (svr_log s))"

named_theorems sv_simps "what calls of the stack change"

lemma svcall_sel [sv_simps]:
  "written (svcall c s) = written s @ (case c of Sv_write _ bs err \<Rightarrow> if err = E_OK then bs else [] | _ \<Rightarrow> [])"
  "closes (svcall c s) = closes s + (case c of Sv_close _ \<Rightarrow> 1 | _ \<Rightarrow> 0)"
  "conn (svcall c s) = conn s" "resbuff (svcall c s) = resbuff s" "reslen (svcall c s) = reslen s"
  "reqbuff (svcall c s) = reqbuff s"
  by (simp_all add: svcall_def written_def closes_def split: svr_call.split)

lemma conn_update [sv_simps]:
  "written (s\<lparr>conn := e\<rparr>) = written s" "closes (s\<lparr>conn := e\<rparr>) = closes s"
  by (simp_all add: written_def closes_def)

lemma send_loop_sends:
  "send_loop sv tpcb p s = (p', s') \<Longrightarrow>
    written s' @ chain_bytes p' = written s @ chain_bytes p \<and> closes s' = closes s \<and> conn s' = conn s"
proof (induction sv tpcb p s rule: send_loop.induct)
  case (2 sv tpcb ptr nx s)
  show ?case
  proof (cases "length (snd ptr) \<le> sv_sndbuf sv (svr_log s) \<and> sv_write sv (svr_log s) (snd ptr) = E_OK")
    case True
    then show ?thesis
      using 2 by (cases nx) (auto simp: chain_bytes_def sv_simps Let_def)
  next
    case False
    then show ?thesis using "2.prems" by (auto simp: sv_simps Let_def split: if_splits)
  qed
qed auto

text \<open>A callback of the stack; after a close there is none.\<close>

datatype svr_ev = Sent | Poll

definition svr_step :: "svr_stack \<Rightarrow> addr \<Rightarrow> svr_ev \<Rightarrow> svr \<Rightarrow> svr" where
  "svr_step sv tpcb e s =
     (if conn s = None then s
      else case e of
        Poll \<Rightarrow> snd (httpsvr_poll sv tpcb s)
      | Sent \<Rightarrow> (case httpsvr_sent sv tpcb s of None \<Rightarrow> s | Some (_, s) \<Rightarrow> s))"

text \<open>While a response is on its way, what has been accepted and what is left are the response.\<close>

definition answering :: "u8 list \<Rightarrow> svr \<Rightarrow> bool" where
  "answering r s \<longleftrightarrow>
     (case conn s of
        None \<Rightarrow> written s = r \<and> closes s = 1
      | Some es \<Rightarrow> es_state es = ES_CLOSING \<and> written s @ chain_bytes (es_p es) = r \<and> closes s = 0)"

lemma answering_send:
  assumes "es_state es = ES_CLOSING" "written s @ chain_bytes (es_p es) = r" "closes s = 0"
  shows "answering r (httpsvr_send sv tpcb es s)"
proof -
  obtain p' s' where l: "send_loop sv tpcb (es_p es) s = (p', s')" by fastforce
  show ?thesis
    using send_loop_sends [OF l] assms by (simp add: httpsvr_send_def l answering_def sv_simps)
qed

lemma answering_close:
  assumes "es_p es = []" "written s = r" "closes s = 0"
  shows "answering r (httpsvr_close tpcb (Some es) s)"
  using assms by (simp add: httpsvr_close_def httpsvr_free_def answering_def Let_def sv_simps)

lemma answering_step:
  assumes "answering r s"
  shows "answering r (svr_step sv tpcb e s)"
proof (cases "conn s")
  case None
  then show ?thesis using assms by (simp add: svr_step_def)
next
  case (Some es)
  then have a: "es_state es = ES_CLOSING" "written s @ chain_bytes (es_p es) = r" "closes s = 0"
    using assms by (simp_all add: answering_def)
  show ?thesis
  proof (cases "es_p es = []")
    case True
    then have w: "written s = r" using a(2) by (simp add: chain_bytes_def)
    show ?thesis
      using True Some a answering_close [of es s r tpcb] w
        answering_close [of "es\<lparr>retries := 0\<rparr>" "s\<lparr>conn := Some (es\<lparr>retries := 0\<rparr>)\<rparr>" r tpcb]
      by (cases e) (simp_all add: svr_step_def httpsvr_poll_def httpsvr_sent_def sv_simps Let_def)
  next
    case False
    then show ?thesis
      using Some a
      by (cases e) (auto simp: svr_step_def httpsvr_poll_def httpsvr_sent_def Let_def sv_simps intro!: answering_send)
  qed
qed

lemma answering_run: "answering r s \<Longrightarrow> answering r (fold (svr_step sv tpcb) evs s)"
  by (induction evs arbitrary: s) (auto intro: answering_step)

lemma answering_runs:
  assumes "answering r s"
  shows "let u = fold (svr_step sv tpcb) evs s
    in (case conn u of Some es \<Rightarrow> written u @ chain_bytes (es_p es) = r \<and> closes u = 0
        | None \<Rightarrow> written u = r \<and> closes u = 1)"
  using answering_run [OF assms, of sv tpcb evs]
  by (cases "conn (fold (svr_step sv tpcb) evs s)") (simp_all add: answering_def Let_def)

text \<open>The test of the end of the request, on a request inside the buffer.\<close>

definition ends_request :: "u8 list \<Rightarrow> bool" where
  "ends_request r \<longleftrightarrow>
     drop (length r - 2) r = [0x0a, 0x0a] \<or> drop (length r - 4) r = [0x0d, 0x0a, 0x0d, 0x0a]"

lemma req_match_iff:
  "(\<And>i c. (i, c) \<in> set l \<Longrightarrow> req_at b i = Some (f i)) \<Longrightarrow> req_match b l = Some (\<forall>(i, c) \<in> set l. f i = c)"
proof (induction l)
  case (Cons x l)
  obtain i c where x: "x = (i, c)" by fastforce
  have "req_at b i = Some (f i)" using Cons.prems [of i c] by (simp add: x)
  moreover have "req_match b l = Some (\<forall>(i, c) \<in> set l. f i = c)"
    using Cons.IH Cons.prems by (meson list.set_intros(2))
  ultimately show ?case by (auto simp: x)
qed simp

lemma drop_last:
  "k \<le> length r \<Longrightarrow> drop (length r - k) r = map (\<lambda>i. r ! (length r - k + i)) [0..<k]"
  by (intro nth_equalityI) auto

lemma req_complete_ends:
  assumes "4 \<le> length r" "length r \<le> length b" "take (length r) b = r"
  shows "req_complete b (int (length r)) = Some (ends_request r)"
proof -
  let ?n = "int (length r)"
  have at: "req_at b (?n - k) = Some (r ! nat (?n - k))" if "1 \<le> k" "k \<le> 4" for k :: int
  proof -
    have "nat (?n - k) < length r" using that assms(1) by linarith
    then have "b ! nat (?n - k) = r ! nat (?n - k)" using assms(3) by (metis nth_take)
    then show ?thesis using that assms(1,2) by (simp add: req_at_def)
  qed
  have 2: "req_match b [(?n - 2, 0x0a), (?n - 1, 0x0a)] = Some (drop (length r - 2) r = [0x0a, 0x0a])"
    using assms(1)
    by (subst req_match_iff [of _ b "\<lambda>i. r ! nat i"])
      (auto simp: at drop_last upt_rec nat_diff_distrib')
  have 4: "req_match b [(?n - 4, 0x0d), (?n - 3, 0x0a), (?n - 2, 0x0d), (?n - 1, 0x0a)]
      = Some (drop (length r - 4) r = [0x0d, 0x0a, 0x0d, 0x0a])"
    using assms(1)
    by (subst req_match_iff [of _ b "\<lambda>i. r ! nat i"])
      (auto simp: at drop_last upt_rec nat_diff_distrib')
  show ?thesis unfolding req_complete_def 2 4 ends_request_def by (simp split: bool.split)
qed

lemma recv_first_request:
  assumes "length (reqbuff s) = REQBUFF_SIZE" "r = chain_bytes p" "4 \<le> length r" "length r \<le> REQBUFF_SIZE"
  shows "\<exists>t. conn t = Some (es\<lparr>es_state := ES_CLOSING\<rparr>) \<and> written t = written s \<and> closes t = closes s \<and>
    resbuff t = resbuff s \<and> reslen t = reslen s \<and>
    recv_first sv tpcb p es s =
      (if ends_request r then
         let res = take (nat (reslen s)) (resbuff s); b = sv_alloc sv (svr_log t) res
         in Some (E_OK, httpsvr_send sv tpcb (es\<lparr>es_state := ES_CLOSING, es_p := b\<rparr>) (svcall (Sv_alloc res b) t))
       else Some (E_OK, t))"
proof -
  let ?b = "r @ drop (length r) (reqbuff s)"
  let ?t = "svcall (Sv_free_chain p)
    (s\<lparr>conn := Some (es\<lparr>es_state := ES_CLOSING\<rparr>), reqlen := int (length r), reqbuff := ?b\<rparr>)"
  have "req_complete ?b (int (length r)) = Some (ends_request r)"
    using assms by (intro req_complete_ends) auto
  then show ?thesis
    using assms(2,4)
    by (intro exI [of _ ?t]) (simp add: recv_first_def Let_def min_def sv_simps, simp add: written_def closes_def)
qed

text \<open>C38: A request that ends in a blank line and fits the buffer is answered: whatever the stack
  accepts at a time and in whatever order its callbacks come, what has been written is a prefix of
  the response and what is left is the rest of it, the connection is closed only when all has been
  written, and it is closed once. (The allocator must have found room for the response.)\<close>
theorem response_sent_once:
  assumes "conn s = Some es" "es_state es = ES_ACCEPTED" "written s = []" "closes s = 0"
    and "length (reqbuff s) = REQBUFF_SIZE" "p \<noteq> []" "4 \<le> length (chain_bytes p)"
      "length (chain_bytes p) \<le> REQBUFF_SIZE" "ends_request (chain_bytes p)"
    and "res = take (nat (reslen s)) (resbuff s)" "\<And>l. chain_bytes (sv_alloc sv l res) = res"
  shows "\<exists>t. httpsvr_recv sv tpcb p E_OK s = Some (E_OK, t) \<and>
    (\<forall>evs. let u = fold (svr_step sv tpcb) evs t
       in (case conn u of Some es \<Rightarrow> written u @ chain_bytes (es_p es) = res \<and> closes u = 0
           | None \<Rightarrow> written u = res \<and> closes u = 1))"
proof -
  obtain t where t: "written t = []" "closes t = 0"
    "recv_first sv tpcb p es s = (let b = sv_alloc sv (svr_log t) res
      in Some (E_OK, httpsvr_send sv tpcb (es\<lparr>es_state := ES_CLOSING, es_p := b\<rparr>) (svcall (Sv_alloc res b) t)))"
    using recv_first_request [OF assms(5) refl assms(7,8), of es sv tpcb] assms(3,4,9,10) by (auto simp: Let_def)
  let ?b = "sv_alloc sv (svr_log t) res"
  let ?v = "httpsvr_send sv tpcb (es\<lparr>es_state := ES_CLOSING, es_p := ?b\<rparr>) (svcall (Sv_alloc res ?b) t)"
  have "answering res ?v" by (rule answering_send) (simp_all add: sv_simps t(1,2) assms(11))
  note run = answering_runs [OF this]
  have "httpsvr_recv sv tpcb p E_OK s = Some (E_OK, ?v)"
    using assms(1,2,6) t(3) by (simp add: httpsvr_recv_def Let_def)
  then show ?thesis using run by (intro exI [of _ ?v] conjI allI)
qed

text \<open>A request that comes in two segments is never answered: the first one moves the connection to
  \<^verbatim>\<open>ES_CLOSING\<close> although the request is not complete, the rest is thrown away, and the next poll
  closes the connection with nothing written.\<close>
theorem split_request_unanswered:
  assumes "conn s = Some es" "es_state es = ES_ACCEPTED" "es_p es = []" "written s = []" "closes s = 0"
    and "length (reqbuff s) = REQBUFF_SIZE" "p \<noteq> []" "4 \<le> length (chain_bytes p)"
      "length (chain_bytes p) \<le> REQBUFF_SIZE" "\<not> ends_request (chain_bytes p)" "q \<noteq> []"
  shows "\<exists>t u. httpsvr_recv sv tpcb p E_OK s = Some (E_OK, t) \<and> httpsvr_recv sv tpcb q E_OK t = Some (E_OK, u) \<and>
    written (snd (httpsvr_poll sv tpcb u)) = [] \<and> conn (snd (httpsvr_poll sv tpcb u)) = None \<and>
    closes (snd (httpsvr_poll sv tpcb u)) = 1"
proof -
  obtain t where t: "conn t = Some (es\<lparr>es_state := ES_CLOSING\<rparr>)" "written t = []" "closes t = 0"
    "recv_first sv tpcb p es s = Some (E_OK, t)"
    using recv_first_request [OF assms(6) refl assms(8,9), of es sv tpcb] assms(4,5,10) by auto
  let ?u = "svcall (Sv_free_chain q) (svcall (Sv_recved tpcb (of_nat (length (chain_bytes q)))) t)"
  have "httpsvr_recv sv tpcb p E_OK s = Some (E_OK, t)" "httpsvr_recv sv tpcb q E_OK t = Some (E_OK, ?u)"
    using assms(1,2,7,11) t by (simp_all add: httpsvr_recv_def Let_def)
  moreover have "snd (httpsvr_poll sv tpcb ?u) = httpsvr_close tpcb (Some (es\<lparr>es_state := ES_CLOSING\<rparr>)) ?u"
    using t(1) assms(3) by (simp add: httpsvr_poll_def sv_simps)
  moreover have "answering [] \<dots>"
    using assms(3) t by (intro answering_close) (simp_all add: sv_simps)
  moreover have "conn (httpsvr_close tpcb (Some (es\<lparr>es_state := ES_CLOSING\<rparr>)) ?u) = None"
    using assms(3) by (simp add: httpsvr_close_def httpsvr_free_def Let_def sv_simps)
  ultimately show ?thesis by (auto simp: answering_def)
qed

text \<open>A server with a short response, on a stack that takes everything at once.\<close>

definition sv0 :: svr_stack where
  "sv0 = \<lparr>sv_write = \<lambda>_ _. 0, sv_sndbuf = \<lambda>_. 1000, sv_alloc = \<lambda>_ b. [(0x80100000, b)], sv_mem = \<lambda>_. True,
     sv_new = 0x80002000, sv_bind = 0, sv_listen = 0x80002000\<rparr>"

definition es0 :: httpsvr_state where
  "es0 = \<lparr>es_state = ES_ACCEPTED, retries = 0, es_pcb = 0x80003000, es_p = []\<rparr>"

definition svr0 :: svr where
  "svr0 = \<lparr>httpsvr_pcb = 0x80002000, reqbuff = replicate REQBUFF_SIZE 0, resbuff = [0x4f, 0x4b], reslen = 2,
     reqlen = 0, conn = Some es0, svr_log = []\<rparr>"

lemma response_sent_once_witness:
  "\<exists>t. httpsvr_recv sv0 0x80003000 [(1, [0x47, 0x45, 0x0d, 0x0a, 0x0d, 0x0a])] E_OK svr0 = Some (E_OK, t) \<and>
    (\<forall>evs. let u = fold (svr_step sv0 0x80003000) evs t
       in (case conn u of Some es \<Rightarrow> written u @ chain_bytes (es_p es) = [0x4f, 0x4b] \<and> closes u = 0
           | None \<Rightarrow> written u = [0x4f, 0x4b] \<and> closes u = 1))"
  by (rule response_sent_once [of _ es0])
    (simp_all add: svr0_def es0_def sv0_def written_def closes_def chain_bytes_def ends_request_def REQBUFF_SIZE_def)

lemma split_request_unanswered_witness:
  "\<exists>t u. httpsvr_recv sv0 0x80003000 [(1, [0x47, 0x45, 0x54, 0x20])] E_OK svr0 = Some (E_OK, t) \<and>
    httpsvr_recv sv0 0x80003000 [(2, [0x2f, 0x0d, 0x0a, 0x0d, 0x0a])] E_OK t = Some (E_OK, u) \<and>
    written (snd (httpsvr_poll sv0 0x80003000 u)) = [] \<and> conn (snd (httpsvr_poll sv0 0x80003000 u)) = None \<and>
    closes (snd (httpsvr_poll sv0 0x80003000 u)) = 1"
  by (rule split_request_unanswered [of _ es0])
    (simp_all add: svr0_def es0_def written_def closes_def chain_bytes_def ends_request_def REQBUFF_SIZE_def)

text \<open>The length of a request is not bounded where its last characters are read.\<close>

lemma long_request_overruns:
  assumes "length (reqbuff s) = REQBUFF_SIZE" "REQBUFF_SIZE + 2 \<le> length (chain_bytes p)"
  shows "recv_first sv tpcb p es s = None"
  using assms by (simp add: recv_first_def Let_def req_complete_def req_at_def min_def svcall_def)

end
