(* ===== verification/Mt.thy ===== *)
theory Mt
  imports Prelude Complex_Main
begin

text \<open>
  The random number generator \<^verbatim>\<open>mt19937ar.c\<close>: seeding, the block-wise generation in place, and the
  integers and the numbers made of them. A multiplication by a power of two, and the sums here, are exact
  in binary floating point, so these numbers are rationals; \<^verbatim>\<open>genrand_real1\<close> rounds its
  quotient and its product to doubles. The static array and its index are the state; a value of \<^verbatim>\<open>unsigned long\<close> has 32 bits.
\<close>

section \<open>The generator\<close>

definition MT_N :: nat where "MT_N = 624"
definition MT_M :: nat where "MT_M = 397"
definition MATRIX_A :: u32 where "MATRIX_A = 0x9908b0df"
definition UPPER_MASK :: u32 where "UPPER_MASK = 0x80000000"
definition LOWER_MASK :: u32 where "LOWER_MASK = 0x7fffffff"

record mt_state =
  mt :: "u32 list"
  mti :: nat

definition init_genrand :: "u32 \<Rightarrow> mt_state \<Rightarrow> mt_state" where
  "init_genrand s st =
     (let a = (mt st)[0 := s];
          a = fold (\<lambda>i a. a[i := 1812433253 * (a ! (i - 1) XOR drop_bit 30 (a ! (i - 1))) + of_nat i])
                [1..<MT_N] a
      in \<lparr>mt = a, mti = MT_N\<rparr>)"

text \<open>One pass of each of the two loops of \<^verbatim>\<open>init_by_array\<close>, on the array and the indices \<open>i\<close> and \<open>j\<close>.\<close>

definition mix_key :: "u32 list \<Rightarrow> u32 list \<times> nat \<times> nat \<Rightarrow> u32 list \<times> nat \<times> nat" where
  "mix_key init_key = (\<lambda>(a, i, j).
     let p = a ! (i - 1);
         a = a[i := (a ! i XOR ((p XOR drop_bit 30 p) * 1664525)) + init_key ! j + of_nat j];
         i = i + 1;
         j = j + 1;
         (a, i) = (if MT_N \<le> i then (a[0 := a ! (MT_N - 1)], 1) else (a, i));
         j = (if length init_key \<le> j then 0 else j)
     in (a, i, j))"

definition mix_rest :: "u32 list \<times> nat \<Rightarrow> u32 list \<times> nat" where
  "mix_rest = (\<lambda>(a, i).
     let p = a ! (i - 1);
         a = a[i := (a ! i XOR ((p XOR drop_bit 30 p) * 1566083941)) - of_nat i];
         i = i + 1
     in if MT_N \<le> i then (a[0 := a ! (MT_N - 1)], 1) else (a, i))"

definition init_by_array :: "u32 list \<Rightarrow> mt_state \<Rightarrow> mt_state" where
  "init_by_array init_key st =
     (let st = init_genrand 19650218 st;
          k = (if MT_N > length init_key then MT_N else length init_key);
          (a, i, j) = (mix_key init_key ^^ k) (mt st, 1, 0);
          (a, i) = (mix_rest ^^ (MT_N - 1)) (a, i)
      in st\<lparr>mt := a[0 := 0x80000000]\<rparr>)"

definition mt19937ar_init :: "mt_state \<Rightarrow> mt_state" where
  "mt19937ar_init st = init_by_array [0x123, 0x234, 0x345, 0x456] st"

definition mag01 :: "u32 \<Rightarrow> u32" where
  "mag01 x = (if x = 0 then 0 else MATRIX_A)"

text \<open>A new word from the word \<open>M\<close> places ahead, the old word and its successor.\<close>

definition mt_twist :: "u32 \<Rightarrow> u32 \<Rightarrow> u32 \<Rightarrow> u32" where
  "mt_twist far old succ =
     (let y = (old AND UPPER_MASK) OR (succ AND LOWER_MASK) in far XOR drop_bit 1 y XOR mag01 (y AND 1))"

definition gen_block :: "u32 list \<Rightarrow> u32 list" where
  "gen_block a =
     (let a = fold (\<lambda>kk a. a[kk := mt_twist (a ! (kk + MT_M)) (a ! kk) (a ! (kk + 1))]) [0..<MT_N - MT_M] a;
          a = fold (\<lambda>kk a. a[kk := mt_twist (a ! (kk - (MT_N - MT_M))) (a ! kk) (a ! (kk + 1))])
                [MT_N - MT_M..<MT_N - 1] a
      in a[MT_N - 1 := mt_twist (a ! (MT_M - 1)) (a ! (MT_N - 1)) (a ! 0)])"

definition temper :: "u32 \<Rightarrow> u32" where
  "temper y =
     (let y = y XOR drop_bit 11 y;
          y = y XOR (push_bit 7 y AND 0x9d2c5680);
          y = y XOR (push_bit 15 y AND 0xefc60000)
      in y XOR drop_bit 18 y)"

definition genrand_int32 :: "mt_state \<Rightarrow> u32 \<times> mt_state" where
  "genrand_int32 st =
     (let st = (if MT_N \<le> mti st then
                  (let st = (if mti st = MT_N + 1 then init_genrand 5489 st else st)
                   in st\<lparr>mt := gen_block (mt st), mti := 0\<rparr>)
                else st);
          y = mt st ! mti st
      in (temper y, st\<lparr>mti := mti st + 1\<rparr>))"

definition genrand_int31 :: "mt_state \<Rightarrow> int \<times> mt_state" where
  "genrand_int31 st = (let (y, st) = genrand_int32 st in (sint (drop_bit 1 y), st))"

text \<open>Doubles: a number is rounded to the nearest with 53 binary digits, half-way cases to the even one.
  \<open>bin_scale x\<close> doublings take \<open>x\<close> to 53 digits before the point. This is the double nearest to \<open>x\<close> for
  \<open>x\<close> between the least normal double and \<open>2 ^ 53\<close>, where all numbers here are.\<close>

definition round_even :: "rat \<Rightarrow> int" where
  "round_even x = (let f = \<lfloor>x\<rfloor>; d = x - of_int f in if d < 1 / 2 \<or> d = 1 / 2 \<and> even f then f else f + 1)"

function bin_scale :: "rat \<Rightarrow> nat" where
  "bin_scale x = (if x \<le> 0 \<or> 2 ^ 52 \<le> x then 0 else Suc (bin_scale (2 * x)))"
  by pat_completeness auto
termination
proof (relation "measure (\<lambda>x. nat \<lfloor>2 ^ 53 / x\<rfloor>)")
  fix x :: rat assume x: "\<not> (x \<le> 0 \<or> 2 ^ 52 \<le> x)"
  define y where "y = 2 ^ 53 / x"
  have "2 \<le> y" using x by (simp add: y_def field_simps)
  moreover have "2 ^ 53 / (2 * x) = y / 2" by (simp add: y_def)
  moreover have "\<lfloor>y / 2\<rfloor> < \<lfloor>y\<rfloor>" using \<open>2 \<le> y\<close> by linarith
  ultimately show "(2 * x, x) \<in> measure (\<lambda>x. nat \<lfloor>2 ^ 53 / x\<rfloor>)" by (simp add: y_def)
qed simp

declare bin_scale.simps [simp del]

definition double :: "rat \<Rightarrow> rat" where
  "double x = of_int (round_even (x * 2 ^ bin_scale x)) / 2 ^ bin_scale x"

definition genrand_real1 :: "mt_state \<Rightarrow> rat \<times> mt_state" where
  "genrand_real1 st = (let (y, st) = genrand_int32 st in (double (of_nat (unat y) * double (1 / 4294967295)), st))"

definition genrand_real2 :: "mt_state \<Rightarrow> rat \<times> mt_state" where
  "genrand_real2 st = (let (y, st) = genrand_int32 st in (of_nat (unat y) * (1 / 4294967296), st))"

definition genrand_real3 :: "mt_state \<Rightarrow> rat \<times> mt_state" where
  "genrand_real3 st = (let (y, st) = genrand_int32 st in ((of_nat (unat y) + 1 / 2) * (1 / 4294967296), st))"

definition genrand_res53 :: "mt_state \<Rightarrow> rat \<times> mt_state" where
  "genrand_res53 st =
     (let (a, st) = genrand_int32 st; (b, st) = genrand_int32 st
      in ((of_nat (unat (drop_bit 5 a)) * 67108864 + of_nat (unat (drop_bit 6 b))) * (1 / 9007199254740992), st))"

section \<open>The recurrence\<close>

text \<open>The sequence of the twister, from its first 624 words.\<close>

function mt_seq :: "u32 list \<Rightarrow> nat \<Rightarrow> u32" where
  "mt_seq a n =
     (if n < 624 then a ! n else mt_twist (mt_seq a (n - 227)) (mt_seq a (n - 624)) (mt_seq a (n - 623)))"
  by pat_completeness auto
termination by (relation "measure snd") auto

declare mt_seq.simps [simp del]

lemma mt_seq_next: "mt_seq a (b + 624) = mt_twist (mt_seq a (b + 397)) (mt_seq a b) (mt_seq a (b + 1))"
  by (subst mt_seq.simps) (simp add: add.commute)

text \<open>The array while a block is made: the first \<open>k\<close> words are new.\<close>

definition block_at :: "u32 list \<Rightarrow> nat \<Rightarrow> nat \<Rightarrow> u32 list \<Rightarrow> bool" where
  "block_at a b k xs \<longleftrightarrow> length xs = 624 \<and>
     (\<forall>i < 624. xs ! i = mt_seq a (if i < k then b + 624 + i else b + i))"

lemma block_step:
  assumes "block_at a b k xs" "k < 624"
    and "far = mt_seq a (b + k + 397)" "nx = mt_seq a (b + k + 1)"
  shows "block_at a b (Suc k) (xs[k := mt_twist far (xs ! k) nx])"
  using assms mt_seq_next [of a "b + k"]
  by (auto simp: block_at_def nth_list_update less_Suc_eq ac_simps)

lemma block_loop:
  assumes "\<And>k xs. i \<le> k \<Longrightarrow> k < j \<Longrightarrow> block_at a b k xs \<Longrightarrow> block_at a b (Suc k) (f k xs)"
    and "block_at a b i xs" "i \<le> j"
  shows "block_at a b j (fold f [i..<j] xs)"
  using assms
proof (induction "j - i" arbitrary: i xs)
  case (Suc d)
  then have "[i..<j] = i # [Suc i..<j]" by (simp add: upt_conv_Cons)
  moreover have "block_at a b j (fold f [Suc i..<j] (f i xs))" using Suc by (intro Suc.hyps(1)) auto
  ultimately show ?case by simp
qed simp

lemma gen_block_next:
  assumes "block_at a b 0 xs"
  shows "block_at a b 624 (gen_block xs)"
proof -
  let ?f = "\<lambda>kk xs. xs[kk := mt_twist (xs ! (kk + 397)) (xs ! kk) (xs ! (kk + 1))]"
  let ?g = "\<lambda>kk xs. xs[kk := mt_twist (xs ! (kk - 227)) (xs ! kk) (xs ! (kk + 1))]"
  have f: "block_at a b (Suc k) (?f k xs)" if "0 \<le> k" "k < 227" "block_at a b k xs" for k xs
    using that by (intro block_step) (auto simp: block_at_def ac_simps)
  have g: "block_at a b (Suc k) (?g k xs)" if "227 \<le> k" "k < 623" "block_at a b k xs" for k xs
    using that by (intro block_step) (auto simp: block_at_def ac_simps)
  define x where "x = fold ?f [0..<227] xs"
  have x: "block_at a b 227 x" unfolding x_def by (rule block_loop [where f = ?f, OF f assms]) simp_all
  define y where "y = fold ?g [227..<623] x"
  have y: "block_at a b 623 y" unfolding y_def by (rule block_loop [where f = ?g, OF g x]) simp_all
  have "block_at a b (Suc 623) (y[623 := mt_twist (y ! 396) (y ! 623) (y ! 0)])"
    using y by (intro block_step) (auto simp: block_at_def ac_simps)
  then show ?thesis by (simp add: gen_block_def MT_N_def MT_M_def Let_def x_def y_def del: upt_rec_numeral)
qed

text \<open>The first \<open>k\<close> numbers, and the state in which the next one is number \<open>n\<close> of the sequence.\<close>

fun genrands :: "nat \<Rightarrow> mt_state \<Rightarrow> u32 list" where
  "genrands 0 st = []"
| "genrands (Suc k) st = (let (y, st) = genrand_int32 st in y # genrands k st)"

definition mt_at :: "u32 list \<Rightarrow> nat \<Rightarrow> mt_state \<Rightarrow> bool" where
  "mt_at a n st \<longleftrightarrow> (\<exists>b. n = b + mti st \<and> mti st \<le> 624 \<and> block_at a b 0 (mt st))"

lemma block_again: "block_at a b 624 xs \<longleftrightarrow> block_at a (b + 624) 0 xs"
  by (auto simp: block_at_def)

lemma genrand_next:
  assumes "mt_at a n st"
  shows "fst (genrand_int32 st) = temper (mt_seq a n) \<and> mt_at a (Suc n) (snd (genrand_int32 st))"
proof -
  obtain b where b: "n = b + mti st" "mti st \<le> 624" "block_at a b 0 (mt st)"
    using assms by (auto simp: mt_at_def)
  show ?thesis
  proof (cases "mti st = 624")
    case True
    have "block_at a (b + 624) 0 (gen_block (mt st))" using gen_block_next [OF b(3)] block_again by blast
    then show ?thesis
      using True b(1) by (auto simp: genrand_int32_def Let_def MT_N_def mt_at_def block_at_def add.commute)
  next
    case False
    then show ?thesis
      using b by (auto simp: genrand_int32_def Let_def MT_N_def mt_at_def block_at_def)
  qed
qed

lemma genrands_seq: "mt_at a n st \<Longrightarrow> genrands k st = map (\<lambda>i. temper (mt_seq a (n + i))) [0..<k]"
proof (induction k arbitrary: n st)
  case (Suc k)
  have "genrands k (snd (genrand_int32 st)) = map (\<lambda>i. temper (mt_seq a (Suc n + i))) [0..<k]"
    using genrand_next [OF Suc.prems] Suc.IH by blast
  moreover have "[0..<Suc k] = 0 # map Suc [0..<k]" by (simp add: map_Suc_upt upt_conv_Cons del: upt_Suc)
  ultimately show ?case
    using genrand_next [OF Suc.prems] by (simp add: split_beta Let_def o_def del: upt_Suc)
qed simp

text \<open>C39: The block-wise generation in place computes the recurrence of the Mersenne twister: from any
  seeded state, the numbers are the tempered words of the sequence that continues the state, each
  one made of the words 624, 623 and 227 places back.\<close>
theorem genrand_recurrence:
  assumes "length (mt st) = MT_N" "mti st = MT_N"
  shows "genrands k st = map (\<lambda>i. temper (mt_seq (mt st) (624 + i))) [0..<k]"
proof (rule genrands_seq)
  have "block_at (mt st) 0 0 (mt st)" using assms by (simp add: block_at_def mt_seq.simps MT_N_def)
  then show "mt_at (mt st) 624 st" using assms by (auto simp: mt_at_def MT_N_def)
qed

lemma fold_update_length: "length (fold (\<lambda>i a. a[i := f i a]) is xs) = length xs"
  by (induction "is" arbitrary: xs) auto

lemma genrand_recurrence_witness:
  "let st = init_genrand 5489 \<lparr>mt = replicate MT_N 0, mti = MT_N + 1\<rparr>
   in genrands 700 st = map (\<lambda>i. temper (mt_seq (mt st) (624 + i))) [0..<700]"
  unfolding Let_def
  by (rule genrand_recurrence) (simp_all add: init_genrand_def Let_def fold_update_length)

text \<open>Seeding by an array stays inside the arrays and leaves a seeded state that is not all zero.\<close>

lemma mix_key_wf:
  assumes "1 \<le> i" "i < 624" "j < length key" "length a = 624"
  shows "case mix_key key (a, i, j) of (a', i', j') \<Rightarrow> 1 \<le> i' \<and> i' < 624 \<and> j' < length key \<and> length a' = 624"
  using assms by (auto simp: mix_key_def MT_N_def Let_def)

lemma mix_key_iterate:
  assumes "0 < length key" "length a = 624"
  shows "case (mix_key key ^^ k) (a, 1, 0) of (a', i', j') \<Rightarrow> 1 \<le> i' \<and> i' < 624 \<and> j' < length key \<and> length a' = 624"
proof (induction k)
  case (Suc k)
  obtain b i j where "(mix_key key ^^ k) (a, 1, 0) = (b, i, j)" by (metis prod.exhaust)
  then show ?case using Suc mix_key_wf [of i j key b] by simp
qed (use assms in simp)

lemma mix_rest_iterate:
  assumes "1 \<le> i" "i < 624" "length a = 624"
  shows "case (mix_rest ^^ k) (a, i) of (a', i') \<Rightarrow> 1 \<le> i' \<and> i' < 624 \<and> length a' = 624"
proof (induction k)
  case (Suc k)
  obtain b i' where "(mix_rest ^^ k) (a, i) = (b, i')" by (metis prod.exhaust)
  then show ?case using Suc by (auto simp: mix_rest_def MT_N_def Let_def)
qed (use assms in simp)

lemma init_by_array_seeds:
  assumes "0 < length key" "length (mt st) = MT_N"
  shows "length (mt (init_by_array key st)) = MT_N \<and> mti (init_by_array key st) = MT_N
    \<and> mt (init_by_array key st) ! 0 = 0x80000000"
proof -
  let ?s = "init_genrand 19650218 st" and ?k = "if MT_N > length key then MT_N else length key"
  have l: "length (mt ?s) = 624" "mti ?s = MT_N"
    using assms(2) by (simp_all add: init_genrand_def Let_def fold_update_length MT_N_def)
  obtain b i j where b: "(mix_key key ^^ ?k) (mt ?s, 1, 0) = (b, i, j)" by (metis prod.exhaust)
  then have i: "1 \<le> i" "i < 624" "length b = 624" using mix_key_iterate [OF assms(1) l(1), of ?k] by auto
  obtain c i' where c: "(mix_rest ^^ (MT_N - 1)) (b, i) = (c, i')" by (metis prod.exhaust)
  then have "length c = 624" using mix_rest_iterate [OF i, of "MT_N - 1"] by simp
  then show ?thesis
    using l by (simp only: init_by_array_def Let_def b c prod.case) (simp add: MT_N_def)
qed

text \<open>The scaled numbers stay in their intervals.\<close>

lemma genrand_real_range:
  "0 \<le> fst (genrand_real2 st) \<and> fst (genrand_real2 st) < 1"
  "0 < fst (genrand_real3 st) \<and> fst (genrand_real3 st) < 1"
  "0 \<le> fst (genrand_res53 st) \<and> fst (genrand_res53 st) < 1"
proof -
  have lt: "(of_nat (unat (x :: u32)) :: rat) < 4294967296" for x
    using unsigned_less [where ?'a = nat and 'b = 32, of x] of_nat_less_iff [where 'a = rat, of "unat x" 4294967296] by simp
  have le: "(of_nat (unat (x :: u32)) :: rat) + 1 \<le> 4294967296" for x
    using unsigned_less [where ?'a = nat and 'b = 32, of x] of_nat_le_iff [where 'a = rat, of "Suc (unat x)" 4294967296] by simp
  have ge: "0 \<le> (of_nat (unat (x :: u32)) :: rat)" for x by (rule of_nat_0_le_iff)
  show "0 \<le> fst (genrand_real2 st) \<and> fst (genrand_real2 st) < 1"
    using lt [of "fst (genrand_int32 st)"] ge [of "fst (genrand_int32 st)"]
    by (simp add: genrand_real2_def case_prod_beta Let_def)
  show "0 < fst (genrand_real3 st) \<and> fst (genrand_real3 st) < 1"
    using le [of "fst (genrand_int32 st)"] ge [of "fst (genrand_int32 st)"]
    by (simp add: genrand_real3_def case_prod_beta Let_def)
  have "unat (drop_bit 5 a) < 2 ^ 27" "unat (drop_bit 6 a) < 2 ^ 26" for a :: u32
    using unsigned_less [where ?'a = nat and 'b = 32, of a] by (simp_all add: unat_drop_bit_eq drop_bit_nat_def)
  then have "unat (drop_bit 5 a) * 67108864 + unat (drop_bit 6 b) < 9007199254740992" for a b :: u32
  proof -
    have "Suc (unat (drop_bit 5 a)) * 67108864 \<le> 2 ^ 27 * 67108864" "unat (drop_bit 6 b) < 67108864"
      using \<open>\<And>a :: u32. unat (drop_bit 5 a) < 2 ^ 27\<close> [of a] \<open>\<And>a :: u32. unat (drop_bit 6 a) < 2 ^ 26\<close> [of b]
      by (auto intro: mult_le_mono1)
    then show ?thesis by simp
  qed
  then have "(of_nat (unat (drop_bit 5 a) * 67108864 + unat (drop_bit 6 b)) :: rat) < 9007199254740992" for a b :: u32
    by (metis of_nat_less_iff of_nat_numeral)
  then show "0 \<le> fst (genrand_res53 st) \<and> fst (genrand_res53 st) < 1"
    using of_nat_0_le_iff [where 'a = rat, of "unat (drop_bit 5 (fst (genrand_int32 st))) * 67108864
      + unat (drop_bit 6 (fst (genrand_int32 (snd (genrand_int32 st)))))"]
    by (simp add: genrand_res53_def case_prod_beta Let_def)
qed

section \<open>Numbers from 0 to 1, both included\<close>

lemma round_even_error: "\<bar>of_int (round_even x) - x\<bar> \<le> 1 / 2"
proof -
  have "of_int \<lfloor>x\<rfloor> \<le> x" "x < of_int \<lfloor>x\<rfloor> + 1" by linarith+
  then show ?thesis by (simp add: round_even_def Let_def abs_le_iff)
qed

lemma round_even_le: "x \<le> of_int m \<Longrightarrow> round_even x \<le> m"
proof -
  assume le: "x \<le> of_int m"
  show ?thesis
  proof (cases "x = of_int \<lfloor>x\<rfloor>")
    case True
    then have "round_even x = \<lfloor>x\<rfloor>" by (simp add: round_even_def Let_def)
    then show ?thesis using le by linarith
  next
    case False
    then have "\<lfloor>x\<rfloor> + 1 \<le> m" using le by linarith
    then show ?thesis by (simp add: round_even_def Let_def)
  qed
qed

lemma bin_scale_bound: "0 < x \<Longrightarrow> 2 ^ 52 \<le> x * 2 ^ bin_scale x"
proof (induction x rule: bin_scale.induct)
  case (1 x)
  then show ?case by (cases "2 ^ 52 \<le> x") (simp_all add: bin_scale.simps [of x] mult.assoc mult.left_commute)
qed

lemma double_0: "double 0 = 0"
  by (simp add: double_def round_even_def)

text \<open>One rounding errs by at most half a unit in the last of 53 places.\<close>

lemma double_error:
  assumes "0 < x" shows "\<bar>double x - x\<bar> \<le> (1 / 2) / 2 ^ bin_scale x" and "(1 / 2) / 2 ^ bin_scale x \<le> x / 2 ^ 53"
proof -
  define p :: rat where "p = 2 ^ bin_scale x"
  have p: "0 < p" "2 ^ 52 \<le> x * p" using bin_scale_bound [OF assms] by (simp_all add: p_def)
  have "double x - x = (of_int (round_even (x * p)) - x * p) / p" using p(1) by (simp add: double_def p_def diff_divide_distrib)
  then have "\<bar>double x - x\<bar> = \<bar>of_int (round_even (x * p)) - x * p\<bar> / p" using p(1) by simp
  also have "\<dots> \<le> (1 / 2) / p" using round_even_error [of "x * p"] p(1) by (intro divide_right_mono) simp_all
  finally show "\<bar>double x - x\<bar> \<le> (1 / 2) / 2 ^ bin_scale x" by (simp add: p_def)
  show "(1 / 2) / 2 ^ bin_scale x \<le> x / 2 ^ 53" using p by (simp add: field_simps flip: p_def)
qed

lemma double_error_below_1:
  assumes "0 < x" "x < 1" shows "\<bar>double x - x\<bar> \<le> 1 / 2 ^ 54"
proof -
  have "(2 :: rat) ^ 52 \<le> x * 2 ^ bin_scale x" by (rule bin_scale_bound [OF assms(1)])
  also have "\<dots> < 2 ^ bin_scale x" using assms(2) by simp
  finally have "52 < bin_scale x" by (simp only: power_strict_increasing_iff)
  then have "(2 :: rat) ^ 53 \<le> 2 ^ bin_scale x" by (intro power_increasing) simp_all
  then have "(1 / 2) / 2 ^ bin_scale x \<le> (1 / 2) / (2 :: rat) ^ 53" by (intro divide_left_mono) simp_all
  also have "\<dots> = 1 / 2 ^ 54" by simp
  finally show ?thesis using double_error(1) [OF assms(1)] by (rule order_trans [rotated])
qed

lemma double_le_1:
  assumes "x \<le> 1" shows "double x \<le> 1"
proof -
  have "x * 2 ^ bin_scale x \<le> of_int (2 ^ bin_scale x)" using assms by simp
  from round_even_le [OF this] have "of_int (round_even (x * 2 ^ bin_scale x)) \<le> (of_int (2 ^ bin_scale x) :: rat)"
    by (simp only: of_int_le_iff)
  then show ?thesis by (simp add: double_def)
qed

text \<open>The constant, rounded: 32 places further than \<open>2 ^ 52 + 2 ^ 20\<close>.\<close>

lemma double_third: "double (1 / 4294967295) = (2 ^ 52 + 2 ^ 20) / 2 ^ 84"
proof -
  have "bin_scale (1 / 4294967295) = 84" by (simp add: bin_scale.simps)
  moreover have "\<lfloor>(19342813113834066795298816 :: rat) / 4294967295\<rfloor> = 4503599628419072"
    by (rule floor_unique) simp_all
  ultimately show ?thesis by (simp add: double_def round_even_def Let_def)
qed

text \<open>The quotient is off by at most one unit in the 53rd place after the point, it is in the interval, and
  its ends are met exactly by the least and the greatest number.\<close>

lemma genrand_real1_close:
  fixes st
  defines "n \<equiv> unat (fst (genrand_int32 st))" and "r \<equiv> fst (genrand_real1 st)"
  shows "\<bar>r - of_nat n / 4294967295\<bar> \<le> 1 / 2 ^ 53" and "0 \<le> r \<and> r \<le> 1"
    and "r = 0 \<longleftrightarrow> n = 0" and "r = 1 \<longleftrightarrow> n = 4294967295"
proof -
  have n: "n \<le> 4294967295" using unsigned_less [where ?'a = nat and 'b = 32, of "fst (genrand_int32 st)"] by (simp add: n_def)
  define c :: rat where "c = (2 ^ 52 + 2 ^ 20) / 2 ^ 84"
  define x where "x = of_nat n * c"
  have r: "r = double x" by (simp add: r_def x_def c_def n_def genrand_real1_def case_prod_beta Let_def double_third)
  have c: "0 < c" "c \<le> 1 / 2 ^ 31" "4294967295 * c = 1 - 1 / 2 ^ 64" "c \<le> 1 / 4294967295" "1 / 4294967295 - c \<le> 1 / 2 ^ 95"
    by (simp_all add: c_def)
  have nq: "(of_nat n :: rat) \<le> 4294967295" using n of_nat_le_iff [where 'a = rat, of n 4294967295] by simp
  then have "x \<le> 4294967295 * c" using c(1) by (simp add: x_def)
  then have x1: "x \<le> 1 - 1 / 2 ^ 64" using c(3) by simp
  have e: "\<bar>r - x\<bar> \<le> 1 / 2 ^ 54 \<and> \<bar>r - x\<bar> \<le> x / 2 ^ 53"
  proof (cases "n = 0")
    case False
    then have "0 < x" "x < 1" using c(1) x1 by (simp_all add: x_def)
    then show ?thesis using double_error [of x] double_error_below_1 [of x] by (simp add: r)
  qed (simp add: r x_def double_0)
  have 0: "0 \<le> x" using c(1) by (simp add: x_def)
  have "of_nat n * (1 / 4294967295 - c) \<le> 4294967295 * (1 / 2 ^ 95)"
    using nq c(4,5) by (intro mult_mono) simp_all
  moreover have "4294967295 * (1 / 2 ^ 95) \<le> (1 / 2 ^ 63 :: rat)" by simp
  moreover have "of_nat n / 4294967295 - x = of_nat n * (1 / 4294967295 - c)" by (simp add: x_def right_diff_distrib)
  ultimately have q: "of_nat n / 4294967295 - x \<le> 1 / 2 ^ 63" "0 \<le> of_nat n / 4294967295 - x"
    using c(4) by (linarith, simp add: mult_nonneg_nonneg)
  show "\<bar>r - of_nat n / 4294967295\<bar> \<le> 1 / 2 ^ 53"
  proof -
    have "\<bar>r - of_nat n / 4294967295\<bar> \<le> \<bar>r - x\<bar> + (of_nat n / 4294967295 - x)" using q(2) by linarith
    also have "\<dots> \<le> 1 / 2 ^ 54 + 1 / 2 ^ 63" using e q(1) by (intro add_mono) simp_all
    also have "\<dots> \<le> (1 / 2 ^ 53 :: rat)" by simp
    finally show ?thesis .
  qed
  have "x / 2 ^ 53 \<le> x" using 0 by simp
  then have "0 \<le> r" using e by linarith
  then show "0 \<le> r \<and> r \<le> 1" using double_le_1 [of x] x1 by (simp add: r)
  have "x = 0" if "r = 0" using e 0 that by simp
  then show "r = 0 \<longleftrightarrow> n = 0" using c(1) by (auto simp: r x_def double_0)
  show "r = 1 \<longleftrightarrow> n = 4294967295"
  proof
    assume "n = 4294967295"
    then have "x = 18446744073709551615 / 18446744073709551616" by (simp add: x_def c_def)
    moreover have "bin_scale (18446744073709551615 / 18446744073709551616) = 53" by (simp add: bin_scale.simps)
    moreover have "\<lfloor>18446744073709551615 / (2048 :: rat)\<rfloor> = 9007199254740991" by (rule floor_unique) simp_all
    ultimately show "r = 1" unfolding r by (simp only: double_def round_even_def Let_def) simp
  next
    assume "r = 1"
    then have "1 - 1 / 2 ^ 54 \<le> x" using e by linarith
    moreover have "x \<le> 4294967294 * c" if "n \<noteq> 4294967295"
    proof -
      have "(of_nat n :: rat) \<le> of_nat 4294967294" using that n by (intro of_nat_mono) simp
      then show ?thesis using c(1) by (simp add: x_def)
    qed
    ultimately show "n = 4294967295" by (auto simp: c_def)
  qed
qed

end
