(* ===== verification/I2c.thy ===== *)
theory I2c
  imports Machine Busy
begin

text \<open>
  The pins of the chip common core, \<^verbatim>\<open>bcm_gpio.c\<close>, and the I2C master made of them, \<^verbatim>\<open>i2c.c\<close>. A delay is
  recorded in the history of accesses. \<open>None\<close> means that the slave stretches the clock for ever.
\<close>

section \<open>Pins\<close>

definition CHIPC_GPIOIN :: addr where "CHIPC_GPIOIN = 0xb8000060"
definition CHIPC_GPIOOUT :: addr where "CHIPC_GPIOOUT = 0xb8000064"
definition CHIPC_GPIOOUTEN :: addr where "CHIPC_GPIOOUTEN = 0xb8000068"
definition CHIPC_GPIOCTRL :: addr where "CHIPC_GPIOCTRL = 0xb800006c"

lemmas gpio_addrs = CHIPC_GPIOIN_def CHIPC_GPIOOUT_def CHIPC_GPIOOUTEN_def CHIPC_GPIOCTRL_def

definition gpio_getctl :: "device \<Rightarrow> 'a machine_scheme \<Rightarrow> u32 \<times> 'a machine_scheme" where
  "gpio_getctl dev s = load dev CHIPC_GPIOCTRL s"

definition gpio_setctl :: "u32 \<Rightarrow> 'a machine_scheme \<Rightarrow> 'a machine_scheme" where
  "gpio_setctl val s = store CHIPC_GPIOCTRL val s"

definition gpio_getdir :: "device \<Rightarrow> 'a machine_scheme \<Rightarrow> u32 \<times> 'a machine_scheme" where
  "gpio_getdir dev s = load dev CHIPC_GPIOOUTEN s"

definition gpio_setdir :: "u32 \<Rightarrow> 'a machine_scheme \<Rightarrow> 'a machine_scheme" where
  "gpio_setdir val s = store CHIPC_GPIOOUTEN val s"

definition gpio_getdat :: "device \<Rightarrow> 'a machine_scheme \<Rightarrow> u32 \<times> 'a machine_scheme" where
  "gpio_getdat dev s = load dev CHIPC_GPIOIN s"

definition gpio_setdat :: "u32 \<Rightarrow> 'a machine_scheme \<Rightarrow> 'a machine_scheme" where
  "gpio_setdat val s = store CHIPC_GPIOOUT val s"

section \<open>The I2C master\<close>

record i2c = machine +
  sclpin :: nat
  sdapin :: nat
  udel :: u32

definition HIGH :: u32 where "HIGH = 1"
definition LOW :: u32 where "LOW = 0"
definition IN :: u32 where "IN = 0"
definition OUT :: u32 where "OUT = 1"

definition DELAY :: "'a i2c_scheme \<Rightarrow> 'a i2c_scheme" where
  "DELAY s = usleep (udel s) s"

text \<open>\<^verbatim>\<open>(reg & ~(1 << pin)) | (val << pin)\<close>\<close>

definition with_pin :: "u32 \<Rightarrow> nat \<Rightarrow> u32 \<Rightarrow> u32" where
  "with_pin reg pin val = (reg AND NOT (push_bit pin 1)) OR push_bit pin val"

definition setscl :: "device \<Rightarrow> u32 \<Rightarrow> 'a i2c_scheme \<Rightarrow> 'a i2c_scheme" where
  "setscl dev val s = (let (reg, s) = gpio_getdat dev s in gpio_setdat (with_pin reg (sclpin s) val) s)"

definition setsda :: "device \<Rightarrow> u32 \<Rightarrow> 'a i2c_scheme \<Rightarrow> 'a i2c_scheme" where
  "setsda dev val s = (let (reg, s) = gpio_getdat dev s in gpio_setdat (with_pin reg (sdapin s) val) s)"

definition readsda :: "device \<Rightarrow> 'a i2c_scheme \<Rightarrow> u32 \<times> 'a i2c_scheme" where
  "readsda dev s =
     (let (reg, s) = gpio_getdat dev s in (if reg AND push_bit (sdapin s) 1 \<noteq> 0 then HIGH else LOW, s))"

definition readscl :: "device \<Rightarrow> 'a i2c_scheme \<Rightarrow> u32 \<times> 'a i2c_scheme" where
  "readscl dev s =
     (let (reg, s) = gpio_getdat dev s in (if reg AND push_bit (sclpin s) 1 \<noteq> 0 then HIGH else LOW, s))"

definition setdir :: "device \<Rightarrow> u32 \<Rightarrow> 'a i2c_scheme \<Rightarrow> 'a i2c_scheme" where
  "setdir dev val s = (let (reg, s) = gpio_getdir dev s in gpio_setdir (with_pin reg (sdapin s) val) s)"

definition setscldir :: "device \<Rightarrow> u32 \<Rightarrow> 'a i2c_scheme \<Rightarrow> 'a i2c_scheme" where
  "setscldir dev val s = (let (reg, s) = gpio_getdir dev s in gpio_setdir (with_pin reg (sclpin s) val) s)"

definition i2c_init :: "device \<Rightarrow> nat \<Rightarrow> nat \<Rightarrow> u32 \<Rightarrow> 'a i2c_scheme \<Rightarrow> 'a i2c_scheme" where
  "i2c_init dev scl sda u s =
     (let s = s\<lparr>sclpin := scl, sdapin := sda, udel := u\<rparr>;
          (reg, s) = gpio_getctl dev s;
          s = gpio_setctl (reg AND NOT (push_bit scl 1 OR push_bit sda 1)) s;
          (reg, s) = gpio_getdir dev s;
          s = gpio_setdir (with_pin reg (sclpin s) OUT) s;
          s = setscl dev HIGH s;
          s = setdir dev OUT s
      in setsda dev HIGH s)"

text \<open>One bit of a byte, the bits from the highest on, and the wait for the acknowledgement.\<close>

definition write_bit :: "device \<Rightarrow> u8 \<Rightarrow> nat \<Rightarrow> 'a i2c_scheme \<Rightarrow> 'a i2c_scheme" where
  "write_bit dev ch i s =
     (let s = setscl dev LOW s;
          s = setsda dev (if ch AND push_bit (7 - i) 1 \<noteq> 0 then HIGH else LOW) s;
          s = DELAY s;
          s = setscl dev HIGH s
      in DELAY s)"

fun wait_ack :: "device \<Rightarrow> nat \<Rightarrow> 'a i2c_scheme \<Rightarrow> int \<times> 'a i2c_scheme" where
  "wait_ack dev 0 s = (0, s)"
| "wait_ack dev (Suc n) s =
     (let (v, s) = readsda dev s in if v = LOW then (1, s) else wait_ack dev n s)"

definition i2c_write :: "device \<Rightarrow> u8 \<Rightarrow> bool \<Rightarrow> bool \<Rightarrow> 'a i2c_scheme \<Rightarrow> int \<times> 'a i2c_scheme" where
  "i2c_write dev ch start stop s =
     (let s = setdir dev OUT s;
          s = (if start then setsda dev LOW s else s);
          s = DELAY s;
          s = fold (write_bit dev ch) [0..<8] s;
          s = setdir dev IN s;
          s = setscl dev LOW s;
          s = DELAY s;
          s = setscl dev HIGH s;
          (res, s) = wait_ack dev 1000 s;
          s = DELAY s;
          s = setscl dev LOW s;
          s = DELAY s;
          s = (if stop \<or> res = 0 then
                 (let s = setdir dev OUT s;
                      s = setsda dev LOW s;
                      s = setscl dev HIGH s;
                      s = DELAY s
                  in setsda dev HIGH s)
               else s)
      in (res, s))"

partial_function (option) wait_scl :: "device \<Rightarrow> 'a i2c_scheme \<Rightarrow> 'a i2c_scheme option" where
  "wait_scl dev s =
     (if fst (readscl dev s) = 0 then wait_scl dev (DELAY (snd (readscl dev s))) else Some (snd (readscl dev s)))"

definition read_bit :: "device \<Rightarrow> nat \<Rightarrow> u8 \<times> 'a i2c_scheme \<Rightarrow> u8 \<times> 'a i2c_scheme" where
  "read_bit dev i = (\<lambda>(ch, s).
     let s = setscl dev LOW s;
         s = DELAY s;
         s = setscl dev HIGH s;
         (v, s) = readsda dev s;
         ch = ch OR push_bit (7 - i) (ucast v)
     in (ch, DELAY s))"

definition i2c_read :: "device \<Rightarrow> bool \<Rightarrow> 'a i2c_scheme \<Rightarrow> (u8 \<times> 'a i2c_scheme) option" where
  "i2c_read dev stop s =
     (let s = setdir dev IN s;
          s = setscldir dev IN s
      in case wait_scl dev s of None \<Rightarrow> None
         | Some s \<Rightarrow>
             let (v, s) = readsda dev s;
                 ch = push_bit 7 (ucast v);
                 s = setscldir dev OUT s;
                 (ch, s) = fold (read_bit dev) [1..<8] (ch, s);
                 s = setscl dev LOW s;
                 s = setdir dev OUT s;
                 s = (if stop then setsda dev HIGH s else setsda dev LOW s);
                 s = DELAY s;
                 s = setscl dev HIGH s;
                 s = DELAY s;
                 s = setscl dev LOW s;
                 s = DELAY s;
                 s = (if stop then
                        (let s = setscl dev HIGH s;
                             s = DELAY s;
                             s = setsda dev HIGH s
                         in DELAY s)
                      else s)
             in Some (ch, s))"

section \<open>A slave that holds the clock\<close>

lemma wait_scl_ends:
  "wait_scl dev s = Some t \<Longrightarrow> \<exists>n. \<not> fst (readscl dev (((\<lambda>s. DELAY (snd (readscl dev s))) ^^ n) s)) = 0"
proof (rule wait_scl.raw_induct [where P = "\<lambda>dev s t. \<exists>n. \<not> fst (readscl dev (((\<lambda>s. DELAY (snd (readscl dev s))) ^^ n) s)) = 0"])
  fix wait dev t and s :: "'a i2c_scheme"
  assume IH: "\<And>dev s t. wait dev s = Some t \<Longrightarrow> \<exists>n. \<not> fst (readscl dev (((\<lambda>s. DELAY (snd (readscl dev s))) ^^ n) s)) = 0"
    and eq: "(if fst (readscl dev s) = 0 then wait dev (DELAY (snd (readscl dev s))) else Some (snd (readscl dev s))) = Some t"
  show "\<exists>n. \<not> fst (readscl dev (((\<lambda>s. DELAY (snd (readscl dev s))) ^^ n) s)) = 0"
    by (rule busy_wait_unroll [where busy = "\<lambda>s. fst (readscl dev s) = 0"], rule IH) (use eq in simp)
qed

interpretation stretch: busy_wait "wait_scl dev" "\<lambda>s. fst (readscl dev s) = 0"
  "\<lambda>s. DELAY (snd (readscl dev s))" "\<lambda>s. snd (readscl dev s)"
  by unfold_locales (subst wait_scl.simps, simp, erule wait_scl_ends)

text \<open>A slave that never lets go of the clock stops the master for ever.\<close>

lemma wait_scl_held:
  assumes "\<And>l. \<not> bit (dev l CHIPC_GPIOIN) (sclpin s)"
  shows "wait_scl dev s = None"
proof (rule stretch.forever [where I = "\<lambda>t. sclpin t = sclpin s"])
  fix t :: "'a i2c_scheme"
  assume "sclpin t = sclpin s"
  moreover have "w AND push_bit n 1 = 0" if "\<not> bit w n" for w :: u32 and n
  proof (rule bit_word_eqI)
    fix k
    show "bit (w AND push_bit n 1) k = bit 0 k"
      unfolding bit_and_iff bit_push_bit_iff bit_1_iff bit_0_eq using that by auto
  qed
  ultimately show "fst (readscl dev t) = 0 \<and> sclpin (DELAY (snd (readscl dev t))) = sclpin s"
    using assms by (simp add: readscl_def gpio_getdat_def load_simps DELAY_def usleep_def LOW_def split_beta)
qed simp

section \<open>What the slave sees\<close>

text \<open>The values put on the pins and the directions set, the last ones, and the bits a slave samples:
  the data line at each rising edge of the clock.\<close>

definition reg_writes :: "addr \<Rightarrow> mmio_ev list \<Rightarrow> u32 list" where
  "reg_writes a l = map snd (filter (\<lambda>w. fst w = a) (writes l))"

definition last_write :: "addr \<Rightarrow> mmio_ev list \<Rightarrow> u32" where
  "last_write a l = last (0 # reg_writes a l)"

definition outs :: "'a i2c_scheme \<Rightarrow> u32 list" where
  "outs s = reg_writes CHIPC_GPIOOUT (io_log s)"

fun slave_bits :: "nat \<Rightarrow> nat \<Rightarrow> u32 \<Rightarrow> u32 list \<Rightarrow> bool list" where
  "slave_bits scl sda p [] = []"
| "slave_bits scl sda p (v # vs) =
     (if \<not> bit p scl \<and> bit v scl then [bit v sda] else []) @ slave_bits scl sda v vs"

text \<open>Pins that are driven read back as they were set.\<close>

definition pins_read_back :: "device \<Rightarrow> bool" where
  "pins_read_back dev \<longleftrightarrow>
     (\<forall>l. dev l CHIPC_GPIOOUTEN = last_write CHIPC_GPIOOUTEN l \<and>
       (\<forall>p. bit (last_write CHIPC_GPIOOUTEN l) p \<longrightarrow>
         bit (dev l CHIPC_GPIOIN) p = bit (last_write CHIPC_GPIOOUT l) p))"

definition pins_ok :: "'a i2c_scheme \<Rightarrow> bool" where
  "pins_ok s \<longleftrightarrow> sclpin s < 32 \<and> sdapin s < 32 \<and> sclpin s \<noteq> sdapin s"

definition driving :: "'a i2c_scheme \<Rightarrow> bool" where
  "driving s \<longleftrightarrow> pins_ok s \<and> bit (last_write CHIPC_GPIOOUTEN (io_log s)) (sclpin s)
     \<and> bit (last_write CHIPC_GPIOOUTEN (io_log s)) (sdapin s)"

lemma reg_writes_append: "reg_writes a (l @ m) = reg_writes a l @ reg_writes a m"
  by (simp add: reg_writes_def)

lemma reg_writes_ev:
  "reg_writes a [] = []" "reg_writes a (Rd b v # l) = reg_writes a l" "reg_writes a (Usleep d # l) = reg_writes a l"
  "reg_writes a (Wr b v # l) = (if b = a then [v] else []) @ reg_writes a l"
  by (simp_all add: reg_writes_def)

lemma bit_with_pin:
  assumes "pin < 32" "val \<in> {0, 1}"
  shows "bit (with_pin reg pin val) i \<longleftrightarrow> (if i = pin then val = 1 else bit reg i)"
proof -
  have one: "bit (push_bit pin (1 :: u32)) i \<longleftrightarrow> i = pin"
    unfolding bit_push_bit_iff bit_1_iff possible_bit_word using assms(1) by auto
  consider "val = 0" | "val = 1" using assms(2) by auto
  then have val: "bit (push_bit pin val) i \<longleftrightarrow> i = pin \<and> val = 1"
    by cases (simp_all only: one push_bit_of_0 bit_0_eq bot_fun_def bot_bool_def zero_neq_one simp_thms)
  have "bit reg i \<Longrightarrow> i < 32" using bit_imp_le_length [of reg i] by simp
  then show ?thesis
    unfolding with_pin_def bit_or_iff bit_and_iff bit_not_iff one val possible_bit_word by auto
qed

text \<open>Setting a line adds one value, in which the other line keeps its level.\<close>

lemma setscl_out:
  assumes "pins_read_back dev" "driving s" "val \<in> {0, 1}"
  shows "\<exists>w. outs (setscl dev val s) = outs s @ [w] \<and> bit w (sclpin s) = (val = 1) \<and>
    bit w (sdapin s) = bit (last (0 # outs s)) (sdapin s) \<and> driving (setscl dev val s) \<and>
    sclpin (setscl dev val s) = sclpin s \<and> sdapin (setscl dev val s) = sdapin s"
proof -
  have "bit (dev (io_log s) CHIPC_GPIOIN) (sdapin s) = bit (last (0 # outs s)) (sdapin s)"
    using assms(1,2) by (simp add: pins_read_back_def driving_def last_write_def outs_def)
  then show ?thesis
    using assms(2,3)
    by (intro exI [of _ "with_pin (dev (io_log s) CHIPC_GPIOIN) (sclpin s) val"])
      (auto simp: setscl_def gpio_getdat_def gpio_setdat_def load_def store_def Let_def outs_def driving_def
        pins_ok_def bit_with_pin reg_writes_append reg_writes_ev last_write_def gpio_addrs)
qed

lemma setsda_out:
  assumes "pins_read_back dev" "driving s" "val \<in> {0, 1}"
  shows "\<exists>w. outs (setsda dev val s) = outs s @ [w] \<and> bit w (sdapin s) = (val = 1) \<and>
    bit w (sclpin s) = bit (last (0 # outs s)) (sclpin s) \<and> driving (setsda dev val s) \<and>
    sclpin (setsda dev val s) = sclpin s \<and> sdapin (setsda dev val s) = sdapin s"
proof -
  have "bit (dev (io_log s) CHIPC_GPIOIN) (sclpin s) = bit (last (0 # outs s)) (sclpin s)"
    using assms(1,2) by (simp add: pins_read_back_def driving_def last_write_def outs_def)
  then show ?thesis
    using assms(2,3)
    by (intro exI [of _ "with_pin (dev (io_log s) CHIPC_GPIOIN) (sdapin s) val"])
      (auto simp: setsda_def gpio_getdat_def gpio_setdat_def load_def store_def Let_def outs_def driving_def
        pins_ok_def bit_with_pin reg_writes_append reg_writes_ev last_write_def gpio_addrs)
qed

lemma DELAY_sel:
  "outs (DELAY s) = outs s" "driving (DELAY s) = driving s" "sclpin (DELAY s) = sclpin s" "sdapin (DELAY s) = sdapin s"
  by (simp_all add: DELAY_def usleep_def outs_def driving_def pins_ok_def last_write_def reg_writes_append reg_writes_ev)

lemma setdir_sel:
  "outs (setdir dev v s) = outs s" "sclpin (setdir dev v s) = sclpin s" "sdapin (setdir dev v s) = sdapin s"
  by (simp_all add: setdir_def gpio_getdir_def gpio_setdir_def load_def store_def Let_def outs_def reg_writes_append
      reg_writes_ev gpio_addrs)

lemma setdir_out:
  assumes "pins_read_back dev" "pins_ok s" "bit (last_write CHIPC_GPIOOUTEN (io_log s)) (sclpin s)"
  shows "driving (setdir dev OUT s)"
  using assms
  by (auto simp: setdir_def gpio_getdir_def gpio_setdir_def load_def store_def Let_def driving_def pins_ok_def
      last_write_def reg_writes_append reg_writes_ev pins_read_back_def OUT_def bit_with_pin split: if_splits)

text \<open>The values of one bit clock it out.\<close>

lemma write_bit_out:
  assumes "pins_read_back dev" "driving s" "i < 8"
  shows "\<exists>ws. outs (write_bit dev ch i s) = outs s @ ws \<and>
    (\<forall>p. slave_bits (sclpin s) (sdapin s) p ws = [bit ch (7 - i)]) \<and> ws \<noteq> [] \<and>
    driving (write_bit dev ch i s) \<and> sclpin (write_bit dev ch i s) = sclpin s \<and> sdapin (write_bit dev ch i s) = sdapin s"
proof -
  let ?b = "if ch AND push_bit (7 - i) 1 \<noteq> 0 then HIGH else LOW"
  have b: "?b \<in> {0, 1}" "?b = 1 \<longleftrightarrow> bit ch (7 - i)"
    by (auto simp: HIGH_def LOW_def bit_iff_and_push_bit_not_eq_0)
  let ?s1 = "setscl dev LOW s"
  obtain w1 where w1: "outs ?s1 = outs s @ [w1]" "\<not> bit w1 (sclpin s)" "driving ?s1" "sclpin ?s1 = sclpin s"
    "sdapin ?s1 = sdapin s" using setscl_out [OF assms(1,2), of LOW] by (auto simp: LOW_def)
  let ?s2 = "setsda dev ?b ?s1"
  obtain w2 where w2: "outs ?s2 = outs ?s1 @ [w2]" "bit w2 (sdapin s) = bit ch (7 - i)"
    "bit w2 (sclpin s) = bit (last (0 # outs ?s1)) (sclpin s)" "driving ?s2" "sclpin ?s2 = sclpin s" "sdapin ?s2 = sdapin s"
    using setsda_out [OF assms(1) w1(3) b(1)] b(2) w1(4,5) by auto
  let ?s3 = "setscl dev HIGH (DELAY ?s2)"
  obtain w3 where w3: "outs ?s3 = outs ?s2 @ [w3]" "bit w3 (sclpin s)" "bit w3 (sdapin s) = bit (last (0 # outs ?s2)) (sdapin s)"
    "driving ?s3" "sclpin ?s3 = sclpin s" "sdapin ?s3 = sdapin s"
    using setscl_out [OF assms(1), of "DELAY ?s2" HIGH] w2(4,5,6) by (auto simp: DELAY_sel HIGH_def)
  have "write_bit dev ch i s = DELAY ?s3" by (simp add: write_bit_def Let_def)
  then show ?thesis
    using w1 w2 w3 by (intro exI [of _ "[w1, w2, w3]"]) (auto simp: DELAY_sel)
qed

text \<open>The eight bits, one after another.\<close>

lemma slave_bits_append:
  "slave_bits scl sda p (vs @ ws) = slave_bits scl sda p vs @ slave_bits scl sda (last (p # vs)) ws"
  by (induction vs arbitrary: p) auto

lemma write_bits_out:
  assumes "pins_read_back dev"
  shows "driving s \<Longrightarrow> \<forall>i \<in> set is. i < 8 \<Longrightarrow>
    \<exists>ws. outs (fold (write_bit dev ch) is s) = outs s @ ws \<and>
      (\<forall>p. slave_bits (sclpin s) (sdapin s) p ws = map (\<lambda>i. bit ch (7 - i)) is)"
proof (induction "is" arbitrary: s)
  case (Cons i "is")
  obtain ws where ws: "outs (write_bit dev ch i s) = outs s @ ws" "driving (write_bit dev ch i s)"
    "\<And>p. slave_bits (sclpin s) (sdapin s) p ws = [bit ch (7 - i)]"
    "sclpin (write_bit dev ch i s) = sclpin s" "sdapin (write_bit dev ch i s) = sdapin s"
    using write_bit_out [OF assms Cons.prems(1), of i ch] Cons.prems(2) by auto
  obtain vs where vs: "outs (fold (write_bit dev ch) is (write_bit dev ch i s)) = outs (write_bit dev ch i s) @ vs"
    "\<And>p. slave_bits (sclpin s) (sdapin s) p vs = map (\<lambda>i. bit ch (7 - i)) is"
    using Cons.IH [OF ws(2)] Cons.prems(2) ws(4,5) by auto
  show ?case by (rule exI [of _ "ws @ vs"]) (simp add: ws(1,3) vs slave_bits_append)
qed auto

text \<open>What follows only adds values.\<close>

definition adds :: "'a i2c_scheme \<Rightarrow> 'a i2c_scheme \<Rightarrow> bool" where
  "adds s t \<longleftrightarrow> (\<exists>ws. outs t = outs s @ ws)"

lemma adds_trans: "adds s t \<Longrightarrow> adds t u \<Longrightarrow> adds s u"
  by (auto simp: adds_def)

lemma adds_ops:
  "adds s (DELAY s)" "adds s (setdir dev v s)" "adds s (setscl dev v s)" "adds s (setsda dev v s)"
  by (simp_all add: adds_def DELAY_sel setdir_sel)
    (simp_all add: setscl_def setsda_def gpio_getdat_def gpio_setdat_def load_def store_def Let_def outs_def
      reg_writes_append reg_writes_ev gpio_addrs)

lemma adds_wait_ack: "adds s (snd (wait_ack dev n s))"
proof (induction n arbitrary: s)
  case (Suc n)
  have "outs (snd (readsda dev s)) = outs s"
    by (simp add: readsda_def gpio_getdat_def load_def Let_def outs_def reg_writes_append reg_writes_ev)
  with Suc [of "snd (readsda dev s)"] show ?case
    by (auto simp: adds_def case_prod_beta Let_def)
qed (simp add: adds_def)

lemmas adds_after = adds_ops [THEN [2] adds_trans] adds_wait_ack [THEN [2] adds_trans]

lemma adds_tail:
  "adds s (snd (let s = setdir dev IN s; s = setscl dev LOW s; s = DELAY s; s = setscl dev HIGH s;
      (res, s) = wait_ack dev n s; s = DELAY s; s = setscl dev LOW s; s = DELAY s;
      s = (if stop \<or> res = 0 then
             (let s = setdir dev OUT s; s = setsda dev LOW s; s = setscl dev HIGH s; s = DELAY s
              in setsda dev HIGH s)
           else s)
    in (res, s)))"
  by (simp add: Let_def case_prod_beta) (intro conjI impI adds_after adds_ops)

text \<open>C40: \<^verbatim>\<open>i2c_write\<close> puts the byte on the wire: a slave that samples the data line at the rising edges
  of the clock reads the eight bits of the byte, the highest first, whatever the lines were before and
  whether or not it acknowledges; with \<open>start\<close> the first change is the fall of the data line, the clock
  kept, which is the start condition.\<close>

theorem i2c_write_sends:
  assumes "pins_read_back dev" "pins_ok s" "bit (last_write CHIPC_GPIOOUTEN (io_log s)) (sclpin s)"
  shows "\<exists>ws. outs (snd (i2c_write dev ch start stop s)) = outs s @ ws \<and>
    take 8 (slave_bits (sclpin s) (sdapin s) (last (0 # outs s)) ws) = map (\<lambda>i. bit ch (7 - i)) [0..<8] \<and>
    (start \<longrightarrow> \<not> bit (hd ws) (sdapin s) \<and> bit (hd ws) (sclpin s) = bit (last (0 # outs s)) (sclpin s))"
proof -
  let ?s1 = "setdir dev OUT s"
  let ?s2 = "if start then setsda dev LOW ?s1 else ?s1"
  let ?s3 = "fold (write_bit dev ch) [0..<8] (DELAY ?s2)"
  have d1: "driving ?s1" by (rule setdir_out [OF assms])
  obtain us where us: "outs ?s2 = outs s @ us" "driving ?s2" "sclpin ?s2 = sclpin s" "sdapin ?s2 = sdapin s"
    "us = [] \<and> \<not> start \<or> (\<exists>w. start \<and> us = [w] \<and> \<not> bit w (sdapin s) \<and>
       bit w (sclpin s) = bit (last (0 # outs s)) (sclpin s))"
  proof (cases start)
    case True
    obtain w where "outs ?s2 = outs s @ [w]" "driving ?s2" "sclpin ?s2 = sclpin s" "sdapin ?s2 = sdapin s"
      "\<not> bit w (sdapin s)" "bit w (sclpin s) = bit (last (0 # outs s)) (sclpin s)"
      using setsda_out [OF assms(1) d1, of LOW] True unfolding setdir_sel LOW_def by auto
    with True show ?thesis by (intro that [of "[w]"]) auto
  qed (use d1 in \<open>auto simp: setdir_sel intro: that\<close>)
  obtain vs where vs: "outs ?s3 = outs s @ us @ vs"
    "\<And>p. slave_bits (sclpin s) (sdapin s) p vs = map (\<lambda>i. bit ch (7 - i)) [0..<8]"
    using write_bits_out [OF assms(1), of "DELAY ?s2" "[0..<8]" ch] us(1-4) by (auto simp: DELAY_sel)
  have "adds ?s3 (snd (i2c_write dev ch start stop s))"
    using adds_tail [of ?s3 dev 1000 stop] by (simp only: i2c_write_def Let_def)
  then obtain xs where xs: "outs (snd (i2c_write dev ch start stop s)) = outs s @ us @ vs @ xs"
    using vs(1) by (auto simp: adds_def)
  have none: "slave_bits (sclpin s) (sdapin s) (last (0 # outs s)) us = []" using us(5) by auto
  show ?thesis
    by (rule exI [of _ "us @ vs @ xs"]) (use us(5) in \<open>auto simp: xs slave_bits_append none vs(2) simp del: upt_rec_numeral\<close>)
qed

text \<open>A device that reads the pins back, and the byte 0xa5 of clock pin 4, data pin 5.\<close>

definition wired :: device where
  "wired l a = (if a = CHIPC_GPIOOUTEN then last_write a l
     else if a = CHIPC_GPIOIN then last_write CHIPC_GPIOOUT l else 0)"

definition i2c_idle :: i2c where
  "i2c_idle = \<lparr>io_log = [Wr CHIPC_GPIOOUTEN 0x30, Wr CHIPC_GPIOOUT 0x30], cp0_sr = 0, cp0_cause = 0, irq_desc = [], ip_handler = [], exc_vectors = (\<lambda>_. None), sclpin = 4, sdapin = 5, udel = 5\<rparr>"

theorem i2c_write_sends_witness:
  "\<exists>ws. take 8 (slave_bits 4 5 0x30 ws) = [True, False, True, False, False, True, False, True] \<and>
     outs (snd (i2c_write wired 0xa5 True True i2c_idle)) = 0x30 # ws"
proof -
  have "pins_read_back wired"
    by (auto simp: pins_read_back_def wired_def gpio_addrs)
  moreover have "pins_ok i2c_idle" "bit (last_write CHIPC_GPIOOUTEN (io_log i2c_idle)) (sclpin i2c_idle)"
    by (simp_all add: pins_ok_def i2c_idle_def last_write_def reg_writes_ev gpio_addrs)
  moreover have "map (\<lambda>i. bit (0xa5 :: u8) (7 - i)) [0..<8] = [True, False, True, False, False, True, False, True]"
    by code_simp
  ultimately show ?thesis
    using i2c_write_sends [of wired i2c_idle "0xa5" True True]
    by (simp del: upt_rec_numeral add: i2c_idle_def outs_def reg_writes_ev gpio_addrs) blast
qed

end
