(* ===== verification/Bear.thy ===== *)
theory Bear
  imports Net Boot Xprintf
begin

text \<open>
  The HTTPS client of \<^verbatim>\<open>bear.c\<close> with the interrupt lock of theory \<open>Net\<close>. The TLS engine is not code of
  this repository: it is the parameter \<open>eng\<close>, which from a call and the state makes its integer result, the
  bytes it gives out and the state after (while it runs, it calls \<open>sock_read\<close> and \<open>sock_write\<close>, so it
  may change the connection). A wait for the console that never ends is \<open>None\<close>. The trust anchors of \<^verbatim>\<open>cacert.h\<close> are data handed to the engine.
\<close>

section \<open>The callbacks of the engine\<close>

text \<open>The comparison with \<^verbatim>\<open>len\<close>, a \<^verbatim>\<open>size_t\<close>, is unsigned.\<close>

definition sock_read :: "u32 \<Rightarrow> 'a net_scheme \<Rightarrow> int \<times> u8 list \<times> 'a net_scheme" where
  "sock_read n s =
     (if tcplen s \<noteq> 0 then
        let (sr, s) = cli s;
            rlen = sint (if (of_int (tcplen s) :: u32) > n then n else of_int (tcplen s));
            out = slice (nat (tcpoff s)) (nat rlen) (tcpbuff s);
            s = s\<lparr>tcplen := tcplen s - rlen\<rparr>;
            s = s\<lparr>tcpoff := tcpoff s + rlen\<rparr>
        in (rlen, out, sti sr s)
      else if 2 \<le> tcpstat s then (-1, [], s)
      else (0, [], s))"

definition sock_write :: "stack \<Rightarrow> u8 list \<Rightarrow> 'a net_scheme \<Rightarrow> int \<times> 'a net_scheme" where
  "sock_write st buf s = (int (length buf), my_tcp_write st buf s)"

section \<open>The client\<close>

datatype ssl_call =
    Br_client_init_full
  | Br_set_buffer nat
  | Br_client_reset "u8 list"
  | Br_sslio_init
  | Br_write_all "u8 list"
  | Br_flush
  | Br_read nat
  | Br_current_state
  | Br_last_error

type_synonym 's engine = "ssl_call \<Rightarrow> 's \<Rightarrow> int \<times> u8 list \<times> 's"

definition BR_SSL_CLOSED :: int where "BR_SSL_CLOSED = 1"

text \<open>The engine's state after a call whose result is ignored.\<close>

definition eng_do :: "'s engine \<Rightarrow> ssl_call \<Rightarrow> 's \<Rightarrow> 's" where
  "eng_do eng c s = snd (snd (eng c s))"

definition bear ::
  "'a net_scheme engine \<Rightarrow> device \<Rightarrow> nat \<Rightarrow> u8 list \<Rightarrow> u8 list \<Rightarrow> 'a net_scheme \<Rightarrow> 'a net_scheme option" where
  "bear eng dev bufsize host header s =
     (let s = eng_do eng Br_client_init_full s;
          s = eng_do eng (Br_set_buffer bufsize) s;
          (ok, _, s) = eng (Br_client_reset host) s
      in case (if ok = 0 then print dev (ascii ''br_ssl_client_reset error'') s else Some s) of
           None \<Rightarrow> None
         | Some s \<Rightarrow>
             (let s = eng_do eng Br_sslio_init s;
                  s = eng_do eng (Br_write_all header) s
              in Some (eng_do eng Br_flush s)))"

definition https_read :: "'s engine \<Rightarrow> nat \<Rightarrow> 's \<Rightarrow> int \<times> u8 list \<times> 's" where
  "https_read eng n s = eng (Br_read n) s"

definition https_close ::
  "'a net_scheme engine \<Rightarrow> 'a net_scheme \<Rightarrow> xio \<Rightarrow> ('a net_scheme \<times> xio) option" where
  "https_close eng s io =
     (let s = my_tcp_close s;
          (st, _, s) = eng Br_current_state s
      in if st = BR_SSL_CLOSED then
           let (err, _, s) = eng Br_last_error s
           in if err = 0 then Some (s, io)
              else map_option (Pair s) (xprintf (ascii ''SSL error %d'' @ [0x0a]) [VInt (of_int err)] io)
         else map_option (Pair s)
                (xprintf (ascii ''socket closed without proper SSL termination'' @ [0x0a]) [] io))"

definition https_connect ::
  "'a net_scheme engine \<Rightarrow> device \<Rightarrow> nat \<Rightarrow> stack \<Rightarrow> (nat \<Rightarrow> 'a net_scheme \<Rightarrow> 'a net_scheme) \<Rightarrow> u8 list
     \<Rightarrow> u32 list \<Rightarrow> int \<Rightarrow> u8 list \<Rightarrow> int \<Rightarrow> 'a net_scheme \<Rightarrow> (int \<times> 'a net_scheme) option" where
  "https_connect eng dev bufsize st irq host addr port header ty s =
     (case wait_irq (\<lambda>s. tcpstat s = 0) irq 0 (tcphttp_raw_init st addr port ty s) of None \<Rightarrow> None
      | Some s \<Rightarrow> if tcpstat s = 1 then map_option (Pair 1) (bear eng dev bufsize host header s)
                  else Some (0, s))"

text \<open>The digest is the engine library's function of the data.\<close>

definition mksha256 :: "(u8 list \<Rightarrow> u8 list) \<Rightarrow> u8 list \<Rightarrow> u8 list" where
  "mksha256 sha256 data = sha256 data"

section \<open>The callbacks and the stream\<close>

lemma small_word:
  assumes "0 \<le> i" "i < 0x80000000"
  shows "sint (of_int i :: u32) = i" "unat (of_int i :: u32) = nat i"
proof -
  have "- (2 ^ 31) \<le> i" "i < 2 ^ 31" using assms by simp_all
  then have "signed_take_bit 31 i = i" by (rule signed_take_bit_int_eq_self)
  then show "sint (of_int i :: u32) = i" by (simp add: sint_sbintrunc')
  show "unat (of_int i :: u32) = nat i" using assms by (simp add: unsigned_of_int take_bit_int_eq_self)
qed

text \<open>C37: The read callback of the TLS engine is the plain \<^verbatim>\<open>http_read\<close>, the lock it takes and its
  unsigned comparison included: the same bytes, result and state, the status register restored. So what
  holds of the connection as a stream holds of what the engine reads.\<close>

theorem sock_read_is_http_read:
  assumes "tcp_wf s" "length (tcpbuff s) < 0x80000000" "unat n < 0x80000000"
  shows "sock_read n s = http_read (int (unat n)) s"
proof (cases "tcplen s = 0")
  case False
  have t: "0 \<le> tcplen s" "tcplen s < 0x80000000" using assms(1,2) by (auto simp: tcp_wf_def)
  have c: "(of_int (tcplen s) > n) \<longleftrightarrow> tcplen s > int (unat n)"
    by (simp only: word_less_nat_alt small_word(2) [OF t]) (use t(1) in linarith)
  have n: "sint n = int (unat n)"
  proof -
    have "0 \<le> int (unat n)" "int (unat n) < 0x80000000" using assms(3) by linarith+
    from small_word(1) [OF this] show ?thesis by simp
  qed
  define r where "r = (if tcplen s > int (unat n) then int (unat n) else tcplen s)"
  have r: "sint (if (of_int (tcplen s) :: u32) > n then n else of_int (tcplen s)) = r"
    unfolding r_def c by (simp add: n small_word(1) [OF t])
  have "sock_read n s = (r, slice (nat (tcpoff s)) (nat r) (tcpbuff s), s\<lparr>tcplen := tcplen s - r, tcpoff := tcpoff s + r\<rparr>)"
    unfolding sock_read_def case_prod_beta Let_def lock_net r using False by (simp add: lock_net)
  also have "\<dots> = http_read (int (unat n)) s"
    unfolding http_read_eq Let_def r_def using False by (simp only: if_False)
  finally show ?thesis .
qed (simp add: sock_read_def http_read_eq)

theorem sock_read_is_http_read_witness:
  "\<exists>s t :: net. run_tcp [Segment [1, 2, 3]] (net_idle\<lparr>tcpbuff := replicate 6 0\<rparr>) = Some ([], s)
     \<and> sock_read 2 s = (2, [1, 2], t) \<and> waiting t = [3]"
proof -
  let ?s = "net_idle\<lparr>tcpbuff := replicate 6 0\<rparr>"
  obtain s where r: "run_tcp [Segment [1, 2, 3]] ?s = Some ([], s)"
    and f: "tcplen s = 3" "tcpoff s = 0" "tcpbuff s = [1, 2, 3, 0, 0, 0]"
    by (simp add: net_idle_def http_recv_def put_at_def ncall_def numeral_eq_Suc)
  have "sock_read 2 s = http_read (int (unat (2 :: u32))) s"
    by (rule sock_read_is_http_read) (simp_all add: f tcp_wf_def)
  moreover have "int (unat (2 :: u32)) = 2" by simp
  ultimately have "sock_read 2 s = http_read 2 s" by (simp only:)
  then have "sock_read 2 s = (2, [1, 2], s\<lparr>tcplen := 1, tcpoff := 2\<rparr>)"
    by (simp add: http_read_eq f slice_def eval_nat_numeral)
  with r show ?thesis by (intro exI conjI) (auto simp: waiting_def slice_def f numeral_eq_Suc)
qed

text \<open>The write callback reports every byte as written, but the stack is given only what its send
  buffer has room for; the rest of a TLS record is lost.\<close>

lemma sock_write_overreports:
  assumes "unat (st_sndbuf st (net_log s) (tcphttp_raw_pcb s)) < length buf"
  shows "fst (sock_write st buf s) = int (length buf)
    \<and> net_log (snd (sock_write st buf s)) = net_log s @
        [Tcp_write (tcphttp_raw_pcb s) (take (unat (st_sndbuf st (net_log s) (tcphttp_raw_pcb s))) buf),
         Tcp_output (tcphttp_raw_pcb s)]"
  using assms by (simp add: sock_write_def my_tcp_write_def ncall_def Let_def min_def)

end
