(* ===== verification/Syscalls.thy ===== *)
theory Syscalls
  imports Prelude
begin

text \<open>
  The system calls the C library needs, \<^verbatim>\<open>syscalls.c\<close>: the break of the heap, which begins at the linker's
  \<^verbatim>\<open>_end\<close>, and three stubs that return 0. (\<^verbatim>\<open>gettimeofday\<close> has an empty body and no result.)
\<close>

definition kill :: "int" where "kill = 0"
definition getpid :: "int" where "getpid = 0"
definition sys_exit :: "int" where "sys_exit = 0"

text \<open>The static \<^verbatim>\<open>heap_end\<close>: the address given out and the new end.\<close>

definition sbrk :: "u32 \<Rightarrow> addr \<Rightarrow> addr \<times> addr" where
  "sbrk incr heap_end = (let prev_heap_end = heap_end; heap_end = heap_end + incr in (prev_heap_end, heap_end))"

text \<open>A sequence of requests: the chunks given out and the end.\<close>

fun sbrks :: "u32 list \<Rightarrow> addr \<Rightarrow> (addr \<times> u32) list \<times> addr" where
  "sbrks [] e = ([], e)"
| "sbrks (n # ns) e = (let (p, e) = sbrk n e; (cs, e) = sbrks ns e in ((p, n) # cs, e))"

definition chunk :: "addr \<times> u32 \<Rightarrow> nat set" where
  "chunk = (\<lambda>(p, n). {unat p ..< unat p + unat n})"

lemma sbrks_chunks:
  "unat e + sum_list (map unat ns) < 2 ^ 32 \<Longrightarrow>
     sorted_wrt (\<lambda>c d. unat (fst c) + unat (snd c) \<le> unat (fst d)) (fst (sbrks ns e))
     \<and> (\<forall>c \<in> set (fst (sbrks ns e)). unat e \<le> unat (fst c))
     \<and> unat (snd (sbrks ns e)) = unat e + sum_list (map unat ns)"
proof (induction ns arbitrary: e)
  case (Cons n ns)
  obtain cs e' where r: "sbrks ns (e + n) = (cs, e')" by (metis prod.exhaust)
  have "unat (e + n) = unat e + unat n" using Cons.prems by (simp add: unat_word_ariths)
  moreover have "\<forall>c \<in> set cs. unat (e + n) \<le> unat (fst c)"
    using Cons.IH [of "e + n"] Cons.prems calculation r by simp
  ultimately have "\<forall>c \<in> set cs. unat e + unat n \<le> unat (fst c)" "\<forall>c \<in> set cs. unat e \<le> unat (fst c)" by auto
  then show ?case
    using Cons.IH [of "e + n"] Cons.prems \<open>unat (e + n) = _\<close> r by (simp add: sbrk_def Let_def)
qed simp

text \<open>As long as the heap does not reach the end of the address space the chunks do not overlap.\<close>

lemma sbrks_disjoint:
  assumes "unat e + sum_list (map unat ns) < 2 ^ 32" "i < j" "j < length (fst (sbrks ns e))"
  shows "chunk (fst (sbrks ns e) ! i) \<inter> chunk (fst (sbrks ns e) ! j) = {}"
  using sorted_wrt_nth_less [OF sbrks_chunks [OF assms(1), THEN conjunct1] assms(2,3)]
  by (auto simp: chunk_def split: prod.splits)

text \<open>Nothing keeps the heap from the stack, which grows down from \<^verbatim>\<open>0x80800000\<close>: a request that fits the
  address space is granted.\<close>

lemma sbrk_meets_stack: "fst (sbrk 0x800000 0x80100000) = 0x80100000 \<and> 0x80800000 < snd (sbrk 0x800000 0x80100000)"
  by (simp add: sbrk_def)

end
