(* ===== verification/Startup.thy ===== *)
theory Startup
  imports Boot CfeApi Exc Timer Nvram Mt
begin

text \<open>
  The start of the program: \<^verbatim>\<open>main\<close> of \<^verbatim>\<open>main.c\<close>, which puts the other parts together, with the move of the
  stack in \<^verbatim>\<open>start.S\<close>. Parameters are what lies outside the sources: the devices, the firmware, flash,
  the addresses the linker gives, the answers of the allocators, the digest of BearSSL and the interpreter.
\<close>

section \<open>Moving the stack\<close>

text \<open>\<^verbatim>\<open>relocsp\<close> of \<^verbatim>\<open>start.S\<close>: the words from the stack pointer to the old top are copied upwards, one
  after the other; the comparison is signed.\<close>

partial_function (option) reloc_copy :: "addr \<Rightarrow> addr \<Rightarrow> (addr \<Rightarrow> u32) \<Rightarrow> (addr \<Rightarrow> u32) option" where
  "reloc_copy r8 r10 m =
     (if r8 + 4 <s 0x80800000 then reloc_copy (r8 + 4) (r10 + 4) (m(r10 := m r8)) else Some (m(r10 := m r8)))"

definition relocsp :: "u32 \<Rightarrow> addr \<Rightarrow> (addr \<Rightarrow> u32) \<Rightarrow> (addr \<times> (addr \<Rightarrow> u32)) option" where
  "relocsp a0 sp m = map_option (Pair (sp + a0)) (reloc_copy sp (sp + a0) m)"

section \<open>The whole machine\<close>

record 'f system =
  sys_cfe :: "'f cfe_client"
  sys_nv :: nvram
  sys_mt :: mt_state
  sys_exc :: exc
  sys_timer :: timer
  sys_clocks :: cfe_clocks
  sys_sp :: addr
  sys_stack :: "addr \<Rightarrow> u32"

text \<open>The processor state is that of \<open>sys_exc\<close>; the code of the timer sees it with its own variables.\<close>

definition timer_view :: "exc \<Rightarrow> timer \<Rightarrow> timer" where
  "timer_view e t = machine.extend (machine.truncate e)
     (timer.fields (alarm t) (interval t) (starttime t) (jiffies t) (wdticks t) (wdcount t) (cp0_compare t))"

definition exc_view :: "timer \<Rightarrow> exc \<Rightarrow> exc" where
  "exc_view t e = machine.extend (machine.truncate t)
     (exc.fields (lowmem e) (exc_q e) (catch_exc e) (kfreed e) (con e))"

record 'f plat =
  p_dev :: device
  p_fw :: "'f firmware"
  p_blk :: cfe_xiocb_t
  p_name :: addr
  p_str :: addr
  p_mem :: u64
  p_flash :: "addr \<Rightarrow> u8"
  p_nvalloc :: "nat \<Rightarrow> addr"
  p_version :: "u8 list"
  p_release :: "u32 \<times> u32 \<times> u32"
  p_put :: addr
  p_isr :: addr
  p_stk :: addr
  p_gp :: u32
  p_tlbh :: addr
  p_entry :: addr
  p_irqalloc :: bool
  p_clk :: u32
  p_ticks :: "nat \<Rightarrow> u32"
  p_ver :: "u8 list"
  p_malloc :: "u32 \<Rightarrow> bool"
  p_sha :: "u8 list \<Rightarrow> u8 list"
  p_mrb :: "u8 list \<Rightarrow> 'f system \<Rightarrow> u8 list option \<times> 'f system"

section \<open>The main program\<close>

definition sys_say :: "u8 list \<Rightarrow> va_item list \<Rightarrow> 'f system \<Rightarrow> 'f system option" where
  "sys_say fmt arp s = map_option (\<lambda>e. s\<lparr>sys_exc := e\<rparr>) (say fmt arp (sys_exc s))"

definition sys_print :: "device \<Rightarrow> u8 list \<Rightarrow> 'f system \<Rightarrow> 'f system option" where
  "sys_print dev str s = map_option (\<lambda>e. s\<lparr>sys_exc := e\<rparr>) (print dev str (sys_exc s))"

definition mem_fmt :: "u8 list" where "mem_fmt = ascii ''Mem : %x'' @ [0x0a]"
definition sp_fmt :: "u8 list" where "sp_fmt = ascii ''SP : %x'' @ [0x0a]"
definition con_fmt :: "u8 list" where "con_fmt = ascii ''BOOT_CONSOLE : %s'' @ [0x0a]"
definition size_fmt :: "u8 list" where "size_fmt = ascii ''MRB SIZE %d'' @ [0x0a]"
definition sha_fmt :: "u8 list" where "sha_fmt = ascii ''MRB SHA256 ''"
definition hex_fmt :: "u8 list" where "hex_fmt = ascii ''%02x''"

text \<open>The variables, the firmware and the console, as far as the message about the console. A string is
  read from memory up to its terminator.\<close>

definition main_stack :: "u32 \<Rightarrow> 'f system \<Rightarrow> 'f system option" where
  "main_stack tomem s =
     (if 0x800000 < sint tomem then
        (case relocsp (tomem - 0x800000) (sys_sp s) (sys_stack s) of None \<Rightarrow> None
         | Some (sp, m) \<Rightarrow> sys_say sp_fmt [VInt sp] (s\<lparr>sys_sp := sp, sys_stack := m\<rparr>))
      else Some s)"

definition main_console :: "'f plat \<Rightarrow> 'f system \<Rightarrow> 'f system option" where
  "main_console p s =
     (case cfe_getenv (p_fw p) (p_blk p) (p_name p) (p_str p) 100 (sys_cfe s) of None \<Rightarrow> None
      | Some (_, c) \<Rightarrow>
          (case cfe_strlen (p_str p) c of None \<Rightarrow> None
           | Some n \<Rightarrow> sys_say con_fmt [VStr (mem_at (cfe_mem c) (p_str p) (unat n))] (s\<lparr>sys_cfe := c\<rparr>)))"

definition main_firmware :: "'f plat \<Rightarrow> u64 \<Rightarrow> u64 \<Rightarrow> 'f system \<Rightarrow> 'f system option" where
  "main_firmware p handle ept s =
     (let s = s\<lparr>sys_cfe := snd (cfe_init handle ept (sys_cfe s))\<rparr>
      in case nvram_init (p_flash p) (p_nvalloc p) (0xa0000000 + 0x1C000000 + 0x003F8000) 0x8000 (sys_nv s) of
           None \<Rightarrow> None
         | Some (_, nv) \<Rightarrow>
             let s = s\<lparr>sys_nv := nv, sys_mt := mt19937ar_init (sys_mt s)\<rparr>;
                 s = s\<lparr>sys_exc := (sys_exc s)\<lparr>con := (con (sys_exc s))\<lparr>xfunc_out := p_put p\<rparr>\<rparr>\<rparr>
             in case p_release p of (a, b, c) \<Rightarrow>
                (case sys_say (p_version p) [VInt a, VInt b, VInt c] s of None \<Rightarrow> None
                 | Some s \<Rightarrow>
                     let (_, info, c) = cfe_getfwinfo (p_fw p) (p_blk p) (sys_cfe s);
                         tomem = lo32 (case info of None \<Rightarrow> p_mem p | Some f \<Rightarrow> f ! 1)
                     in case sys_say mem_fmt [VInt tomem] (s\<lparr>sys_cfe := c\<rparr>) of None \<Rightarrow> None
                        | Some s \<Rightarrow> (case main_stack tomem s of None \<Rightarrow> None | Some s \<Rightarrow> main_console p s)))"

text \<open>Exceptions, interrupts and the timer. \<open>None\<close> if the clock cannot be found.\<close>

definition main_interrupts :: "'f plat \<Rightarrow> 'f system \<Rightarrow> 'f system option" where
  "main_interrupts p s =
     (let e = cfe_setup_exceptions (p_stk p) (p_gp p) (p_tlbh p) (p_entry p) (sys_exc s);
          e = cfe_irq_init e
      in case timer_init (p_dev p) (p_irqalloc p) (p_clk p) (p_isr p) (p_ticks p) 0 (timer_view e (sys_timer s)) of
           None \<Rightarrow> None
         | Some (c, _, t) \<Rightarrow> Some (s\<lparr>sys_exc := exc_view t e, sys_timer := t, sys_clocks := c\<rparr>))"

text \<open>The bytecode, its digest, the interpreter and its uncaught exception.\<close>

definition main_hash :: "'f plat \<Rightarrow> u8 list \<Rightarrow> 'f system \<Rightarrow> 'f system option" where
  "main_hash p mrbbuf s =
     (case sys_say size_fmt [VInt (of_nat (length mrbbuf))] s of None \<Rightarrow> None
      | Some s \<Rightarrow>
          (let hash = p_sha p mrbbuf
           in case sys_say sha_fmt [] s of None \<Rightarrow> None
              | Some s \<Rightarrow>
                  (case foldl (\<lambda>r i. case r of None \<Rightarrow> None | Some s \<Rightarrow> sys_say hex_fmt [VInt (ucast (hash ! i))] s)
                          (Some s) [0..<4] of None \<Rightarrow> None
                   | Some s \<Rightarrow> sys_say [0x0a] [] s)))"

definition main_run :: "'f plat \<Rightarrow> u8 list \<Rightarrow> 'f system \<Rightarrow> 'f system option" where
  "main_run p mrbbuf s =
     (case p_mrb p mrbbuf s of (None, s) \<Rightarrow> Some s | (Some msg, s) \<Rightarrow> sys_print (p_dev p) msg s)"

definition main_boot :: "'f plat \<Rightarrow> 'f system \<Rightarrow> 'f system option" where
  "main_boot p s =
     (let (b5354, e) = isbcm5354 (p_dev p) (sys_exc s);
          s = s\<lparr>sys_exc := e\<rparr>
      in case boot_select b5354 (p_flash p) (p_ver p) (p_malloc p) of None \<Rightarrow> None
         | Some No_code \<Rightarrow> sys_print (p_dev p) (ascii ''can't find mrb code on flash'' @ [0x0a]) s
         | Some Version_mismatch \<Rightarrow> sys_print (p_dev p) (ascii ''mrb vm version is mismatch'' @ [0x0a]) s
         | Some (Mrb mrbbuf) \<Rightarrow>
             (case main_hash p mrbbuf s of None \<Rightarrow> None | Some s \<Rightarrow> main_run p mrbbuf s))"

definition main_prog :: "'f plat \<Rightarrow> u64 \<Rightarrow> u64 \<Rightarrow> 'f system \<Rightarrow> (int \<times> 'f system) option" where
  "main_prog p handle ept s =
     (case main_firmware p handle ept s of None \<Rightarrow> None
      | Some s \<Rightarrow>
          (case main_interrupts p s of None \<Rightarrow> None
           | Some s \<Rightarrow> map_option (Pair 0) (main_boot p s)))"

section \<open>The stack moves\<close>

fun copy_up :: "nat \<Rightarrow> addr \<Rightarrow> addr \<Rightarrow> (addr \<Rightarrow> u32) \<Rightarrow> addr \<Rightarrow> u32" where
  "copy_up 0 a b m = m"
| "copy_up (Suc n) a b m = copy_up n (a + 4) (b + 4) (m(b := m a))"

definition word_at :: "addr \<Rightarrow> nat \<Rightarrow> addr" where "word_at a i = a + 4 * of_nat i"

lemma word_at_simps [simp]: "word_at a 0 = a" "word_at (a + 4) i = word_at a (Suc i)"
  by (simp_all add: word_at_def algebra_simps)

lemma word_at_neq: "i < n \<Longrightarrow> j < n \<Longrightarrow> n \<le> 0x200000 \<Longrightarrow> i \<noteq> j \<Longrightarrow> word_at a i \<noteq> word_at a j"
proof
  assume n: "i < n" "j < n" "n \<le> 0x200000" "i \<noteq> j" and e: "word_at a i = word_at a j"
  have "unat (4 * of_nat k :: u32) = 4 * k" if "k < n" for k
    using that n(3) by (simp add: unat_word_ariths unat_of_nat take_bit_nat_eq_self)
  then show False using e n by (simp add: word_at_def) (metis mult_cancel1 zero_neq_numeral)
qed

lemma copy_up_frame: "\<forall>k < n. x \<noteq> word_at b k \<Longrightarrow> copy_up n a b m x = m x"
proof (induction n arbitrary: a b m)
  case (Suc n)
  have "\<forall>k < n. x \<noteq> word_at (b + 4) k" "x \<noteq> b"
    using Suc.prems [rule_format, of "Suc _"] Suc.prems [rule_format, of 0] by simp_all
  then show ?case by (simp add: Suc.IH)
qed simp

lemma copy_up_nth:
  assumes "n \<le> 0x200000" "\<forall>i < n. \<forall>j < n. word_at a i \<noteq> word_at b j"
  shows "i < n \<Longrightarrow> copy_up n a b m (word_at b i) = m (word_at a i)"
  using assms
proof (induction n arbitrary: a b m i)
  case (Suc n)
  have d: "\<forall>k < n. b \<noteq> word_at (b + 4) k" using word_at_neq [of 0 "Suc n" "Suc _" b] Suc.prems(2) by simp
  have far: "word_at a (Suc k) \<noteq> word_at b (Suc l)" "word_at a (Suc k) \<noteq> b" if "k < n" "l < n" for k l
    using Suc.prems(3) that by (fastforce, metis Suc_less_eq word_at_simps(1) zero_less_Suc)
  show ?case
  proof (cases i)
    case 0
    then show ?thesis using d by (simp add: copy_up_frame)
  next
    case (Suc j)
    then have j: "j < n" using Suc.prems(1) by simp
    have "copy_up n (a + 4) (b + 4) (m(b := m a)) (word_at (b + 4) j) = (m(b := m a)) (word_at (a + 4) j)"
      using Suc.prems(2) far j by (intro Suc.IH) auto
    then show ?thesis using Suc far(2) [OF j j] by simp
  qed
qed simp

text \<open>The addresses of the loop as signed numbers: below the old top, which the signed comparison sees.\<close>

lemma below_top:
  assumes "n \<le> 0x200000"
  shows "(0x80800000 - 4 * of_nat n + 4 <s (0x80800000 :: u32)) = (1 < n)"
proof -
  have s: "sint (0x80000000 + of_int k :: u32) = k - 0x80000000" if "0 \<le> k" "k \<le> 0x800004" for k :: int
  proof -
    have e: "(0x80000000 + of_int k :: u32) = of_int (k - 0x80000000)" by simp
    have "- (2 ^ 31) \<le> k - 0x80000000" "k - 0x80000000 < 2 ^ 31" using that by simp_all
    then have "signed_take_bit 31 (k - 0x80000000) = k - 0x80000000" by (rule signed_take_bit_int_eq_self)
    moreover have "LENGTH(32) - 1 = 31" by simp
    ultimately show ?thesis by (simp only: e sint_sbintrunc')
  qed
  have e1: "(0x80800000 - 4 * of_nat n + 4 :: u32) = 0x80000000 + of_int (0x800004 - 4 * int n)" by simp
  have e2: "(0x80800000 :: u32) = 0x80000000 + of_int 0x800000" by simp
  have r: "0 \<le> 0x800004 - 4 * int n" "0x800004 - 4 * int n \<le> 0x800004" using assms by simp_all
  have t: "sint (0x80000000 + of_int 0x800000 :: u32) = 0x800000 - 0x80000000" by (rule s) simp_all
  have "(0x80800000 - 4 * of_nat n + 4 <s (0x80800000 :: u32))
      = (0x800004 - 4 * int n - 0x80000000 < 0x800000 - 0x80000000)"
    unfolding word_sless_alt e1 by (subst e2) (simp only: s [OF r] t)
  then show ?thesis by auto
qed

lemma reloc_copy_eq:
  "0 < n \<Longrightarrow> n \<le> 0x200000 \<Longrightarrow> reloc_copy (0x80800000 - 4 * of_nat n) b m = Some (copy_up n (0x80800000 - 4 * of_nat n) b m)"
proof (induction n arbitrary: b m)
  case (Suc n)
  define a where "a = (0x80800000 - 4 * of_nat (Suc n) :: addr)"
  have a: "a + 4 = 0x80800000 - 4 * of_nat n" by (simp add: a_def algebra_simps)
  have c: "(a + 4 <s 0x80800000) = (0 < n)" using below_top [OF Suc.prems(2)] by (simp add: a_def)
  show ?case
  proof (cases "n = 0")
    case True
    then show ?thesis by (subst reloc_copy.simps) (use c in \<open>simp add: a_def [symmetric]\<close>)
  next
    case False
    have "reloc_copy a b m = reloc_copy (a + 4) (b + 4) (m(b := m a))"
      by (subst reloc_copy.simps) (use c False in simp)
    also have "\<dots> = Some (copy_up n (a + 4) (b + 4) (m(b := m a)))"
      unfolding a by (rule Suc.IH) (use False Suc.prems(2) in simp_all)
    finally show ?thesis by (simp add: a_def)
  qed
qed simp

text \<open>C27: When more memory than 8 MB is found and the stack in use is no longer than the distance, the routine
  returns, the stack pointer is moved by the distance, every word of the stack is at its new place and
  nothing else in memory has changed.\<close>

theorem relocsp_moves_stack:
  assumes "0 < n" "n \<le> 0x200000" "sp = 0x80800000 - 4 * of_nat n" "4 * n \<le> unat d" "unat d \<le> 0x7f800000"
  shows "\<exists>m'. relocsp d sp m = Some (sp + d, m') \<and>
     (\<forall>i < n. m' (sp + d + 4 * of_nat i) = m (sp + 4 * of_nat i)) \<and>
     (\<forall>x. (\<forall>i < n. x \<noteq> sp + d + 4 * of_nat i) \<longrightarrow> m' x = m x)"
proof -
  have far: "word_at sp i \<noteq> word_at (sp + d) j" if "i < n" "j < n" for i j
  proof
    assume "word_at sp i = word_at (sp + d) j"
    then have e: "4 * of_nat i = d + (4 * of_nat j :: u32)" by (simp add: word_at_def)
    have "unat (4 * of_nat k :: u32) = 4 * k" if "k < n" for k
      using that assms(2) by (simp add: unat_word_ariths unat_of_nat take_bit_nat_eq_self)
    then have "unat (d + 4 * of_nat j) = unat d + 4 * j" "unat (4 * of_nat i :: u32) = 4 * i"
      using that assms(2,5) by (simp_all add: unat_word_ariths(1))
    with e show False using that assms(4) by simp
  qed
  have "relocsp d sp m = Some (sp + d, copy_up n sp (sp + d) m)"
    using reloc_copy_eq [OF assms(1,2)] by (simp add: relocsp_def assms(3))
  then show ?thesis
    using copy_up_nth [OF assms(2), of sp "sp + d"] far copy_up_frame [of n _ "sp + d" sp m]
    by (intro exI [of _ "copy_up n sp (sp + d) m"]) (simp flip: word_at_def)
qed

theorem relocsp_moves_stack_witness:
  "\<exists>m'. relocsp 0x800000 0x807ffff4 (\<lambda>a. a) = Some (0x80fffff4, m') \<and> m' 0x80fffff8 = 0x807ffff8 \<and> m' 0 = 0"
proof -
  obtain m' where r: "relocsp 0x800000 0x807ffff4 (\<lambda>a. a) = Some (0x807ffff4 + 0x800000, m')"
    and c: "\<forall>i < 3. m' (0x807ffff4 + 0x800000 + 4 * of_nat i) = 0x807ffff4 + 4 * of_nat i"
    and f: "\<forall>x. (\<forall>i < 3. x \<noteq> 0x807ffff4 + 0x800000 + 4 * of_nat i) \<longrightarrow> m' x = x"
    using relocsp_moves_stack [of 3 "0x807ffff4" "0x800000" "\<lambda>a. a"] by auto
  have "\<forall>i < 3. (0 :: addr) \<noteq> 0x807ffff4 + 0x800000 + 4 * of_nat i" by (auto simp: less_Suc_eq numeral_3_eq_3)
  with f have "m' 0 = 0" by blast
  with r c [rule_format, of 1] show ?thesis by (intro exI [of _ m']) simp
qed

text \<open>A memory only a little larger than 8 MB: the copy runs over its own source, and every word of the
  new stack is the lowest word of the old one.\<close>

lemma relocsp_overlap: "\<exists>m'. relocsp 4 0x807ffff4 (\<lambda>a. a) = Some (0x807ffff8, m') \<and> m' 0x80800000 = 0x807ffff4"
proof -
  have "reloc_copy 0x807ffff4 0x807ffff8 (\<lambda>a. a) = Some (copy_up 3 0x807ffff4 0x807ffff8 (\<lambda>a. a))"
    using reloc_copy_eq [of 3 "0x807ffff8" "\<lambda>a. a"] by simp
  moreover have "copy_up 3 0x807ffff4 0x807ffff8 (\<lambda>a. a) 0x80800000 = 0x807ffff4"
    by (simp add: numeral_3_eq_3)
  ultimately show ?thesis by (simp add: relocsp_def)
qed

section \<open>The views\<close>

lemma timer_view_sel [simp]:
  "io_log (timer_view e t) = io_log e" "cp0_sr (timer_view e t) = cp0_sr e" "cp0_cause (timer_view e t) = cp0_cause e"
  "irq_desc (timer_view e t) = irq_desc e" "ip_handler (timer_view e t) = ip_handler e"
  "exc_vectors (timer_view e t) = exc_vectors e"
  by (simp_all add: timer_view_def machine.defs timer.defs)

lemma exc_view_sel [simp]:
  "io_log (exc_view t e) = io_log t" "cp0_sr (exc_view t e) = cp0_sr t" "cp0_cause (exc_view t e) = cp0_cause t"
  "irq_desc (exc_view t e) = irq_desc t" "ip_handler (exc_view t e) = ip_handler t"
  "exc_vectors (exc_view t e) = exc_vectors t"
  "lowmem (exc_view t e) = lowmem e" "exc_q (exc_view t e) = exc_q e" "catch_exc (exc_view t e) = catch_exc e"
  "con (exc_view t e) = con e"
  by (simp_all add: exc_view_def machine.defs exc.defs)

lemma irq_init_sel:
  fixes e :: "'a exc_scheme"
  shows "irq_desc (cfe_irq_init e) = replicate 8 \<lparr>actions = [], depth = 0, status = IRQ_DISABLED\<rparr>"
    "ip_handler (cfe_irq_init e) = replicate 8 NULL"
    "exc_vectors (cfe_irq_init e) = (exc_vectors e)(XTYPE_INTERRUPT \<mapsto> Bcmcore_irq_demux)"
    "cp0_sr (cfe_irq_init e) = (cp0_sr e AND NOT M_SR_IMMASK) OR M_SR_IE"
    "cp0_cause (cfe_irq_init e) = cp0_cause e OR M_CAUSE_IV"
    "lowmem (cfe_irq_init e) = lowmem e" "con (cfe_irq_init e) = con e" "io_log (cfe_irq_init e) = io_log e"
  by (simp_all add: cfe_irq_init_def bcmcore_irq_vectorinit_def bcmcore_irq_arm_def exc_setvector_def Let_def)

section \<open>The timer on a 5354\<close>

definition timer_action :: "addr \<Rightarrow> irq_action_t" where
  "timer_action isr = \<lparr>act_handler = isr, act_arg = 0, act_flags = CFE_IRQ_FLAGS_SHARED, act_device = 0\<rparr>"

text \<open>Interrupt 5 is level 7 on every chip and mapping it reads nothing.\<close>

lemma map_irq_5: "bcmcore_map_irq dev 5 s = (7, s)" "irq_level dev 5 s = 7" "map_log dev 5 s = io_log s"
  by (simp_all add: bcmcore_map_irq_def irq_level_def map_log_def)

lemma enable_irq_5:
  "cfe_enable_irq dev 5 s = s\<lparr>irq_desc := (irq_desc s)[7 := desc_up (irq_desc s ! 7)],
     cp0_sr := (if depth (irq_desc s ! 7) = 0 then cp0_sr s OR level_mask 7 else cp0_sr s)\<rparr>"
  by (simp add: cfe_enable_irq_eq map_irq_5 Let_def)

lemma or_level_clear: "(x AND NOT (level_mask i)) OR level_mask i = x OR level_mask i"
  by (rule bit_word_eqI) (auto simp: bit_or_iff bit_and_iff bit_not_iff)

lemma request_irq_5:
  assumes "isr \<noteq> NULL" "irq_desc s = replicate 8 \<lparr>actions = [], depth = 0, status = IRQ_DISABLED\<rparr>"
  shows "cfe_request_irq dev True 5 isr 0 CFE_IRQ_FLAGS_SHARED 0 s = Some (0,
    s\<lparr>irq_desc := (irq_desc s)[7 := \<lparr>actions = [timer_action isr], depth = 1, status = 0\<rparr>],
      cp0_sr := cp0_sr s OR level_mask 7\<rparr>)"
  using assms
  by (simp add: cfe_request_irq_def map_irq_5 Let_def cfe_irq_disable_def cfe_irq_enable_def enable_irq_5 desc_up_def
      timer_action_def IRQ_DISABLED_def or_level_clear)

lemma timer_init_5354:
  assumes "\<And>l. dev l (PHYS_TO_K1 SB_CHIPC_BASE) AND 0xffff = 0x5354" "isr \<noteq> NULL"
    and "irq_desc s = replicate 8 \<lparr>actions = [], depth = 0, status = IRQ_DISABLED\<rparr>"
  shows "\<exists>l c. timer_init dev True junk isr g n s = Some (c, n + 2, s\<lparr>io_log := l, interval := 1200000,
     irq_desc := (irq_desc s)[7 := \<lparr>actions = [timer_action isr], depth = 2, status = 0\<rparr>],
     cp0_sr := cp0_sr s OR level_mask 7, alarm := g (n + 1) + 1200000, cp0_compare := g (n + 1) + 1200000\<rparr>)"
proof -
  define l where "l = io_log s @ [Rd (PHYS_TO_K1 SB_CHIPC_BASE) (dev (io_log s) (PHYS_TO_K1 SB_CHIPC_BASE))]"
  have b: "isbcm5354 dev s = (True, s\<lparr>io_log := l\<rparr>)"
    unfolding l_def using assms(1) by (intro prod_eqI) (simp_all add: io_simps)
  have i: "(of_int (sint (240 * 1000 * 1000 :: u32) sdiv 2 sdiv 100) :: u32) = 1200000" by simp
  have r: "irq_desc (s\<lparr>io_log := l, interval := 1200000\<rparr>) = replicate 8 \<lparr>actions = [], depth = 0, status = IRQ_DISABLED\<rparr>"
    by (simp add: assms(3))
  show ?thesis
    unfolding timer_init_def b Let_def prod.case if_True option.case i cfe_timer_init_def request_irq_5 [OF assms(2) r]
    by (intro exI) (simp add: enable_irq_5 assms(3) desc_up_def setalarm_def Let_def)
qed

section \<open>Interrupts after the start\<close>

lemma dispatch_none: "(\<And>i. i \<in> set is \<Longrightarrow> i < 8 \<and> \<not> bit pending (8 + i)) \<Longrightarrow>
    foldl (\<lambda>s i. dispatch_level run pending i s) s is = s"
  by (induction "is" arbitrary: s) (simp_all add: dispatch_level_def level_mask_and_eq_0)

lemma demux_only_level_7:
  assumes "ip_handler s ! 7 = NULL" "actions (irq_desc s ! 7) = [timer_action isr]" "isr \<noteq> NULL"
    and "\<And>i. i < 7 \<Longrightarrow> \<not> bit sr (8 + i)" "bit sr 15"
  shows "bcmcore_irq_demux run cause sr s = (if bit cause 15 then run isr 0 s else s)"
proof -
  have l: "rev [0..<8] = 7 # rev [0..<7 :: nat]" by (simp add: eval_nat_numeral)
  have p: "((cause AND sr) AND level_mask 7 = 0) \<longleftrightarrow> \<not> bit cause 15"
    using level_mask_and_eq_0 [of 7 "cause AND sr"] assms(5) by (simp add: bit_and_iff del: and.assoc)
  have d: "dispatch_level run (cause AND sr) 7 s = (if bit cause 15 then run isr 0 s else s)"
    unfolding dispatch_level_def p using assms(1-3) by (simp add: timer_action_def)
  show ?thesis
    unfolding bcmcore_irq_demux_def Let_def l foldl_Cons d
    by (rule dispatch_none) (use assms(4) in \<open>auto simp: bit_and_iff\<close>)
qed

lemma sr_after_start:
  fixes sr :: u32
  defines "r \<equiv> (((sr AND NOT M_SR_BEV) AND NOT M_SR_IMMASK) OR M_SR_IE) OR level_mask 7"
  shows "bit r 0" "i < 9 \<Longrightarrow> bit r (8 + i) = (i = 7)" "\<not> bit r 22"
proof -
  have m: "push_bit 9 1 - 1 = (mask 9 :: u32)" by (simp add: mask_eq_exp_minus_1 push_bit_eq_mult)
  have im: "bit M_SR_IMMASK n \<longleftrightarrow> 8 \<le> n \<and> n < 17" for n
    unfolding M_SR_IMMASK_def MAKEMASK_def S_SR_IMMASK_def m bit_push_bit_iff bit_mask_iff possible_bit_word by auto
  have ie: "bit M_SR_IE n \<longleftrightarrow> n = 0" for n by (simp add: M_SR_IE_def MAKEMASK1_def bit_1_iff)
  have bev: "bit M_SR_BEV 22" unfolding M_SR_BEV_def MAKEMASK1_def bit_push_bit_iff by simp
  have lm: "bit (level_mask 7) n \<longleftrightarrow> n = 15" for n using bit_level_mask [of 7 n] by simp
  show "bit r 0" unfolding r_def bit_or_iff ie by simp
  show "\<not> bit r 22" unfolding r_def bit_or_iff bit_and_iff bit_not_iff ie lm using bev by simp
  show "i < 9 \<Longrightarrow> bit r (8 + i) = (i = 7)" unfolding r_def bit_or_iff bit_and_iff bit_not_iff ie lm im by auto
qed

text \<open>The state \<^verbatim>\<open>main\<close> has reached behind \<^verbatim>\<open>timer_init\<close>.\<close>

definition ticking :: "'f plat \<Rightarrow> 'f system \<Rightarrow> bool" where
  "ticking p s \<longleftrightarrow>
     bit (cp0_sr (sys_exc s)) 0 \<and> (\<forall>i < 9. bit (cp0_sr (sys_exc s)) (8 + i) = (i = 7)) \<and>
     \<not> bit (cp0_sr (sys_exc s)) 22 \<and> bit (cp0_cause (sys_exc s)) 23 \<and>
     vector_at (lowmem (sys_exc s)) (PHYS_TO_K0 MIPS_RAM_VEC_INTERRUPT) (p_entry p) XTYPE_INTERRUPT \<and>
     exc_entry_handler XTYPE_INTERRUPT (sys_exc s) = Some Bcmcore_irq_demux \<and>
     ip_handler (sys_exc s) ! 7 = NULL \<and> actions (irq_desc (sys_exc s) ! 7) = [timer_action (p_isr p)] \<and>
     interval (sys_timer s) = 1200000 \<and> alarm (sys_timer s) = p_ticks p 1 + interval (sys_timer s) \<and>
     cp0_compare (sys_timer s) = alarm (sys_timer s)"

lemma interrupts_ticking:
  assumes "\<And>l. p_dev p l (PHYS_TO_K1 SB_CHIPC_BASE) AND 0xffff = 0x5354" "p_irqalloc p" "p_isr p \<noteq> NULL"
  shows "\<exists>s'. main_interrupts p s = Some s' \<and> ticking p s' \<and> sys_cfe s' = sys_cfe s \<and> sys_nv s' = sys_nv s
    \<and> sys_mt s' = sys_mt s"
proof -
  define e where "e = cfe_setup_exceptions (p_stk p) (p_gp p) (p_tlbh p) (p_entry p) (sys_exc s)"
  have i: "irq_desc (timer_view (cfe_irq_init e) (sys_timer s)) = replicate 8 \<lparr>actions = [], depth = 0, status = IRQ_DISABLED\<rparr>"
    by (simp add: irq_init_sel)
  obtain l c where t: "timer_init (p_dev p) True (p_clk p) (p_isr p) (p_ticks p) 0 (timer_view (cfe_irq_init e) (sys_timer s))
      = Some (c, 0 + 2, timer_view (cfe_irq_init e) (sys_timer s)\<lparr>io_log := l, interval := 1200000,
          irq_desc := (irq_desc (timer_view (cfe_irq_init e) (sys_timer s)))[7 := \<lparr>actions = [timer_action (p_isr p)], depth = 2, status = 0\<rparr>],
          cp0_sr := cp0_sr (timer_view (cfe_irq_init e) (sys_timer s)) OR level_mask 7,
          alarm := p_ticks p (0 + 1) + 1200000, cp0_compare := p_ticks p (0 + 1) + 1200000\<rparr>)"
    using timer_init_5354 [where dev = "p_dev p", OF assms(1,3) i, of "p_clk p" "p_ticks p" 0] by blast
  define t' where "t' = timer_view (cfe_irq_init e) (sys_timer s)\<lparr>io_log := l, interval := 1200000,
          irq_desc := (irq_desc (timer_view (cfe_irq_init e) (sys_timer s)))[7 := \<lparr>actions = [timer_action (p_isr p)], depth = 2, status = 0\<rparr>],
          cp0_sr := cp0_sr (timer_view (cfe_irq_init e) (sys_timer s)) OR level_mask 7,
          alarm := p_ticks p (0 + 1) + 1200000, cp0_compare := p_ticks p (0 + 1) + 1200000\<rparr>"
  define s' where "s' = s\<lparr>sys_exc := exc_view t' (cfe_irq_init e), sys_timer := t', sys_clocks := c\<rparr>"
  have r: "main_interrupts p s = Some s'"
    using t assms(2) by (simp add: main_interrupts_def Let_def s'_def t'_def flip: e_def)
  have sr: "cp0_sr (sys_exc s') = (((cp0_sr (sys_exc s) AND NOT M_SR_BEV) AND NOT M_SR_IMMASK) OR M_SR_IE) OR level_mask 7"
    by (simp add: s'_def t'_def irq_init_sel e_def setup_exceptions_sel del: and.assoc or.assoc)
  have srb: "i < 9 \<Longrightarrow> bit (cp0_sr (sys_exc s')) (8 + i) = (i = 7)" for i unfolding sr by (rule sr_after_start(2))
  have iv: "bit M_CAUSE_IV 23" unfolding M_CAUSE_IV_def MAKEMASK1_def bit_push_bit_iff by simp
  have f: "cp0_cause (sys_exc s') = cp0_cause e OR M_CAUSE_IV" "lowmem (sys_exc s') = lowmem e"
      "exc_vectors (sys_exc s') = (exc_vectors e)(XTYPE_INTERRUPT \<mapsto> Bcmcore_irq_demux)"
      "ip_handler (sys_exc s') ! 7 = NULL" "actions (irq_desc (sys_exc s') ! 7) = [timer_action (p_isr p)]"
      "con (sys_exc s') = con e"
    by (simp_all add: s'_def t'_def irq_init_sel)
  have v: "vector_at (lowmem e) (PHYS_TO_K0 MIPS_RAM_VEC_INTERRUPT) (p_entry p) XTYPE_INTERRUPT"
    using vectors_mem_vectors by (simp add: e_def setup_exceptions_sel)
  have "exc_entry_handler XTYPE_INTERRUPT (sys_exc s') = Some Bcmcore_irq_demux"
    unfolding exc_entry_handler_def f(3) by (simp add: XTYPE_INTERRUPT_def)
  moreover have "bit (cp0_cause (sys_exc s')) 23" unfolding f(1) bit_or_iff using iv by simp
  moreover have "interval (sys_timer s') = 1200000" "alarm (sys_timer s') = p_ticks p 1 + interval (sys_timer s')"
      "cp0_compare (sys_timer s') = alarm (sys_timer s')"
    by (simp_all add: s'_def t'_def)
  moreover note sr_after_start(1,3) [where sr = "cp0_sr (sys_exc s)", folded sr] srb f(4,5) v [folded f(2)]
  ultimately have "ticking p s'" unfolding ticking_def by blast
  moreover have "sys_cfe s' = sys_cfe s" "sys_nv s' = sys_nv s" "sys_mt s' = sys_mt s" by (simp_all add: s'_def)
  ultimately show ?thesis using r by blast
qed

lemma ticking_demux:
  "ticking p s \<Longrightarrow> p_isr p \<noteq> NULL \<Longrightarrow> bcmcore_irq_demux run cause (cp0_sr (sys_exc s)) (sys_exc s)
     = (if bit cause 15 then run (p_isr p) 0 (sys_exc s) else sys_exc s)"
  unfolding ticking_def by (rule demux_only_level_7) (auto simp: less_Suc_eq dest: spec [where x = 7])

lemma ticking_con [simp]:
  "ticking p (s\<lparr>sys_exc := (sys_exc s)\<lparr>con := x\<rparr>\<rparr>) = ticking p s"
  "ticking p (s\<lparr>sys_exc := (sys_exc s)\<lparr>io_log := l\<rparr>\<rparr>) = ticking p s"
  by (simp_all add: ticking_def exc_entry_handler_def)

section \<open>The program starts\<close>

lemma sys_say_prints:
  "fmt_ok fmt (map va_int arp) \<Longrightarrow> \<exists>x. sys_say fmt arp s = Some (s\<lparr>sys_exc := (sys_exc s)\<lparr>con := x\<rparr>\<rparr>)"
  using say_prints [of fmt "map va_int arp" arp "sys_exc s"] by (auto simp: sys_say_def)

lemma start_formats:
  "fmt_ok mem_fmt [True]" "fmt_ok sp_fmt [True]" "fmt_ok con_fmt [False]" "fmt_ok size_fmt [True]"
  "fmt_ok sha_fmt []" "fmt_ok hex_fmt [True]" "fmt_ok [0x0a] []"
  by code_simp+

lemma main_hash_prints: "\<exists>x. main_hash p b s = Some (s\<lparr>sys_exc := (sys_exc s)\<lparr>con := x\<rparr>\<rparr>)"
proof -
  let ?P = "\<lambda>t. \<exists>x. t = s\<lparr>sys_exc := (sys_exc s)\<lparr>con := x\<rparr>\<rparr>"
  have step: "\<exists>u. sys_say fmt arp t = Some u \<and> ?P u" if "?P t" "fmt_ok fmt (map va_int arp)" for t fmt arp
    using sys_say_prints [OF that(2), of t] that(1) by auto
  have p: "?P s" by (rule exI [of _ "con (sys_exc s)"]) simp
  obtain s1 where 1: "sys_say size_fmt [VInt (of_nat (length b))] s = Some s1" "?P s1"
    using step [OF p, of size_fmt "[VInt (of_nat (length b))]"] start_formats(4) by auto
  obtain s2 where 2: "sys_say sha_fmt [] s1 = Some s2" "?P s2" using step [OF 1(2), of sha_fmt "[]"] start_formats(5) by auto
  have "\<exists>u. foldl (\<lambda>r i. case r of None \<Rightarrow> None | Some s \<Rightarrow> sys_say hex_fmt [VInt (ucast (p_sha p b ! i))] s) (Some s2) is = Some u \<and> ?P u"
    for "is" :: "nat list"
    using 2(2)
  proof (induction "is" arbitrary: s2)
    case (Cons i "is")
    obtain u where "sys_say hex_fmt [VInt (ucast (p_sha p b ! i))] s2 = Some u" "?P u"
      using step [OF Cons.prems, of hex_fmt "[VInt (ucast (p_sha p b ! i))]"] start_formats(6) by auto
    then show ?case using Cons.IH [of u] by simp
  qed simp
  then obtain s3 where 3: "foldl (\<lambda>r i. case r of None \<Rightarrow> None | Some s \<Rightarrow> sys_say hex_fmt [VInt (ucast (p_sha p b ! i))] s) (Some s2) [0..<4] = Some s3" "?P s3"
    by blast
  obtain s4 where "sys_say [0x0a] [] s3 = Some s4" "?P s4" using step [OF 3(2), of "[0x0a]" "[]"] start_formats(7) by auto
  then show ?thesis unfolding main_hash_def 1 option.case Let_def 2 3 by auto
qed

lemma main_stack_returns:
  assumes "sys_sp s = 0x80800000 - 4 * of_nat n" "0 < n" "n \<le> 0x200000"
  shows "\<exists>t. main_stack tomem s = Some t \<and> sys_cfe t = sys_cfe s \<and> sys_nv t = sys_nv s \<and> sys_mt t = sys_mt s"
proof (cases "0x800000 < sint tomem")
  case True
  let ?d = "tomem - 0x800000"
  let ?t = "s\<lparr>sys_sp := sys_sp s + ?d, sys_stack := copy_up n (sys_sp s) (sys_sp s + ?d) (sys_stack s)\<rparr>"
  have r: "relocsp ?d (sys_sp s) (sys_stack s) = Some (sys_sp ?t, sys_stack ?t)"
    using reloc_copy_eq [OF assms(2,3)] by (simp add: relocsp_def assms(1))
  obtain x where "sys_say sp_fmt [VInt (sys_sp ?t)] ?t = Some (?t\<lparr>sys_exc := (sys_exc ?t)\<lparr>con := x\<rparr>\<rparr>)"
    using sys_say_prints [of sp_fmt "[VInt (sys_sp ?t)]" ?t] start_formats(2) by auto
  then show ?thesis using True by (simp add: main_stack_def r)
qed (simp add: main_stack_def)

text \<open>The firmware keeps an environment, and asked for its data it leaves that and memory alone.\<close>

definition boot_firmware :: "'f firmware \<Rightarrow> ('f \<Rightarrow> u8 list \<Rightarrow> u8 list option) \<Rightarrow> bool" where
  "boot_firmware fw env_of \<longleftrightarrow> env_firmware fw env_of \<and>
     (\<forall>ept h x m f. xiocb_fcode x = CFE_CMD_FW_GETINFO \<longrightarrow>
        (case fw ept h x m f of (r, x', m', f') \<Rightarrow> m' = m \<and> env_of f' = env_of f))"

lemma getfwinfo_keeps:
  assumes "boot_firmware fw env_of" "cfe_getfwinfo fw g c = (r, i, c')"
  shows "cfe_mem c' = cfe_mem c \<and> env_of (cfe_state c') = env_of (cfe_state c) \<and> cfe_dispfunc c' = cfe_dispfunc c"
proof -
  let ?x = "request CFE_CMD_FW_GETINFO 0 0 sizeof_xiocb_fwinfo g"
  obtain q x' m' f' where f: "fw (cfe_dispfunc c) (lo32 (cfe_handle c)) ?x (cfe_mem c) (cfe_state c) = (q, x', m', f')"
    by (metis prod_cases4)
  have "xiocb_fcode ?x = CFE_CMD_FW_GETINFO" by (simp add: request_def)
  then have "m' = cfe_mem c \<and> env_of f' = env_of (cfe_state c)"
    using assms(1) [unfolded boot_firmware_def, THEN conjunct2, THEN spec, of "cfe_dispfunc c", THEN spec,
      of "lo32 (cfe_handle c)", THEN spec, of ?x, THEN spec, of "cfe_mem c", THEN spec, of "cfe_state c"] by (simp add: f)
  then show ?thesis
    using assms(2) f by (auto simp: cfe_getfwinfo_def cfe_call_def cfe_iocb_dispatch_def Let_def split: if_splits)
qed

text \<open>The console setting of the environment fits the buffer.\<close>

definition console_fits :: "u8 list option \<Rightarrow> bool" where
  "console_fits b \<longleftrightarrow> (case b of None \<Rightarrow> True | Some v \<Rightarrow> 0 \<notin> set v \<and> length v < 100)"

lemma main_console_returns:
  assumes "env_firmware (p_fw p) env_of" "cfe_dispfunc (sys_cfe s) \<noteq> NULL" "length (xiocb_plist (p_blk p)) = 10"
    and "cstring (cfe_mem (sys_cfe s)) (p_name p) (ascii ''BOOT_CONSOLE'')"
    and "\<forall>i \<le> 12. p_str p \<noteq> p_name p + of_nat i"
    and "console_fits (env_of (cfe_state (sys_cfe s)) (ascii ''BOOT_CONSOLE''))"
  shows "\<exists>t. main_console p s = Some t \<and> env_of (cfe_state (sys_cfe t)) = env_of (cfe_state (sys_cfe s))
    \<and> sys_nv t = sys_nv s \<and> sys_mt t = sys_mt s"
proof -
  let ?n = "ascii ''BOOT_CONSOLE''"
  have l: "length ?n = 12" by (simp add: ascii_def)
  define v where "v = (case env_of (cfe_state (sys_cfe s)) ?n of None \<Rightarrow> [] | Some v \<Rightarrow> v)"
  have v: "length v < 100" "0 \<notin> set v" using assms(6) by (auto simp: v_def console_fits_def split: option.splits)
  obtain r c where g: "cfe_getenv (p_fw p) (p_blk p) (p_name p) (p_str p) 100 (sys_cfe s) = Some (r, c)"
    and c: "cstring (cfe_mem c) (p_str p) v" "env_of (cfe_state c) = env_of (cfe_state (sys_cfe s))"
    using getenv_reads [where fw = "p_fw p" and dest = "p_str p" and destlen = 100, OF assms(1-4), of v] l v assms(5)
    by (cases "env_of (cfe_state (sys_cfe s)) ?n") (auto simp: v_def)
  have n: "cfe_strlen (p_str p) c = Some (of_nat (length v))"
    using strlen_cstring [OF c(1)] by (simp add: cfe_strlen_def)
  obtain x where "sys_say con_fmt [VStr (mem_at (cfe_mem c) (p_str p) (unat (of_nat (length v) :: u32)))] (s\<lparr>sys_cfe := c\<rparr>)
      = Some (s\<lparr>sys_cfe := c, sys_exc := (sys_exc s)\<lparr>con := x\<rparr>\<rparr>)"
    using sys_say_prints [of con_fmt "[VStr (mem_at (cfe_mem c) (p_str p) (unat (of_nat (length v) :: u32)))]" "s\<lparr>sys_cfe := c\<rparr>"]
      start_formats(3) by auto
  then show ?thesis by (simp add: main_console_def g n c(2))
qed

text \<open>What the program needs to come as far as the timer.\<close>

definition can_start :: "'f plat \<Rightarrow> u64 \<Rightarrow> 'f system \<Rightarrow> ('f \<Rightarrow> u8 list \<Rightarrow> u8 list option) \<Rightarrow> bool" where
  "can_start p ept s env_of \<longleftrightarrow>
     boot_firmware (p_fw p) env_of \<and> NATIVE_FROM_XPTR ept \<noteq> NULL \<and> length (xiocb_plist (p_blk p)) = 10 \<and>
     cstring (cfe_mem (sys_cfe s)) (p_name p) (ascii ''BOOT_CONSOLE'') \<and> (\<forall>i \<le> 12. p_str p \<noteq> p_name p + of_nat i) \<and>
     console_fits (env_of (cfe_state (sys_cfe s)) (ascii ''BOOT_CONSOLE'')) \<and>
     (\<exists>nv. nvram_init (p_flash p) (p_nvalloc p) 0xbc3f8000 0x8000 (sys_nv s) = Some (0, nv)) \<and>
     fmt_ok (p_version p) [True, True, True] \<and>
     (\<exists>n. 0 < n \<and> n \<le> 0x200000 \<and> sys_sp s = 0x80800000 - 4 * of_nat n)"

lemma main_firmware_returns:
  assumes "can_start p ept s env_of"
  shows "\<exists>t. main_firmware p handle ept s = Some t \<and> env_of (cfe_state (sys_cfe t)) = env_of (cfe_state (sys_cfe s))
    \<and> sys_mt t = mt19937ar_init (sys_mt s)
    \<and> nvram_init (p_flash p) (p_nvalloc p) 0xbc3f8000 0x8000 (sys_nv s) = Some (0, sys_nv t)"
proof -
  obtain nv n where nv: "nvram_init (p_flash p) (p_nvalloc p) 0xbc3f8000 0x8000 (sys_nv s) = Some (0, nv)"
    and n: "0 < n" "n \<le> 0x200000" "sys_sp s = 0x80800000 - 4 * of_nat n"
    and fw: "boot_firmware (p_fw p) env_of" and v: "fmt_ok (p_version p) [True, True, True]"
    using assms by (auto simp: can_start_def)
  obtain a b c where rel: "p_release p = (a, b, c)" by (metis prod_cases3)
  define s1 where "s1 = s\<lparr>sys_cfe := (sys_cfe s)\<lparr>cfe_dispfunc := NATIVE_FROM_XPTR ept, cfe_handle := handle\<rparr>,
      sys_nv := nv, sys_mt := mt19937ar_init (sys_mt s),
      sys_exc := (sys_exc s)\<lparr>con := (con (sys_exc s))\<lparr>xfunc_out := p_put p\<rparr>\<rparr>\<rparr>"
  obtain x where 1: "sys_say (p_version p) [VInt a, VInt b, VInt c] s1 = Some (s1\<lparr>sys_exc := (sys_exc s1)\<lparr>con := x\<rparr>\<rparr>)"
    using sys_say_prints [of "p_version p" "[VInt a, VInt b, VInt c]" s1] v by auto
  define s2 where "s2 = s1\<lparr>sys_exc := (sys_exc s1)\<lparr>con := x\<rparr>\<rparr>"
  obtain r i cl where 2: "cfe_getfwinfo (p_fw p) (p_blk p) (sys_cfe s2) = (r, i, cl)" by (metis prod_cases3)
  note k = getfwinfo_keeps [OF fw 2]
  define tomem where "tomem = lo32 (case i of None \<Rightarrow> p_mem p | Some f \<Rightarrow> f ! 1)"
  obtain y where 3: "sys_say mem_fmt [VInt tomem] (s2\<lparr>sys_cfe := cl\<rparr>) = Some (s2\<lparr>sys_cfe := cl, sys_exc := (sys_exc s2)\<lparr>con := y\<rparr>\<rparr>)"
    using sys_say_prints [of mem_fmt "[VInt tomem]" "s2\<lparr>sys_cfe := cl\<rparr>"] start_formats(1) by auto
  define s3 where "s3 = s2\<lparr>sys_cfe := cl, sys_exc := (sys_exc s2)\<lparr>con := y\<rparr>\<rparr>"
  have "sys_sp s3 = 0x80800000 - 4 * of_nat n" by (simp add: s3_def s2_def s1_def n)
  from main_stack_returns [OF this n(1,2), of tomem]
  obtain s4 where 4: "main_stack tomem s3 = Some s4" "sys_cfe s4 = cl" "sys_nv s4 = nv" "sys_mt s4 = mt19937ar_init (sys_mt s)"
    by (auto simp: s3_def s2_def s1_def)
  have "\<exists>t. main_console p s4 = Some t \<and> env_of (cfe_state (sys_cfe t)) = env_of (cfe_state (sys_cfe s4))
      \<and> sys_nv t = sys_nv s4 \<and> sys_mt t = sys_mt s4"
    by (rule main_console_returns) (use assms k in \<open>simp_all add: can_start_def boot_firmware_def 4 s2_def s1_def\<close>)
  then obtain t where t: "main_console p s4 = Some t" "env_of (cfe_state (sys_cfe t)) = env_of (cfe_state cl)"
      "sys_nv t = nv" "sys_mt t = mt19937ar_init (sys_mt s)"
    by (auto simp: 4)
  have "main_firmware p handle ept s = Some t"
    using nv 1 2 3 4(1) t(1)
    by (simp add: main_firmware_def cfe_init_def rel flip: s1_def s2_def s3_def tomem_def)
  with t k nv show ?thesis by (simp add: s2_def s1_def)
qed


text \<open>A 5354 with 8 MB, its stack twelve bytes deep, an empty environment and no stored variables, whose
  interpreter keeps the length of what it is given.\<close>

definition name0 :: "u8 list" where "name0 = ascii ''BOOT_CONSOLE''"

definition sys0 :: "(u8 list \<Rightarrow> u8 list option) system" where
  "sys0 = \<lparr>sys_cfe = \<lparr>cfe_dispfunc = 0, cfe_handle = 0,
       cfe_mem = (\<lambda>a. if unat (a - 0x80001000) < 12 then name0 ! unat (a - 0x80001000) else 0), cfe_state = Map.empty\<rparr>,
     sys_nv = nv_empty, sys_mt = \<lparr>mt = replicate MT_N 0, mti = MT_N + 1\<rparr>, sys_exc = exc0, sys_timer = timer0,
     sys_clocks = \<lparr>cfe_clocks_per_Kns = 0, cfe_clocks_per_usec = 0, cfe_clocks_per_tick = 0, cfe_oldcount = 0, cfe_ticks = 0\<rparr>,
     sys_sp = 0x807ffff4, sys_stack = (\<lambda>_. 0)\<rparr>"

definition flash0 :: "u8 list \<Rightarrow> addr \<Rightarrow> u8" where
  "flash0 img a = (if unat (a - (flash_base + boot_size True)) < length img
                   then img ! unat (a - (flash_base + boot_size True)) else 0)"

definition plat0 :: "u8 list \<Rightarrow> (u8 list \<Rightarrow> u8 list option) plat" where
  "plat0 img = \<lparr>p_dev = dev5354, p_fw = env_fw, p_blk = iocb0, p_name = 0x80001000, p_str = 0x807ffff8, p_mem = 0x800000,
     p_flash = flash0 img, p_nvalloc = (\<lambda>_. 0x80100000), p_version = ascii ''%d.%d.%d'', p_release = (1, 4, 1),
     p_put = 0x80002000, p_isr = 0x80003000, p_stk = 0x80700000, p_gp = 0x80708000, p_tlbh = 0x80018000,
     p_entry = 0x8001fffc, p_irqalloc = True, p_clk = 0, p_ticks = (\<lambda>n. of_nat n * 1000),
     p_ver = [0x30, 0x30, 0x30, 0x36], p_malloc = (\<lambda>_. True), p_sha = (\<lambda>_. replicate 32 0),
     p_mrb = (\<lambda>b s. (None, s\<lparr>sys_sp := of_nat (length b)\<rparr>))\<rparr>"

lemma cstring_name0: "cstring (cfe_mem (sys_cfe sys0)) 0x80001000 (ascii ''BOOT_CONSOLE'')"
  by (simp add: cstring_def mem_at_def sys0_def name0_def ascii_def upt_rec_numeral)

definition opts1 :: trx_opts where "opts1 = opts0\<lparr>maxlen := 0x300000\<rparr>"

lemma can_start0:
  assumes "length img \<le> maxlen opts1"
  shows "can_start (plat0 img) 0x9fc00500 sys0 id"
proof -
  have "length img \<le> 0x300000" using assms by (simp add: opts1_def)
  then have "flash0 img 0xbc3f8000 = 0" "flash0 img 0xbc3f8001 = 0" "flash0 img 0xbc3f8002 = 0" "flash0 img 0xbc3f8003 = 0"
    by (simp_all add: flash0_def flash_base_def boot_size_def)
  then have "fst (nvram_find (flash0 img) 0xbc3f8000 0x8000) = None"
    by (simp add: nvram_find_def Let_def NVRAM_SPACE_def read_header_def mem32_def word32_def NVRAM_MAGIC_def)
  then have "\<exists>nv. nvram_init (flash0 img) (\<lambda>_. 0x80100000) 0xbc3f8000 0x8000 nv_empty = Some (0, nv)"
    by (simp add: nvram_init_def Let_def)
  moreover have "fmt_ok (ascii ''%d.%d.%d'') [True, True, True]" by code_simp
  moreover have "boot_firmware env_fw id"
    using env_fw_env by (auto simp: boot_firmware_def env_fw_def CFE_CMD_FW_GETINFO_def CFE_CMD_ENV_SET_def CFE_CMD_ENV_GET_def)
  moreover have "\<exists>n. 0 < n \<and> n \<le> 0x200000 \<and> (0x807ffff4 :: addr) = 0x80800000 - 4 * of_nat n"
    by (rule exI [of _ 3]) simp
  moreover have "\<forall>i \<in> set [0..<13]. (0x807ffff8 :: addr) \<noteq> 0x80001000 + of_nat i" by code_simp
  then have "\<forall>i \<le> 12. (0x807ffff8 :: addr) \<noteq> 0x80001000 + of_nat i" by (auto simp del: upt_rec_numeral)
  ultimately show ?thesis
    using cstring_name0
    by (simp add: can_start_def plat0_def) (simp add: sys0_def iocb0_def console_fits_def NATIVE_FROM_XPTR_def)
qed


end
