(* ===== verification/TrxOpts.thy ===== *)
theory TrxOpts
  imports Trx
begin

text \<open>
  The command line of the firmware image builder, the first half of \<^verbatim>\<open>main\<close> in \<^verbatim>\<open>tools/asustrx.c\<close>, and the whole
  program. The tool runs on a host whose \<^verbatim>\<open>unsigned long\<close> has 64 bits. What \<^verbatim>\<open>getopt\<close> makes of the
  arguments is the list of option characters with their arguments; a string is its bytes.
\<close>

section \<open>Reading numbers\<close>

text \<open>\<^verbatim>\<open>strtoul\<close> of the C library: white space, a sign, for base 0 a prefix, digits. The value, whether it was
  out of range, and what is left, which is the whole string if there is no digit.\<close>

definition c_isspace :: "u8 \<Rightarrow> bool" where
  "c_isspace c \<longleftrightarrow> c = 0x20 \<or> 9 \<le> c \<and> c \<le> 13"

definition c_digit :: "nat \<Rightarrow> u8 \<Rightarrow> nat option" where
  "c_digit base c =
     (let d = (if 0x30 \<le> c \<and> c \<le> 0x39 then unat c - 0x30
               else if 0x61 \<le> c \<and> c \<le> 0x7a then unat c - 0x61 + 10
               else if 0x41 \<le> c \<and> c \<le> 0x5a then unat c - 0x41 + 10 else base)
      in if d < base then Some d else None)"

fun c_digits :: "nat \<Rightarrow> nat \<Rightarrow> u8 list \<Rightarrow> nat \<times> u8 list" where
  "c_digits base acc [] = (acc, [])"
| "c_digits base acc (c # cs) =
     (case c_digit base c of None \<Rightarrow> (acc, c # cs) | Some d \<Rightarrow> c_digits base (acc * base + d) cs)"

definition c_sign :: "u8 list \<Rightarrow> bool \<times> u8 list" where
  "c_sign s = (case s of [] \<Rightarrow> (False, s)
     | c # cs \<Rightarrow> if c = 0x2d then (True, cs) else if c = 0x2b then (False, cs) else (False, s))"

definition c_prefix :: "nat \<Rightarrow> u8 list \<Rightarrow> nat \<times> u8 list" where
  "c_prefix base s =
     (if base \<noteq> 0 then (base, s)
      else case s of
        c0 # x # d # cs \<Rightarrow>
          if c0 = 0x30 \<and> (x = 0x78 \<or> x = 0x58) \<and> c_digit 16 d \<noteq> None then (16, d # cs)
          else if c0 = 0x30 then (8, s) else (10, s)
      | c0 # cs \<Rightarrow> if c0 = 0x30 then (8, s) else (10, s)
      | [] \<Rightarrow> (10, s))"

definition strtoul :: "u8 list \<Rightarrow> nat \<Rightarrow> nat \<times> bool \<times> u8 list" where
  "strtoul str base =
     (let (neg, s) = c_sign (dropWhile c_isspace str);
          (base, s) = c_prefix base s;
          (v, rest) = c_digits base 0 s
      in if rest = s then (0, False, str)
         else if 2 ^ 64 \<le> v then (2 ^ 64 - 1, True, rest)
         else ((if neg then nat (- int v mod 2 ^ 64) else v), False, rest))"

section \<open>The options\<close>

definition trx_defaults :: trx_opts where
  "trx_defaults = \<lparr>seg_offsets = [], maxlen = TRX_MAX_LEN, prod_id = replicate 12 0, version = [1, 9, 2, 7]\<rparr>"

text \<open>The next components of a version: the string left and the bytes.\<close>

fun version_loop :: "nat \<Rightarrow> nat \<Rightarrow> u8 list \<Rightarrow> u8 list \<Rightarrow> u8 list \<times> u8 list" where
  "version_loop 0 n s ver = (s, ver)"
| "version_loop (Suc k) n s ver =
     (let sep = (n \<noteq> 0 \<and> 2 \<le> length s \<and> hd s = 0x2e)
      in if n \<noteq> 0 \<and> \<not> sep then (s, ver)
         else let (v, _, s) = strtoul (if sep then tl s else s) 10
              in version_loop k (n + 1) s (ver[n := of_nat v]))"

text \<open>One option: the settings and the name of the output file. A fourth offset is written behind the
  header, for which C promises nothing.\<close>

definition trx_option ::
  "char \<Rightarrow> u8 list \<Rightarrow> trx_opts \<times> u8 list option \<Rightarrow> trx_error + trx_opts \<times> u8 list option" where
  "trx_option c optarg st =
     (let (opts, ofn) = st
      in if c = CHR ''b'' then
           let (v, _, e) = strtoul optarg 0
           in if length (seg_offsets opts) \<ge> 3 then Inl Buffer_overrun
              else if e = optarg \<or> e \<noteq> [] then Inl Usage
              else Inr (opts\<lparr>seg_offsets := seg_offsets opts @ [of_nat v]\<rparr>, ofn)
         else if c = CHR ''o'' then Inr (opts, Some optarg)
         else if c = CHR ''m'' then
           let (m, range, e) = strtoul optarg 0
           in if range \<or> e = optarg \<or> e \<noteq> [] then Inl Usage
              else let m = (if m mod 0x1000 \<noteq> 0 then (m + (0x1000 - m mod 0x1000)) mod 2 ^ 64 else m)
              in if m < 0x1000 then Inl Usage else Inr (opts\<lparr>maxlen := m\<rparr>, ofn)
         else if c = CHR ''p'' then
           if length optarg > 12 then Inl Usage
           else Inr (opts\<lparr>prod_id := optarg @ replicate (12 - length optarg) 0x20\<rparr>, ofn)
         else if c = CHR ''v'' then
           let (s, ver) = version_loop 4 0 optarg (version opts)
           in if s \<noteq> [] then Inl Usage else Inr (opts\<lparr>version := ver\<rparr>, ofn)
         else Inl Usage)"

fun trx_options ::
  "(char \<times> u8 list) list \<Rightarrow> trx_opts \<times> u8 list option \<Rightarrow> trx_error + trx_opts \<times> u8 list option" where
  "trx_options [] st = Inr st"
| "trx_options ((c, optarg) # cs) st =
     (case trx_option c optarg st of Inl e \<Rightarrow> Inl e | Inr st \<Rightarrow> trx_options cs st)"

text \<open>The whole program: the file written to (\<open>None\<close> for the standard output) and the bytes. \<open>open_ok\<close>,
  \<open>malloc_ok\<close> and \<open>write_ok\<close> (\<^verbatim>\<open>fwrite\<close> and \<^verbatim>\<open>fflush\<close>) are the answers of the host.\<close>

definition trx_main ::
  "(u8 list \<Rightarrow> bool) \<Rightarrow> (nat \<Rightarrow> bool) \<Rightarrow> (u8 list \<Rightarrow> bool) \<Rightarrow> (char \<times> u8 list) list \<Rightarrow> u8 list option list
     \<Rightarrow> trx_error + u8 list option \<times> u8 list" where
  "trx_main open_ok malloc_ok write_ok args files =
     (case trx_options args (trx_defaults, None) of Inl e \<Rightarrow> Inl e
      | Inr (opts, ofn) \<Rightarrow>
          if (case ofn of None \<Rightarrow> False | Some f \<Rightarrow> \<not> open_ok f) then Inl Usage
          else if files = [] then Inl Usage
          else if length files > 3 then Inl Usage
          else if \<not> malloc_ok (maxlen opts) then Inl Malloc_failed
          else case trx_build opts files of Inl e \<Rightarrow> Inl e
            | Inr img \<Rightarrow> if \<not> write_ok img then Inl Fwrite_failed else Inr (ofn, img))"

section \<open>Accepted settings\<close>

definition opts_ok :: "trx_opts \<Rightarrow> bool" where
  "opts_ok opts \<longleftrightarrow> length (seg_offsets opts) \<le> 3 \<and> length (prod_id opts) = 12 \<and> length (version opts) = 4 \<and>
     maxlen opts mod 0x1000 = 0 \<and> 0x1000 \<le> maxlen opts \<and> maxlen opts < 2 ^ 64"

lemma strtoul_range: "strtoul s b = (v, r, e) \<Longrightarrow> v < 2 ^ 64"
proof -
  have "nat (- int v mod 2 ^ 64) < 2 ^ 64" for v :: nat by (simp add: nat_less_iff)
  then show "strtoul s b = (v, r, e) \<Longrightarrow> v < 2 ^ 64"
    by (auto simp: strtoul_def Let_def split: prod.splits if_splits)
qed

lemma version_loop_length: "length (snd (version_loop k n s ver)) = length ver"
  by (induction k arbitrary: n s ver) (simp_all add: Let_def split: prod.splits)

text \<open>Rounding up to 4096 wraps to 0 or stays a multiple.\<close>

lemma round_up:
  fixes m :: nat
  assumes "m < 2 ^ 64"
  defines "r \<equiv> (if m mod 0x1000 \<noteq> 0 then (m + (0x1000 - m mod 0x1000)) mod 2 ^ 64 else m)"
  shows "r mod 0x1000 = 0" "r < 2 ^ 64" "m \<le> r \<and> r < m + 0x1000 \<or> r = 0"
proof -
  have d: "(0x1000 :: nat) dvd 2 ^ 64" by simp
  have s: "(m + (0x1000 - m mod 0x1000)) mod 0x1000 = 0"
    using mod_add_left_eq [of m "0x1000" "0x1000 - m mod 0x1000"] by (simp add: mod_less_divisor less_imp_le)
  have "(m + (0x1000 - m mod 0x1000)) mod 2 ^ 64 mod 0x1000 = 0" by (simp only: mod_mod_cancel [OF d] s)
  then show "r mod 0x1000 = 0"
    by (cases "m mod 0x1000 = 0") (simp_all only: r_def simp_thms if_True if_False)
  show "r < 2 ^ 64" using assms(1) by (simp add: r_def)
  have "m + (0x1000 - m mod 0x1000) \<le> 2 ^ 64" if "m mod 0x1000 \<noteq> 0"
  proof -
    define q k where "q = m div 0x1000" and "k = m mod 0x1000"
    have "0x1000 * q + k = m" "k < 0x1000" by (simp_all add: q_def k_def)
    then have "m + (0x1000 - k) = 0x1000 * (q + 1)" by arith
    then have "m + (0x1000 - m mod 0x1000) = 0x1000 * (m div 0x1000 + 1)" by (simp only: q_def k_def)
    moreover have "m div 0x1000 < 2 ^ 52" using assms(1) by (simp add: less_mult_imp_div_less)
    ultimately show ?thesis by simp
  qed
  then show "m \<le> r \<and> r < m + 0x1000 \<or> r = 0"
    by (cases "m + (0x1000 - m mod 0x1000) = 2 ^ 64") (auto simp: r_def le_less)
qed

lemma trx_option_ok:
  assumes "trx_option c arg (opts, ofn) = Inr (opts', ofn')" "opts_ok opts"
  shows "opts_ok opts'"
proof -
  obtain v r e where n: "strtoul arg 0 = (v, r, e)" by (metis prod_cases3)
  define m where "m = (if v mod 0x1000 \<noteq> 0 then (v + (0x1000 - v mod 0x1000)) mod 2 ^ 64 else v)"
  note u = round_up [OF strtoul_range [OF n], folded m_def]
  have o: "trx_option c arg (opts, ofn) = (if c = CHR ''b'' then
           if length (seg_offsets opts) \<ge> 3 then Inl Buffer_overrun
           else if e = arg \<or> e \<noteq> [] then Inl Usage
           else Inr (opts\<lparr>seg_offsets := seg_offsets opts @ [of_nat v]\<rparr>, ofn)
         else if c = CHR ''o'' then Inr (opts, Some arg)
         else if c = CHR ''m'' then
           if r \<or> e = arg \<or> e \<noteq> [] then Inl Usage
           else if m < 0x1000 then Inl Usage else Inr (opts\<lparr>maxlen := m\<rparr>, ofn)
         else if c = CHR ''p'' then
           if length arg > 12 then Inl Usage
           else Inr (opts\<lparr>prod_id := arg @ replicate (12 - length arg) 0x20\<rparr>, ofn)
         else if c = CHR ''v'' then
           if fst (version_loop 4 0 arg (version opts)) \<noteq> [] then Inl Usage
           else Inr (opts\<lparr>version := snd (version_loop 4 0 arg (version opts))\<rparr>, ofn)
         else Inl Usage)"
    by (simp only: trx_option_def Let_def n prod.case m_def case_prod_beta fst_conv snd_conv)
  show ?thesis
    using assms(1) [unfolded o] assms(2) u(1,2) by (auto simp: opts_ok_def version_loop_length split: if_splits)
qed

lemma trx_options_ok: "trx_options args (opts, ofn) = Inr (opts', ofn') \<Longrightarrow> opts_ok opts \<Longrightarrow> opts_ok opts'"
proof (induction args arbitrary: opts ofn)
  case (Cons a as)
  obtain c arg where a: "a = (c, arg)" by (cases a)
  from Cons.prems(1) obtain o1 f1 where "trx_option c arg (opts, ofn) = Inr (o1, f1)"
      "trx_options as (o1, f1) = Inr (opts', ofn')"
    by (auto simp: a split: sum.splits)
  then show ?case using Cons.IH trx_option_ok Cons.prems(2) by blast
qed simp

lemma trx_options_no_offsets:
  "trx_options args (opts, ofn) = Inr (opts', ofn') \<Longrightarrow> CHR ''b'' \<notin> fst ` set args \<Longrightarrow> seg_offsets opts' = seg_offsets opts"
proof (induction args arbitrary: opts ofn)
  case (Cons a as)
  obtain c arg where a: "a = (c, arg)" "c \<noteq> CHR ''b''" using Cons.prems(2) by (cases a) auto
  from Cons.prems(1) obtain o1 f1 where s: "trx_option c arg (opts, ofn) = Inr (o1, f1)"
      "trx_options as (o1, f1) = Inr (opts', ofn')"
    by (auto simp: a split: sum.splits)
  from s(1) a(2) have "seg_offsets o1 = seg_offsets opts"
    by (auto simp: trx_option_def Let_def split: prod.splits if_splits)
  then show ?case using Cons.IH [OF s(2)] Cons.prems(2) by simp
qed simp

lemma trx_defaults_ok: "opts_ok trx_defaults"
  by (simp add: opts_ok_def trx_defaults_def TRX_MAX_LEN_def)

section \<open>Decimal numbers in a version\<close>

fun dec :: "nat \<Rightarrow> u8 list" where
  "dec n = (if n < 10 then [of_nat (48 + n)] else dec (n div 10) @ [of_nat (48 + n mod 10)])"

declare dec.simps [simp del]

lemma c_digit_dec: "d < 10 \<Longrightarrow> c_digit 10 (of_nat (48 + d)) = Some d"
proof -
  assume "d < 10"
  then have "d \<in> set [0..<10]" by simp
  moreover have "\<forall>d \<in> set [0..<10]. c_digit 10 (of_nat (48 + d)) = Some d" by code_simp
  ultimately show ?thesis by blast
qed

lemma c_digits_dec: "c_digits 10 acc (dec n @ rest) = c_digits 10 (acc * 10 ^ length (dec n) + n) rest"
proof (induction n arbitrary: acc rest rule: dec.induct)
  case (1 n)
  show ?case
  proof (cases "n < 10")
    case True
    then show ?thesis using c_digit_dec [of n] by (simp add: dec.simps [of n])
  next
    case False
    then have d: "dec n = dec (n div 10) @ [of_nat (48 + n mod 10)]" by (simp add: dec.simps [of n])
    have "c_digits 10 acc (dec n @ rest) = c_digits 10 (acc * 10 ^ length (dec (n div 10)) + n div 10) (of_nat (48 + n mod 10) # rest)"
      using 1 [OF False] by (simp add: d)
    also have "\<dots> = c_digits 10 ((acc * 10 ^ length (dec (n div 10)) + n div 10) * 10 + n mod 10) rest"
      using c_digit_dec [of "n mod 10"] by simp
    finally show ?thesis by (simp add: d algebra_simps)
  qed
qed

lemma dec_head: "\<exists>d ds. d < 10 \<and> dec n = of_nat (48 + d) # ds"
proof (induction n rule: dec.induct)
  case (1 n)
  show ?case
  proof (cases "n < 10")
    case True
    then show ?thesis by (auto simp: dec.simps [of n])
  next
    case False
    with 1 show ?thesis by (subst dec.simps) auto
  qed
qed

lemma strtoul_dec:
  assumes "n < 2 ^ 64" "rest = [] \<or> hd rest = 0x2e"
  shows "strtoul (dec n @ rest) 10 = (n, False, rest)"
proof -
  obtain d ds where h: "d < 10" "dec n = of_nat (48 + d) # ds" using dec_head by blast
  have "\<forall>d \<in> set [0..<10]. \<not> c_isspace (of_nat (48 + d)) \<and> (of_nat (48 + d) :: u8) \<noteq> 0x2d \<and> (of_nat (48 + d) :: u8) \<noteq> 0x2b"
    by code_simp
  then have c: "\<not> c_isspace (of_nat (48 + d))" "(of_nat (48 + d) :: u8) \<noteq> 0x2d" "(of_nat (48 + d) :: u8) \<noteq> 0x2b"
    using h(1) by (auto simp del: upt_rec_numeral of_nat_add)
  have p: "dropWhile c_isspace (dec n @ rest) = dec n @ rest" "c_sign (dec n @ rest) = (False, dec n @ rest)"
    unfolding h(2) using c by (simp_all add: c_sign_def del: of_nat_add)
  have "c_digits 10 n rest = (n, rest)"
    using assms(2) by (cases rest) (auto simp: c_digit_def)
  then have "c_digits 10 0 (dec n @ rest) = (n, rest)" by (simp add: c_digits_dec)
  moreover have "rest \<noteq> dec n @ rest" using h(2) by auto
  ultimately show ?thesis using assms(1) by (simp add: strtoul_def p c_prefix_def Let_def)
qed

text \<open>A version of four bytes written with dots is read back.\<close>

lemma version_round_trip:
  fixes a b c d :: u8
  assumes "length (version opts) = 4"
  shows "trx_option (CHR ''v'') (dec (unat a) @ 0x2e # dec (unat b) @ 0x2e # dec (unat c) @ 0x2e # dec (unat d)) (opts, ofn)
    = Inr (opts\<lparr>version := [a, b, c, d]\<rparr>, ofn)"
proof -
  have l: "unat x < 2 ^ 64" for x :: u8 using unsigned_less [where ?'a = nat and 'b = 8, of x] by simp
  note s = strtoul_dec [OF l] strtoul_dec [OF l, of "[]", simplified]
  have g: "Suc 0 \<le> length (dec n @ rest)" "Suc 0 \<le> length (dec n)" for n rest using dec_head [of n] by auto
  obtain v0 v1 v2 v3 where v: "version opts = [v0, v1, v2, v3]"
    using assms by (auto simp: numeral_eq_Suc length_Suc_conv)
  have n: "(4 :: nat) = Suc (Suc (Suc (Suc 0)))" by simp
  show ?thesis
    by (simp add: trx_option_def Let_def v n s g del: length_append)
qed

section \<open>Properties\<close>

text \<open>C24: Whatever the options, if the program accepts them its settings are well formed: at most three
  offsets, twelve bytes of product id, four of version, and a buffer length that is a whole number of
  4 KiB blocks, at least one, below the size of the address space.\<close>

theorem trx_options_typed:
  assumes "trx_options args (trx_defaults, None) = Inr (opts, ofn)"
  shows "length (seg_offsets opts) \<le> 3 \<and> length (prod_id opts) = 12 \<and> length (version opts) = 4 \<and>
    maxlen opts mod 0x1000 = 0 \<and> 0x1000 \<le> maxlen opts \<and> maxlen opts < 2 ^ 64"
  using trx_options_ok [OF assms trx_defaults_ok] by (simp add: opts_ok_def)

theorem trx_options_typed_witness:
  "\<exists>opts. trx_options [(CHR ''m'', ascii '' 0x2328''), (CHR ''p'', ascii ''WL500'')] (trx_defaults, None) = Inr (opts, None)
     \<and> maxlen opts mod 0x1000 = 0 \<and> maxlen opts = 0x3000"
proof -
  have r: "trx_options [(CHR ''m'', ascii '' 0x2328''), (CHR ''p'', ascii ''WL500'')] (trx_defaults, None)
      = Inr (trx_defaults\<lparr>maxlen := 0x3000, prod_id := ascii ''WL500'' @ replicate 7 0x20\<rparr>, None)"
    by (simp add: trx_option_def strtoul_def c_sign_def c_prefix_def c_digit_def c_isspace_def ascii_def of_char_def)
  show ?thesis using trx_options_typed [OF r] r by auto
qed

text \<open>C23: Run with any options it accepts but explicit offsets, and with two files that fit, as the firmware's
  makefile runs it, the program writes one image to the output file: a whole number of 4 KiB
  blocks, with the magic number, its own length and the checksum of everything behind it; the first part
  directly behind the header, the second at the next word boundary, their offsets in the header; the
  bytes of both files are at these offsets. When the host cannot write these bytes the program ends with
  an error.\<close>

theorem trx_main_two_files:
  assumes args: "trx_options args (trx_defaults, None) = Inr (opts, ofn)" "CHR ''b'' \<notin> fst ` set args"
    and host: "case ofn of None \<Rightarrow> True | Some f \<Rightarrow> open_ok f" "malloc_ok (maxlen opts)" "maxlen opts < 2 ^ 32"
    and room: "28 + align4 (length a) + length b + foot opts \<le> maxlen opts"
      "28 + align4 (length a) + length b < maxlen opts"
  shows "\<exists>img. trx_main open_ok malloc_ok write_ok args [Some a, Some b]
      = (if write_ok img then Inr (ofn, img) else Inl Fwrite_failed) \<and> length img mod 4096 = 0 \<and>
    get32 0 img = TRX_MAGIC \<and> get32 4 img = of_nat (length img) \<and>
    get32 8 img = crc32buf (drop 12 img) \<and>
    get32 16 img = 28 \<and> slice 28 (length a) img = a \<and>
    get32 20 img = of_nat (28 + align4 (length a)) \<and> slice (28 + align4 (length a)) (length b) img = b"
proof -
  have ok: "length (prod_id opts) = 12" "length (version opts) = 4" "maxlen opts mod 4096 = 0"
    using trx_options_ok [OF args(1) trx_defaults_ok] by (simp_all add: opts_ok_def)
  have "seg_offsets opts = []" using trx_options_no_offsets [OF args] by (simp add: trx_defaults_def)
  from two_files_layout [OF this ok host(3) room] obtain img where img: "trx_build opts [Some a, Some b] = Inr img"
    and l: "length img mod 4096 = 0 \<and> get32 0 img = TRX_MAGIC \<and> get32 4 img = of_nat (length img) \<and>
      get32 8 img = crc32buf (drop 12 img) \<and> get32 16 img = 28 \<and> slice 28 (length a) img = a \<and>
      get32 20 img = of_nat (28 + align4 (length a)) \<and> slice (28 + align4 (length a)) (length b) img = b"
    by (elim exE conjE) (rule that, assumption, intro conjI, assumption+)
  have "trx_main open_ok malloc_ok write_ok args [Some a, Some b]
      = (if write_ok img then Inr (ofn, img) else Inl Fwrite_failed)"
    using host(1,2) by (simp add: trx_main_def args(1) img split: option.splits)
  then show ?thesis by (intro exI [of _ img] conjI [OF _ l])
qed

theorem trx_main_two_files_witness:
  "\<exists>img. trx_main (\<lambda>_. True) (\<lambda>_. True) (\<lambda>_. True) [(CHR ''o'', ascii ''out'')] [Some [1, 2, 3, 4, 5], Some [0x52, 0x49]]
      = Inr (Some (ascii ''out''), img) \<and> get32 20 img = 36 \<and> slice 36 2 img = [0x52, 0x49]"
proof -
  have l: "length [1, 2, 3, 4, 5 :: u8] = 5" "length [0x52, 0x49 :: u8] = 2" by simp_all
  have r: "trx_options [(CHR ''o'', ascii ''out'')] (trx_defaults, None) = Inr (trx_defaults, Some (ascii ''out''))"
    by (simp add: trx_option_def)
  show ?thesis
    using trx_main_two_files [where write_ok = "\<lambda>_. True", OF r, of "\<lambda>_. True" "\<lambda>_. True" "[1, 2, 3, 4, 5]" "[0x52, 0x49]", unfolded l]
    by (auto simp: trx_defaults_def foot_def align4_def TRX_MAX_LEN_def)
qed

end
