(* ===== verification/Portal.thy ===== *)
theory Portal
  imports CfeApi LibQueue HwAddr
begin

text \<open>
  The Ethernet ports of \<^verbatim>\<open>cfe/net_ether.c\<close> with the buffers of \<^verbatim>\<open>cfe/net_ebuf.h\<close>: users register for an
  Ethernet type, frames are read from a firmware device and handed to the user of their type. The code is
  compiled only if \<^verbatim>\<open>NOTUSE\<close> is defined. A context is known by its address \<open>eth\<close>, a buffer by its address; there
  is one context, the buffers' \<^verbatim>\<open>eb_device\<close>. The data of buffers and the hardware address are in the memory the
  firmware shares. What is on the stack before a firmware call is the argument \<open>g\<close>.
\<close>

section \<open>Constants and state\<close>

definition ETH_MAX_PORTS :: nat where "ETH_MAX_PORTS = 4"
definition ETH_MAX_BUFFERS :: nat where "ETH_MAX_BUFFERS = 8"
definition ETH_PTYPE_NONE :: int where "ETH_PTYPE_NONE = 0"
definition ETH_PTYPE_DIX :: int where "ETH_PTYPE_DIX = 1"
definition ETH_DROP :: int where "ETH_DROP = 0"
definition ENET_MAX_PKT :: int where "ENET_MAX_PKT = 1514"
definition ENET_DIX_HEADER :: int where "ENET_DIX_HEADER = 14"
definition CFE_ERR_UNSUPPORTED :: int where "CFE_ERR_UNSUPPORTED = -19"
definition CFE_ERR_NOHANDLES :: int where "CFE_ERR_NOHANDLES = -25"

record ether_port =
  ep_dev :: u32
  ep_proto :: "u8 list"
  ep_ptype :: int
  ep_mtu :: int
  ep_rxcallback :: addr
  ep_ref :: addr

record ebuf =
  eb_length :: u32
  eb_status :: u32
  eb_port :: int
  eb_usrdata :: int
  eb_ptr :: addr

record 'f ether =
  eth_cfe :: "'f cfe_client"
  eth_ports :: "ether_port list"
  eth_links :: qheap
  eth_devhandle :: u32
  ebufs :: "addr \<Rightarrow> ebuf"
  eth_kfreed :: "addr list"

text \<open>Places in the two structures.\<close>

definition eth_freelist :: "addr \<Rightarrow> addr" where "eth_freelist eth = eth + 4"
definition eth_hwaddr :: "addr \<Rightarrow> addr" where "eth_hwaddr eth = eth + 12"
definition eb_data :: "addr \<Rightarrow> addr" where "eb_data buf = buf + 36"
definition EBUF_SIZE :: u32 where "EBUF_SIZE = 36 + 0x5F0"

definition set_ebuf :: "addr \<Rightarrow> (ebuf \<Rightarrow> ebuf) \<Rightarrow> 'f ether \<Rightarrow> 'f ether" where
  "set_ebuf b f s = s\<lparr>ebufs := (ebufs s)(b := f (ebufs s b))\<rparr>"

definition set_port :: "nat \<Rightarrow> (ether_port \<Rightarrow> ether_port) \<Rightarrow> 'f ether \<Rightarrow> 'f ether" where
  "set_port i f s = s\<lparr>eth_ports := (eth_ports s)[i := f (eth_ports s ! i)]\<rparr>"

definition set_mem :: "addr \<Rightarrow> u8 list \<Rightarrow> 'f ether \<Rightarrow> 'f ether" where
  "set_mem a bs s = s\<lparr>eth_cfe := (eth_cfe s)\<lparr>cfe_mem := put_mem a bs (cfe_mem (eth_cfe s))\<rparr>\<rparr>"

section \<open>Buffers\<close>

text \<open>\<^verbatim>\<open>ebuf_init_rx\<close> and \<^verbatim>\<open>ebuf_init_tx\<close> are the same.\<close>

definition ebuf_init :: "addr \<Rightarrow> 'f ether \<Rightarrow> 'f ether" where
  "ebuf_init b = set_ebuf b (\<lambda>e. e\<lparr>eb_ptr := eb_data b, eb_length := 0, eb_status := 0\<rparr>)"

definition ebuf_seek :: "addr \<Rightarrow> int \<Rightarrow> 'f ether \<Rightarrow> 'f ether" where
  "ebuf_seek b amt = set_ebuf b (\<lambda>e. e\<lparr>eb_ptr := eb_ptr e + of_int amt\<rparr>)"

definition ebuf_prepend :: "addr \<Rightarrow> int \<Rightarrow> 'f ether \<Rightarrow> 'f ether" where
  "ebuf_prepend b amt = set_ebuf b (\<lambda>e. e\<lparr>eb_ptr := eb_ptr e - of_int amt, eb_length := eb_length e + of_int amt\<rparr>)"

definition ebuf_skip :: "addr \<Rightarrow> int \<Rightarrow> 'f ether \<Rightarrow> 'f ether" where
  "ebuf_skip b amt = set_ebuf b (\<lambda>e. e\<lparr>eb_length := eb_length e - of_int amt, eb_ptr := eb_ptr e + of_int amt\<rparr>)"

definition ebuf_put_bytes :: "addr \<Rightarrow> u8 list \<Rightarrow> 'f ether \<Rightarrow> 'f ether" where
  "ebuf_put_bytes b bs s = ebuf_seek b (int (length bs)) (set_mem (eb_ptr (ebufs s b)) bs s)"

definition ebuf_append_bytes :: "addr \<Rightarrow> u8 list \<Rightarrow> 'f ether \<Rightarrow> 'f ether" where
  "ebuf_append_bytes b bs s =
     set_ebuf b (\<lambda>e. e\<lparr>eb_length := eb_length e + of_nat (length bs)\<rparr>)
       (set_mem (eb_ptr (ebufs s b) + eb_length (ebufs s b)) bs s)"

definition ebuf_adjust :: "addr \<Rightarrow> int \<Rightarrow> 'f ether \<Rightarrow> 'f ether" where
  "ebuf_adjust b amt = set_ebuf b (\<lambda>e. e\<lparr>eb_ptr := eb_ptr e + of_int amt, eb_length := eb_length e + of_int amt\<rparr>)"

definition ebuf_setlength :: "addr \<Rightarrow> u32 \<Rightarrow> 'f ether \<Rightarrow> 'f ether" where
  "ebuf_setlength b amt = set_ebuf b (\<lambda>e. e\<lparr>eb_length := amt\<rparr>)"

text \<open>Numbers at the end of a buffer, at its position, and read from its position; the macros shift
  wider values and take the low byte of each.\<close>

definition ebuf_append_u8 :: "addr \<Rightarrow> u32 \<Rightarrow> 'f ether \<Rightarrow> 'f ether" where
  "ebuf_append_u8 b v s = ebuf_append_bytes b [ucast v] s"

definition ebuf_append_u16_be :: "addr \<Rightarrow> u32 \<Rightarrow> 'f ether \<Rightarrow> 'f ether" where
  "ebuf_append_u16_be b w s = ebuf_append_u8 b (w AND 0xFF) (ebuf_append_u8 b (drop_bit 8 w AND 0xFF) s)"

definition ebuf_append_u32_be :: "addr \<Rightarrow> u32 \<Rightarrow> 'f ether \<Rightarrow> 'f ether" where
  "ebuf_append_u32_be b w s =
     ebuf_append_u8 b (w AND 0xFF) (ebuf_append_u8 b (drop_bit 8 w AND 0xFF)
       (ebuf_append_u8 b (drop_bit 16 w AND 0xFF) (ebuf_append_u8 b (drop_bit 24 w AND 0xFF) s)))"

definition ebuf_put_u8 :: "addr \<Rightarrow> u32 \<Rightarrow> 'f ether \<Rightarrow> 'f ether" where
  "ebuf_put_u8 b v s = ebuf_put_bytes b [ucast v] s"

definition ebuf_put_u16_be :: "addr \<Rightarrow> u32 \<Rightarrow> 'f ether \<Rightarrow> 'f ether" where
  "ebuf_put_u16_be b w s = ebuf_put_u8 b (w AND 0xFF) (ebuf_put_u8 b (drop_bit 8 w AND 0xFF) s)"

definition ebuf_put_u32_be :: "addr \<Rightarrow> u32 \<Rightarrow> 'f ether \<Rightarrow> 'f ether" where
  "ebuf_put_u32_be b w s =
     ebuf_put_u8 b (w AND 0xFF) (ebuf_put_u8 b (drop_bit 8 w AND 0xFF)
       (ebuf_put_u8 b (drop_bit 16 w AND 0xFF) (ebuf_put_u8 b (drop_bit 24 w AND 0xFF) s)))"

definition ebuf_get_u8 :: "addr \<Rightarrow> 'f ether \<Rightarrow> u8 \<times> 'f ether" where
  "ebuf_get_u8 b s =
     (let s = set_ebuf b (\<lambda>e. e\<lparr>eb_length := eb_length e - 1\<rparr>) s; a = eb_ptr (ebufs s b)
      in (cfe_mem (eth_cfe s) a, set_ebuf b (\<lambda>e. e\<lparr>eb_ptr := a + 1\<rparr>) s))"

definition ebuf_get_u16_be :: "addr \<Rightarrow> 'f ether \<Rightarrow> u32 \<times> 'f ether" where
  "ebuf_get_u16_be b s =
     (let s = ebuf_skip b 2 s; m = cfe_mem (eth_cfe s); a = eb_ptr (ebufs s b)
      in (ucast (m (a - 1)) OR push_bit 8 (ucast (m (a - 2))), s))"

definition ebuf_get_u32_be :: "addr \<Rightarrow> 'f ether \<Rightarrow> u32 \<times> 'f ether" where
  "ebuf_get_u32_be b s =
     (let s = ebuf_skip b 4 s; m = cfe_mem (eth_cfe s); a = eb_ptr (ebufs s b)
      in (ucast (m (a - 1)) OR push_bit 8 (ucast (m (a - 2))) OR push_bit 16 (ucast (m (a - 3)))
            OR push_bit 24 (ucast (m (a - 4))), s))"

definition ebuf_get_bytes :: "addr \<Rightarrow> nat \<Rightarrow> 'f ether \<Rightarrow> u8 list \<times> 'f ether" where
  "ebuf_get_bytes b l s = (mem_at (cfe_mem (eth_cfe s)) (eb_ptr (ebufs s b)) l, ebuf_skip b (int l) s)"

definition eth_free :: "addr \<Rightarrow> addr \<Rightarrow> 'f ether \<Rightarrow> 'f ether" where
  "eth_free eth buf s = s\<lparr>eth_links := q_enqueue (eth_links s) (eth_freelist eth) buf\<rparr>"

definition eth_alloc :: "addr \<Rightarrow> int \<Rightarrow> 'f ether \<Rightarrow> addr option \<times> 'f ether" where
  "eth_alloc eth port s =
     (let p = eth_ports s ! nat port
      in case q_deqnext (eth_links s) (eth_freelist eth) of
           (None, h) \<Rightarrow> (None, s\<lparr>eth_links := h\<rparr>)
         | (Some buf, h) \<Rightarrow>
             let s = s\<lparr>eth_links := h\<rparr>;
                 s = set_ebuf buf (\<lambda>e. e\<lparr>eb_status := 0, eb_port := port\<rparr>) s;
                 s = ebuf_init buf s;
                 s = (if ep_ptype p = ETH_PTYPE_DIX then ebuf_seek buf ENET_DIX_HEADER s else s);
                 s = set_ebuf buf (\<lambda>e. e\<lparr>eb_length := 0\<rparr>) s
             in (Some buf, s))"

section \<open>Ports\<close>

definition port_in_use :: "ether_port \<Rightarrow> bool" where "port_in_use p \<longleftrightarrow> ep_rxcallback p \<noteq> NULL"

definition eth_open :: "int \<Rightarrow> u8 \<times> u8 \<Rightarrow> addr \<Rightarrow> addr \<Rightarrow> 'f ether \<Rightarrow> int \<times> 'f ether" where
  "eth_open ptype pdata cb ref s =
     (let portnum = length (takeWhile port_in_use (eth_ports s))
      in if portnum = ETH_MAX_PORTS then (CFE_ERR_NOHANDLES, s)
         else if ptype = ETH_PTYPE_DIX then
           (int portnum,
            set_port portnum (\<lambda>p. p\<lparr>ep_proto := (ep_proto p)[0 := fst pdata, 1 := snd pdata],
              ep_mtu := ENET_MAX_PKT - ENET_DIX_HEADER, ep_ptype := ptype, ep_rxcallback := cb,
              ep_dev := eth_devhandle s, ep_ref := ref\<rparr>) s)
         else (CFE_ERR_UNSUPPORTED, s))"

definition eth_close :: "int \<Rightarrow> 'f ether \<Rightarrow> 'f ether" where
  "eth_close port s =
     set_port (nat port) (\<lambda>p. p\<lparr>ep_ptype := 0, ep_rxcallback := NULL, ep_dev := 0, ep_proto := replicate 8 0\<rparr>) s"

definition eth_getmtu :: "int \<Rightarrow> 'f ether \<Rightarrow> int" where
  "eth_getmtu port s = ep_mtu (eth_ports s ! nat port)"

text \<open>Whether a port takes the frame at an address; the loop over the ports.\<close>

definition port_takes :: "cmemory \<Rightarrow> addr \<Rightarrow> ether_port \<Rightarrow> bool" where
  "port_takes m a p \<longleftrightarrow> port_in_use p \<and> ep_ptype p = ETH_PTYPE_DIX \<and>
     ep_proto p ! 0 = m (a + 12) \<and> ep_proto p ! 1 = m (a + 13)"

definition eth_findport :: "addr \<Rightarrow> 'f ether \<Rightarrow> nat option \<times> 'f ether" where
  "eth_findport buf s =
     (let m = cfe_mem (eth_cfe s); a = eb_ptr (ebufs s buf)
      in if m (a + 6) AND 1 \<noteq> 0 then (None, s)
         else if eb_length (ebufs s buf) < 60 then (None, s)
         else let idx = length (takeWhile (\<lambda>p. \<not> port_takes m a p) (eth_ports s))
         in if idx < ETH_MAX_PORTS then (Some idx, ebuf_skip buf ENET_DIX_HEADER s) else (None, s))"

section \<open>Receiving and sending\<close>

text \<open>\<open>run cb buf ref\<close> is the code of a callback.\<close>

type_synonym 'f rx_code = "addr \<Rightarrow> addr \<Rightarrow> addr \<Rightarrow> 'f ether \<Rightarrow> int \<times> 'f ether"

definition eth_poll :: "'f firmware \<Rightarrow> cfe_xiocb_t \<Rightarrow> 'f rx_code \<Rightarrow> addr \<Rightarrow> 'f ether \<Rightarrow> 'f ether" where
  "eth_poll fw g run eth s =
     (let (st, c) = cfe_inpstat fw g (eth_devhandle s) (eth_cfe s);
          s = s\<lparr>eth_cfe := c\<rparr>
      in if st = 0 then s
         else case q_deqnext (eth_links s) (eth_freelist eth) of
           (None, h) \<Rightarrow> s\<lparr>eth_links := h\<rparr>
         | (Some buf, h) \<Rightarrow>
             let s = ebuf_init buf (s\<lparr>eth_links := h\<rparr>);
                 (res, c) = cfe_read fw g (eth_devhandle s) (eb_ptr (ebufs s buf)) (of_int ENET_MAX_PKT) (eth_cfe s);
                 s = s\<lparr>eth_cfe := c\<rparr>
             in if sint res \<le> 0 then eth_free eth buf s
                else
                  let s = set_ebuf buf (\<lambda>e. e\<lparr>eb_length := res, eb_status := 0, eb_usrdata := 0\<rparr>) s;
                      (p, s) = eth_findport buf s
                  in case p of
                       Some i \<Rightarrow>
                         let s = set_ebuf buf (\<lambda>e. e\<lparr>eb_port := int i\<rparr>) s;
                             (res, s) = run (ep_rxcallback (eth_ports s ! i)) buf (ep_ref (eth_ports s ! i)) s
                         in if res = ETH_DROP then eth_free eth buf s else s
                     | None \<Rightarrow> eth_free eth buf s)"

definition eth_send :: "'f firmware \<Rightarrow> cfe_xiocb_t \<Rightarrow> addr \<Rightarrow> addr \<Rightarrow> u8 list \<Rightarrow> 'f ether \<Rightarrow> int \<times> 'f ether" where
  "eth_send fw g eth buf dest s =
     (let p = eth_ports s ! nat (eb_port (ebufs s buf))
      in if ep_ptype p = ETH_PTYPE_DIX then
           let s = ebuf_seek buf (- ENET_DIX_HEADER) s;
               s = ebuf_put_bytes buf dest s;
               s = ebuf_put_bytes buf (mem_at (cfe_mem (eth_cfe s)) (eth_hwaddr eth) ENET_ADDR_LEN) s;
               s = ebuf_put_bytes buf (take 2 (ep_proto p)) s;
               s = ebuf_prepend buf ENET_DIX_HEADER s;
               (res, c) = cfe_write fw g (ep_dev p) (eb_ptr (ebufs s buf)) (eb_length (ebufs s buf)) (eth_cfe s)
           in (sint res, s\<lparr>eth_cfe := c\<rparr>)
         else (CFE_ERR_UNSUPPORTED, eth_free eth buf s))"

section \<open>The device\<close>

definition IOCTL_ETHER_GETHWADDR :: u32 where "IOCTL_ETHER_GETHWADDR = 1"
definition IOCTL_ETHER_SETHWADDR :: u32 where "IOCTL_ETHER_SETHWADDR = 2"
definition IOCTL_ETHER_GETSPEED :: u32 where "IOCTL_ETHER_GETSPEED = 3"
definition IOCTL_ETHER_SETSPEED :: u32 where "IOCTL_ETHER_SETSPEED = 4"
definition IOCTL_ETHER_GETLOOPBACK :: u32 where "IOCTL_ETHER_GETLOOPBACK = 7"
definition IOCTL_ETHER_SETLOOPBACK :: u32 where "IOCTL_ETHER_SETLOOPBACK = 8"

text \<open>A call of the device with a buffer at an address.\<close>

definition eth_ioctl :: "u32 \<Rightarrow> addr \<Rightarrow> u32 \<Rightarrow> 'f firmware \<Rightarrow> cfe_xiocb_t \<Rightarrow> 'f ether \<Rightarrow> int \<times> 'f ether" where
  "eth_ioctl cmd buffer n fw g s =
     (case cfe_ioctl fw g (eth_devhandle s) cmd buffer n True 0 (eth_cfe s) of
        (r, _, c) \<Rightarrow> (sint r, s\<lparr>eth_cfe := c\<rparr>))"

definition eth_gethwaddr :: "addr \<Rightarrow> addr \<Rightarrow> 'f ether \<Rightarrow> 'f ether" where
  "eth_gethwaddr eth hwaddr s = set_mem hwaddr (mem_at (cfe_mem (eth_cfe s)) (eth_hwaddr eth) ENET_ADDR_LEN) s"

definition eth_sethwaddr :: "'f firmware \<Rightarrow> cfe_xiocb_t \<Rightarrow> addr \<Rightarrow> addr \<Rightarrow> 'f ether \<Rightarrow> 'f ether" where
  "eth_sethwaddr fw g eth hwaddr s =
     (let s = set_mem (eth_hwaddr eth) (mem_at (cfe_mem (eth_cfe s)) hwaddr ENET_ADDR_LEN) s
      in snd (eth_ioctl IOCTL_ETHER_SETHWADDR (eth_hwaddr eth) 6 fw g s))"

text \<open>The setters pass the address of their argument, which lies on the stack, at \<open>sp\<close> here.\<close>

definition eth_setspeed :: "'f firmware \<Rightarrow> cfe_xiocb_t \<Rightarrow> addr \<Rightarrow> u32 \<Rightarrow> 'f ether \<Rightarrow> int \<times> 'f ether" where
  "eth_setspeed fw g sp speed s = eth_ioctl IOCTL_ETHER_SETSPEED sp 4 fw g (set_mem sp (bytes32 speed) s)"

definition eth_setloopback :: "'f firmware \<Rightarrow> cfe_xiocb_t \<Rightarrow> addr \<Rightarrow> u32 \<Rightarrow> 'f ether \<Rightarrow> int \<times> 'f ether" where
  "eth_setloopback fw g sp loop s = eth_ioctl IOCTL_ETHER_SETLOOPBACK sp 4 fw g (set_mem sp (bytes32 loop) s)"

definition eth_getspeed :: "'f firmware \<Rightarrow> cfe_xiocb_t \<Rightarrow> addr \<Rightarrow> 'f ether \<Rightarrow> int \<times> 'f ether" where
  "eth_getspeed fw g speed s = eth_ioctl IOCTL_ETHER_GETSPEED speed 4 fw g s"

definition eth_getloopback :: "'f firmware \<Rightarrow> cfe_xiocb_t \<Rightarrow> addr \<Rightarrow> 'f ether \<Rightarrow> int \<times> 'f ether" where
  "eth_getloopback fw g loop s = eth_ioctl IOCTL_ETHER_GETLOOPBACK loop 4 fw g s"

text \<open>\<open>alloc k\<close> is the answer of the allocator to request \<open>k\<close>: the context, the ports, the buffers. The
  result is the context's address, NULL on failure; \<open>None\<close> if the name has no end.\<close>

definition eth_init ::
  "'f firmware \<Rightarrow> cfe_xiocb_t \<Rightarrow> (nat \<Rightarrow> addr) \<Rightarrow> addr \<Rightarrow> 'f ether \<Rightarrow> (addr \<times> 'f ether) option" where
  "eth_init fw g alloc devname s =
     (case cfe_open fw g devname (eth_cfe s) of None \<Rightarrow> None
      | Some (devhandle, c) \<Rightarrow>
          let s = s\<lparr>eth_cfe := c\<rparr>;
              close = (\<lambda>s. s\<lparr>eth_cfe := snd (cfe_close fw g devhandle (eth_cfe s))\<rparr>);
              eth = alloc 0
          in Some
            (if sint devhandle < 0 then (NULL, s)
             else if eth = NULL then (NULL, close s)
             else
               let s = set_mem eth (replicate 28 0) s;
                   (_, _, c) = cfe_ioctl fw g devhandle IOCTL_ETHER_GETHWADDR (eth_hwaddr eth) 6 True 0 (eth_cfe s);
                   s = s\<lparr>eth_cfe := c\<rparr>
               in if alloc 1 = NULL then (NULL, let s = close s in s\<lparr>eth_kfreed := eth_kfreed s @ [eth]\<rparr>)
                  else
                    let s = s\<lparr>eth_ports := replicate ETH_MAX_PORTS
                          \<lparr>ep_dev = 0, ep_proto = replicate 8 0, ep_ptype = 0, ep_mtu = 0, ep_rxcallback = 0, ep_ref = 0\<rparr>\<rparr>
                    in if alloc 2 = NULL then (NULL, let s = close s in s\<lparr>eth_kfreed := eth_kfreed s @ [alloc 1, eth]\<rparr>)
                       else
                         let h = q_init (eth_links s) (eth_freelist eth);
                             h = foldl (\<lambda>h b. q_enqueue h (eth_freelist eth) b) h
                                   (map (\<lambda>i. alloc 2 + of_nat i * EBUF_SIZE) [0..<ETH_MAX_BUFFERS])
                         in (eth, s\<lparr>eth_links := h, eth_devhandle := devhandle\<rparr>)))"

definition eth_uninit :: "'f firmware \<Rightarrow> cfe_xiocb_t \<Rightarrow> addr \<Rightarrow> addr \<Rightarrow> addr \<Rightarrow> 'f ether \<Rightarrow> 'f ether" where
  "eth_uninit fw g eth ports bufpool s =
     (let s = s\<lparr>eth_cfe := snd (cfe_close fw g (eth_devhandle s) (eth_cfe s))\<rparr>
      in s\<lparr>eth_kfreed := eth_kfreed s @ [bufpool, ports, eth]\<rparr>)"

section \<open>Incrementing an address\<close>

text \<open>From the last byte on; \<open>k\<close> is the number of bytes left, the sum is that of C's \<^verbatim>\<open>int\<close>.\<close>

fun incr_loop :: "nat \<Rightarrow> u32 \<Rightarrow> u8 list \<Rightarrow> u8 list" where
  "incr_loop 0 carry hw = hw"
| "incr_loop (Suc k) carry hw =
     (if carry = 0 then hw
      else let sum = ucast (hw ! k) + carry
           in incr_loop k (drop_bit 8 sum) (hw[k := ucast (sum AND 0xFF)]))"

definition enet_incr_hwaddr :: "u8 list \<Rightarrow> u32 \<Rightarrow> u8 list" where
  "enet_incr_hwaddr hwaddr incr = incr_loop 6 incr hwaddr"

section \<open>An address plus a number\<close>

definition addr_value :: "u8 list \<Rightarrow> nat" where
  "addr_value bs = foldl (\<lambda>v b. v * 256 + unat b) 0 bs"

lemma addr_value_snoc [simp]: "addr_value (bs @ [b]) = addr_value bs * 256 + unat b"
  by (simp add: addr_value_def)

lemma addr_value_less: "addr_value bs < 256 ^ length bs"
proof (induction bs rule: rev_induct)
  case (snoc b bs)
  have "unat b < 256" using unsigned_less [where ?'a = nat and 'b = 8, of b] by simp
  with snoc show ?case by simp
qed (simp add: addr_value_def)

text \<open>For increments that leave the \<^verbatim>\<open>int\<close> sum in range, the address counts as one number of 48 bits.\<close>

lemma incr_loop_adds:
  "unat c + 255 < 2 ^ 32 \<Longrightarrow> k \<le> length hw \<Longrightarrow>
     length (incr_loop k c hw) = length hw \<and> drop k (incr_loop k c hw) = drop k hw \<and>
     addr_value (take k (incr_loop k c hw)) = (addr_value (take k hw) + unat c) mod 256 ^ k"
proof (induction k arbitrary: c hw)
  case 0
  then show ?case by (simp add: addr_value_def)
next
  case (Suc k)
  have v: "addr_value (take (Suc k) xs) = addr_value (take k xs) * 256 + unat (xs ! k)" if "k < length xs" for xs
    using that by (simp add: take_Suc_conv_app_nth)
  show ?case
  proof (cases "c = 0")
    case True
    have "length (take (Suc k) hw) = Suc k" using Suc.prems(2) by simp
    then have "addr_value (take (Suc k) hw) < 256 ^ Suc k" using addr_value_less by metis
    then show ?thesis using True by simp
  next
    case False
    define sum where "sum = ucast (hw ! k) + c"
    define hw' where "hw' = hw[k := ucast (sum AND 0xFF)]"
    have b: "unat (hw ! k) < 256" using unsigned_less [where ?'a = nat and 'b = 8, of "hw ! k"] by simp
    have "unat (ucast (hw ! k) :: u32) = unat (hw ! k)" by (simp add: unsigned_ucast_eq take_bit_nat_eq_self)
    then have s: "unat sum = unat (hw ! k) + unat c" using b Suc.prems(1) by (simp add: sum_def unat_word_ariths)
    have lo: "unat (ucast (sum AND 0xFF) :: u8) = unat sum mod 256"
    proof -
      have m: "(0xFF :: u32) = mask 8" by (simp add: mask_eq_exp_minus_1)
      have "ucast (sum AND 0xFF) = (ucast sum :: u8)"
        unfolding m by (rule bit_word_eqI) (auto simp: bit_ucast_iff bit_and_iff bit_mask_iff)
      then show ?thesis by (simp add: unsigned_ucast_eq take_bit_nat_def)
    qed
    have "unat sum < 2 ^ 32" using unsigned_less [where ?'a = nat and 'b = 32, of sum] by simp
    then have hi: "unat (drop_bit 8 sum) = unat sum div 256"
      by (simp add: unsigned_drop_bit_eq drop_bit_nat_def take_bit_nat_eq_self)
    have r: "incr_loop (Suc k) c hw = incr_loop k (drop_bit 8 sum) hw'" using False by (simp add: sum_def hw'_def Let_def)
    have "unat (drop_bit 8 sum) + 255 < 2 ^ 32" using s b Suc.prems(1) by (simp add: hi)
    from Suc.IH [OF this, of hw'] Suc.prems(2)
    have IH: "length (incr_loop k (drop_bit 8 sum) hw') = length hw" "drop k (incr_loop k (drop_bit 8 sum) hw') = drop k hw'"
      "addr_value (take k (incr_loop k (drop_bit 8 sum) hw')) = (addr_value (take k hw) + unat sum div 256) mod 256 ^ k"
      by (simp_all add: hw'_def hi)
    have n: "incr_loop k (drop_bit 8 sum) hw' ! k = ucast (sum AND 0xFF)"
      using arg_cong [OF IH(2), of hd] IH(1) Suc.prems(2) by (simp add: hd_drop_conv_nth hw'_def)
    have "drop (Suc k) (incr_loop k (drop_bit 8 sum) hw') = drop (Suc k) hw"
      using IH(2) by (metis drop_Suc tl_drop drop_update_cancel hw'_def lessI)
    moreover have "addr_value (take (Suc k) (incr_loop k (drop_bit 8 sum) hw'))
        = ((addr_value (take k hw) + unat sum div 256) mod 256 ^ k) * 256 + unat sum mod 256"
      using v [of "incr_loop k (drop_bit 8 sum) hw'"] IH(1,3) n lo Suc.prems(2) by simp
    moreover have "\<dots> = (addr_value (take k hw) * 256 + unat sum) mod 256 ^ Suc k"
      using mod_mult2_eq [of "addr_value (take k hw) * 256 + unat sum" 256 "256 ^ k"] by (simp add: ac_simps)
    ultimately show ?thesis using r IH(1) v [of hw] s Suc.prems(2) by (simp add: ac_simps)
  qed
qed

lemma enet_incr_adds:
  assumes "length hw = 6" "unat incr < 0xffffff00"
  shows "length (enet_incr_hwaddr hw incr) = 6"
    and "addr_value (enet_incr_hwaddr hw incr) = (addr_value hw + unat incr) mod 2 ^ 48"
proof -
  have "unat incr + 255 < 2 ^ 32" "6 \<le> length hw" using assms by simp_all
  from incr_loop_adds [OF this] have a: "length (incr_loop 6 incr hw) = 6"
      "addr_value (take 6 (incr_loop 6 incr hw)) = (addr_value (take 6 hw) + unat incr) mod 256 ^ 6"
    unfolding assms(1) by blast+
  then show "length (enet_incr_hwaddr hw incr) = 6" by (simp add: enet_incr_hwaddr_def)
  have "take 6 (incr_loop 6 incr hw) = incr_loop 6 incr hw" "take 6 hw = hw" using a(1) assms(1) by simp_all
  with a(2) show "addr_value (enet_incr_hwaddr hw incr) = (addr_value hw + unat incr) mod 2 ^ 48"
    by (simp add: enet_incr_hwaddr_def)
qed

section \<open>Buffers are kept\<close>

text \<open>The free list is a client of the queue: all its facts are those of the queue interface.\<close>

lemma eth_alloc_free:
  assumes "q_list (eth_links s) (eth_freelist eth) (b # bs)"
  shows "fst (eth_alloc eth port s) = Some b"
    and "q_list (eth_links (snd (eth_alloc eth port s))) (eth_freelist eth) bs"
    and "q_list (eth_links (eth_free eth b (snd (eth_alloc eth port s)))) (eth_freelist eth) (bs @ [b])"
proof -
  obtain h where h: "q_deqnext (eth_links s) (eth_freelist eth) = (Some b, h)" "q_list h (eth_freelist eth) bs"
    using cq.get_cons [OF assms] by blast
  then show a: "fst (eth_alloc eth port s) = Some b"
    "q_list (eth_links (snd (eth_alloc eth port s))) (eth_freelist eth) bs"
    by (simp_all add: eth_alloc_def Let_def ebuf_init_def ebuf_seek_def set_ebuf_def)
  have "b \<noteq> eth_freelist eth" "b \<notin> set bs" using assms by (auto simp: q_list_def)
  then show "q_list (eth_links (eth_free eth b (snd (eth_alloc eth port s)))) (eth_freelist eth) (bs @ [b])"
    unfolding eth_free_def using cq.put_holds [OF a(2)] by simp
qed

lemma eth_alloc_empty:
  "q_list (eth_links s) (eth_freelist eth) [] \<Longrightarrow> eth_alloc eth port s = (None, s)"
  using cq.get_nil [of "eth_links s" "eth_freelist eth"] by (simp add: eth_alloc_def)

lemma findport_links: "eth_links (snd (eth_findport buf s)) = eth_links s"
  by (simp add: eth_findport_def Let_def ebuf_skip_def set_ebuf_def)

text \<open>A poll loses no buffer: if nothing has arrived the list stays, else its first buffer was taken
  and has gone back to its end, unless a user keeps it.\<close>

lemma eth_poll_keeps:
  assumes q: "q_list (eth_links s) (eth_freelist eth) (b # bs)"
    and user: "\<And>cb buf ref t. eth_links (snd (run cb buf ref t)) = eth_links t"
  shows "\<exists>l. q_list (eth_links (eth_poll fw g run eth s)) (eth_freelist eth) l \<and> l \<in> {b # bs, bs @ [b], bs}"
proof -
  obtain st c where i: "cfe_inpstat fw g (eth_devhandle s) (eth_cfe s) = (st, c)" by fastforce
  obtain h where h: "q_deqnext (eth_links s) (eth_freelist eth) = (Some b, h)" "q_list h (eth_freelist eth) bs"
    using cq.get_cons [OF q] by blast
  have n: "b \<noteq> eth_freelist eth" "b \<notin> set bs" using q by (auto simp: q_list_def)
  have free: "q_list (eth_links (eth_free eth b t)) (eth_freelist eth) (bs @ [b])" if "eth_links t = h" for t :: "'b ether"
    unfolding eth_free_def using cq.put_holds [OF h(2)] n that by simp
  show ?thesis
  proof (cases "st = 0")
    case True
    then show ?thesis using q by (auto simp: eth_poll_def i)
  next
    case False
    define t where "t = ebuf_init b (s\<lparr>eth_cfe := c, eth_links := h\<rparr>)"
    obtain res d where r: "cfe_read fw g (eth_devhandle t) (eb_ptr (ebufs t b)) (of_int ENET_MAX_PKT) (eth_cfe t) = (res, d)" by fastforce
    define u where "u = set_ebuf b (\<lambda>e. e\<lparr>eb_length := res, eb_status := 0, eb_usrdata := 0\<rparr>) (t\<lparr>eth_cfe := d\<rparr>)"
    obtain p v where p: "eth_findport b u = (p, v)" by fastforce
    have l: "eth_links t = h" by (simp add: t_def ebuf_init_def set_ebuf_def)
    then have "eth_links u = h" by (simp add: u_def set_ebuf_def)
    then have l2: "eth_links v = h" using findport_links [of b u] by (simp add: p)
    have poll: "eth_poll fw g run eth s = (if sint res \<le> 0 then eth_free eth b (t\<lparr>eth_cfe := d\<rparr>)
        else case p of
          Some i \<Rightarrow> (let w = set_ebuf b (\<lambda>e. e\<lparr>eb_port := int i\<rparr>) v;
                        (res, w) = run (ep_rxcallback (eth_ports w ! i)) b (ep_ref (eth_ports w ! i)) w
                    in if res = ETH_DROP then eth_free eth b w else w)
        | None \<Rightarrow> eth_free eth b v)"
      using False by (simp add: eth_poll_def i h(1) Let_def r p flip: t_def u_def)
    show ?thesis
    proof (cases "sint res \<le> 0 \<or> p = None")
      case True
      then show ?thesis using free [of "t\<lparr>eth_cfe := d\<rparr>"] free [OF l2] l by (auto simp: poll)
    next
      case False
      then obtain i where "p = Some i" by auto
      define w where "w = set_ebuf b (\<lambda>e. e\<lparr>eb_port := int i\<rparr>) v"
      obtain k x where k: "run (ep_rxcallback (eth_ports w ! i)) b (ep_ref (eth_ports w ! i)) w = (k, x)" by fastforce
      have "eth_links x = h" using user [of _ b _ w] k l2 by (metis snd_conv w_def set_ebuf_def ether.ext_inject ether.surjective ether.update_convs(5))
      then show ?thesis using False \<open>p = Some i\<close> free [of x] h(2) k by (auto simp: poll Let_def w_def [symmetric])
    qed
  qed
qed

text \<open>After the start all eight buffers are free, in order.\<close>

lemma eth_init_free_list:
  assumes "eth_init fw g alloc devname s = Some (eth, t)" "eth \<noteq> NULL"
    and "eth_freelist eth \<notin> (\<lambda>i. alloc 2 + of_nat i * EBUF_SIZE) ` {..<ETH_MAX_BUFFERS}"
  shows "q_list (eth_links t) (eth_freelist eth) (map (\<lambda>i. alloc 2 + of_nat i * EBUF_SIZE) [0..<ETH_MAX_BUFFERS])"
proof -
  let ?bs = "map (\<lambda>i. alloc 2 + of_nat i * EBUF_SIZE) [0..<ETH_MAX_BUFFERS]"
  have l: "eth_links t = foldl (\<lambda>h b. q_enqueue h (eth_freelist eth) b) (q_init (eth_links s) (eth_freelist eth)) ?bs"
    using assms(1,2) by (auto simp: eth_init_def Let_def set_mem_def split: option.splits prod.splits if_splits)
  have "distinct (map (\<lambda>i. of_nat i * EBUF_SIZE) [0..<ETH_MAX_BUFFERS])" by code_simp
  then have "distinct (map ((+) (alloc 2)) (map (\<lambda>i. of_nat i * EBUF_SIZE) [0..<ETH_MAX_BUFFERS]))"
    by (subst distinct_map) (simp add: inj_on_def)
  then have "distinct ?bs" by (simp add: comp_def)
  moreover have "b \<noteq> eth_freelist eth" if "b \<in> set ?bs" for b
    using that assms(3) by (force simp: image_iff lessThan_atLeast0)
  ultimately show ?thesis
    unfolding l using cq.puts_holds [OF q_list_init, of "?bs" "eth_freelist eth"] by simp
qed

section \<open>Frames delivered\<close>

text \<open>A port opened for a type nobody else has takes the frames of that type, and no port before it does.\<close>

lemma eth_open_takes:
  assumes open_eq: "eth_open ETH_PTYPE_DIX (t0, t1) cb ref s = (i, s')" and ok: "0 \<le> i" "cb \<noteq> NULL"
    and ports: "length (eth_ports s) = ETH_MAX_PORTS" "\<forall>p \<in> set (eth_ports s). length (ep_proto p) = 8"
    and own: "\<forall>p \<in> set (eth_ports s). port_in_use p \<longrightarrow> (ep_proto p ! 0, ep_proto p ! 1) \<noteq> (t0, t1)"
    and frame: "m (a + 12) = t0" "m (a + 13) = t1"
  shows "nat i < ETH_MAX_PORTS" and "length (takeWhile (\<lambda>p. \<not> port_takes m a p) (eth_ports s')) = nat i"
    and "ep_rxcallback (eth_ports s' ! nat i) = cb" and "ep_ref (eth_ports s' ! nat i) = ref"
proof -
  let ?n = "length (takeWhile port_in_use (eth_ports s))"
  have n: "?n \<le> ETH_MAX_PORTS" using length_takeWhile_le [of port_in_use "eth_ports s"] ports(1) by simp
  have r: "i = int ?n" "?n < ETH_MAX_PORTS" "s' = snd (eth_open ETH_PTYPE_DIX (t0, t1) cb ref s)"
    using open_eq ok(1) n by (auto simp: eth_open_def Let_def CFE_ERR_NOHANDLES_def split: if_splits)
  then have i: "nat i = ?n" by simp
  then show lt: "nat i < ETH_MAX_PORTS" using r(2) by simp
  have P: "eth_ports s' = (eth_ports s)[nat i := eth_ports s' ! nat i]"
    using r(2) ports(1) by (simp add: r(3) i eth_open_def set_port_def Let_def)
  have 8: "length (ep_proto (eth_ports s ! nat i)) = 8" using ports lt by simp
  show "ep_rxcallback (eth_ports s' ! nat i) = cb" "ep_ref (eth_ports s' ! nat i) = ref"
    using r(2) ports(1) by (simp_all add: r(3) i eth_open_def set_port_def Let_def)
  have "port_takes m a (eth_ports s' ! nat i)"
    using r(2) ports(1) 8 ok(2) frame
    by (simp add: r(3) i eth_open_def set_port_def Let_def port_takes_def port_in_use_def)
  moreover have "\<not> port_takes m a (eth_ports s' ! j)" if "j < nat i" for j
  proof -
    have "j < length (eth_ports s)" using that lt ports(1) by simp
    then have "eth_ports s ! j \<in> set (eth_ports s)" "eth_ports s' ! j = eth_ports s ! j"
      using that by (simp, subst P) simp
    then show ?thesis using own frame by (auto simp: port_takes_def)
  qed
  moreover have l: "length (eth_ports s') = ETH_MAX_PORTS" by (subst P) (simp add: ports(1))
  ultimately have "takeWhile (\<lambda>p. \<not> port_takes m a p) (eth_ports s') = take (nat i) (eth_ports s')"
    by (intro takeWhile_eq_take_P_nth) simp_all
  then show "length (takeWhile (\<lambda>p. \<not> port_takes m a p) (eth_ports s')) = nat i" using lt l by simp
qed

text \<open>A poll hands a good frame to the first port of its type, with the buffer at the data behind the header.\<close>

lemma eth_poll_delivers:
  assumes q: "q_list (eth_links s) (eth_freelist eth) (b # bs)"
    and inp: "cfe_inpstat fw g (eth_devhandle s) (eth_cfe s) = (st, c)" "st \<noteq> 0"
    and rd: "cfe_read fw g (eth_devhandle s) (eb_data b) (of_int ENET_MAX_PKT) c = (res, d)"
    and good: "60 \<le> res" "sint res > 0" "cfe_mem d (eb_data b + 6) AND 1 = 0"
    and port: "length (takeWhile (\<lambda>p. \<not> port_takes (cfe_mem d) (eb_data b) p) (eth_ports s)) = i" "i < ETH_MAX_PORTS"
  shows "\<exists>t. eth_poll fw g run eth s
          = (let (r, w) = run (ep_rxcallback (eth_ports s ! i)) b (ep_ref (eth_ports s ! i)) t
             in if r = ETH_DROP then eth_free eth b w else w) \<and>
        eb_ptr (ebufs t b) = eb_data b + 14 \<and> eb_length (ebufs t b) = res - 14 \<and> eb_port (ebufs t b) = int i \<and>
        eth_cfe t = d \<and> eth_ports t = eth_ports s"
proof -
  obtain h where h: "q_deqnext (eth_links s) (eth_freelist eth) = (Some b, h)"
    using cq.get_cons [OF q] by blast
  define u where "u = set_ebuf b (\<lambda>e. e\<lparr>eb_length := res, eb_status := 0, eb_usrdata := 0\<rparr>)
      ((ebuf_init b (s\<lparr>eth_cfe := c, eth_links := h\<rparr>))\<lparr>eth_cfe := d\<rparr>)"
  have "eth_findport b u = (Some i, ebuf_skip b ENET_DIX_HEADER u)"
    using good(1,3) port by (simp add: eth_findport_def u_def ebuf_init_def set_ebuf_def Let_def)
  then have "eth_poll fw g run eth s
      = (let t = set_ebuf b (\<lambda>e. e\<lparr>eb_port := int i\<rparr>) (ebuf_skip b ENET_DIX_HEADER u);
             (r, w) = run (ep_rxcallback (eth_ports s ! i)) b (ep_ref (eth_ports s ! i)) t
         in if r = ETH_DROP then eth_free eth b w else w)"
    using good(2) inp h rd by (simp add: eth_poll_def Let_def u_def ebuf_init_def set_ebuf_def ebuf_skip_def)
  then show ?thesis
    by (intro exI [of _ "set_ebuf b (\<lambda>e. e\<lparr>eb_port := int i\<rparr>) (ebuf_skip b ENET_DIX_HEADER u)"])
       (simp add: u_def ebuf_init_def set_ebuf_def ebuf_skip_def ENET_DIX_HEADER_def)
qed

section \<open>Numbers in buffers\<close>

text \<open>What is appended or put big-endian is what is read there.\<close>

lemma be32_bytes:
  fixes w :: u32
  shows "ucast (ucast (w AND 0xFF) :: u8) OR push_bit 8 (ucast (ucast (drop_bit 8 w AND 0xFF) :: u8))
      OR push_bit 16 (ucast (ucast (drop_bit 16 w AND 0xFF) :: u8))
      OR push_bit 24 (ucast (ucast (drop_bit 24 w AND 0xFF) :: u8)) = w" (is "?v = w")
proof (rule bit_word_eqI)
  fix n assume "n < LENGTH(32)"
  then consider "n < 8" | "8 \<le> n" "n < 16" | "16 \<le> n" "n < 24" | "24 \<le> n" "n < 32" by fastforce
  moreover have m: "(0xFF :: u32) = mask 8" by (simp add: mask_eq_exp_minus_1)
  ultimately show "bit ?v n = bit w n" unfolding m
    by cases (auto simp: bit_or_iff bit_and_iff bit_push_bit_iff bit_drop_bit_eq bit_ucast_iff bit_mask_iff)
qed

lemma be16_bytes:
  fixes w :: u32
  shows "ucast (ucast (w AND 0xFF) :: u8) OR push_bit 8 (ucast (ucast (drop_bit 8 w AND 0xFF) :: u8)) = w AND 0xFFFF"
proof -
  have m: "(0xFF :: u32) = mask 8" "(0xFFFF :: u32) = mask 16" by (simp_all add: mask_eq_exp_minus_1)
  show ?thesis unfolding m
    by (rule bit_word_eqI) (auto simp: bit_or_iff bit_and_iff bit_push_bit_iff bit_drop_bit_eq bit_ucast_iff bit_mask_iff)
qed

lemmas ebuf_defs = ebuf_append_u8_def ebuf_append_bytes_def ebuf_put_u8_def ebuf_put_bytes_def ebuf_seek_def ebuf_skip_def
  set_ebuf_def set_mem_def Let_def

lemma small_words_apart:
  "(1 :: u32) \<noteq> 0" "(2 :: u32) \<noteq> 0" "(3 :: u32) \<noteq> 0" "(0 :: u32) \<noteq> 1" "(2 :: u32) \<noteq> 1" "(3 :: u32) \<noteq> 1"
  "(0 :: u32) \<noteq> 2" "(1 :: u32) \<noteq> 2" "(3 :: u32) \<noteq> 2" "(0 :: u32) \<noteq> 3" "(1 :: u32) \<noteq> 3" "(2 :: u32) \<noteq> 3"
  by code_simp+

lemma ebuf_put_get_u32: "fst (ebuf_get_u32_be b (ebuf_seek b (- 4) (ebuf_put_u32_be b w s))) = w"
  using be32_bytes [of w] by (simp del: word_eq_numeral_iff_iszero add: small_words_apart ebuf_get_u32_be_def ebuf_put_u32_be_def ebuf_defs)

lemma ebuf_put_get_u16: "fst (ebuf_get_u16_be b (ebuf_seek b (- 2) (ebuf_put_u16_be b w s))) = w AND 0xFFFF"
  using be16_bytes [of w] by (simp del: word_eq_numeral_iff_iszero add: small_words_apart ebuf_get_u16_be_def ebuf_put_u16_be_def ebuf_defs)

lemma ebuf_append_get_u32:
  "fst (ebuf_get_u32_be b (ebuf_seek b (uint (eb_length (ebufs s b))) (ebuf_append_u32_be b w s))) = w"
  using be32_bytes [of w] by (simp del: word_eq_numeral_iff_iszero add: small_words_apart ebuf_get_u32_be_def ebuf_append_u32_be_def ebuf_defs algebra_simps)

section \<open>Frames sent\<close>

lemma put_mem_append: "put_mem a (xs @ ys) m = put_mem (a + of_nat (length xs)) ys (put_mem a xs m)"
  by (induction xs arbitrary: a m) (simp_all add: algebra_simps)

lemma mem_at_append: "mem_at m a (i + j) = mem_at m a i @ mem_at m (a + of_nat i) j"
proof -
  have "mem_at m a (i + j) = map (\<lambda>k. m (a + of_nat k)) [0..<i] @ map (\<lambda>k. m (a + of_nat k)) [i..<i + j]"
    unfolding mem_at_def by (subst upt_add_eq_append) simp_all
  moreover have "map (\<lambda>k. m (a + of_nat k)) [i..<i + j] = map (\<lambda>k. m (a + of_nat i + of_nat k)) [0..<j]"
    by (rule nth_equalityI) (simp_all add: algebra_simps)
  ultimately show ?thesis by (simp add: mem_at_def)
qed

text \<open>The frame handed to the device: destination, own address, type, and the data put behind the room for
  the header that \<^verbatim>\<open>eth_alloc\<close> leaves.\<close>

lemma eth_send_frame:
  fixes buf :: addr and s :: "'f ether"
  defines "e \<equiv> ebufs s buf" and "p \<equiv> eth_ports s ! nat (eb_port (ebufs s buf))" and "m \<equiv> cfe_mem (eth_cfe s)"
    and "a \<equiv> eb_ptr (ebufs s buf) - 14"
  assumes dix: "ep_ptype p = ETH_PTYPE_DIX" "length dest = 6" "2 \<le> length (ep_proto p)"
    and apart: "\<And>i j. i < 6 \<Longrightarrow> j < 6 \<Longrightarrow> eth_hwaddr eth + of_nat i \<noteq> a + of_nat j"
    and len: "n + 14 < 2 ^ 32"
  defines "m' \<equiv> put_mem a (dest @ mem_at m (eth_hwaddr eth) 6 @ take 2 (ep_proto p)) m"
  shows "fst (eth_send fw g eth buf dest s)
      = sint (fst (cfe_write fw g (ep_dev p) a (eb_length e + 14) ((eth_cfe s)\<lparr>cfe_mem := m'\<rparr>)))"
    and "mem_at m' a (14 + n) = dest @ mem_at m (eth_hwaddr eth) 6 @ take 2 (ep_proto p) @ mem_at m (a + 14) n"
proof -
  let ?hw = "mem_at m (eth_hwaddr eth) 6" and ?pr = "take 2 (ep_proto p)"
  have l: "length ?hw = 6" "length ?pr = 2" using dix(3) by (simp_all add: mem_at_def)
  have hw: "mem_at (put_mem a dest m) (eth_hwaddr eth) 6 = ?hw"
    unfolding mem_at_def using apart dix(2) by (intro map_cong refl put_mem_outside) auto
  have m': "put_mem (a + 6 + 6) ?pr (put_mem (a + 6) ?hw (put_mem a dest m)) = m'"
    by (simp only: m'_def put_mem_append l dix(2)) simp
  have x: "eb_ptr (ebufs s buf) = a + 14" by (simp add: a_def)
  show "fst (eth_send fw g eth buf dest s)
      = sint (fst (cfe_write fw g (ep_dev p) a (eb_length e + 14) ((eth_cfe s)\<lparr>cfe_mem := m'\<rparr>)))"
    unfolding e_def using dix(1) hw m' l
    by (simp add: eth_send_def ebuf_seek_def ebuf_put_bytes_def ebuf_prepend_def set_ebuf_def set_mem_def Let_def
        ENET_DIX_HEADER_def ENET_ADDR_LEN_def dix(2) x split_beta flip: p_def m_def)
  have "mem_at m' a (14 + n) = mem_at m' a 14 @ mem_at m' (a + 14) n" using mem_at_append [of m' a 14 n] by simp
  moreover have "mem_at m' a 14 = dest @ ?hw @ ?pr"
    using mem_at_put_mem [of "dest @ ?hw @ ?pr" a m] l dix(2) by (simp add: m'_def)
  moreover have "mem_at m' (a + 14) n = mem_at m (a + 14) n"
    unfolding mem_at_def m'_def
  proof (intro map_cong refl put_mem_outside)
    fix i k assume i: "i \<in> set [0..<n]" and k: "k < length (dest @ map (\<lambda>i. m (eth_hwaddr eth + of_nat i)) [0..<6] @ ?pr)"
    have "unat (14 + of_nat i :: u32) = 14 + i" "unat (of_nat k :: u32) = k"
      using i k len l dix(2) by (simp_all add: unat_word_ariths unat_of_nat take_bit_nat_eq_self)
    then have "(14 + of_nat i :: u32) \<noteq> of_nat k" using k l dix(2) by auto
    then show "a + 14 + of_nat i \<noteq> a + of_nat k" by (simp add: add.assoc)
  qed
  ultimately show "mem_at m' a (14 + n) = dest @ ?hw @ ?pr @ mem_at m (a + 14) n" by simp
qed

end
