(* ===== verification/Spec2Isabelle.thy ===== *)
theory Spec2Isabelle
  imports ApiEntry RoboSpi LibQueue CpuIrq MacContracts Trx Nvram Boot Xprintf Net HttpSvr Mt I2c Exc CfeApi Bear Syscalls Startup TrxOpts Portal
begin

text \<open>
  Verification library for \<^verbatim>\<open>bcmbm-mruby\<close>, a program without an operating system for routers with a
  Broadcom BCM47xx or BCM535x chip: it starts from flash, brings up interrupts, a timer, an
  Ethernet MAC with its switch and a TCP/IP stack, and runs mruby bytecode found behind it in flash.

  \<^bold>\<open>The program.\<close> \<^verbatim>\<open>start.S\<close> calls \<^verbatim>\<open>main\<close>, which asks the boot firmware (CFE) for memory and settings, reads the
  non-volatile variables, seeds the random numbers, sets up exceptions, interrupts and the timer, and hands
  the bytecode to the interpreter. Scripts call back into the C code: network (\<^verbatim>\<open>net.c\<close>, \<^verbatim>\<open>bear.c\<close>,
  \<^verbatim>\<open>httpsvr.c\<close>), pins and I2C, clock, console. The timer interrupt drives the network: \<^verbatim>\<open>bcm_ether.c\<close> moves
  frames from a queue that the MAC's interrupt (\<^verbatim>\<open>dev_sb_mac.c\<close>) fills into the stack. On the host,
  \<^verbatim>\<open>tools/asustrx.c\<close> packs the program and the bytecode into a firmware image.

  \<^bold>\<open>Theories and code\<close> (paths under \<^verbatim>\<open>src/\<close>; each theory opens with its own description).
  \<^item> \<open>Prelude\<close>: words, lists, bytes, bit masks (\<^verbatim>\<open>_MM_MAKEMASK\<close> and its kin). \<open>Busy\<close>: busy waits. \<open>Machine\<close>: the machine, its register
    accesses as a history of reads and writes answered by a device function, chip identification and
    the backplane interrupt map of \<^verbatim>\<open>cfe/sb_utils.c\<close>.
  \<^item> \<open>LibQueue\<close>: \<^verbatim>\<open>cfe/lib_queue.c\<close> on an explicit heap of links. \<open>CpuIrq\<close>: \<^verbatim>\<open>cfe/bcmcore_irq.c\<close> with the SR routines
    of \<^verbatim>\<open>cfe/bcmcore_ircpoll.S\<close>. \<open>Exc\<close>: \<^verbatim>\<open>cfe/lib_try.c\<close>, \<^verbatim>\<open>cfe/exchandler.c\<close>, vectors of \<^verbatim>\<open>cfe/exception.S\<close>.
  \<^item> \<open>Asm\<close>: the processor as assembly routines see it, an assembler and an interpreter. \<open>CacheCode\<close>:
    \<^verbatim>\<open>cfe/bcmcore_l1cache.S\<close>. \<open>CpuCode\<close>: \<^verbatim>\<open>cfe/bcmcore_cpuinit.S\<close>. \<open>SavedRegs\<close>: \<^verbatim>\<open>cfe/lib_setjmp.S\<close>, \<^verbatim>\<open>_exc_entry\<close> of
    \<^verbatim>\<open>cfe/exception.S\<close>. \<open>ApiEntry\<close>: \<^verbatim>\<open>cfe/apientry.S\<close>, partly compiled only under \<^verbatim>\<open>NOTUSE\<close>.
  \<^item> \<open>MacRings\<close>, \<open>MacHw\<close>, \<open>MacDriver\<close>, \<open>MacContracts\<close>: \<^verbatim>\<open>cfe/dev_sb_mac.c\<close>: packets and descriptor rings; MII, switch access and
    device registers; interrupt routine and device functions; what they promise. \<open>Robo\<close>:
    \<^verbatim>\<open>cfe/etc_robo.c\<close>; \<open>RoboSpi\<close>: its parts under \<^verbatim>\<open>#if 0\<close>. \<open>HwAddr\<close>: the address parser of \<^verbatim>\<open>cfe/net_ether.c\<close>. \<open>Portal\<close>: the
    ports of that file with the buffers of \<^verbatim>\<open>cfe/net_ebuf.h\<close> (compiled only under \<^verbatim>\<open>NOTUSE\<close>).
  \<^item> \<open>SbClock\<close>: clocks in \<^verbatim>\<open>cfe/sb_utils.c\<close>. \<open>Timer\<close>: \<^verbatim>\<open>cfe/cfe_timer.c\<close>, \<^verbatim>\<open>bcm_timer.c\<close>. \<open>Nvram\<close>:
    \<^verbatim>\<open>cfe/bcmnvram.c\<close>. \<open>CfeApi\<close>: \<^verbatim>\<open>cfe/cfe_api.c\<close> and its request block. \<open>Syscalls\<close>: \<^verbatim>\<open>syscalls.c\<close>.
  \<^item> \<open>InQueue\<close>: \<^verbatim>\<open>bcm_ether.c\<close>. \<open>Net\<close>: \<^verbatim>\<open>net.c\<close> and the interrupt lock of \<^verbatim>\<open>main.c\<close>. \<open>HttpSvr\<close>: \<^verbatim>\<open>httpsvr.c\<close>. \<open>Bear\<close>: \<^verbatim>\<open>bear.c\<close>. \<open>Xprintf\<close>: \<^verbatim>\<open>xprintf.c\<close>. \<open>Mt\<close>:
    \<^verbatim>\<open>mt19937ar.c\<close>. \<open>I2c\<close>: \<^verbatim>\<open>i2c.c\<close>, \<^verbatim>\<open>bcm_gpio.c\<close>.
  \<^item> \<open>Crc\<close>, \<open>Trx\<close>, \<open>TrxOpts\<close>: \<^verbatim>\<open>tools/asustrx.c\<close>. \<open>Boot\<close>: console and search for the bytecode in \<^verbatim>\<open>main.c\<close>.
    \<open>Startup\<close>: \<^verbatim>\<open>main\<close> as a whole over the parts above.

  \<^bold>\<open>State.\<close> The record \<open>machine\<close> holds the processor registers, interrupt descriptors and the history of device
  accesses; components with state of their own extend it (\<open>mac\<close>, \<open>exc\<close>, \<open>timer\<close>, \<open>net\<close>, \<open>i2c\<close>), so the functions
  of one part run on the states of another. A device answers a read from the history so far: theorems hold for
  every device, or say what they need of it. Shared structures that the code aliases are explicit: links by
  address in \<open>LibQueue\<close>, memory words by address in \<open>Asm\<close> (record \<open>mips\<close>, with registers and the cache operations so far), packets and descriptors by index in \<open>MacRings\<close>. Machine integers are words; signed
  comparison, truncation and wrap-around are as in the source. Errors are \<open>option\<close>, sums, or the code's own
  negative results; \<open>None\<close> also marks what C leaves undefined (a trap, an unchecked allocation, an access
  outside a buffer) and waiting for ever.

  \<^bold>\<open>What the lemmas show.\<close> Queues are FIFO lists along every sequence of operations, also when elements are unlinked (locale \<open>fifo\<close>), and the free
  buffers of the ports are one. Interrupt masks
  follow the descriptors; a dispatch serves every pending level somebody waits for and masks off the others. Exceptions resume the newest armed block; the instructions written at the
  vectors, run on a small MIPS processor, reach their targets, and the entry routine behind them is transparent to the
  program interrupted, as that of firmware calls is to its caller. A saved context comes back; a sweep of a cache comes to every line once, the driver's routines for a
  range to exactly the lines that overlap it. Each MAC routine keeps the ownership of packets (every packet is
  on exactly one of rings and free list) and delivers, sends, frees or recovers exactly the right ones;
  with \<open>InQueue\<close> the good frames reach the stack in order. Variables are a map that survives a commit and a
  reload. Printed numbers, addresses and versions read back. Delays last long enough, the watchdog bites exactly when it is
  not reset. TCP data read by HTTP and TLS clients is the stream received. A response is sent once and completely.
  Random numbers satisfy the published recurrence, and those in the unit interval are within the rounding of it. An image built by the tool is found by the loader, and
  \<^verbatim>\<open>main\<close> comes to the interpreter with the clock ticking. Several theorems show where the code fails: waits that never
  end, buffers overrun, tables with a wrong entry, arguments ignored.

  \<^bold>\<open>Loops and bounds.\<close> Loops over data are structural or have a measure. Loops that may not end, over a device or
  over descriptors and links, and the runs of assembly code are \<open>partial_function (option)\<close>; that they return is proved, from what the device
  does (\<open>becomes_ready\<close>, \<open>ticks_of\<close>), from the size of the ring, cache or range or from the shape of the queue, or it is refuted
  (\<open>robosw_hangs_on_silent_bus\<close>, \<open>wait_scl_held\<close>). No fuel is used. The locale \<open>busy_wait\<close> of theory \<open>Busy\<close> holds what
  all busy waits share: the serial line, the switch, the counter register, the I2C clock and the
  network interpret it on their loops.

  \<^bold>\<open>Not modelled.\<close> Code outside the repository: lwIP, BearSSL, mruby, newlib and the CFE firmware are
  parameters. The trust anchors in \<^verbatim>\<open>cacert.h\<close> are data. Code that is not compiled: the PCI
  parts of \<^verbatim>\<open>cfe/dev_sb_mac.c\<close> and the external interface variant in
  \<^verbatim>\<open>cfe/sb_utils.c\<close>, whose register header is not in the repository.
  The TLB handler, which its file says cannot work. Caches are the operations carried out on them: all memory is seen the
  same through both kernel windows. Interrupts arrive between the operations of the
  models, not within them; where the code is written for that (\<open>InQueue\<close>, \<open>Net\<close>), the orders are explicit.
  Debugging and progress messages, except those of \<^verbatim>\<open>main\<close>, the exception report and the TLS client.
\<close>

end
